(* ===== verification/Prelude.thy ===== *)
theory Prelude
  imports Main "HOL-Library.Word" "HOL-Library.Signed_Division" "HOL-Library.Monad_Syntax"
begin

text \<open>
  Shared vocabulary of the development: the machine types of the ESP8266 build (32-bit
  \<open>int\<close>, \<open>long\<close>, \<open>time_t\<close>), the character tests and the decimal conversions of the C
  library that the sources call (\<open>itoa\<close>, \<open>atol\<close>, \<open>strstr\<close>), and the generic lemmas on
  them that the component theories use. A run that the C standard leaves undefined (an
  out-of-range read, an unhandled exception) is the value \<open>None\<close> of an \<open>option\<close>.
\<close>

section \<open>Machine types\<close>

type_synonym u8 = "8 word"
type_synonym u16 = "16 word"
type_synonym u32 = "32 word"

text \<open>On the ESP8266 \<open>time_t\<close> is a signed 32-bit \<open>long\<close>; it is compared with \<open><s\<close>.\<close>

type_synonym time_t = "32 word"

named_theorems ws_eval \<open>unfolding equations for evaluating the model on closed terms\<close>
named_theorems c_string \<open>rewriting rules for C string operations\<close>

text \<open>The value of an integer converted to a 32-bit \<open>int\<close> or \<open>long\<close>.\<close>

definition s32 :: "int \<Rightarrow> int" where
  "s32 i = sint (word_of_int i :: u32)"

definition int32_range :: "int \<Rightarrow> bool" where
  "int32_range i \<longleftrightarrow> - 2147483648 \<le> i \<and> i \<le> 2147483647"

lemma s32_id: "int32_range i \<Longrightarrow> s32 i = i"
  unfolding s32_def int32_range_def
  by (simp add: signed_take_bit_int_eq_self sint_sbintrunc')

lemma s32_range: "int32_range (s32 i)"
  unfolding s32_def int32_range_def
  using sint_range_size [of "word_of_int i :: u32"] by (simp add: word_size)

lemma unat_u8_less: "unat (x :: u8) < 256"
  using unsigned_less [where 'a = nat and w = x] by simp

lemma unat_u32_less: "unat (x :: u32) < 4294967296"
  using unsigned_less [where 'a = nat and w = x] by simp

lemma unat_ucast_u8: "unat (ucast (x :: u32) :: u8) = unat x mod 256"
  by (simp add: unsigned_ucast_eq take_bit_eq_mod)

lemma unat_ucast_u32: "unat (ucast (x :: u8) :: u32) = unat x"
  using unat_u8_less [of x] by (simp add: unsigned_ucast_eq take_bit_eq_mod)

lemma unat_add_u32: "unat x + unat y < 4294967296 \<Longrightarrow> unat (x + y :: u32) = unat x + unat y"
  by (simp add: unat_plus_if')

section \<open>Characters\<close>

definition char_code :: "char \<Rightarrow> nat" where
  "char_code c = of_char c"

definition is_digit :: "char \<Rightarrow> bool" where
  "is_digit c \<longleftrightarrow> 48 \<le> char_code c \<and> char_code c \<le> 57"

definition is_upper :: "char \<Rightarrow> bool" where
  "is_upper c \<longleftrightarrow> 65 \<le> char_code c \<and> char_code c \<le> 90"

definition is_lower :: "char \<Rightarrow> bool" where
  "is_lower c \<longleftrightarrow> 97 \<le> char_code c \<and> char_code c \<le> 122"

definition is_alnum :: "char \<Rightarrow> bool" where
  "is_alnum c \<longleftrightarrow> is_digit c \<or> is_upper c \<or> is_lower c"

text \<open>\<open>isspace\<close> of the C locale: blank, tab, newline, vertical tab, form feed, return.\<close>

definition is_space :: "char \<Rightarrow> bool" where
  "is_space c \<longleftrightarrow> char_code c = 32 \<or> (9 \<le> char_code c \<and> char_code c \<le> 13)"

definition to_lower :: "char \<Rightarrow> char" where
  "to_lower c = (if is_upper c then char_of (char_code c + 32) else c)"

definition to_upper :: "char \<Rightarrow> char" where
  "to_upper c = (if is_lower c then char_of (char_code c - 32) else c)"

definition NUL :: char where
  "NUL = CHR 0x00"

definition digit_char :: "nat \<Rightarrow> char" where
  "digit_char d = char_of (48 + d)"

definition digit_val :: "char \<Rightarrow> nat" where
  "digit_val c = char_code c - 48"

lemma char_code_char_of: "n < 256 \<Longrightarrow> char_code (char_of n) = n"
  by (simp add: char_code_def)

lemma char_code_digit_char [simp]: "d < 10 \<Longrightarrow> char_code (digit_char d) = 48 + d"
  by (simp add: digit_char_def char_code_char_of)

lemma is_digit_digit_char [simp]: "d < 10 \<Longrightarrow> is_digit (digit_char d)"
  by (simp add: is_digit_def)

lemma digit_val_digit_char [simp]: "d < 10 \<Longrightarrow> digit_val (digit_char d) = d"
  by (simp add: digit_val_def)

lemma digit_not_space: "is_digit c \<Longrightarrow> \<not> is_space c"
  by (auto simp: is_digit_def is_space_def)

lemma digit_not_sign: "is_digit c \<Longrightarrow> c \<noteq> CHR ''-'' \<and> c \<noteq> CHR ''+''"
  by (auto simp: is_digit_def char_code_def)

section \<open>Decimal conversion: itoa and atol\<close>

fun dec_of_nat :: "nat \<Rightarrow> string" where
  "dec_of_nat n =
     (if n < 10 then [digit_char n] else dec_of_nat (n div 10) @ [digit_char (n mod 10)])"

declare dec_of_nat.simps [simp del]

definition dec_of_int :: "int \<Rightarrow> string" where
  "dec_of_int i = (if i < 0 then CHR ''-'' # dec_of_nat (nat (- i)) else dec_of_nat (nat i))"

fun digits_value :: "nat \<Rightarrow> string \<Rightarrow> nat" where
  "digits_value acc [] = acc"
| "digits_value acc (c # cs) =
     (if is_digit c then digits_value (acc * 10 + digit_val c) cs else acc)"

text \<open>\<open>strtol\<close> in base 10, and \<open>atol\<close> and \<open>atoi\<close> on it: they saturate at the ends of a
  32-bit \<open>long\<close>.\<close>

definition clamp32 :: "int \<Rightarrow> int" where
  "clamp32 i = max (- 2147483648) (min 2147483647 i)"

definition atol_unsigned :: "string \<Rightarrow> int" where
  "atol_unsigned s = int (digits_value 0 s)"

definition atol :: "string \<Rightarrow> int" where
  "atol s =
     (case dropWhile is_space s of
        [] \<Rightarrow> 0
      | c # cs \<Rightarrow>
          clamp32 (if c = CHR ''-'' then - atol_unsigned cs
                   else if c = CHR ''+'' then atol_unsigned cs
                   else atol_unsigned (c # cs)))"

lemma dec_of_nat_digits: "\<forall>c \<in> set (dec_of_nat n). is_digit c"
proof (induction n rule: dec_of_nat.induct)
  case (1 n)
  show ?case
    using 1 by (subst dec_of_nat.simps) (auto split: if_splits)
qed

lemma dec_of_nat_nonempty: "dec_of_nat n \<noteq> []"
  by (subst dec_of_nat.simps) simp

lemma dec_of_nat_hd: "\<exists>c cs. dec_of_nat n = c # cs \<and> is_digit c"
  using dec_of_nat_nonempty [of n] dec_of_nat_digits [of n] by (cases "dec_of_nat n") auto

lemma digits_value_append:
  "\<forall>c \<in> set xs. is_digit c \<Longrightarrow> digits_value acc (xs @ ys) = digits_value (digits_value acc xs) ys"
  by (induction xs arbitrary: acc) auto

lemma digits_value_stop: "ys = [] \<or> \<not> is_digit (hd ys) \<Longrightarrow> digits_value acc ys = acc"
  by (cases ys) auto

lemma length_dec_of_nat: "n < 10 ^ k \<Longrightarrow> 0 < k \<Longrightarrow> length (dec_of_nat n) \<le> k"
proof (induction n arbitrary: k rule: dec_of_nat.induct)
  case (1 n)
  obtain j where k: "k = Suc j" using 1(3) by (cases k) auto
  show ?case
  proof (cases "n < 10")
    case False
    then have "0 < j" "n div 10 < 10 ^ j" using 1(2) by (cases j; simp add: k)+
    then have "length (dec_of_nat (n div 10)) \<le> j" using 1(1) [OF False] by blast
    then show ?thesis using False by (subst dec_of_nat.simps) (simp add: k)
  qed (subst dec_of_nat.simps, simp add: k)
qed

lemma digits_value_dec: "digits_value 0 (dec_of_nat n) = n"
proof (induction n rule: dec_of_nat.induct)
  case (1 n)
  show ?case
  proof (cases "n < 10")
    case True
    then show ?thesis by (subst dec_of_nat.simps) simp
  next
    case False
    with 1 have IH: "digits_value 0 (dec_of_nat (n div 10)) = n div 10" by simp
    have "digits_value 0 (dec_of_nat (n div 10) @ [digit_char (n mod 10)]) = n"
      by (subst digits_value_append) (simp_all add: dec_of_nat_digits IH)
    with False show ?thesis by (subst dec_of_nat.simps) simp
  qed
qed

lemma digits_value_dec_append:
  "ys = [] \<or> \<not> is_digit (hd ys) \<Longrightarrow> digits_value 0 (dec_of_nat n @ ys) = n"
  by (simp add: digits_value_append dec_of_nat_digits digits_value_dec digits_value_stop)

lemma dropWhile_space_dec_nat: "dropWhile is_space (dec_of_nat n @ ys) = dec_of_nat n @ ys"
  using dec_of_nat_hd [of n] digit_not_space by auto

lemma not_space_minus [simp]: "\<not> is_space CHR ''-''"
  by (simp add: is_space_def char_code_def)

text \<open>Printing a 32-bit integer and reading it back, also when other text follows.\<close>

lemma atol_dec_append:
  assumes "int32_range i" and "ys = [] \<or> \<not> is_digit (hd ys)"
  shows "atol (dec_of_int i @ ys) = i"
proof (cases "i < 0")
  case True
  then have "dec_of_int i @ ys = CHR ''-'' # (dec_of_nat (nat (- i)) @ ys)"
    by (simp add: dec_of_int_def)
  with True assms show ?thesis
    by (simp add: atol_def atol_unsigned_def clamp32_def int32_range_def digits_value_dec_append)
next
  case False
  then have eq: "dec_of_int i @ ys = dec_of_nat (nat i) @ ys"
    by (simp add: dec_of_int_def)
  obtain c cs where cs: "dec_of_nat (nat i) = c # cs" "is_digit c"
    using dec_of_nat_hd by blast
  have "digits_value 0 (c # cs @ ys) = nat i"
    using digits_value_dec_append [OF assms(2), of "nat i"] cs by simp
  with False assms(1) digit_not_space [OF cs(2)] digit_not_sign [OF cs(2)] cs(1) show ?thesis
    unfolding eq
    by (simp add: atol_def atol_unsigned_def clamp32_def int32_range_def del: digits_value.simps)
qed

lemma atol_dec: "int32_range i \<Longrightarrow> atol (dec_of_int i) = i"
  using atol_dec_append [of i "[]"] by simp

lemma atol_range: "int32_range (atol s)"
  by (auto simp: atol_def clamp32_def int32_range_def split: list.split)

lemma dec_of_int_chars: "c \<in> set (dec_of_int i) \<Longrightarrow> is_digit c \<or> c = CHR ''-''"
  using dec_of_nat_digits by (auto simp: dec_of_int_def split: if_splits)

lemma length_dec_of_int: "int32_range i \<Longrightarrow> length (dec_of_int i) \<le> 11"
proof -
  assume "int32_range i"
  then have "nat i < 10 ^ 10" "nat (- i) < 10 ^ 10" by (auto simp: int32_range_def)
  then have "length (dec_of_nat (nat i)) \<le> 10" "length (dec_of_nat (nat (- i))) \<le> 10"
    by (simp_all only: length_dec_of_nat zero_less_numeral)
  then show ?thesis by (simp add: dec_of_int_def)
qed

lemma dec_of_int_nonempty: "dec_of_int i \<noteq> []"
  by (simp add: dec_of_int_def dec_of_nat_nonempty)

section \<open>Substring search\<close>

text \<open>\<open>strstr\<close> and \<open>std::string::find\<close>: the position of the first occurrence.\<close>

definition starts_at :: "'a list \<Rightarrow> 'a list \<Rightarrow> bool" where
  "starts_at p s \<longleftrightarrow> take (length p) s = p"

fun find_sub :: "'a list \<Rightarrow> 'a list \<Rightarrow> nat option" where
  "find_sub p [] = (if p = [] then Some 0 else None)"
| "find_sub p (x # xs) =
     (if starts_at p (x # xs) then Some 0 else map_option Suc (find_sub p xs))"

lemma starts_at_append: "starts_at p (p @ s)"
  by (simp add: starts_at_def)

lemma starts_at_iff: "starts_at p s \<longleftrightarrow> (\<exists>r. s = p @ r)"
  unfolding starts_at_def by (metis append_eq_conv_conj append_take_drop_id)

lemma find_sub_Some:
  "find_sub p s = Some n \<Longrightarrow> n \<le> length s \<and> starts_at p (drop n s)"
proof (induction s arbitrary: n)
  case Nil
  then show ?case by (simp add: starts_at_def split: if_splits)
next
  case (Cons x xs)
  then show ?case by (auto split: if_splits)
qed

lemma find_sub_first:
  "find_sub p s = Some n \<Longrightarrow> m < n \<Longrightarrow> \<not> starts_at p (drop m s)"
proof (induction s arbitrary: n m)
  case Nil
  then show ?case by (simp split: if_splits)
next
  case (Cons x xs)
  then show ?case by (cases m) (auto split: if_splits)
qed

lemma find_sub_None: "find_sub p s = None \<Longrightarrow> \<not> starts_at p (drop m s)"
proof (induction s arbitrary: m)
  case Nil
  then show ?case by (simp add: starts_at_def split: if_splits)
next
  case (Cons x xs)
  then show ?case by (cases m) (auto split: if_splits)
qed

lemma find_sub_length: "find_sub p s = Some n \<Longrightarrow> n + length p \<le> length s"
  by (drule find_sub_Some) (auto simp: starts_at_iff dest: arg_cong [where f = length])

lemma find_sub_split:
  assumes "find_sub p s = Some n"
  shows "s = take n s @ p @ drop (n + length p) s"
proof -
  from find_sub_Some [OF assms] obtain r where r: "drop n s = p @ r"
    by (auto simp: starts_at_iff)
  then have "drop (n + length p) s = r"
    by (metis add.commute append_eq_conv_conj drop_drop)
  with r show ?thesis by (metis append_take_drop_id)
qed

lemma find_sub_singleton_None: "find_sub [c] s = None \<longleftrightarrow> c \<notin> set s"
  by (induction s) (auto simp: starts_at_def)

lemma find_sub_singleton_append:
  "c \<notin> set xs \<Longrightarrow> find_sub [c] (xs @ c # ys) = Some (length xs)"
  by (induction xs) (auto simp: starts_at_def)

end
