(* ===== verification/StringOps.thy ===== *)
theory StringOps
  imports Prelude
begin

text \<open>
  The text operations the firmware asks of the Arduino \<open>String\<close> class, as functions on
  character lists without \<open>NUL\<close>: what \<^verbatim>\<open>WString.cpp\<close> promises its clients. The theory
  \<^verbatim>\<open>WString\<close> models the class itself, with its heap buffers, and proves that each operation
  implements the function of this theory; the web server and the weather station are modelled
  over these functions. Positions are \<open>nat\<close>; \<open>-1\<close> of the source is \<open>None\<close>.
\<close>

section \<open>Positions and parts\<close>

definition substr :: "nat \<Rightarrow> nat \<Rightarrow> string \<Rightarrow> string" where
  "substr left right s = take (max left right - min left right) (drop (min left right) s)"

definition substr_from :: "nat \<Rightarrow> string \<Rightarrow> string" where
  "substr_from left s = drop left s"

definition index_from :: "char \<Rightarrow> nat \<Rightarrow> string \<Rightarrow> nat option" where
  "index_from c from s = (if from \<ge> length s then None else map_option ((+) from) (find_sub [c] (drop from s)))"

definition index_str :: "string \<Rightarrow> nat \<Rightarrow> string \<Rightarrow> nat option" where
  "index_str p from s = (if from \<ge> length s then None else map_option ((+) from) (find_sub p (drop from s)))"

definition starts_with :: "string \<Rightarrow> string \<Rightarrow> bool" where
  "starts_with p s \<longleftrightarrow> take (length p) s = p"

definition ends_with :: "string \<Rightarrow> string \<Rightarrow> bool" where
  "ends_with p s \<longleftrightarrow> length p \<le> length s \<and> drop (length s - length p) s = p"

definition char_at :: "nat \<Rightarrow> string \<Rightarrow> char" where
  "char_at i s = (if i < length s then s ! i else NUL)"

definition set_char :: "nat \<Rightarrow> char \<Rightarrow> string \<Rightarrow> string" where
  "set_char i c s = s[i := c]"

text \<open>A C string ends at its first \<open>NUL\<close>.\<close>

definition c_text :: "string \<Rightarrow> string" where
  "c_text s = takeWhile (\<lambda>c. c \<noteq> NUL) s"

lemma c_text_id [simp]: "NUL \<notin> set s \<Longrightarrow> c_text s = s"
  by (auto simp: c_text_def takeWhile_eq_all_conv)

text \<open>\<open>trim\<close> drops the leading and the trailing white space.\<close>

definition trim_space :: "string \<Rightarrow> string" where
  "trim_space s = rev (dropWhile is_space (rev (dropWhile is_space s)))"

definition remove_part :: "nat \<Rightarrow> nat \<Rightarrow> string \<Rightarrow> string" where
  "remove_part i n s = take i s @ drop (i + n) s"

section \<open>Replacing every occurrence, left to right\<close>

function replace_all :: "string \<Rightarrow> string \<Rightarrow> string \<Rightarrow> string" where
  "replace_all p r s =
     (if p = [] then s
      else case find_sub p s of
             None \<Rightarrow> s
           | Some n \<Rightarrow> take n s @ r @ replace_all p r (drop (n + length p) s))"
  by pat_completeness auto
termination
proof (relation "measure (\<lambda>(p, r, s). length s)", goal_cases)
  case (2 p r s n)
  then have "n + length p \<le> length s" "p \<noteq> []" by (simp_all add: find_sub_length)
  then show ?case by (cases p) simp_all
qed simp

declare replace_all.simps [simp del]

lemma replace_all_absent: "find_sub p s = None \<Longrightarrow> replace_all p r s = s"
  by (subst replace_all.simps) simp

lemma replace_all_found:
  assumes "find_sub p s = Some n" and "p \<noteq> []"
  shows "replace_all p r s = take n s @ r @ replace_all p r (drop (n + length p) s)"
  by (subst replace_all.simps) (simp add: assms)

lemma replace_all_id: "replace_all p p s = s"
proof (induction s rule: measure_induct_rule [where f = length])
  case (less s)
  show ?case
  proof (cases "p = [] \<or> find_sub p s = None")
    case True
    then show ?thesis by (subst replace_all.simps) (auto split: option.split)
  next
    case False
    then obtain n where n: "find_sub p s = Some n" "p \<noteq> []" by auto
    have "replace_all p p s = take n s @ p @ replace_all p p (drop (n + length p) s)"
      using n by (rule replace_all_found)
    also have "replace_all p p (drop (n + length p) s) = drop (n + length p) s"
      using find_sub_length [OF n(1)] n(2) by (intro less) (cases p; simp)
    also have "take n s @ p @ drop (n + length p) s = s"
      using find_sub_split [OF n(1)] by simp
    finally show ?thesis .
  qed
qed

section \<open>Facts\<close>

lemma substr_ordered: "left \<le> right \<Longrightarrow> substr left right s = take (right - left) (drop left s)"
  by (simp add: substr_def)

lemma substr_all: "length s \<le> right \<Longrightarrow> left \<le> right \<Longrightarrow> substr left right s = drop left s"
  by (simp add: substr_def)

lemma starts_with_iff: "starts_with p s \<longleftrightarrow> (\<exists>r. s = p @ r)"
  using starts_at_iff [of p s] by (simp add: starts_with_def starts_at_def)

lemma ends_with_iff: "ends_with p s \<longleftrightarrow> (\<exists>r. s = r @ p)"
proof
  assume "ends_with p s"
  then show "\<exists>r. s = r @ p"
    unfolding ends_with_def by (metis append_take_drop_id)
qed (auto simp: ends_with_def)

lemma index_from_append: "c \<notin> set xs \<Longrightarrow> index_from c 0 (xs @ c # ys) = Some (length xs)"
  by (simp add: index_from_def find_sub_singleton_append)

lemma index_from_absent: "c \<notin> set xs \<Longrightarrow> index_from c n xs = None"
  by (auto simp: index_from_def find_sub_singleton_None dest: in_set_dropD)

lemma trim_space_plain:
  assumes "s = [] \<or> (\<not> is_space (hd s) \<and> \<not> is_space (last s))"
  shows "trim_space s = s"
proof (cases "s = []")
  case False
  with assms have "dropWhile is_space s = s" by (cases s) auto
  moreover from assms False have "dropWhile is_space (rev s) = rev s"
    by (cases "rev s") (auto simp: last_rev hd_rev)
  ultimately show ?thesis by (simp add: trim_space_def)
qed (simp add: trim_space_def)

lemma index_from_range: "index_from c pos s = Some n \<Longrightarrow> pos \<le> n \<and> n < length s"
  by (auto simp: index_from_def split: if_splits dest: find_sub_length)

text \<open>Occurrences.\<close>

lemma starts_at_drop_append: "starts_at f (drop n t) \<Longrightarrow> starts_at f (drop n (t @ u))"
  by (auto simp: starts_at_iff)

lemma find_sub_NoneI: "(\<And>n. \<not> starts_at f (drop n t)) \<Longrightarrow> find_sub f t = None"
  using find_sub_Some by (cases "find_sub f t") blast+

lemma find_sub_unique:
  assumes "starts_at f (drop n t)" and "n \<le> length t" and "\<And>m. m < n \<Longrightarrow> \<not> starts_at f (drop m t)"
  shows "find_sub f t = Some n"
proof (cases "find_sub f t")
  case None
  then show ?thesis using find_sub_None assms(1) by blast
next
  case (Some m)
  have "starts_at f (drop m t)" "\<not> n < m" using find_sub_Some [OF Some] find_sub_first [OF Some] assms(1) by blast+
  with assms(3) [of m] Some show ?thesis by (cases "m = n") auto
qed

lemma starts_at_length: "starts_at f (drop n t) \<Longrightarrow> f \<noteq> [] \<Longrightarrow> n + length f \<le> length t"
  by (cases "n \<le> length t") (auto simp: starts_at_iff dest!: arg_cong [where f = length])

section \<open>Replacing by a longer text: from the right\<close>

text \<open>
  Where the new text is longer, \<open>String::replace\<close> does not work from left to right: it counts the
  occurrences from the left to make room for the result, and then replaces from the right, at every
  position that an occurrence starts at when its turn comes. Such an occurrence may be one that a
  replacement to its right has only just completed, and it has not been counted: the text may then
  outgrow the buffer, which is undefined and \<open>None\<close> here. A text stands with the capacity of
  its \<open>String\<close>; the allocator is taken to give what it is asked for.
\<close>

fun grow_from :: "string \<Rightarrow> string \<Rightarrow> nat \<Rightarrow> string \<Rightarrow> string" where
  "grow_from f r 0 t = t"
| "grow_from f r (Suc i) t =
     grow_from f r i (if starts_at f (drop i t) then take i t @ r @ drop (i + length f) t else t)"

definition grown :: "string \<Rightarrow> string \<Rightarrow> string \<Rightarrow> string" where
  "grown f r t = (if f = [] then t else grow_from f r (length t) t)"

definition text_replace :: "string \<Rightarrow> string \<Rightarrow> string \<times> nat \<Rightarrow> (string \<times> nat) option" where
  "text_replace f r = (\<lambda>(t, room).
     if length r \<le> length f then Some (replace_all f r t, room)
     else (let room = max room (length (replace_all f r t))
           in if length (grown f r t) \<le> room then Some (grown f r t, room) else None))"

text \<open>Occurrences that keep apart.\<close>

definition apart :: "string \<Rightarrow> string \<Rightarrow> bool" where
  "apart f t \<longleftrightarrow> (\<forall>i j. i < j \<longrightarrow> starts_at f (drop i t) \<longrightarrow> starts_at f (drop j t) \<longrightarrow> i + length f \<le> j)"

lemma apartD: "apart f t \<Longrightarrow> starts_at f (drop i t) \<Longrightarrow> starts_at f (drop j t) \<Longrightarrow> i < j \<Longrightarrow> i + length f \<le> j"
  by (simp add: apart_def)

lemma apart_suffix:
  assumes "apart f (t @ u)"
  shows "apart f u"
  unfolding apart_def
proof (intro allI impI)
  fix i j assume "i < j" "starts_at f (drop i u)" "starts_at f (drop j u)"
  then show "i + length f \<le> j" using apartD [OF assms, of "length t + i" "length t + j"] by simp
qed

lemma replace_all_last:
  assumes "f \<noteq> []" and "apart f (u @ f @ v)"
    and "\<And>m. length u < m \<Longrightarrow> \<not> starts_at f (drop m (u @ f @ v))"
  shows "replace_all f r (u @ f @ v) = replace_all f r u @ r @ v"
  using assms(2,3)
proof (induction "length u" arbitrary: u rule: less_induct)
  case less
  let ?t = "u @ f @ v"
  have here: "starts_at f (drop (length u) ?t)" by (auto simp: starts_at_iff)
  obtain n where n: "find_sub f ?t = Some n" using find_sub_None here by (cases "find_sub f ?t") blast+
  have "n \<le> length u" using find_sub_first [OF n] here by (meson not_le_imp_less)
  then consider "n = length u" | "n < length u" by linarith
  then show ?case
  proof cases
    case 1
    have "find_sub f u = None"
    proof (rule find_sub_NoneI)
      fix m show "\<not> starts_at f (drop m u)"
        using find_sub_first [OF n, of m] starts_at_drop_append [of f m u "f @ v"]
          starts_at_length [of f m u] assms(1) 1 by (cases f) auto
    qed
    moreover have "find_sub f v = None"
    proof (rule find_sub_NoneI)
      fix m show "\<not> starts_at f (drop m v)"
        using less(3) [of "length u + length f + m"] assms(1) by (cases f) simp_all
    qed
    ultimately show ?thesis
      using replace_all_found [OF n assms(1), of r] 1 by (simp add: replace_all_absent)
  next
    case 2
    have st: "starts_at f (drop n ?t)" using find_sub_Some [OF n] by simp
    have fits: "n + length f \<le> length u" by (rule apartD [OF less(2) st here 2])
    define w where "w = drop (n + length f) u"
    have "take (length f) (drop n u) = f"
      using st fits by (simp add: starts_at_def)
    then have u: "u = take n u @ f @ w"
      unfolding w_def using fits by (metis add.commute append_take_drop_id drop_drop)
    have nu: "find_sub f u = Some n"
    proof (rule find_sub_unique)
      show "starts_at f (drop n u)" using \<open>take (length f) (drop n u) = f\<close> by (simp add: starts_at_def)
      show "\<not> starts_at f (drop m u)" if "m < n" for m
        using find_sub_first [OF n that] starts_at_drop_append [of f m u "f @ v"] by blast
    qed (use 2 in simp)
    have t: "?t = (take n u @ f) @ w @ f @ v" using u by (metis append.assoc)
    have len: "length (take n u @ f) = n + length f" "length w < length u" "length u = n + length f + length w"
      using fits assms(1) by (cases f; simp add: w_def)+
    have "\<not> starts_at f (drop m (w @ f @ v))" if "length w < m" for m
    proof -
      have "drop (n + length f + m) ?t = drop m (w @ f @ v)"
        unfolding t using len(1) by (metis drop_append add_diff_cancel_left' append_Nil drop_all le_add1)
      then show ?thesis using less(3) [of "n + length f + m"] that len(3) by simp
    qed
    then have IH: "replace_all f r (w @ f @ v) = replace_all f r w @ r @ v"
      using less(2) unfolding t by (intro less(1) len(2)) (auto dest: apart_suffix)
    have "drop (n + length f) ?t = w @ f @ v" unfolding t using len(1) by (metis append_eq_conv_conj)
    then have "replace_all f r ?t = take n u @ r @ replace_all f r w @ r @ v"
      using replace_all_found [OF n assms(1), of r] IH 2 by (simp del: drop_append)
    then show ?thesis using replace_all_found [OF nu assms(1), of r] by (simp add: w_def)
  qed
qed

text \<open>A text none of whose proper ends is one of its beginnings keeps its occurrences apart; if moreover
  the new text does not begin with a character from inside it, a replacement completes no occurrence.\<close>

definition borderless :: "string \<Rightarrow> bool" where
  "borderless f \<longleftrightarrow> f \<noteq> [] \<and> list_all (\<lambda>k. drop k f \<noteq> take (length f - k) f) [1..<length f]"

lemma borderlessD: "borderless f \<Longrightarrow> 0 < k \<Longrightarrow> k < length f \<Longrightarrow> drop k f \<noteq> take (length f - k) f"
  by (simp add: borderless_def list_all_iff)

lemma starts_at_nth: "starts_at f (drop i t) \<Longrightarrow> k < length f \<Longrightarrow> t ! (i + k) = f ! k"
proof -
  assume "starts_at f (drop i t)" and k: "k < length f"
  then obtain x where x: "drop i t = f @ x" by (auto simp: starts_at_iff)
  then have "i \<le> length t" using k by (cases "i \<le> length t") auto
  then have "t ! (i + k) = drop i t ! k" by simp
  with x k show ?thesis by (simp add: nth_append)
qed

lemma borderless_apart:
  assumes "borderless f"
  shows "apart f t"
  unfolding apart_def
proof (intro allI impI, rule ccontr)
  fix i j assume ij: "i < j" "starts_at f (drop i t)" "starts_at f (drop j t)" "\<not> i + length f \<le> j"
  have "drop (j - i) f = take (length f - (j - i)) f"
  proof (rule nth_equalityI)
    fix k assume k: "k < length (drop (j - i) f)"
    have "f ! (j - i + k) = t ! (i + (j - i + k))" using k ij(2) by (simp add: starts_at_nth)
    also have "\<dots> = t ! (j + k)" using ij(1) by (simp add: add.assoc [symmetric])
    also have "\<dots> = f ! k" using k ij(3) by (simp add: starts_at_nth)
    finally show "drop (j - i) f ! k = take (length f - (j - i)) f ! k" using k by simp
  qed simp
  moreover have "0 < j - i" "j - i < length f" using ij(1,4) by linarith+
  ultimately show False using borderlessD [OF assms, of "j - i"] by blast
qed

text \<open>What makes the replacement from the right replace just the occurrences there are: they keep apart,
  and a replacement completes none on its left.\<close>

definition stable :: "string \<Rightarrow> string \<Rightarrow> string \<Rightarrow> bool" where
  "stable f r t \<longleftrightarrow> f \<noteq> [] \<and> apart f t \<and>
     (\<forall>i j w. starts_at f (drop i t) \<longrightarrow> j < i \<longrightarrow> starts_at f (drop j (take i t @ r @ w)) \<longrightarrow> j + length f \<le> i)"

lemma stable_prefix:
  assumes "stable f r (t @ u)"
  shows "stable f r t"
  unfolding stable_def apart_def
proof (intro conjI allI impI)
  show "f \<noteq> []" using assms by (simp add: stable_def)
  fix i j assume "i < j" "starts_at f (drop i t)" "starts_at f (drop j t)"
  then show "i + length f \<le> j"
    using assms starts_at_drop_append apartD unfolding stable_def by meson
next
  fix i j w assume a: "starts_at f (drop i t)" "j < i" "starts_at f (drop j (take i t @ r @ w))"
  have "f \<noteq> []" using assms by (simp add: stable_def)
  then have "i \<le> length t" using starts_at_length [OF a(1)] by simp
  then have "take i (t @ u) = take i t" by simp
  with a starts_at_drop_append [OF a(1), of u] show "j + length f \<le> i"
    using assms unfolding stable_def by metis
qed

lemma grow_from_replaces:
  "stable f r (u @ v) \<Longrightarrow> (\<And>j. length u \<le> j \<Longrightarrow> \<not> starts_at f (drop j (u @ v))) \<Longrightarrow>
    (\<And>j. j < length u \<Longrightarrow> starts_at f (drop j (u @ v @ w)) \<Longrightarrow> j + length f \<le> length (u @ v)) \<Longrightarrow>
    grow_from f r (length u) (u @ v @ w) = replace_all f r (u @ v) @ w"
proof (induction u arbitrary: v w rule: rev_induct)
  case Nil
  then show ?case by (simp add: replace_all_absent find_sub_NoneI)
next
  case (snoc c u)
  have f: "f \<noteq> []" using snoc.prems(1) by (simp add: stable_def)
  show ?case
  proof (cases "starts_at f (drop (length u) (u @ c # v @ w))")
    case True
    with snoc.prems(3) [of "length u"] have le: "length f \<le> Suc (length v)" by simp
    from True have "take (length f) ((c # v) @ w) = f" by (simp add: starts_at_def)
    with le have "take (length f) (c # v) = f" by (simp only: take_append) simp
    then obtain v' where v': "c # v = f @ v'" by (metis append_take_drop_id)
    have st: "stable f r (u @ f @ v')" using snoc.prems(1) v' by simp
    have none: "\<not> starts_at f (drop m (u @ f @ v'))" if "length u < m" for m
      using snoc.prems(2) [of m] that v' by simp
    have "grow_from f r (length (u @ [c])) ((u @ [c]) @ v @ w) = grow_from f r (length u) (u @ [] @ r @ v' @ w)"
      using True v' by simp (metis append_Cons append_assoc append_eq_conv_conj)
    also have "\<dots> = replace_all f r (u @ []) @ r @ v' @ w"
    proof (rule snoc.IH)
      show "stable f r (u @ [])" using stable_prefix [OF st] by simp
      show "\<not> starts_at f (drop j (u @ []))" if "length u \<le> j" for j
        using that f by (simp add: starts_at_def)
      fix j assume "j < length u" "starts_at f (drop j (u @ [] @ r @ v' @ w))"
      moreover have "starts_at f (drop (length u) (u @ f @ v'))" by (auto simp: starts_at_iff)
      ultimately show "j + length f \<le> length (u @ [])"
        using st unfolding stable_def by (metis append_Nil append_Nil2 append_eq_conv_conj)
    qed
    also have "\<dots> = replace_all f r (u @ f @ v') @ w"
      using replace_all_last [OF f _ none] st by (simp add: stable_def)
    finally show ?thesis by (simp add: v')
  next
    case False
    have "grow_from f r (length u) (u @ (c # v) @ w) = replace_all f r (u @ c # v) @ w"
    proof (rule snoc.IH)
      show "stable f r (u @ c # v)" using snoc.prems(1) by simp
    next
      fix j assume j: "length u \<le> j"
      show "\<not> starts_at f (drop j (u @ c # v))"
        using False starts_at_drop_append [of f "length u" "u @ c # v" w] snoc.prems(2) [of j] j
        by (cases "j = length u") auto
    next
      fix j assume "j < length u" "starts_at f (drop j (u @ (c # v) @ w))"
      with snoc.prems(3) [of j] show "j + length f \<le> length (u @ c # v)" by simp
    qed
    with False show ?thesis by simp
  qed
qed

lemma grown_stable:
  assumes "stable f r t"
  shows "grown f r t = replace_all f r t"
proof -
  have f: "f \<noteq> []" using assms by (simp add: stable_def)
  have "grow_from f r (length t) (t @ [] @ []) = replace_all f r (t @ []) @ []"
    using assms f starts_at_length [of f _ t] by (intro grow_from_replaces) (auto simp: starts_at_def)
  with f show ?thesis by (simp add: grown_def)
qed

definition starts_outside :: "string \<Rightarrow> string \<Rightarrow> bool" where
  "starts_outside f r \<longleftrightarrow> r \<noteq> [] \<and> hd r \<notin> set (tl f)"

lemma borderless_stable:
  assumes "borderless f" "starts_outside f r"
  shows "stable f r t"
  unfolding stable_def
proof (intro conjI allI impI)
  fix i j w assume a: "starts_at f (drop i t)" "j < i" "starts_at f (drop j (take i t @ r @ w))"
  have f: "f \<noteq> []" using assms(1) by (simp add: borderless_def)
  have i: "i \<le> length t" using starts_at_length [OF a(1) f] by simp
  show "j + length f \<le> i"
  proof (rule ccontr)
    assume "\<not> j + length f \<le> i"
    then have k: "i - j < length f" "0 < i - j" using a(2) by simp_all
    have "(take i t @ r @ w) ! (j + (i - j)) = f ! (i - j)" by (rule starts_at_nth [OF a(3) k(1)])
    then have "hd r = f ! (i - j)"
      using a(2) i assms(2) by (simp add: nth_append starts_outside_def hd_conv_nth)
    moreover have "f ! (i - j) \<in> set (tl f)"
      using k by (cases f; cases "i - j") auto
    ultimately show False using assms(2) by (simp add: starts_outside_def)
  qed
qed (use assms in \<open>auto simp: borderless_def intro: borderless_apart\<close>)

lemma text_replace_safe:
  assumes "borderless f" "length r \<le> length f \<or> starts_outside f r"
  shows "text_replace f r (t, room) = Some (replace_all f r t,
    if length r \<le> length f then room else max room (length (replace_all f r t)))"
  using assms borderless_stable grown_stable [of f r t] by (auto simp: text_replace_def Let_def)

end
