(* ===== verification/TimeLib.thy ===== *)
theory TimeLib
  imports Prelude "HOL-Library.While_Combinator"
begin

text \<open>
  The Time library, \<^verbatim>\<open>esp8266_sim/TimeLib.cpp\<close> and \<^verbatim>\<open>TimeLib.h\<close>: the conversion between
  \<open>time_t\<close> and calendar fields (\<open>breakTime\<close>, \<open>makeTime\<close>), the one-entry cache behind
  \<open>hour(t)\<close>, \<open>day(t)\<close>, \dots (\<open>refreshCache\<close>), and the system clock driven by
  \<open>millis()\<close> (\<open>now\<close>, \<open>setTime\<close>, the sync provider). The file-level statics of the source
  are the record \<open>timelib\<close>. The calendar specification (\<open>tm_secs\<close>, \<open>tm_valid\<close>) is on
  natural numbers and does not mention the loops.
\<close>

section \<open>Data\<close>

record tmElements_t =
  tm_Second :: u8
  tm_Minute :: u8
  tm_Hour :: u8
  tm_Wday :: u8
  tm_Day :: u8
  tm_Month :: u8
  tm_Year :: u8

datatype timeStatus_t = timeNotSet | timeNeedsSync | timeSet

definition tmYearToCalendar :: "u8 \<Rightarrow> int" where
  "tmYearToCalendar Y = uint Y + 1970"

definition SECS_PER_MIN :: u32 where "SECS_PER_MIN = 60"
definition SECS_PER_HOUR :: u32 where "SECS_PER_HOUR = 3600"
definition SECS_PER_DAY :: u32 where "SECS_PER_DAY = SECS_PER_HOUR * 24"

lemmas secs_per_defs = SECS_PER_MIN_def SECS_PER_HOUR_def SECS_PER_DAY_def

definition LEAP_YEAR :: "int \<Rightarrow> bool" where
  "LEAP_YEAR Y \<longleftrightarrow>
     1970 + Y > 0 \<and> (1970 + Y) mod 4 = 0 \<and>
     ((1970 + Y) mod 100 \<noteq> 0 \<or> (1970 + Y) mod 400 = 0)"

definition monthDays :: "u8 list" where
  "monthDays = [31, 28, 31, 30, 31, 30, 31, 31, 30, 31, 30, 31]"

section \<open>breakTime\<close>

text \<open>\<open>LEAP_YEAR(year) ? 366 : 365\<close>\<close>

definition year_days :: "u8 \<Rightarrow> u32" where
  "year_days year = (if LEAP_YEAR (uint year) then 366 else 365)"

text \<open>
  The year loop. The source adds a year's days inside the loop condition, so the state of
  the \<open>while\<close> is the pair after that addition.
\<close>

definition breakTime_cond :: "u32 \<Rightarrow> u8 \<times> u32 \<Rightarrow> bool" where
  "breakTime_cond time = (\<lambda>(year, days). days \<le> time)"

definition breakTime_body :: "u8 \<times> u32 \<Rightarrow> u8 \<times> u32" where
  "breakTime_body = (\<lambda>(year, days). (year + 1, days + year_days (year + 1)))"

definition breakTime_years :: "u32 \<Rightarrow> u8 \<times> u32" where
  "breakTime_years time = while (breakTime_cond time) breakTime_body (0, year_days 0)"

definition month_length :: "u8 \<Rightarrow> nat \<Rightarrow> u32" where
  "month_length year month =
     (if month = 1 then (if LEAP_YEAR (uint year) then 29 else 28)
      else ucast (monthDays ! month))"

fun breakTime_months :: "u8 \<Rightarrow> u32 \<Rightarrow> nat list \<Rightarrow> nat \<times> u32" where
  "breakTime_months year time [] = (12, time)"
| "breakTime_months year time (month # rest) =
     (if month_length year month \<le> time
      then breakTime_months year (time - month_length year month) rest
      else (month, time))"

definition breakTime :: "time_t \<Rightarrow> tmElements_t" where
  "breakTime timeInput =
     (let time = timeInput;
          second = time mod 60; time = time div 60;
          minute = time mod 60; time = time div 60;
          hour = time mod 24;   time = time div 24;
          wday = (time + 4) mod 7 + 1;
          (year, days) = breakTime_years time;
          days = days - year_days year;
          time = time - days;
          (month, time) = breakTime_months year time [0..<12]
      in \<lparr>tm_Second = ucast second, tm_Minute = ucast minute, tm_Hour = ucast hour,
          tm_Wday = ucast wday, tm_Day = ucast (time + 1), tm_Month = of_nat month + 1,
          tm_Year = year\<rparr>)"

section \<open>makeTime\<close>

text \<open>
  The month loop reads \<open>monthDays[i - 1]\<close> for every \<open>i < tm.Month\<close>; with a month past 13
  that is an out-of-range read, and the result is \<open>None\<close>.
\<close>

fun makeTime_years :: "nat list \<Rightarrow> u32 \<Rightarrow> u32" where
  "makeTime_years [] seconds = seconds"
| "makeTime_years (i # rest) seconds =
     makeTime_years rest (if LEAP_YEAR (int i) then seconds + SECS_PER_DAY else seconds)"

definition makeTime_month :: "u8 \<Rightarrow> nat \<Rightarrow> u32 \<Rightarrow> u32 option" where
  "makeTime_month year i seconds =
     (if i = 2 \<and> LEAP_YEAR (uint year) then Some (seconds + SECS_PER_DAY * 29)
      else if i - 1 < length monthDays
        then Some (seconds + SECS_PER_DAY * ucast (monthDays ! (i - 1)))
      else None)"

fun makeTime_months :: "u8 \<Rightarrow> nat list \<Rightarrow> u32 \<Rightarrow> u32 option" where
  "makeTime_months year [] seconds = Some seconds"
| "makeTime_months year (i # rest) seconds =
     (case makeTime_month year i seconds of
        None \<Rightarrow> None
      | Some seconds' \<Rightarrow> makeTime_months year rest seconds')"

definition makeTime :: "tmElements_t \<Rightarrow> time_t option" where
  "makeTime tm =
     (let seconds = ucast (tm_Year tm) * (SECS_PER_DAY * 365);
          seconds = makeTime_years [0..<unat (tm_Year tm)] seconds
      in case makeTime_months (tm_Year tm) [1..<unat (tm_Month tm)] seconds of
           None \<Rightarrow> None
         | Some seconds \<Rightarrow>
             Some (seconds + (ucast (tm_Day tm) - 1) * SECS_PER_DAY
                   + ucast (tm_Hour tm) * SECS_PER_HOUR
                   + ucast (tm_Minute tm) * SECS_PER_MIN + ucast (tm_Second tm)))"

section \<open>The calendar specification\<close>

text \<open>The leap years of the Gregorian calendar, by calendar year: what the source's macro
  \<open>LEAP_YEAR\<close> is measured against.\<close>

definition gregorian_leap :: "nat \<Rightarrow> bool" where
  "gregorian_leap year \<longleftrightarrow> 4 dvd year \<and> (\<not> 100 dvd year \<or> 400 dvd year)"

lemma LEAP_YEAR_gregorian: "LEAP_YEAR (int y) \<longleftrightarrow> gregorian_leap (1970 + y)"
proof -
  have "(1970 + int y) mod k = 0 \<longleftrightarrow> nat k dvd 1970 + y" if "0 < k" for k
  proof -
    have "(1970 + int y) mod k = 0 \<longleftrightarrow> int (nat k) dvd int (1970 + y)"
      using that by (simp add: dvd_eq_mod_eq_0)
    then show ?thesis by (simp only: int_dvd_int_iff)
  qed
  from this [of 4] this [of 100] this [of 400] show ?thesis
    by (simp add: LEAP_YEAR_def gregorian_leap_def)
qed

definition ylen :: "nat \<Rightarrow> nat" where
  "ylen y = (if gregorian_leap (1970 + y) then 366 else 365)"

primrec ydays :: "nat \<Rightarrow> nat" where
  "ydays 0 = 0"
| "ydays (Suc y) = ydays y + ylen y"

definition mlen :: "nat \<Rightarrow> nat \<Rightarrow> nat" where
  "mlen y m =
     (if m = 1 then (if gregorian_leap (1970 + y) then 29 else 28)
      else [31, 28, 31, 30, 31, 30, 31, 31, 30, 31, 30, 31] ! m)"

primrec mdays :: "nat \<Rightarrow> nat \<Rightarrow> nat" where
  "mdays y 0 = 0"
| "mdays y (Suc m) = mdays y m + mlen y m"

text \<open>Days since 1 January 1970 and seconds since the epoch, for a date in range.\<close>

definition tm_days :: "tmElements_t \<Rightarrow> nat" where
  "tm_days tm =
     ydays (unat (tm_Year tm)) + mdays (unat (tm_Year tm)) (unat (tm_Month tm) - 1)
     + (unat (tm_Day tm) - 1)"

definition tm_secs :: "tmElements_t \<Rightarrow> nat" where
  "tm_secs tm =
     ((tm_days tm * 24 + unat (tm_Hour tm)) * 60 + unat (tm_Minute tm)) * 60
     + unat (tm_Second tm)"

definition tm_date_valid :: "tmElements_t \<Rightarrow> bool" where
  "tm_date_valid tm \<longleftrightarrow>
     1 \<le> unat (tm_Month tm) \<and> unat (tm_Month tm) \<le> 12 \<and>
     1 \<le> unat (tm_Day tm) \<and>
     unat (tm_Day tm) \<le> mlen (unat (tm_Year tm)) (unat (tm_Month tm) - 1)"

definition tm_valid :: "tmElements_t \<Rightarrow> bool" where
  "tm_valid tm \<longleftrightarrow>
     unat (tm_Second tm) < 60 \<and> unat (tm_Minute tm) < 60 \<and> unat (tm_Hour tm) < 24 \<and>
     tm_date_valid tm \<and> unat (tm_Wday tm) = (tm_days tm + 4) mod 7 + 1"

lemma ylen_leap: "ylen y = (if LEAP_YEAR (int y) then 366 else 365)"
  by (simp add: ylen_def LEAP_YEAR_gregorian)

lemma mlen_leap:
  "mlen y m =
     (if m = 1 then (if LEAP_YEAR (int y) then 29 else 28)
      else [31, 28, 31, 30, 31, 30, 31, 31, 30, 31, 30, 31] ! m)"
  by (simp add: mlen_def LEAP_YEAR_gregorian)

lemma mono_ydays: "a \<le> b \<Longrightarrow> ydays a \<le> ydays b"
  by (induction b) (auto simp: le_Suc_eq)

lemma mdays_mono: "a \<le> b \<Longrightarrow> mdays y a \<le> mdays y b"
  by (induction b) (auto simp: le_Suc_eq)

lemma ydays_ge: "365 * y \<le> ydays y"
  by (induction y) (auto simp: ylen_leap)

lemma mdays_12: "mdays y 12 = ylen y"
  by (simp add: numeral_eq_Suc mlen_leap ylen_leap)

lemma less_12_cases:
  fixes m :: nat
  assumes "m < 12"
  shows "m = 0 \<or> m = 1 \<or> m = 2 \<or> m = 3 \<or> m = 4 \<or> m = 5 \<or> m = 6 \<or> m = 7 \<or> m = 8 \<or> m = 9 \<or>
         m = 10 \<or> m = 11"
proof -
  have "m \<in> set [0..<12]" using assms by simp
  moreover have "[0..<12] = [0, 1, 2, 3, 4, 5, 6, 7, 8, 9, 10, 11 :: nat]" by code_simp
  ultimately show ?thesis by simp
qed

lemma mlen_bounds: "m < 12 \<Longrightarrow> 28 \<le> mlen y m \<and> mlen y m \<le> 31"
  by (drule less_12_cases) (auto simp: mlen_leap)

lemma monthDays_nth: "m < 12 \<Longrightarrow> m \<noteq> 1 \<Longrightarrow> unat (monthDays ! m) = mlen y m"
  by (drule less_12_cases) (auto simp: mlen_leap monthDays_def)

lemma month_length_mlen: "m < 12 \<Longrightarrow> month_length year m = of_nat (mlen (unat year) m)"
  by (drule less_12_cases) (auto simp: mlen_leap monthDays_def month_length_def)

lemma year_days_ylen: "year_days year = of_nat (ylen (unat year))"
  by (simp add: year_days_def ylen_leap)

text \<open>A day number determines its year, and a day of the year its month.\<close>

lemma ydays_unique:
  assumes "ydays a \<le> n" "n < ydays (Suc a)" "ydays b \<le> n" "n < ydays (Suc b)"
  shows "a = b"
proof (rule ccontr)
  assume "a \<noteq> b"
  then consider "Suc a \<le> b" | "Suc b \<le> a" by linarith
  then show False using assms mono_ydays by cases (meson leD le_trans)+
qed

lemma mdays_unique:
  assumes "mdays y a \<le> n" "n < mdays y (Suc a)" "mdays y b \<le> n" "n < mdays y (Suc b)"
  shows "a = b"
proof (rule ccontr)
  assume "a \<noteq> b"
  then consider "Suc a \<le> b" | "Suc b \<le> a" by linarith
  then show False using assms mdays_mono by cases (meson leD le_trans)+
qed

section \<open>breakTime computes the calendar fields\<close>

definition year_loop_inv :: "u32 \<Rightarrow> u8 \<times> u32 \<Rightarrow> bool" where
  "year_loop_inv time = (\<lambda>(year, days).
     unat year \<le> 136 \<and> ydays (unat year) \<le> unat time \<and>
     unat days = ydays (Suc (unat year)))"

lemma year_days_unat: "unat (year_days year) = ylen (unat year)"
  by (simp add: year_days_def ylen_leap)

lemma year_loop_step:
  assumes "unat time \<le> 49710" and "year_loop_inv time s" and "breakTime_cond time s"
  shows "year_loop_inv time (breakTime_body s)"
    and "50405 - unat (snd (breakTime_body s)) < 50405 - unat (snd s)"
proof -
  obtain year days where s: "s = (year, days)" by (cases s)
  from assms s have a: "unat year \<le> 136" "unat days = ydays (Suc (unat year))"
      "unat days \<le> unat time"
    by (auto simp: year_loop_inv_def breakTime_cond_def word_le_nat_alt)
  have "unat year \<noteq> 136"
  proof
    assume "unat year = 136"
    then have "365 * 137 \<le> ydays (Suc (unat year))"
      using ydays_ge [of 137] by (simp del: ydays.simps)
    with a assms(1) show False by simp
  qed
  with a(1) have y: "unat year \<le> 135" by simp
  then have y1: "unat (year + 1) = Suc (unat year)"
    by (simp add: unat_plus_if')
  have d1: "unat (days + year_days (year + 1)) = ydays (Suc (Suc (unat year)))"
    using a assms(1) y1 by (simp add: unat_plus_if' year_days_unat ylen_leap)
  show "year_loop_inv time (breakTime_body s)"
    using a y y1 d1 s by (simp add: year_loop_inv_def breakTime_body_def)
  show "50405 - unat (snd (breakTime_body s)) < 50405 - unat (snd s)"
  proof -
    have "unat (days + year_days (year + 1)) = unat days + ylen (Suc (unat year))"
      using d1 a by simp
    moreover have "0 < ylen (Suc (unat year))" by (simp add: ylen_leap)
    ultimately show ?thesis
      using a assms(1) s by (simp add: breakTime_body_def del: ydays.simps)
  qed
qed

lemma year_loop_start: "year_loop_inv time (0, year_days 0)"
  by (simp add: year_loop_inv_def year_days_unat)

lemma breakTime_years_correct:
  assumes "unat time \<le> 49710"
  shows "case breakTime_years time of (year, days) \<Rightarrow>
           unat year \<le> 136 \<and> ydays (unat year) \<le> unat time \<and>
           unat time < ydays (Suc (unat year)) \<and> unat days = ydays (Suc (unat year))"
  unfolding breakTime_years_def
proof (rule while_rule [where P = "year_loop_inv time"
      and r = "measure (\<lambda>s. 50405 - unat (snd s))"])
  show "year_loop_inv time (0, year_days 0)" by (rule year_loop_start)
  show "wf (measure (\<lambda>s. 50405 - unat (snd s)))" by simp
next
  fix s assume "year_loop_inv time s" "breakTime_cond time s"
  then show "year_loop_inv time (breakTime_body s)"
    and "(breakTime_body s, s) \<in> measure (\<lambda>s. 50405 - unat (snd s))"
    using year_loop_step [OF assms] by auto
next
  fix s assume "year_loop_inv time s" "\<not> breakTime_cond time s"
  then show "case s of (year, days) \<Rightarrow>
           unat year \<le> 136 \<and> ydays (unat year) \<le> unat time \<and>
           unat time < ydays (Suc (unat year)) \<and> unat days = ydays (Suc (unat year))"
    by (auto simp: year_loop_inv_def breakTime_cond_def word_le_nat_alt)
qed

lemma breakTime_years_returns:
  assumes "unat time \<le> 49710"
  shows "\<exists>r. while_option (breakTime_cond time) breakTime_body (0, year_days 0) = Some r"
proof (rule measure_while_option_Some
    [where P = "year_loop_inv time" and f = "\<lambda>s. 50405 - unat (snd s)", OF _ year_loop_start,
      THEN exE])
  fix s assume "year_loop_inv time s" "breakTime_cond time s"
  then show "year_loop_inv time (breakTime_body s) \<and>
      50405 - unat (snd (breakTime_body s)) < 50405 - unat (snd s)"
    using year_loop_step [OF assms] by auto
qed blast

lemma breakTime_months_correct:
  assumes "mdays (unat year) m + unat time < mdays (unat year) 12" and "m \<le> 12"
  shows "case breakTime_months year time [m..<12] of (k, d) \<Rightarrow>
           k < 12 \<and> mdays (unat year) k + unat d = mdays (unat year) m + unat time \<and>
           unat d < mlen (unat year) k"
  using assms
proof (induction "12 - m" arbitrary: m time)
  case 0
  then show ?case by simp
next
  case (Suc n)
  then have m: "m < 12" and up: "[m..<12] = m # [Suc m..<12]"
    by (auto simp: upt_conv_Cons)
  have ml: "unat (month_length year m) = mlen (unat year) m"
    using m mlen_bounds [OF m, of "unat year"] by (simp add: month_length_mlen unat_of_nat)
  show ?case
  proof (cases "month_length year m \<le> time")
    case True
    then have t: "unat (time - month_length year m) = unat time - mlen (unat year) m"
      and le: "mlen (unat year) m \<le> unat time"
      by (simp_all add: unat_sub ml word_le_nat_alt)
    have "case breakTime_months year (time - month_length year m) [Suc m..<12] of (k, d) \<Rightarrow>
           k < 12 \<and> mdays (unat year) k + unat d
             = mdays (unat year) (Suc m) + unat (time - month_length year m) \<and>
           unat d < mlen (unat year) k"
      using Suc m t le by (intro Suc.hyps(1)) auto
    with True up t le show ?thesis by auto
  next
    case False
    with up ml m show ?thesis by (simp add: word_le_nat_alt)
  qed
qed

text \<open>The fields of \<open>breakTime t\<close>, as numbers.\<close>

lemma breakTime_fields:
  fixes t :: time_t
  defines "D \<equiv> unat t div 86400"
  obtains year month and d :: u32 where
    "breakTime t = \<lparr>tm_Second = ucast (t mod 60), tm_Minute = ucast (t div 60 mod 60),
       tm_Hour = ucast (t div 60 div 60 mod 24),
       tm_Wday = ucast ((t div 60 div 60 div 24 + 4) mod 7 + 1), tm_Day = ucast (d + 1),
       tm_Month = of_nat month + 1, tm_Year = year\<rparr>"
    and "unat year \<le> 136" and "month < 12" and "unat d < mlen (unat year) month"
    and "ydays (unat year) + mdays (unat year) month + unat d = D"
proof -
  let ?time = "t div 60 div 60 div 24"
  have time: "unat ?time = D"
    unfolding D_def by (simp add: unat_div div_mult2_eq [symmetric])
  have "D \<le> 49710"
    unfolding D_def using unat_u32_less [of t] by simp
  then have le: "unat ?time \<le> 49710" using time by simp
  obtain year days where yd: "breakTime_years ?time = (year, days)" by force
  from breakTime_years_correct [OF le] yd
  have y: "unat year \<le> 136" "ydays (unat year) \<le> D" "D < ydays (Suc (unat year))"
    "unat days = ydays (Suc (unat year))"
    using time by auto
  have dd: "unat (days - year_days year) = ydays (unat year)"
    using y by (simp add: unat_sub word_le_nat_alt year_days_unat)
  have tt: "unat (?time - (days - year_days year)) = D - ydays (unat year)"
    using dd time y by (simp add: unat_sub word_le_nat_alt)
  obtain month d where md:
    "breakTime_months year (?time - (days - year_days year)) [0..<12] = (month, d)"
    by force
  have "case breakTime_months year (?time - (days - year_days year)) [0..<12] of (k, d) \<Rightarrow>
           k < 12 \<and> mdays (unat year) k + unat d
             = mdays (unat year) 0 + unat (?time - (days - year_days year)) \<and>
           unat d < mlen (unat year) k"
    using tt y by (intro breakTime_months_correct) (auto simp: mdays_12)
  with md tt y have m: "month < 12" "unat d < mlen (unat year) month"
    "ydays (unat year) + mdays (unat year) month + unat d = D"
    by auto
  show ?thesis
    by (rule that [OF _ y(1) m]) (simp add: breakTime_def Let_def yd md)
qed

lemma secs_split:
  fixes n :: nat
  shows "((n div 86400 * 24 + n div 60 div 60 mod 24) * 60 + n div 60 mod 60) * 60 + n mod 60 = n"
proof -
  have "n div 86400 = n div 60 div 60 div 24" by (simp add: div_mult2_eq [symmetric])
  then show ?thesis by (metis div_mult_mod_eq mult.commute)
qed

lemma breakTime_days: "tm_days (breakTime t) = unat t div 86400"
  and breakTime_date_valid: "tm_date_valid (breakTime t)"
proof -
  obtain year month and d :: u32 where f:
    "breakTime t = \<lparr>tm_Second = ucast (t mod 60), tm_Minute = ucast (t div 60 mod 60),
       tm_Hour = ucast (t div 60 div 60 mod 24),
       tm_Wday = ucast ((t div 60 div 60 div 24 + 4) mod 7 + 1), tm_Day = ucast (d + 1),
       tm_Month = of_nat month + 1, tm_Year = year\<rparr>"
    "month < 12" "unat d < mlen (unat year) month"
    "ydays (unat year) + mdays (unat year) month + unat d = unat t div 86400"
    by (rule breakTime_fields)
  have d: "unat (ucast (d + 1) :: u8) = Suc (unat d)"
    using f(3) mlen_bounds [OF f(2), of "unat year"]
    by (simp add: unat_ucast_u8 unat_plus_if')
  have m: "unat (of_nat month + 1 :: u8) = Suc month"
    using f(2) by (simp add: unat_plus_if' unat_of_nat)
  show "tm_days (breakTime t) = unat t div 86400"
    using f d m by (simp add: tm_days_def)
  show "tm_date_valid (breakTime t)"
    using f d m by (simp add: tm_date_valid_def)
qed

lemma breakTime_clock:
  "unat (tm_Second (breakTime t)) = unat t mod 60"
  "unat (tm_Minute (breakTime t)) = unat t div 60 mod 60"
  "unat (tm_Hour (breakTime t)) = unat t div 60 div 60 mod 24"
  "unat (tm_Wday (breakTime t)) = (unat t div 86400 + 4) mod 7 + 1"
proof -
  have "unat (t div 60 div 60 div 24 + 4) = unat t div 86400 + 4"
    using unat_u32_less [of t]
    by (simp add: unat_plus_if' unat_div div_mult2_eq [symmetric])
  moreover have "unat ((t div 60 div 60 div 24 + 4) mod 7 + 1)
      = unat (t div 60 div 60 div 24 + 4) mod 7 + 1"
    by (simp add: unat_plus_if' unat_mod)
  ultimately have w: "unat (ucast ((t div 60 div 60 div 24 + 4) mod 7 + 1) :: u8)
      = (unat t div 86400 + 4) mod 7 + 1"
    by (simp add: unat_ucast_u8)
  have small: "n mod 60 mod 256 = n mod 60" "n mod 24 mod 256 = n mod 24" for n :: nat
    by (simp_all add: mod_less)
  obtain year month and d :: u32 where f:
    "breakTime t = \<lparr>tm_Second = ucast (t mod 60), tm_Minute = ucast (t div 60 mod 60),
       tm_Hour = ucast (t div 60 div 60 mod 24),
       tm_Wday = ucast ((t div 60 div 60 div 24 + 4) mod 7 + 1), tm_Day = ucast (d + 1),
       tm_Month = of_nat month + 1, tm_Year = year\<rparr>"
    by (rule breakTime_fields)
  show "unat (tm_Second (breakTime t)) = unat t mod 60"
    "unat (tm_Minute (breakTime t)) = unat t div 60 mod 60"
    "unat (tm_Hour (breakTime t)) = unat t div 60 div 60 mod 24"
    "unat (tm_Wday (breakTime t)) = (unat t div 86400 + 4) mod 7 + 1"
    using f w by (simp_all add: small unat_ucast_u8 unat_mod unat_div)
qed

section \<open>makeTime sums the calendar fields\<close>

lemma makeTime_years_append:
  "makeTime_years (xs @ ys) s = makeTime_years ys (makeTime_years xs s)"
  by (induction xs arbitrary: s) auto

lemma makeTime_years_sum:
  "makeTime_years [0..<n] s + of_nat (86400 * 365 * n) = s + of_nat (86400 * ydays n)"
proof (induction n)
  case 0
  then show ?case by simp
next
  case (Suc n)
  have "makeTime_years [0..<Suc n] s + of_nat (86400 * 365 * Suc n)
      = (makeTime_years [0..<n] s + of_nat (86400 * 365 * n))
        + (if LEAP_YEAR (int n) then 86400 * 366 else 86400 * 365)"
    by (simp add: makeTime_years_append secs_per_defs algebra_simps)
  also have "\<dots> = s + of_nat (86400 * ydays (Suc n))"
    unfolding Suc by (simp add: ylen_leap algebra_simps)
  finally show ?case .
qed

lemma makeTime_years_correct:
  "makeTime_years [0..<unat Y] (ucast Y * (SECS_PER_DAY * 365)) = of_nat (86400 * ydays (unat Y))"
proof -
  have "ucast Y * (SECS_PER_DAY * 365) = (of_nat (86400 * 365 * unat Y) :: u32)"
    by (simp add: secs_per_defs unsigned_ucast_eq word_eq_iff_unsigned [where 'a = nat] unat_of_nat
        unat_word_ariths take_bit_eq_mod mod_mult_left_eq mod_mult_right_eq algebra_simps)
  then show ?thesis
    using makeTime_years_sum [of "unat Y" "ucast Y * (SECS_PER_DAY * 365)"] by simp
qed

lemma makeTime_months_append:
  "makeTime_months y (xs @ ys) s =
     (case makeTime_months y xs s of None \<Rightarrow> None | Some s' \<Rightarrow> makeTime_months y ys s')"
  by (induction xs arbitrary: s) (auto split: option.split)

lemma makeTime_month_mlen:
  assumes "m < 12"
  shows "makeTime_month year (Suc m) s = Some (s + of_nat (86400 * mlen (unat year) m))"
  using less_12_cases [OF assms]
  by (elim disjE)
     (simp_all add: makeTime_month_def mlen_leap monthDays_def secs_per_defs)

lemma makeTime_months_correct:
  "n \<le> 12 \<Longrightarrow>
     makeTime_months year [1..<Suc n] s = Some (s + of_nat (86400 * mdays (unat year) n))"
proof (induction n)
  case 0
  then show ?case by simp
next
  case (Suc n)
  then have "makeTime_months year [1..<Suc n] s = Some (s + of_nat (86400 * mdays (unat year) n))"
    by simp
  moreover have "[1..<Suc (Suc n)] = [1..<Suc n] @ [Suc n]" by simp
  ultimately show ?case
    using Suc.prems makeTime_month_mlen [of n year]
    by (simp only: makeTime_months_append) (simp add: algebra_simps)
qed

lemma makeTime_months_Some:
  assumes "unat m \<le> 13"
  shows "makeTime_months year [1..<unat m] s = Some (s + of_nat (86400 * mdays (unat year) (unat m - 1)))"
proof (cases "unat m")
  case 0
  then show ?thesis by simp
next
  case (Suc n)
  with assms makeTime_months_correct [of n] show ?thesis by simp
qed

lemma makeTime_months_None:
  "13 < n \<Longrightarrow> makeTime_months year [1..<n] s = None"
proof -
  assume n: "13 < n"
  then have "[1..<n] = [1..<13] @ 13 # [Suc 13..<n]"
    using upt_add_eq_append [of 1 13 "n - 13"] by (simp add: upt_conv_Cons)
  then show ?thesis
    by (auto simp: makeTime_months_append makeTime_month_def monthDays_def split: option.split)
qed

lemma makeTime_correct:
  assumes "unat (tm_Month tm) \<le> 13" and "1 \<le> unat (tm_Day tm)"
  shows "makeTime tm = Some (of_nat (tm_secs tm))"
proof -
  obtain k where k: "unat (tm_Day tm) = Suc k"
    using assms(2) by (cases "unat (tm_Day tm)") auto
  have "ucast (tm_Day tm) = (of_nat (unat (tm_Day tm)) :: u32)" by simp
  then have d: "ucast (tm_Day tm) - 1 = (of_nat k :: u32)"
    unfolding k by simp
  show ?thesis
    unfolding makeTime_def Let_def makeTime_years_correct makeTime_months_Some [OF assms(1)] d
    by (simp add: tm_secs_def tm_days_def secs_per_defs k algebra_simps)
qed

lemma makeTime_undefined_iff_aux: "makeTime tm = None \<longleftrightarrow> 13 < unat (tm_Month tm)"
  using makeTime_months_Some [of "tm_Month tm"] makeTime_months_None [of "unat (tm_Month tm)"]
  by (cases "unat (tm_Month tm) \<le> 13") (auto simp: makeTime_def Let_def split: option.split)

lemma date_unique:
  assumes "tm_date_valid a" and "tm_date_valid b" and "tm_days a = tm_days b"
  shows "tm_Year a = tm_Year b \<and> tm_Month a = tm_Month b \<and> tm_Day a = tm_Day b"
proof -
  define ya yb ma mb da db where defs:
    "ya = unat (tm_Year a)" "yb = unat (tm_Year b)"
    "ma = unat (tm_Month a) - 1" "mb = unat (tm_Month b) - 1"
    "da = unat (tm_Day a) - 1" "db = unat (tm_Day b) - 1"
  have rng: "ma < 12" "mb < 12" "da < mlen ya ma" "db < mlen yb mb"
    using assms by (auto simp: tm_date_valid_def defs)
  have within: "mdays y m + d < ylen y" if "m < 12" "d < mlen y m" for y m d
    using that mdays_mono [of "Suc m" 12 y] by (simp add: mdays_12)
  have eq: "ydays ya + mdays ya ma + da = ydays yb + mdays yb mb + db"
    using assms(3) by (simp add: tm_days_def defs)
  have y: "ya = yb"
    using within [OF rng(1,3)] within [OF rng(2,4)] eq
    by (intro ydays_unique [of _ "ydays ya + mdays ya ma + da"]) simp_all
  moreover have m: "ma = mb"
    using rng eq y by (intro mdays_unique [of ya _ "mdays ya ma + da"]) simp_all
  ultimately have "da = db" using eq by simp
  with y m assms show ?thesis
    by (auto simp: defs tm_date_valid_def word_unat_eq_iff)
qed

lemma radix_unique:
  fixes a b s t k :: nat
  assumes "a * k + s = b * k + t" "s < k" "t < k"
  shows "a = b \<and> s = t"
proof -
  have "(a * k + s) div k = a" "(b * k + t) div k = b"
    using assms(2,3) by simp_all
  then have "a = b" using assms(1) by simp
  with assms(1) show ?thesis by simp
qed

lemma tm_valid_unique:
  assumes a: "tm_valid a" and b: "tm_valid b" and s: "tm_secs a = tm_secs b"
  shows "a = b"
proof -
  have "tm_Second a = tm_Second b \<and> tm_Minute a = tm_Minute b \<and> tm_Hour a = tm_Hour b \<and>
      tm_days a = tm_days b"
    using a b s unfolding tm_secs_def tm_valid_def word_unat_eq_iff
    by (metis radix_unique)
  then show ?thesis
    using date_unique [of a b] a b
    by (auto simp: tm_valid_def word_unat_eq_iff intro!: tmElements_t.equality)
qed

lemma breakTime_valid: "tm_valid (breakTime t)"
  by (simp add: tm_valid_def breakTime_clock breakTime_days breakTime_date_valid)

lemma breakTime_secs: "tm_secs (breakTime t) = unat t"
  by (simp only: tm_secs_def breakTime_clock breakTime_days secs_split)

lemma tm_valid_month: "tm_valid tm \<Longrightarrow> unat (tm_Month tm) \<le> 13 \<and> 1 \<le> unat (tm_Day tm)"
  by (simp add: tm_valid_def tm_date_valid_def)

lemma makeTime_breakTime_aux: "makeTime (breakTime t) = Some t"
  using makeTime_correct [of "breakTime t"] tm_valid_month [OF breakTime_valid, of t]
  by (simp add: breakTime_secs)

lemma breakTime_of_secs:
  assumes "tm_valid tm" and "tm_secs tm < 2 ^ 32"
  shows "breakTime (of_nat (tm_secs tm)) = tm"
  by (rule tm_valid_unique [OF breakTime_valid assms(1)])
     (use assms(2) in \<open>simp add: breakTime_secs unat_of_nat\<close>)

section \<open>The file-level state: cache and clock\<close>

text \<open>
  The statics of \<^verbatim>\<open>TimeLib.cpp\<close>: the cache \<open>tm\<close>/\<open>cacheTime\<close>, and the clock. The sync
  provider (\<open>getTimePtr\<close>) is a function of the current \<open>millis()\<close> reading; \<open>None\<close> is the
  null pointer. A call reads \<open>millis()\<close> as one value \<open>m\<close>.
\<close>

record timelib =
  cache_tm :: tmElements_t
  cacheTime :: time_t
  syncInterval :: u32
  sysTime :: u32
  prevMillis :: u32
  nextSyncTime :: u32
  Status :: timeStatus_t
  getTimePtr :: "(u32 \<Rightarrow> time_t) option"

definition tm_zero :: tmElements_t where
  "tm_zero = \<lparr>tm_Second = 0, tm_Minute = 0, tm_Hour = 0, tm_Wday = 0, tm_Day = 0,
     tm_Month = 0, tm_Year = 0\<rparr>"

definition timelib_init :: timelib where
  "timelib_init = \<lparr>cache_tm = tm_zero, cacheTime = 0, syncInterval = 300, sysTime = 0,
     prevMillis = 0, nextSyncTime = 0, Status = timeNotSet, getTimePtr = None\<rparr>"

definition refreshCache :: "time_t \<Rightarrow> timelib \<Rightarrow> timelib" where
  "refreshCache t s =
     (if t \<noteq> cacheTime s then s\<lparr>cache_tm := breakTime t, cacheTime := t\<rparr> else s)"

definition hour :: "time_t \<Rightarrow> timelib \<Rightarrow> int \<times> timelib" where
  "hour t s = (let s = refreshCache t s in (uint (tm_Hour (cache_tm s)), s))"

definition hourFormat12 :: "time_t \<Rightarrow> timelib \<Rightarrow> int \<times> timelib" where
  "hourFormat12 t s =
     (let s = refreshCache t s; h = tm_Hour (cache_tm s)
      in (if h = 0 then 12 else if 12 < h then uint h - 12 else uint h, s))"

definition isPM :: "time_t \<Rightarrow> timelib \<Rightarrow> bool \<times> timelib" where
  "isPM t s = (let (h, s) = hour t s in (12 \<le> h, s))"

definition isAM :: "time_t \<Rightarrow> timelib \<Rightarrow> bool \<times> timelib" where
  "isAM t s = (let (pm, s) = isPM t s in (\<not> pm, s))"

definition minute :: "time_t \<Rightarrow> timelib \<Rightarrow> int \<times> timelib" where
  "minute t s = (let s = refreshCache t s in (uint (tm_Minute (cache_tm s)), s))"

definition second :: "time_t \<Rightarrow> timelib \<Rightarrow> int \<times> timelib" where
  "second t s = (let s = refreshCache t s in (uint (tm_Second (cache_tm s)), s))"

definition day :: "time_t \<Rightarrow> timelib \<Rightarrow> int \<times> timelib" where
  "day t s = (let s = refreshCache t s in (uint (tm_Day (cache_tm s)), s))"

definition weekday :: "time_t \<Rightarrow> timelib \<Rightarrow> int \<times> timelib" where
  "weekday t s = (let s = refreshCache t s in (uint (tm_Wday (cache_tm s)), s))"

definition month :: "time_t \<Rightarrow> timelib \<Rightarrow> int \<times> timelib" where
  "month t s = (let s = refreshCache t s in (uint (tm_Month (cache_tm s)), s))"

definition year :: "time_t \<Rightarrow> timelib \<Rightarrow> int \<times> timelib" where
  "year t s = (let s = refreshCache t s in (tmYearToCalendar (tm_Year (cache_tm s)), s))"

definition now_cond :: "u32 \<Rightarrow> u32 \<times> u32 \<Rightarrow> bool" where
  "now_cond m = (\<lambda>(sys, prev). 1000 \<le> m - prev)"

definition now_body :: "u32 \<times> u32 \<Rightarrow> u32 \<times> u32" where
  "now_body = (\<lambda>(sys, prev). (sys + 1, prev + 1000))"

definition now_tick :: "u32 \<Rightarrow> timelib \<Rightarrow> timelib" where
  "now_tick m s =
     (let (sys, prev) = while (now_cond m) now_body (sysTime s, prevMillis s)
      in s\<lparr>sysTime := sys, prevMillis := prev\<rparr>)"

definition setTime :: "time_t \<Rightarrow> u32 \<Rightarrow> timelib \<Rightarrow> timelib" where
  "setTime t m s = s\<lparr>sysTime := t, nextSyncTime := t + syncInterval s, Status := timeSet,
     prevMillis := m\<rparr>"

definition now_sync :: "u32 \<Rightarrow> timelib \<Rightarrow> timelib" where
  "now_sync m s =
     (if nextSyncTime s \<le> sysTime s then
        (case getTimePtr s of
           None \<Rightarrow> s
         | Some provider \<Rightarrow>
             (let t = provider m
              in if t \<noteq> 0 then setTime t m s
                 else s\<lparr>nextSyncTime := sysTime s + syncInterval s,
                        Status := (if Status s = timeNotSet then timeNotSet
                                   else timeNeedsSync)\<rparr>))
      else s)"

definition now :: "u32 \<Rightarrow> timelib \<Rightarrow> time_t \<times> timelib" where
  "now m s = (let s = now_sync m (now_tick m s) in (sysTime s, s))"

text \<open>\<open>setTime(hr, min, sec, dy, mnth, yr)\<close> fills the cache's \<open>tm\<close>, leaving \<open>cacheTime\<close>.\<close>

definition setTime_fields ::
    "int \<Rightarrow> int \<Rightarrow> int \<Rightarrow> int \<Rightarrow> int \<Rightarrow> int \<Rightarrow> u32 \<Rightarrow> timelib \<Rightarrow> timelib option" where
  "setTime_fields hr mn sc dy mnth yr m s =
     (let yr = (if 99 < yr then yr - 1970 else yr + 30);
          tm = (cache_tm s)\<lparr>tm_Year := of_int yr, tm_Month := of_int mnth, tm_Day := of_int dy,
                 tm_Hour := of_int hr, tm_Minute := of_int mn, tm_Second := of_int sc\<rparr>;
          s = s\<lparr>cache_tm := tm\<rparr>
      in case makeTime tm of None \<Rightarrow> None | Some t \<Rightarrow> Some (setTime t m s))"

definition adjustTime :: "int \<Rightarrow> timelib \<Rightarrow> timelib" where
  "adjustTime adjustment s = s\<lparr>sysTime := sysTime s + of_int adjustment\<rparr>"

definition timeStatus :: "u32 \<Rightarrow> timelib \<Rightarrow> timeStatus_t \<times> timelib" where
  "timeStatus m s = (let (_, s) = now m s in (Status s, s))"

definition setSyncProvider :: "(u32 \<Rightarrow> time_t) option \<Rightarrow> u32 \<Rightarrow> timelib \<Rightarrow> timelib" where
  "setSyncProvider f m s =
     snd (now m (s\<lparr>getTimePtr := f, nextSyncTime := sysTime s\<rparr>))"

definition setSyncInterval :: "time_t \<Rightarrow> timelib \<Rightarrow> timelib" where
  "setSyncInterval interval s =
     s\<lparr>syncInterval := interval, nextSyncTime := sysTime s + interval\<rparr>"

text \<open>The overloads without an argument, \<open>hour()\<close> for \<open>hour(now())\<close> and the like.\<close>

definition at_now :: "(time_t \<Rightarrow> timelib \<Rightarrow> 'a \<times> timelib) \<Rightarrow> u32 \<Rightarrow> timelib \<Rightarrow> 'a \<times> timelib" where
  "at_now get m s = (let (t, s) = now m s in get t s)"

section \<open>The cached accessors\<close>

text \<open>The cache is coherent when it holds the fields of the time it is labelled with.\<close>

definition cache_ok :: "timelib \<Rightarrow> bool" where
  "cache_ok s \<longleftrightarrow> cache_tm s = breakTime (cacheTime s)"

lemma refreshCache_ok:
  "cache_ok s \<or> t \<noteq> cacheTime s \<Longrightarrow> cache_tm (refreshCache t s) = breakTime t"
  "cache_ok s \<or> t \<noteq> cacheTime s \<Longrightarrow> cache_ok (refreshCache t s)"
  by (auto simp: refreshCache_def cache_ok_def)

lemma refreshCache_frame [simp]:
  "sysTime (refreshCache t s) = sysTime s" "prevMillis (refreshCache t s) = prevMillis s"
  "nextSyncTime (refreshCache t s) = nextSyncTime s" "Status (refreshCache t s) = Status s"
  "syncInterval (refreshCache t s) = syncInterval s" "getTimePtr (refreshCache t s) = getTimePtr s"
  by (simp_all add: refreshCache_def)

text \<open>
  The interface the rest of the firmware reads the calendar through: an accessor is a
  field of \<open>breakTime\<close>, read through the cache.
\<close>

locale cached_accessor =
  fixes get :: "time_t \<Rightarrow> timelib \<Rightarrow> 'a \<times> timelib"
    and field :: "tmElements_t \<Rightarrow> 'a"
  assumes get_reads_cache: "get t s = (field (cache_tm (refreshCache t s)), refreshCache t s)"
begin

lemma get_coherent: "cache_ok s \<Longrightarrow> get t s = (field (breakTime t), refreshCache t s)"
  by (simp add: get_reads_cache refreshCache_ok)

lemma get_value: "cache_ok s \<Longrightarrow> fst (get t s) = field (breakTime t)"
  by (simp add: get_coherent)

lemma get_keeps: "cache_ok s \<Longrightarrow> cache_ok (snd (get t s))"
  by (simp add: get_reads_cache refreshCache_ok)

lemma get_repairs: "t \<noteq> cacheTime s \<Longrightarrow>
    fst (get t s) = field (breakTime t) \<and> cache_ok (snd (get t s))"
  by (simp add: get_reads_cache refreshCache_ok)

lemma get_clock:
  "sysTime (snd (get t s)) = sysTime s" "prevMillis (snd (get t s)) = prevMillis s"
  "nextSyncTime (snd (get t s)) = nextSyncTime s" "Status (snd (get t s)) = Status s"
  by (simp_all add: get_reads_cache)

end

definition hour12_of :: "tmElements_t \<Rightarrow> int" where
  "hour12_of tm = (let h = tm_Hour tm in if h = 0 then 12 else if 12 < h then uint h - 12 else uint h)"

interpretation hour_acc: cached_accessor hour "\<lambda>tm. uint (tm_Hour tm)"
  by unfold_locales (simp add: hour_def Let_def)

interpretation hour12_acc: cached_accessor hourFormat12 hour12_of
  by unfold_locales (simp add: hourFormat12_def hour12_of_def Let_def)

interpretation isPM_acc: cached_accessor isPM "\<lambda>tm. 12 \<le> uint (tm_Hour tm)"
  by unfold_locales (simp add: isPM_def hour_def Let_def)

interpretation isAM_acc: cached_accessor isAM "\<lambda>tm. \<not> 12 \<le> uint (tm_Hour tm)"
  by unfold_locales (simp add: isAM_def isPM_def hour_def Let_def)

interpretation minute_acc: cached_accessor minute "\<lambda>tm. uint (tm_Minute tm)"
  by unfold_locales (simp add: minute_def Let_def)

interpretation second_acc: cached_accessor second "\<lambda>tm. uint (tm_Second tm)"
  by unfold_locales (simp add: second_def Let_def)

interpretation day_acc: cached_accessor day "\<lambda>tm. uint (tm_Day tm)"
  by unfold_locales (simp add: day_def Let_def)

interpretation weekday_acc: cached_accessor weekday "\<lambda>tm. uint (tm_Wday tm)"
  by unfold_locales (simp add: weekday_def Let_def)

interpretation month_acc: cached_accessor month "\<lambda>tm. uint (tm_Month tm)"
  by unfold_locales (simp add: month_def Let_def)

interpretation year_acc: cached_accessor year "\<lambda>tm. tmYearToCalendar (tm_Year tm)"
  by unfold_locales (simp add: year_def Let_def)

lemmas get_coherent =
  hour_acc.get_coherent hour12_acc.get_coherent isPM_acc.get_coherent isAM_acc.get_coherent
  minute_acc.get_coherent second_acc.get_coherent day_acc.get_coherent
  weekday_acc.get_coherent month_acc.get_coherent year_acc.get_coherent

section \<open>The clock\<close>

text \<open>Seconds between two \<open>millis()\<close> readings, across its 32-bit wrap-around.\<close>

definition elapsed :: "u32 \<Rightarrow> u32 \<Rightarrow> nat" where
  "elapsed from to = unat (to - from)"

lemma now_loop_step:
  assumes "1000 \<le> m - prev"
  shows "elapsed (prev + 1000) m = elapsed prev m - 1000" "1000 \<le> elapsed prev m"
proof -
  show "1000 \<le> elapsed prev m"
    using assms by (simp add: elapsed_def word_le_nat_alt)
  have "m - (prev + 1000) = (m - prev) - 1000" by simp
  then show "elapsed (prev + 1000) m = elapsed prev m - 1000"
    using assms by (simp only: elapsed_def) (simp add: unat_sub)
qed

definition now_inv :: "u32 \<Rightarrow> u32 \<Rightarrow> u32 \<Rightarrow> u32 \<times> u32 \<Rightarrow> bool" where
  "now_inv m s0 p0 = (\<lambda>(sys, prev). \<exists>k. 1000 * k + elapsed prev m = elapsed p0 m \<and>
     sys = s0 + of_nat k \<and> prev = p0 + of_nat (1000 * k))"

lemma now_body_inv:
  assumes "now_inv m s0 p0 x" and "now_cond m x"
  shows "now_inv m s0 p0 (now_body x)"
    and "elapsed (snd (now_body x)) m < elapsed (snd x) m"
proof -
  obtain sys prev where x: "x = (sys, prev)" by (cases x)
  from assms x have c: "1000 \<le> m - prev" by (simp add: now_cond_def)
  from assms x obtain k where k: "1000 * k + elapsed prev m = elapsed p0 m"
    "sys = s0 + of_nat k" "prev = p0 + of_nat (1000 * k)"
    by (auto simp: now_inv_def)
  have "1000 * Suc k + elapsed (prev + 1000) m = elapsed p0 m"
    using now_loop_step [OF c] k(1) by simp
  moreover have "prev + 1000 = p0 + of_nat (1000 * Suc k)" "sys + 1 = s0 + of_nat (Suc k)"
    using k by (simp_all add: algebra_simps)
  ultimately show "now_inv m s0 p0 (now_body x)"
    unfolding x now_inv_def now_body_def prod.case by blast
  show "elapsed (snd (now_body x)) m < elapsed (snd x) m"
    using now_loop_step [OF c] x by (simp add: now_body_def)
qed

lemma now_inv_start: "now_inv m s0 p0 (s0, p0)"
  by (auto simp: now_inv_def intro: exI [of _ 0])

lemma now_loop:
  "while (now_cond m) now_body (s0, p0) =
     (s0 + of_nat (elapsed p0 m div 1000), p0 + of_nat (1000 * (elapsed p0 m div 1000)))"
proof (rule while_rule [where P = "now_inv m s0 p0" and r = "measure (\<lambda>x. elapsed (snd x) m)",
      OF now_inv_start])
  fix x assume "now_inv m s0 p0 x" "\<not> now_cond m x"
  then obtain k sys prev where k: "1000 * k + elapsed prev m = elapsed p0 m"
    "x = (s0 + of_nat k, p0 + of_nat (1000 * k))" "elapsed prev m < 1000"
    by (cases x) (auto simp: now_inv_def now_cond_def elapsed_def word_le_nat_alt)
  then have "k = elapsed p0 m div 1000" by (metis add.commute div_less div_mult_self2 add.left_neutral zero_neq_numeral)
  with k show "x = (s0 + of_nat (elapsed p0 m div 1000),
      p0 + of_nat (1000 * (elapsed p0 m div 1000)))" by simp
qed (auto dest: now_body_inv)

lemma now_loop_returns:
  "\<exists>r. while_option (now_cond m) now_body (s0, p0) = Some r"
  by (rule measure_while_option_Some
      [where P = "now_inv m s0 p0" and f = "\<lambda>x. elapsed (snd x) m" and b = "now_cond m"
        and c = now_body, OF _ now_inv_start])
     (simp add: now_body_inv)

lemma now_tick_eq:
  "now_tick m s = s\<lparr>sysTime := sysTime s + of_nat (elapsed (prevMillis s) m div 1000),
     prevMillis := prevMillis s + of_nat (1000 * (elapsed (prevMillis s) m div 1000))\<rparr>"
  by (simp add: now_tick_def now_loop)

lemma elapsed_less: "elapsed a b < 4294967296"
  by (simp add: elapsed_def unat_u32_less)

lemma elapsed_after_tick:
  "elapsed (p + of_nat (1000 * (elapsed p m div 1000))) m = elapsed p m mod 1000"
proof -
  have le: "1000 * (elapsed p m div 1000) \<le> elapsed p m" by simp
  have "m - (p + of_nat (1000 * (elapsed p m div 1000)))
      = of_nat (elapsed p m) - of_nat (1000 * (elapsed p m div 1000))"
    by (simp add: elapsed_def)
  also have "\<dots> = of_nat (elapsed p m - 1000 * (elapsed p m div 1000))"
    using le by (simp only: of_nat_diff)
  also have "elapsed p m - 1000 * (elapsed p m div 1000) = elapsed p m mod 1000"
    by (simp add: minus_mult_div_eq_mod)
  finally show ?thesis
    by (simp add: elapsed_def unat_of_nat)
qed

lemma elapsed_add:
  assumes "elapsed a b + elapsed b c < 4294967296"
  shows "elapsed a c = elapsed a b + elapsed b c"
proof -
  have "c - a = (b - a) + (c - b)" by simp
  with assms show ?thesis
    unfolding elapsed_def by (metis unat_add_u32)
qed

lemma now_no_provider:
  "getTimePtr s = None \<Longrightarrow> now m s = (sysTime (now_tick m s), now_tick m s)"
  by (simp add: now_def now_sync_def now_tick_eq Let_def)

lemma now_cache:
  "cache_tm (snd (now m s)) = cache_tm s" "cacheTime (snd (now m s)) = cacheTime s"
  by (auto simp: now_def now_sync_def now_tick_eq Let_def setTime_def split: option.split)

lemma now_cache_ok: "cache_ok (snd (now m s)) = cache_ok s"
  by (simp add: cache_ok_def now_cache)

section \<open>Properties\<close>

text \<open>C11: \<open>breakTime\<close> computes, for every 32-bit time, in-range calendar fields (the
  lengths of the months and the leap years are those of the Gregorian calendar, by the rule of
  4, 100 and 400 of \<open>gregorian_leap\<close>; the weekday counts from Thursday, 1 January 1970) whose
  time is the given one.\<close>

theorem breakTime_correct: "tm_valid (breakTime t) \<and> tm_secs (breakTime t) = unat t"
  by (simp add: breakTime_valid breakTime_secs)

text \<open>The year loop of \<open>breakTime\<close> returns on every 32-bit time (the 8-bit year counter
  and the 32-bit day counter never wrap), and its value is what the model uses.\<close>

theorem breakTime_terminates:
  "while_option (breakTime_cond (t div 60 div 60 div 24)) breakTime_body (0, year_days 0)
     = Some (breakTime_years (t div 60 div 60 div 24))"
proof -
  have "unat (t div 60 div 60 div 24) \<le> 49710"
    using unat_u32_less [of t] by (simp add: unat_div div_mult2_eq [symmetric])
  from breakTime_years_returns [OF this] show ?thesis
    by (auto simp: breakTime_years_def while_def)
qed

text \<open>\<open>makeTime\<close> inverts \<open>breakTime\<close> on every 32-bit time.\<close>

theorem makeTime_breakTime: "makeTime (breakTime t) = Some t"
  by (rule makeTime_breakTime_aux)

text \<open>C12: \<open>breakTime\<close> inverts \<open>makeTime\<close> on every valid date that fits into 32 bits.\<close>

theorem breakTime_makeTime:
  assumes "tm_valid tm" and "tm_secs tm < 2 ^ 32"
  shows "\<exists>t. makeTime tm = Some t \<and> breakTime t = tm"
  using makeTime_correct [of tm] tm_valid_month [OF assms(1)] breakTime_of_secs [OF assms] by simp

definition leap_day :: tmElements_t where
  "leap_day = \<lparr>tm_Second = 59, tm_Minute = 59, tm_Hour = 23, tm_Wday = 3, tm_Day = 29,
     tm_Month = 2, tm_Year = 2\<rparr>"

lemma days_1972: "ydays 2 = 730" "mlen 2 0 = 31" "mlen 2 (Suc 0) = 29"
  by (simp_all add: ylen_leap mlen_leap LEAP_YEAR_def numeral_2_eq_2)

lemma leap_day_ok: "tm_valid leap_day \<and> tm_secs leap_day < 2 ^ 32"
  by (simp add: leap_day_def tm_valid_def tm_date_valid_def tm_secs_def tm_days_def days_1972)

theorem breakTime_makeTime_witness:
  "tm_valid leap_day \<and> (\<exists>t. makeTime leap_day = Some t \<and> breakTime t = leap_day)"
  using leap_day_ok breakTime_makeTime [of leap_day] by blast

text \<open>\<open>makeTime\<close> reads past the end of \<open>monthDays\<close> exactly when the month field
  exceeds 13; it does not check its argument.\<close>

theorem makeTime_undefined_iff: "makeTime tm = None \<longleftrightarrow> 13 < unat (tm_Month tm)"
  by (rule makeTime_undefined_iff_aux)

text \<open>C16: Between synchronisations, \<open>now()\<close> advances the clock by the whole seconds that
  \<open>millis()\<close> has counted, also across its 32-bit wrap-around, and calling it more often
  neither loses nor gains time.\<close>

theorem now_counts_elapsed:
  assumes "getTimePtr s = None" and "elapsed (prevMillis s) m1 + elapsed m1 m2 < 4294967296"
  shows "fst (now m1 s) = sysTime s + of_nat (elapsed (prevMillis s) m1 div 1000) \<and>
         now m2 (snd (now m1 s)) = now m2 s"
proof -
  let ?e = "elapsed (prevMillis s) m1" and ?p = "prevMillis (now_tick m1 s)"
  have p: "?p = prevMillis s + of_nat (1000 * (?e div 1000))"
    by (simp add: now_tick_eq)
  have e1: "elapsed ?p m1 = ?e mod 1000"
    unfolding p by (rule elapsed_after_tick)
  have "?e mod 1000 + elapsed m1 m2 < 4294967296"
    using assms(2) mod_less_eq_dividend [of ?e 1000] by linarith
  then have e2: "elapsed ?p m2 = ?e mod 1000 + elapsed m1 m2"
    using elapsed_add [of ?p m1 m2] e1 by simp
  have sum: "?e div 1000 + (?e mod 1000 + elapsed m1 m2) div 1000 = elapsed (prevMillis s) m2 div 1000"
  proof -
    have "elapsed (prevMillis s) m2 = (?e mod 1000 + elapsed m1 m2) + 1000 * (?e div 1000)"
      using elapsed_add [OF assms(2)] by simp
    then show ?thesis by (simp only: div_mult_self2 zero_neq_numeral [symmetric] not_False_eq_True)
  qed
  have "now_tick m2 (now_tick m1 s) = now_tick m2 s"
    unfolding now_tick_eq [of m2 "now_tick m1 s"] e2 unfolding now_tick_eq sum [symmetric]
    by (simp add: algebra_simps)
  moreover have "getTimePtr (now_tick m1 s) = None"
    using assms(1) by (simp add: now_tick_eq)
  ultimately show ?thesis
    using assms(1) by (simp add: now_no_provider) (simp add: now_tick_eq)
qed

theorem now_counts_elapsed_witness:
  "fst (now 2500 timelib_init) = 2 \<and>
   now 4100 (snd (now 2500 timelib_init)) = now 4100 timelib_init"
  using now_counts_elapsed [of timelib_init 2500 4100]
  by (simp add: timelib_init_def elapsed_def)

text \<open>The loop of \<open>now()\<close> returns for every clock reading and state.\<close>

theorem now_terminates:
  "while_option (now_cond m) now_body (sysTime s, prevMillis s)
     = Some (sysTime (now_tick m s), prevMillis (now_tick m s))"
proof -
  obtain r where "while_option (now_cond m) now_body (sysTime s, prevMillis s) = Some r"
    using now_loop_returns by blast
  then show ?thesis
    using now_loop [of m "sysTime s" "prevMillis s"] by (simp add: while_def now_tick_eq)
qed

text \<open>From a coherent cache, the accessors return the fields of \<open>breakTime\<close>, whatever was
  asked before, and leave the cache coherent and the clock untouched.\<close>

theorem accessors_read_calendar:
  assumes "cache_ok s"
  shows "fst (hour t s) = uint (tm_Hour (breakTime t)) \<and>
         fst (day t (snd (hour u s))) = uint (tm_Day (breakTime t)) \<and>
         fst (year t (snd (day u s))) = tmYearToCalendar (tm_Year (breakTime t)) \<and>
         cache_ok (snd (year t s)) \<and> sysTime (snd (year t s)) = sysTime s"
  using assms
  by (simp add: hour_acc.get_value day_acc.get_value year_acc.get_value hour_acc.get_keeps
      day_acc.get_keeps year_acc.get_keeps year_acc.get_clock)

lemma breakTime_0:
  "breakTime 0 = \<lparr>tm_Second = 0, tm_Minute = 0, tm_Hour = 0, tm_Wday = 5, tm_Day = 1,
     tm_Month = 1, tm_Year = 0\<rparr>"
  by (simp add: breakTime_def breakTime_years_def while_unfold breakTime_cond_def year_days_def
      LEAP_YEAR_def month_length_def monthDays_def upt_conv_Cons)

definition timelib_fresh :: timelib where
  "timelib_fresh = timelib_init\<lparr>cache_tm := breakTime 0\<rparr>"

theorem accessors_read_calendar_witness:
  "cache_ok timelib_fresh \<and>
   fst (day 0 (snd (hour 0 timelib_fresh))) = uint (tm_Day (breakTime 0))"
proof -
  have "cache_ok timelib_fresh" by (simp add: cache_ok_def timelib_fresh_def timelib_init_def)
  with accessors_read_calendar [of timelib_fresh 0 0] show ?thesis by simp
qed

text \<open>The cache is not coherent at power-up: its fields are all zero although it is
  labelled with time 0, so \<open>day(0)\<close> and \<open>month(0)\<close> are 0 where the calendar says 1.\<close>

theorem power_up_cache_stale:
  "fst (day 0 timelib_init) = 0 \<and> fst (month 0 timelib_init) = 0 \<and>
   uint (tm_Day (breakTime 0)) = 1 \<and> uint (tm_Month (breakTime 0)) = 1"
  by (simp add: day_def month_def refreshCache_def timelib_init_def tm_zero_def breakTime_0 Let_def)

end
