(* ===== verification/TimeZone.thy ===== *)
theory TimeZone
  imports TimeLib
begin

text \<open>
  The time-zone library, \<^verbatim>\<open>esp8266_sim/Timezone.cpp\<close> and \<^verbatim>\<open>Timezone.h\<close>: change rules of the
  form "n-th (or last) weekday of a month at an hour", the cached change points of one year,
  and the conversions \<open>toLocal\<close> and \<open>toUTC\<close>. Every operation threads the Time library's
  state, which its calls to \<open>year\<close> and \<open>weekday\<close> update, and the \<open>Timezone\<close> object, whose
  change points they recompute. \<open>None\<close> is undefined behaviour: \<open>makeTime\<close> read out of range.
  Operands of \<open>!=\<close> are evaluated left to right.
\<close>

section \<open>Data\<close>

definition Last :: u8 where "Last = 0"
definition First :: u8 where "First = 1"
definition Second :: u8 where "Second = 2"
definition Third :: u8 where "Third = 3"
definition Fourth :: u8 where "Fourth = 4"
definition Sun :: u8 where "Sun = 1"
definition Mar :: u8 where "Mar = 3"
definition Nov :: u8 where "Nov = 11"

lemmas rule_constants =
  Last_def First_def Second_def Third_def Fourth_def Sun_def Mar_def Nov_def

record TimeChangeRule =
  abbrev :: string
  week :: u8
  dow :: u8
  rmonth :: u8
  rhour :: u8
  offset :: int

record Timezone =
  dst :: TimeChangeRule
  std :: TimeChangeRule
  dstUTC :: time_t
  stdUTC :: time_t
  dstLoc :: time_t
  stdLoc :: time_t

text \<open>The constructor sets the two rules and leaves the four change points indeterminate:
  they are an argument of the model.\<close>

definition new_Timezone ::
    "time_t \<times> time_t \<times> time_t \<times> time_t \<Rightarrow> TimeChangeRule \<Rightarrow> TimeChangeRule \<Rightarrow> Timezone" where
  "new_Timezone memory dstStart stdStart =
     (case memory of (a, b, c, d) \<Rightarrow>
        \<lparr>dst = dstStart, std = stdStart, dstUTC = a, stdUTC = b, dstLoc = c, stdLoc = d\<rparr>)"

section \<open>Operations\<close>

definition offset_secs :: "TimeChangeRule \<Rightarrow> u32" where
  "offset_secs r = of_int (offset r) * SECS_PER_MIN"

definition toTime_t :: "TimeChangeRule \<Rightarrow> int \<Rightarrow> timelib \<Rightarrow> (time_t \<times> timelib) option" where
  "toTime_t r yr s =
     (let m = rmonth r; w = week r;
          (m, w, yr) =
            (if w = 0
             then (let m = m + 1 in if 12 < m then (1, 1, yr + 1) else (m, 1, yr))
             else (m, w, yr));
          tm = \<lparr>tm_Second = 0, tm_Minute = 0, tm_Hour = rhour r, tm_Wday = 0, tm_Day = 1,
                tm_Month = m, tm_Year = of_int (yr - 1970)\<rparr>
      in case makeTime tm of
           None \<Rightarrow> None
         | Some t \<Rightarrow>
             (let (wd, s) = weekday t s;
                  t = t + of_int (7 * (uint w - 1) + (uint (dow r) - wd + 7) smod 7) * SECS_PER_DAY;
                  t = (if week r = 0 then t - 7 * SECS_PER_DAY else t)
              in Some (t, s)))"

definition calcTimeChanges :: "int \<Rightarrow> Timezone \<Rightarrow> timelib \<Rightarrow> (Timezone \<times> timelib) option" where
  "calcTimeChanges yr z s =
     (case toTime_t (dst z) yr s of None \<Rightarrow> None | Some (dl, s) \<Rightarrow>
     (case toTime_t (std z) yr s of None \<Rightarrow> None | Some (sl, s) \<Rightarrow>
        Some (z\<lparr>dstLoc := dl, stdLoc := sl, dstUTC := dl - offset_secs (std z),
                stdUTC := sl - offset_secs (dst z)\<rparr>, s)))"

text \<open>\<open>if (year(t) != year(_dstUTC)) calcTimeChanges(year(t));\<close> and the same on \<open>_dstLoc\<close>.\<close>

definition recalc :: "(Timezone \<Rightarrow> time_t) \<Rightarrow> time_t \<Rightarrow> Timezone \<Rightarrow> timelib
    \<Rightarrow> (Timezone \<times> timelib) option" where
  "recalc point t z s =
     (let (y, s) = year t s; (y', s) = year (point z) s
      in if y \<noteq> y' then (let (y, s) = year t s in calcTimeChanges y z s) else Some (z, s))"

definition utcIsDST :: "time_t \<Rightarrow> Timezone \<Rightarrow> timelib \<Rightarrow> (bool \<times> Timezone \<times> timelib) option" where
  "utcIsDST utc z s =
     (case recalc dstUTC utc z s of None \<Rightarrow> None | Some (z, s) \<Rightarrow>
        Some (if dstUTC z <s stdUTC z
              then dstUTC z \<le>s utc \<and> utc <s stdUTC z
              else \<not> (stdUTC z \<le>s utc \<and> utc <s dstUTC z), z, s))"

definition locIsDST :: "time_t \<Rightarrow> Timezone \<Rightarrow> timelib \<Rightarrow> (bool \<times> Timezone \<times> timelib) option" where
  "locIsDST loc z s =
     (case recalc dstLoc loc z s of None \<Rightarrow> None | Some (z, s) \<Rightarrow>
        Some (if dstLoc z <s stdLoc z
              then dstLoc z \<le>s loc \<and> loc <s stdLoc z
              else \<not> (stdLoc z \<le>s loc \<and> loc <s dstLoc z), z, s))"

definition toLocal :: "time_t \<Rightarrow> Timezone \<Rightarrow> timelib \<Rightarrow> (time_t \<times> Timezone \<times> timelib) option" where
  "toLocal utc z s =
     (case recalc dstUTC utc z s of None \<Rightarrow> None | Some (z, s) \<Rightarrow>
     (case utcIsDST utc z s of None \<Rightarrow> None | Some (is_dst, z, s) \<Rightarrow>
        Some (if is_dst then utc + offset_secs (dst z) else utc + offset_secs (std z), z, s)))"

text \<open>The overload that also hands out the rule used.\<close>

definition toLocal_rule ::
    "time_t \<Rightarrow> Timezone \<Rightarrow> timelib \<Rightarrow> (time_t \<times> TimeChangeRule \<times> Timezone \<times> timelib) option" where
  "toLocal_rule utc z s =
     (case recalc dstUTC utc z s of None \<Rightarrow> None | Some (z, s) \<Rightarrow>
     (case utcIsDST utc z s of None \<Rightarrow> None | Some (is_dst, z, s) \<Rightarrow>
        Some (if is_dst then (utc + offset_secs (dst z), dst z, z, s)
              else (utc + offset_secs (std z), std z, z, s))))"

definition toUTC :: "time_t \<Rightarrow> Timezone \<Rightarrow> timelib \<Rightarrow> (time_t \<times> Timezone \<times> timelib) option" where
  "toUTC loc z s =
     (case recalc dstLoc loc z s of None \<Rightarrow> None | Some (z, s) \<Rightarrow>
     (case locIsDST loc z s of None \<Rightarrow> None | Some (is_dst, z, s) \<Rightarrow>
        Some (if is_dst then loc - offset_secs (dst z) else loc - offset_secs (std z), z, s)))"

section \<open>Bounds of the calendar\<close>

lemma ydays_le: "ydays y \<le> 365 * y + (y + 1) div 4"
proof (induction y)
  case 0
  then show ?case by simp
next
  case (Suc y)
  show ?case
  proof (cases "LEAP_YEAR (int y)")
    case True
    then have "(1970 + int y) mod 4 = 0" by (simp add: LEAP_YEAR_def)
    then have "y mod 4 = 2" by presburger
    then have "(Suc y + 1) div 4 = (y + 1) div 4 + 1" by presburger
    with Suc True show ?thesis by (simp add: ylen_leap)
  next
    case False
    have "(y + 1) div 4 \<le> (Suc y + 1) div 4" by (simp add: div_le_mono)
    with Suc False show ?thesis by (simp add: ylen_leap)
  qed
qed

lemma ydays_136: "y \<le> 136 \<Longrightarrow> ydays y \<le> 49674"
  using ydays_le [of 136] mono_ydays [of y 136] by simp

lemma mdays_within: "m < 12 \<Longrightarrow> d < mlen y m \<Longrightarrow> mdays y m + d < ylen y"
  using mdays_mono [of "Suc m" 12 y] by (simp add: mdays_12)

text \<open>Every valid date of the years 1970 to 2105 is a 32-bit time.\<close>

lemma tm_secs_bound:
  assumes "tm_date_valid tm" and "unat (tm_Year tm) \<le> 135"
    and "unat (tm_Hour tm) < 24" "unat (tm_Minute tm) < 60" "unat (tm_Second tm) < 60"
  shows "tm_secs tm < 2 ^ 32"
proof -
  let ?y = "unat (tm_Year tm)"
  have "mdays ?y (unat (tm_Month tm) - 1) + (unat (tm_Day tm) - 1) < ylen ?y"
    using assms(1) by (intro mdays_within) (auto simp: tm_date_valid_def)
  then have "tm_days tm < ydays (Suc ?y)" by (simp add: tm_days_def)
  also have "\<dots> \<le> 49674" using assms(2) by (intro ydays_136) simp
  finally have "tm_days tm < 49674" .
  with assms(3-5) show ?thesis by (simp add: tm_secs_def)
qed

text \<open>The year of a time is read off its day number.\<close>

definition year_of :: "time_t \<Rightarrow> int" where
  "year_of t = tmYearToCalendar (tm_Year (breakTime t))"

lemma tm_date_year:
  assumes "tm_date_valid tm"
  shows "ydays (unat (tm_Year tm)) \<le> tm_days tm" "tm_days tm < ydays (Suc (unat (tm_Year tm)))"
proof -
  have "mdays (unat (tm_Year tm)) (unat (tm_Month tm) - 1) + (unat (tm_Day tm) - 1)
      < ylen (unat (tm_Year tm))"
    using assms by (intro mdays_within) (auto simp: tm_date_valid_def)
  then show "ydays (unat (tm_Year tm)) \<le> tm_days tm" "tm_days tm < ydays (Suc (unat (tm_Year tm)))"
    by (simp_all add: tm_days_def)
qed

lemma tm_Year_breakTime:
  "unat (tm_Year (breakTime t)) = y \<longleftrightarrow>
     86400 * ydays y \<le> unat t \<and> unat t < 86400 * ydays (Suc y)"
proof -
  let ?y = "unat (tm_Year (breakTime t))"
  have "ydays ?y \<le> unat t div 86400" "unat t div 86400 < ydays (Suc ?y)"
    using tm_date_year [OF breakTime_date_valid, of t] by (simp_all add: breakTime_days)
  then have "?y = y \<longleftrightarrow> ydays y \<le> unat t div 86400 \<and> unat t div 86400 < ydays (Suc y)"
    using ydays_unique by blast
  then show ?thesis
    by (simp only: less_eq_div_iff_mult_less_eq div_less_iff_less_mult zero_less_numeral mult.commute)
qed

lemma year_of_iff:
  "year_of t = 1970 + int y \<longleftrightarrow> 86400 * ydays y \<le> unat t \<and> unat t < 86400 * ydays (Suc y)"
proof -
  have "year_of t = 1970 + int (unat (tm_Year (breakTime t)))"
    unfolding year_of_def tmYearToCalendar_def by (simp only: uint_nat add.commute)
  then show ?thesis unfolding tm_Year_breakTime [symmetric] by linarith
qed

lemma year_coherent: "cache_ok s \<Longrightarrow> year t s = (year_of t, refreshCache t s)"
  by (simp add: year_acc.get_coherent year_of_def)

section \<open>The change rule falls on the right day\<close>

definition rule_ok :: "TimeChangeRule \<Rightarrow> bool" where
  "rule_ok r \<longleftrightarrow> unat (week r) \<le> 4 \<and> 1 \<le> unat (dow r) \<and> unat (dow r) \<le> 7 \<and>
     1 \<le> unat (rmonth r) \<and> unat (rmonth r) \<le> 12 \<and> unat (rhour r) < 24"

text \<open>What \<open>toTime_t\<close> computes from a coherent cache.\<close>

definition rule_time :: "TimeChangeRule \<Rightarrow> int \<Rightarrow> time_t option" where
  "rule_time r yr = map_option fst (toTime_t r yr (timelib_fresh\<lparr>cacheTime := 0\<rparr>))"

lemma fresh_ok: "cache_ok timelib_fresh"
  by (simp add: cache_ok_def timelib_fresh_def timelib_init_def)

lemma toTime_t_coherent:
  assumes "cache_ok s"
  shows "case toTime_t r yr s of
           None \<Rightarrow> rule_time r yr = None
         | Some (t, s') \<Rightarrow> rule_time r yr = Some t \<and> cache_ok s' \<and>
             sysTime s' = sysTime s \<and> prevMillis s' = prevMillis s \<and>
             getTimePtr s' = getTimePtr s"
proof -
  have f: "cache_ok (timelib_fresh\<lparr>cacheTime := 0\<rparr>)"
    by (simp add: cache_ok_def timelib_fresh_def)
  show ?thesis
    using assms f
    by (auto simp: toTime_t_def rule_time_def weekday_acc.get_coherent refreshCache_ok Let_def
        split: option.split prod.split)
qed

lemma mlen_month: "1 \<le> m \<Longrightarrow> m \<le> 12 \<Longrightarrow> 28 \<le> mlen y (m - 1) \<and> mlen y (m - 1) \<le> 31"
  by (intro mlen_bounds) simp

text \<open>Midnight-plus-hour times, as seconds and as calendar fields.\<close>

definition date_days :: "nat \<Rightarrow> nat \<Rightarrow> nat \<Rightarrow> nat" where
  "date_days y m d = ydays y + mdays y (m - 1) + (d - 1)"

definition date_secs :: "nat \<Rightarrow> nat \<Rightarrow> nat \<Rightarrow> nat \<Rightarrow> nat" where
  "date_secs y m d h = 86400 * date_days y m d + 3600 * h"

definition on_date :: "nat \<Rightarrow> nat \<Rightarrow> nat \<Rightarrow> nat \<Rightarrow> tmElements_t" where
  "on_date y m d h =
     \<lparr>tm_Second = 0, tm_Minute = 0, tm_Hour = of_nat h,
      tm_Wday = of_nat ((date_days y m d + 4) mod 7 + 1),
      tm_Day = of_nat d, tm_Month = of_nat m, tm_Year = of_nat y\<rparr>"

lemma unat_of_nat_u8: "n < 256 \<Longrightarrow> unat (of_nat n :: u8) = n"
  by (simp add: unat_of_nat)

lemma on_date_valid:
  assumes "y \<le> 135" "1 \<le> m" "m \<le> 12" "1 \<le> d" "d \<le> mlen y (m - 1)" "h < 24"
  shows "tm_valid (on_date y m d h)" "tm_secs (on_date y m d h) = date_secs y m d h"
    "date_secs y m d h < 2 ^ 32"
proof -
  have d: "d < 256" using assms(2,3,5) mlen_bounds [of "m - 1" y] by force
  have wd: "(date_days y m d + 4) mod 7 + 1 < 256"
    by (rule less_trans [of _ 8]) simp_all
  have u: "unat (of_nat y :: u8) = y" "unat (of_nat m :: u8) = m" "unat (of_nat d :: u8) = d"
    "unat (of_nat h :: u8) = h"
    "unat (of_nat ((date_days y m d + 4) mod 7 + 1) :: u8) = (date_days y m d + 4) mod 7 + 1"
    using assms d wd by (simp_all only: unat_of_nat_u8)
  have f: "unat (tm_Year (on_date y m d h)) = y" "unat (tm_Month (on_date y m d h)) = m"
    "unat (tm_Day (on_date y m d h)) = d" "unat (tm_Hour (on_date y m d h)) = h"
    "unat (tm_Wday (on_date y m d h)) = (date_days y m d + 4) mod 7 + 1"
    "unat (tm_Minute (on_date y m d h)) = 0" "unat (tm_Second (on_date y m d h)) = 0"
    unfolding on_date_def by (simp_all only: tmElements_t.simps u unsigned_0)
  have days: "tm_days (on_date y m d h) = date_days y m d"
    by (simp only: tm_days_def date_days_def f)
  show v: "tm_valid (on_date y m d h)"
    unfolding tm_valid_def tm_date_valid_def f days using assms by simp
  show s: "tm_secs (on_date y m d h) = date_secs y m d h"
    unfolding tm_secs_def date_secs_def f days by simp
  have "tm_secs (on_date y m d h) < 2 ^ 32"
    using v assms(1) u(1) by (intro tm_secs_bound) (auto simp: tm_valid_def on_date_def)
  with s show "date_secs y m d h < 2 ^ 32" by simp
qed

lemma breakTime_date:
  assumes "y \<le> 135" "1 \<le> m" "m \<le> 12" "1 \<le> d" "d \<le> mlen y (m - 1)" "h < 24"
  shows "breakTime (of_nat (date_secs y m d h)) = on_date y m d h"
  using breakTime_of_secs [of "on_date y m d h"] on_date_valid [OF assms] by simp

lemma smod_7: "0 \<le> x \<Longrightarrow> x smod 7 = x mod (7 :: int)"
  by (simp add: signed_modulo_int_def sgn_if)

text \<open>The days from a weekday \<open>a\<close> (0 to 6) to the next weekday \<open>w\<close> (1 to 7).\<close>

lemma weekday_gap:
  assumes "1 \<le> w" "w \<le> (7 :: nat)"
  shows "(int w - int (n mod 7 + 1) + 7) smod 7 = int ((w + 6 - n mod 7) mod 7)"
    "(n + (w + 6 - n mod 7) mod 7) mod 7 + 1 = w"
proof -
  have n: "n mod 7 < 7" by simp
  have "int w - int (n mod 7 + 1) + 7 = int (w + 6 - n mod 7)" using n assms by simp
  then show "(int w - int (n mod 7 + 1) + 7) smod 7 = int ((w + 6 - n mod 7) mod 7)"
    by (simp only: smod_7 of_nat_0_le_iff zmod_int of_nat_numeral)
  have "(n + (w + 6 - n mod 7) mod 7) mod 7 = (n mod 7 + (w + 6 - n mod 7)) mod 7"
    by (simp only: mod_add_left_eq mod_add_right_eq)
  also have "n mod 7 + (w + 6 - n mod 7) = w - 1 + 7" using n assms by linarith
  also have "(w - 1 + 7) mod 7 = w - 1"
  proof -
    have "w - 1 < 7" using assms by linarith
    then show ?thesis by (simp only: mod_add_self2 mod_less)
  qed
  finally show "(n + (w + 6 - n mod 7) mod 7) mod 7 + 1 = w" using assms by simp
qed

text \<open>\<open>makeTime\<close> and \<open>weekday\<close> on the first day of a month.\<close>

lemma makeTime_first:
  assumes "y \<le> 135" "1 \<le> m" "m \<le> 12" "h < 24"
  shows "makeTime \<lparr>tm_Second = 0, tm_Minute = 0, tm_Hour = of_nat h, tm_Wday = 0, tm_Day = 1,
     tm_Month = of_nat m, tm_Year = of_nat y\<rparr> = Some (of_nat (date_secs y m 1 h))"
    (is "makeTime ?tm = _")
proof -
  have u: "unat (of_nat y :: u8) = y" "unat (of_nat m :: u8) = m" "unat (of_nat h :: u8) = h"
    using assms by (simp_all only: unat_of_nat_u8)
  have "makeTime ?tm = Some (of_nat (tm_secs ?tm))"
    using assms u by (intro makeTime_correct) simp_all
  also have "tm_secs ?tm = date_secs y m 1 h"
    unfolding tm_secs_def date_secs_def tm_days_def date_days_def tmElements_t.simps u by simp
  finally show ?thesis .
qed

lemma weekday_first:
  assumes "y \<le> 135" "1 \<le> m" "m \<le> 12" "h < 24" and "cache_ok s"
  shows "weekday (of_nat (date_secs y m 1 h)) s =
    (int ((date_days y m 1 + 4) mod 7 + 1), refreshCache (of_nat (date_secs y m 1 h)) s)"
proof -
  have b: "breakTime (of_nat (date_secs y m 1 h)) = on_date y m 1 h"
    using assms mlen_month [of m y] by (intro breakTime_date) simp_all
  have "(date_days y m 1 + 4) mod 7 + 1 < 256" by (rule less_trans [of _ 8]) simp_all
  then have "uint (tm_Wday (on_date y m 1 h)) = int ((date_days y m 1 + 4) mod 7 + 1)"
    unfolding on_date_def tmElements_t.simps by (simp only: uint_nat unat_of_nat_u8)
  then show ?thesis by (simp only: weekday_acc.get_coherent [OF assms(5)] b)
qed

text \<open>Adding whole days within a month.\<close>

lemma date_secs_add:
  "1 \<le> d \<Longrightarrow> of_nat (date_secs y m d h) + of_nat k * SECS_PER_DAY =
    (of_nat (date_secs y m (d + k) h) :: u32)"
proof -
  assume "1 \<le> d"
  then have "date_secs y m (d + k) h = date_secs y m d h + k * 86400"
    by (simp add: date_secs_def date_days_def)
  then show ?thesis by (simp add: secs_per_defs)
qed

definition rule_day :: "TimeChangeRule \<Rightarrow> nat \<Rightarrow> nat" where
  "rule_day r y =
     (let gap = (\<lambda>first. (unat (dow r) + 6 - (first + 4) mod 7) mod 7)
      in if week r = 0
         then mlen y (unat (rmonth r) - 1) + gap (ydays y + mdays y (unat (rmonth r))) - 6
         else 7 * (unat (week r) - 1) + gap (date_days y (unat (rmonth r)) 1) + 1)"

lemma toTime_t_nth:
  assumes "rule_ok r" "week r \<noteq> 0" "y \<le> 135" and "cache_ok s"
  shows "\<exists>s'. toTime_t r (1970 + int y) s =
    Some (of_nat (date_secs y (unat (rmonth r)) (rule_day r y) (unat (rhour r))), s')"
proof -
  define m h w d where defs: "m = unat (rmonth r)" "h = unat (rhour r)" "w = unat (week r)"
    "d = unat (dow r)"
  have r: "rmonth r = of_nat m" "rhour r = of_nat h" by (simp_all add: defs)
  have ok: "1 \<le> m" "m \<le> 12" "h < 24" "1 \<le> w" "w \<le> 4" "1 \<le> d" "d \<le> 7"
    using assms(1,2) by (auto simp: rule_ok_def defs word_unat_eq_iff)
  let ?g = "(d + 6 - (date_days y m 1 + 4) mod 7) mod 7"
  have k: "7 * (uint (week r) - 1) + (uint (dow r) - int ((date_days y m 1 + 4) mod 7 + 1) + 7) smod 7
      = int (7 * (w - 1) + ?g)"
  proof -
    have "uint (week r) = int w" "uint (dow r) = int d" by (simp_all only: uint_nat defs)
    then show ?thesis
      using ok weekday_gap(1) [of d "date_days y m 1 + 4"] by (simp only:) (simp add: of_nat_diff)
  qed
  have "rule_day r y = 1 + (7 * (w - 1) + ?g)"
    using assms(2) by (simp add: rule_day_def defs)
  then have t: "of_nat (date_secs y m 1 h) + of_int (int (7 * (w - 1) + ?g)) * SECS_PER_DAY
      = (of_nat (date_secs y m (rule_day r y) h) :: u32)"
    using date_secs_add [of 1 y m h] by (simp only: of_int_of_nat_eq)
  have u: "of_int (1970 + int y - 1970) = (of_nat y :: u8)"
    "unat (of_nat m :: u8) = m" "unat (of_nat h :: u8) = h"
    by (simp, use ok in \<open>simp_all only: unat_of_nat_u8\<close>)
  show ?thesis
    unfolding toTime_t_def
    using assms(2) k t u makeTime_first [OF assms(3) ok(1-3)] weekday_first [OF assms(3) ok(1-3) assms(4)]
    by (simp only: r Let_def if_False option.case prod.case defs(1,2) [symmetric]) simp
qed

text \<open>A "Last" rule goes to the first day of the next month and backs up a week.\<close>

lemma toTime_t_last:
  assumes "rule_ok r" "week r = 0" "y \<le> 134" and "cache_ok s"
  shows "\<exists>s'. toTime_t r (1970 + int y) s =
    Some (of_nat (date_secs y (unat (rmonth r)) (rule_day r y) (unat (rhour r))), s')"
proof -
  define m h d where defs: "m = unat (rmonth r)" "h = unat (rhour r)" "d = unat (dow r)"
  define m' y' where next_defs: "m' = (if m = 12 then 1 else m + 1)" "y' = (if m = 12 then y + 1 else y)"
  have r: "rmonth r = of_nat m" "rhour r = of_nat h" by (simp_all add: defs)
  have ok: "1 \<le> m" "m \<le> 12" "h < 24" "1 \<le> d" "d \<le> 7"
    using assms(1,2) by (auto simp: rule_ok_def defs word_unat_eq_iff)
  have ok': "y' \<le> 135" "1 \<le> m'" "m' \<le> 12" using ok assms(3) by (auto simp: next_defs)
  let ?D = "ydays y + mdays y m"
  have D: "date_days y' m' 1 = ?D"
    by (simp add: date_days_def next_defs mdays_12)
  define g where "g = (d + 6 - (?D + 4) mod 7) mod 7"
  have k: "7 * (uint (1 :: u8) - 1) + (uint (dow r) - int ((?D + 4) mod 7 + 1) + 7) smod 7 = int g"
  proof -
    have "uint (dow r) = int d" by (simp only: uint_nat defs)
    then show ?thesis using ok weekday_gap(1) [of d "?D + 4"] by (simp add: g_def)
  qed
  have ml: "28 \<le> mlen y (m - 1)" using mlen_month [of m y] ok by simp
  have day: "rule_day r y = mlen y (m - 1) + g - 6"
    using assms(2) by (simp add: rule_day_def defs g_def)
  have "mdays y m = mdays y (m - 1) + mlen y (m - 1)"
    using ok(1) by (cases m) simp_all
  then have "?D + g = date_days y m (rule_day r y) + 7"
    using ml unfolding date_days_def day by linarith
  then have "date_secs y' m' 1 h + 86400 * g = date_secs y m (rule_day r y) h + 604800"
    unfolding date_secs_def D using arg_cong [of "?D + g" _ "\<lambda>n. 86400 * n"]
    by (simp add: distrib_left)
  then have "of_nat (date_secs y' m' 1 h) + of_nat g * 86400
      = (of_nat (date_secs y m (rule_day r y) h) + 604800 :: u32)"
    by (metis (no_types, lifting) of_nat_add of_nat_mult of_nat_numeral mult.commute)
  then have t: "of_nat (date_secs y' m' 1 h) + of_int (int g) * SECS_PER_DAY - 7 * SECS_PER_DAY
      = (of_nat (date_secs y m (rule_day r y) h) :: u32)"
    by (simp add: secs_per_defs)
  have u: "of_int (1970 + int y - 1970) = (of_nat y :: u8)"
    "of_int (1970 + int y + 1 - 1970) = (of_nat (y + 1) :: u8)"
    "unat (of_nat m :: u8) = m" "unat (of_nat h :: u8) = h"
    by (simp, simp, use ok in \<open>simp_all only: unat_of_nat_u8\<close>)
  have step: "(if 12 < (of_nat m + 1 :: u8) then (1, 1, 1970 + int y + 1)
       else (of_nat m + 1, 1, 1970 + int y))
      = (of_nat m', 1 :: u8, 1970 + int y')"
  proof -
    have "unat (of_nat (m + 1) :: u8) = m + 1" using ok by (simp only: unat_of_nat_u8)
    then have "12 < (of_nat (m + 1) :: u8) \<longleftrightarrow> m = 12"
      using ok by (simp only: word_less_nat_alt) auto
    then show ?thesis by (simp add: next_defs add.commute)
  qed
  have u': "of_int (1970 + int y' - 1970) = (of_nat y' :: u8)" by simp
  show ?thesis
    unfolding toTime_t_def
    using k t u u' makeTime_first [OF ok' ok(3)] weekday_first [OF ok' ok(3) assms(4)]
    unfolding D
    by (simp only: r assms(2) step Let_def if_True option.case prod.case defs(1,2) [symmetric]) simp
qed

lemma rule_day_bounds:
  assumes "rule_ok r"
  shows "1 \<le> rule_day r y" "rule_day r y \<le> mlen y (unat (rmonth r) - 1)"
proof -
  have m: "28 \<le> mlen y (unat (rmonth r) - 1)"
    using assms mlen_month [of "unat (rmonth r)" y] by (simp add: rule_ok_def)
  have w: "unat (week r) \<le> 4" using assms by (simp add: rule_ok_def)
  obtain a b where "rule_day r y =
      (if week r = 0 then mlen y (unat (rmonth r) - 1) + a mod 7 - 6
       else 7 * (unat (week r) - 1) + b mod 7 + 1)"
    unfolding rule_day_def Let_def by blast
  moreover obtain a' b' where "a mod 7 = a'" "b mod 7 = b'" by blast
  moreover have "a mod 7 < 7" "b mod 7 < 7" by simp_all
  ultimately show "1 \<le> rule_day r y" "rule_day r y \<le> mlen y (unat (rmonth r) - 1)"
    using m w by (cases "week r = 0"; simp)+
qed

lemma rule_weekday:
  assumes "rule_ok r"
  shows "(date_days y (unat (rmonth r)) (rule_day r y) + 4) mod 7 + 1 = unat (dow r)"
proof -
  define m d where defs: "m = unat (rmonth r)" "d = unat (dow r)"
  have ok: "1 \<le> m" "m \<le> 12" "1 \<le> d" "d \<le> 7" using assms by (auto simp: rule_ok_def defs)
  have gap: "(n + (d + 6 - n mod 7) mod 7) mod 7 + 1 = d" for n
    by (rule weekday_gap(2) [OF ok(3,4)])
  have "\<exists>n k j. date_days y m (rule_day r y) + 4 + 7 * j = n + (d + 6 - n mod 7) mod 7 + 7 * k"
  proof (cases "week r = 0")
    case True
    have "mdays y m = mdays y (m - 1) + mlen y (m - 1)" using ok(1) by (cases m) simp_all
    moreover obtain g where g: "(d + 6 - (ydays y + mdays y m + 4) mod 7) mod 7 = g" by blast
    ultimately have "date_days y m (rule_day r y) + 4 + 7 * 1 = ydays y + mdays y m + 4 + g + 7 * 0"
      using True mlen_month [OF ok(1,2), of y]
      by (simp add: rule_day_def date_days_def flip: defs)
    then show ?thesis unfolding g [symmetric] by blast
  next
    case False
    then have "date_days y m (rule_day r y) + 4 + 7 * 0 =
        date_days y m 1 + 4 + (d + 6 - (date_days y m 1 + 4) mod 7) mod 7 + 7 * (unat (week r) - 1)"
      by (simp add: rule_day_def date_days_def flip: defs)
    then show ?thesis by blast
  qed
  then obtain n k j where
    "date_days y m (rule_day r y) + 4 + 7 * j = n + (d + 6 - n mod 7) mod 7 + 7 * k" by blast
  then have "(date_days y m (rule_day r y) + 4) mod 7 = (n + (d + 6 - n mod 7) mod 7) mod 7"
    by (metis mod_mult_self2)
  then show ?thesis using gap [of n] by (simp add: defs)
qed

lemma toTime_t_date:
  assumes "rule_ok r" "y \<le> 134" and "cache_ok s"
  shows "\<exists>s'. toTime_t r (1970 + int y) s =
    Some (of_nat (date_secs y (unat (rmonth r)) (rule_day r y) (unat (rhour r))), s') \<and> cache_ok s'"
proof -
  obtain s' where "toTime_t r (1970 + int y) s =
      Some (of_nat (date_secs y (unat (rmonth r)) (rule_day r y) (unat (rhour r))), s')"
    using toTime_t_nth [OF assms(1) _ _ assms(3), of y] toTime_t_last [OF assms(1) _ assms(2,3)]
      assms(2) by (cases "week r = 0") auto
  then show ?thesis using toTime_t_coherent [OF assms(3), of r "1970 + int y"] by simp
qed

lemma breakTime_rule:
  assumes "rule_ok r" "y \<le> 134"
  defines "t \<equiv> of_nat (date_secs y (unat (rmonth r)) (rule_day r y) (unat (rhour r))) :: time_t"
  shows "breakTime t = \<lparr>tm_Second = 0, tm_Minute = 0, tm_Hour = rhour r, tm_Wday = dow r,
      tm_Day = of_nat (rule_day r y), tm_Month = rmonth r, tm_Year = of_nat y\<rparr>"
    "year_of t = 1970 + int y" "unat (of_nat (rule_day r y) :: u8) = rule_day r y"
proof -
  have b: "breakTime t = on_date y (unat (rmonth r)) (rule_day r y) (unat (rhour r))"
    unfolding t_def using assms(1,2) rule_day_bounds [OF assms(1), of y]
    by (intro breakTime_date) (auto simp: rule_ok_def)
  show f: "breakTime t = \<lparr>tm_Second = 0, tm_Minute = 0, tm_Hour = rhour r, tm_Wday = dow r,
      tm_Day = of_nat (rule_day r y), tm_Month = rmonth r, tm_Year = of_nat y\<rparr>"
    unfolding b on_date_def rule_weekday [OF assms(1)] by simp
  have "unat (of_nat y :: u8) = y" using assms(2) by (simp only: unat_of_nat_u8)
  then show "year_of t = 1970 + int y" by (simp add: year_of_def tmYearToCalendar_def f uint_nat [of "of_nat y :: u8"])
  show "unat (of_nat (rule_day r y) :: u8) = rule_day r y"
    using rule_day_bounds(2) [OF assms(1), of y] mlen_month [of "unat (rmonth r)" y] assms(1)
    by (intro unat_of_nat_u8) (simp add: rule_ok_def)
qed

section \<open>Change points and conversions, on integers\<close>

definition rule_secs :: "TimeChangeRule \<Rightarrow> nat \<Rightarrow> int" where
  "rule_secs r y = int (date_secs y (unat (rmonth r)) (rule_day r y) (unat (rhour r)))"

definition dst_utc :: "Timezone \<Rightarrow> nat \<Rightarrow> int" where
  "dst_utc z y = rule_secs (dst z) y - 60 * offset (std z)"

definition std_utc :: "Timezone \<Rightarrow> nat \<Rightarrow> int" where
  "std_utc z y = rule_secs (std z) y - 60 * offset (dst z)"

definition in_dst :: "Timezone \<Rightarrow> nat \<Rightarrow> int \<Rightarrow> bool" where
  "in_dst z y t \<longleftrightarrow>
     (if dst_utc z y < std_utc z y then dst_utc z y \<le> t \<and> t < std_utc z y
      else \<not> (std_utc z y \<le> t \<and> t < dst_utc z y))"

text \<open>Zones whose changes happen between February and November, at most a day off UTC.\<close>

definition mid_year :: "TimeChangeRule \<Rightarrow> bool" where
  "mid_year r \<longleftrightarrow> rule_ok r \<and> 2 \<le> unat (rmonth r) \<and> unat (rmonth r) \<le> 11 \<and> \<bar>offset r\<bar> \<le> 1440"

definition zone_ok :: "Timezone \<Rightarrow> bool" where
  "zone_ok z \<longleftrightarrow> mid_year (dst z) \<and> mid_year (std z)"

text \<open>A zone whose four change points are those of a year up to 2037.\<close>

definition synced :: "Timezone \<Rightarrow> nat \<Rightarrow> Timezone" where
  "synced z y = z\<lparr>dstUTC := of_int (dst_utc z y), stdUTC := of_int (std_utc z y),
     dstLoc := of_int (rule_secs (dst z) y), stdLoc := of_int (rule_secs (std z) y)\<rparr>"

definition zone_synced :: "Timezone \<Rightarrow> bool" where
  "zone_synced z \<longleftrightarrow> (\<exists>y\<le>67. z = synced z y)"

lemma synced_rules [simp]:
  "dst (synced z y) = dst z" "std (synced z y) = std z"
  "dst_utc (synced z y) = dst_utc z" "std_utc (synced z y) = std_utc z"
  "in_dst (synced z y) = in_dst z" "zone_ok (synced z y) = zone_ok z"
  "synced (synced z y) y' = synced z y'"
  by (simp_all add: synced_def dst_utc_def std_utc_def in_dst_def zone_ok_def fun_eq_iff)

lemma zone_synced_synced: "y \<le> 67 \<Longrightarrow> zone_synced (synced z y)"
  unfolding zone_synced_def by (metis synced_rules(7))

lemma ydays_68: "y \<le> 67 \<Longrightarrow> 86400 * ydays (Suc y) \<le> 2145916800"
  using ydays_le [of 68] mono_ydays [of "Suc y" 68] by simp

lemma days_within:
  fixes a b d h :: int
  assumes "a + 31 \<le> d" "d + 32 \<le> b" "0 \<le> h" "h < 24"
  shows "86400 * (a + 31) \<le> 86400 * d + 3600 * h" "86400 * d + 3600 * h < 86400 * b - 86400 * 31"
  using assms by simp_all

lemma rule_secs_bounds:
  assumes "mid_year r"
  shows "86400 * int (ydays y + 31) \<le> rule_secs r y"
    "rule_secs r y < 86400 * int (ydays (Suc y)) - 86400 * 31"
proof -
  define m where "m = unat (rmonth r)"
  have m: "2 \<le> m" "m \<le> 11" and ok: "rule_ok r" and h: "unat (rhour r) < 24"
    using assms by (auto simp: mid_year_def m_def rule_ok_def)
  have lo: "31 \<le> mdays y (m - 1)"
    using m mdays_mono [of 1 "m - 1" y] by (simp add: mlen_leap)
  have "mdays y 12 = mdays y 11 + 31" by (simp add: eval_nat_numeral mlen_leap)
  moreover have "mdays y m \<le> mdays y 11" using m by (intro mdays_mono)
  moreover have "mdays y m = mdays y (m - 1) + mlen y (m - 1)" using m by (cases m) simp_all
  ultimately have hi: "mdays y (m - 1) + mlen y (m - 1) + 31 \<le> ylen y" by (simp add: mdays_12)
  have d: "1 \<le> rule_day r y" "rule_day r y \<le> mlen y (m - 1)"
    using rule_day_bounds [OF ok, of y] by (simp_all add: m_def)
  then have "ydays y + 31 \<le> date_days y m (rule_day r y)"
    "date_days y m (rule_day r y) + 32 \<le> ydays (Suc y)"
    using lo hi unfolding date_days_def by simp_all
  then have "int (ydays y) + 31 \<le> int (date_days y m (rule_day r y))"
    "int (date_days y m (rule_day r y)) + 32 \<le> int (ydays (Suc y))"
    unfolding of_nat_le_iff [where 'a = int, symmetric]
    by (simp_all only: of_nat_add of_nat_numeral)
  moreover have "0 \<le> int (unat (rhour r))" "int (unat (rhour r)) < 24" using h by linarith+
  ultimately show "86400 * int (ydays y + 31) \<le> rule_secs r y"
    "rule_secs r y < 86400 * int (ydays (Suc y)) - 86400 * 31"
    unfolding rule_secs_def date_secs_def m_def [symmetric]
    by (simp_all only: of_nat_add of_nat_mult of_nat_numeral days_within)
qed

lemma int_unat_of_int: "0 \<le> i \<Longrightarrow> i < 2 ^ 32 \<Longrightarrow> int (unat (of_int i :: u32)) = i"
  by (simp add: unat_eq_nat_uint uint_word_of_int)

lemma year_of_int:
  assumes "0 \<le> i" "i < 2 ^ 32"
  shows "year_of (of_int i) = 1970 + int y \<longleftrightarrow>
    86400 * int (ydays y) \<le> i \<and> i < 86400 * int (ydays (Suc y))"
proof -
  note int_unat_of_int [OF assms]
  then show ?thesis unfolding year_of_iff by linarith
qed

lemma points_year:
  assumes "zone_ok z" "y \<le> 67"
  shows "year_of (dstUTC (synced z y)) = 1970 + int y"
    "year_of (dstLoc (synced z y)) = 1970 + int y"
proof -
  have z: "mid_year (dst z)" "mid_year (std z)" using assms(1) by (auto simp: zone_ok_def)
  then have o: "\<bar>offset (std z)\<bar> \<le> 1440" by (simp add: mid_year_def)
  note b = rule_secs_bounds [OF z(1), of y] ydays_68 [OF assms(2)]
  show "year_of (dstLoc (synced z y)) = 1970 + int y"
    using b by (simp add: synced_def, subst year_of_int) auto
  show "year_of (dstUTC (synced z y)) = 1970 + int y"
    using b o by (simp add: synced_def dst_utc_def del: of_int_diff of_int_mult, subst year_of_int) auto
qed

lemma dst_std_range:
  assumes "zone_ok z" "y \<le> 67"
  shows "0 \<le> dst_utc z y \<and> dst_utc z y < 2 ^ 31" "0 \<le> std_utc z y \<and> std_utc z y < 2 ^ 31"
    "0 \<le> rule_secs (dst z) y \<and> rule_secs (dst z) y < 2 ^ 31"
    "0 \<le> rule_secs (std z) y \<and> rule_secs (std z) y < 2 ^ 31"
proof -
  have z: "mid_year (dst z)" "mid_year (std z)" using assms(1) by (auto simp: zone_ok_def)
  then have o: "\<bar>offset (std z)\<bar> \<le> 1440" "\<bar>offset (dst z)\<bar> \<le> 1440"
    by (simp_all add: mid_year_def)
  note b = rule_secs_bounds [OF z(1), of y] rule_secs_bounds [OF z(2), of y] ydays_68 [OF assms(2)]
  show "0 \<le> dst_utc z y \<and> dst_utc z y < 2 ^ 31" "0 \<le> std_utc z y \<and> std_utc z y < 2 ^ 31"
    "0 \<le> rule_secs (dst z) y \<and> rule_secs (dst z) y < 2 ^ 31"
    "0 \<le> rule_secs (std z) y \<and> rule_secs (std z) y < 2 ^ 31"
    using b o unfolding dst_utc_def std_utc_def by auto
qed

text \<open>Signed comparison of 32-bit times below 2^31 is comparison of the integers.\<close>

lemma sint_of_int_small: "0 \<le> i \<Longrightarrow> i < 2 ^ 31 \<Longrightarrow> sint (of_int i :: u32) = i"
  using s32_id [of i] by (simp add: s32_def int32_range_def)

lemma sless_small:
  assumes "0 \<le> i" "i < 2 ^ 31" "0 \<le> j" "j < 2 ^ 31"
  shows "(of_int i :: u32) <s of_int j \<longleftrightarrow> i < j" "(of_int i :: u32) \<le>s of_int j \<longleftrightarrow> i \<le> j"
  using assms by (simp_all add: word_sless_alt word_sle_eq sint_of_int_small del: sint_sbintrunc')

lemma calcTimeChanges_synced:
  assumes "zone_ok z" "y \<le> 67" and "cache_ok s"
  shows "\<exists>s'. calcTimeChanges (1970 + int y) z s = Some (synced z y, s') \<and> cache_ok s'"
proof -
  have r: "rule_ok (dst z)" "rule_ok (std z)" using assms(1) by (auto simp: zone_ok_def mid_year_def)
  obtain s1 where s1: "cache_ok s1"
    "toTime_t (dst z) (1970 + int y) s = Some (of_int (rule_secs (dst z) y), s1)"
    using toTime_t_date [OF r(1) _ assms(3), of y] assms(2) unfolding rule_secs_def
    by (auto simp: of_int_of_nat_eq)
  obtain s2 where s2: "cache_ok s2"
    "toTime_t (std z) (1970 + int y) s1 = Some (of_int (rule_secs (std z) y), s2)"
    using toTime_t_date [OF r(2) _ s1(1), of y] assms(2) unfolding rule_secs_def
    by (auto simp: of_int_of_nat_eq)
  show ?thesis
    by (auto simp: calcTimeChanges_def s1 s2 synced_def dst_utc_def std_utc_def offset_secs_def
        secs_per_defs mult.commute intro!: Timezone.equality)
qed

text \<open>The interface between the conversions and the change points: a conversion looks at one
  change point to decide whether the stored points are those of the year it needs.\<close>

locale year_marker =
  fixes point :: "Timezone \<Rightarrow> time_t"
  assumes marks: "zone_ok z \<Longrightarrow> y \<le> 67 \<Longrightarrow> year_of (point (synced z y)) = 1970 + int y"
begin

lemma recalc_synced:
  assumes "zone_ok z" "year_of t = 1970 + int y" "y \<le> 67" "cache_ok s"
    and "zone_synced z \<or> year_of (point z) \<noteq> year_of t"
  shows "\<exists>s'. recalc point t z s = Some (synced z y, s') \<and> cache_ok s'"
proof (cases "year_of t = year_of (point z)")
  case True
  then obtain y0 where "y0 \<le> 67" "z = synced z y0" using assms(5) by (auto simp: zone_synced_def)
  then have "year_of (point z) = 1970 + int y0" using marks [OF assms(1), of y0] by simp
  then have "y0 = y" using True assms(2) by simp
  with \<open>z = synced z y0\<close> True assms(4) show ?thesis
    by (auto simp: recalc_def year_coherent refreshCache_ok)
next
  case False
  let ?s = "refreshCache t (refreshCache (point z) (refreshCache t s))"
  have "cache_ok ?s" using assms(4) by (simp add: refreshCache_ok)
  from calcTimeChanges_synced [OF assms(1,3) this] False assms(2,4) show ?thesis
    by (auto simp: recalc_def year_coherent refreshCache_ok)
qed

end

interpretation utc_marker: year_marker dstUTC
  by unfold_locales (rule points_year(1))

interpretation loc_marker: year_marker dstLoc
  by unfold_locales (rule points_year(2))

lemma year_of_bound: "year_of t = 1970 + int y \<Longrightarrow> y \<le> 67 \<Longrightarrow> int (unat t) < 2 ^ 31"
proof -
  assume "year_of t = 1970 + int y" "y \<le> 67"
  then have "unat t < 2 ^ 31" using ydays_68 [of y] by (simp add: year_of_iff)
  then have "int (unat t) < int (2 ^ 31)" by (simp only: of_nat_less_iff)
  then show ?thesis by (simp only: of_nat_power of_nat_numeral)
qed

lemma of_int_unat: "of_int (int (unat (t :: u32))) = t"
  by simp

lemma utcIsDST_synced:
  assumes "zone_ok z" "year_of t = 1970 + int y" "y \<le> 67" "cache_ok s"
    and "zone_synced z \<or> year_of (dstUTC z) \<noteq> year_of t"
  shows "\<exists>s'. utcIsDST t z s = Some (in_dst z y (int (unat t)), synced z y, s') \<and> cache_ok s'"
proof -
  obtain i where i: "t = of_int i" "i = int (unat t)" using of_int_unat by metis
  have b: "0 \<le> i" "i < 2 ^ 31" using year_of_bound [OF assms(2,3)] i(2) by simp_all
  have "(if dstUTC (synced z y) <s stdUTC (synced z y)
         then dstUTC (synced z y) \<le>s t \<and> t <s stdUTC (synced z y)
         else \<not> (stdUTC (synced z y) \<le>s t \<and> t <s dstUTC (synced z y))) = in_dst z y i"
    using dst_std_range [OF assms(1,3)] b unfolding i(1) in_dst_def
    by (simp add: synced_def sless_small)
  then show ?thesis
    using utc_marker.recalc_synced [OF assms] by (auto simp: utcIsDST_def i(2))
qed

definition in_dst_loc :: "Timezone \<Rightarrow> nat \<Rightarrow> int \<Rightarrow> bool" where
  "in_dst_loc z y t \<longleftrightarrow>
     (if rule_secs (dst z) y < rule_secs (std z) y
      then rule_secs (dst z) y \<le> t \<and> t < rule_secs (std z) y
      else \<not> (rule_secs (std z) y \<le> t \<and> t < rule_secs (dst z) y))"

lemma locIsDST_synced:
  assumes "zone_ok z" "year_of t = 1970 + int y" "y \<le> 67" "cache_ok s"
    and "zone_synced z \<or> year_of (dstLoc z) \<noteq> year_of t"
  shows "\<exists>s'. locIsDST t z s = Some (in_dst_loc z y (int (unat t)), synced z y, s') \<and> cache_ok s'"
proof -
  obtain i where i: "t = of_int i" "i = int (unat t)" using of_int_unat by metis
  have b: "0 \<le> i" "i < 2 ^ 31" using year_of_bound [OF assms(2,3)] i(2) by simp_all
  have "(if dstLoc (synced z y) <s stdLoc (synced z y)
         then dstLoc (synced z y) \<le>s t \<and> t <s stdLoc (synced z y)
         else \<not> (stdLoc (synced z y) \<le>s t \<and> t <s dstLoc (synced z y))) = in_dst_loc z y i"
    using dst_std_range [OF assms(1,3)] b unfolding i(1) in_dst_loc_def
    by (simp add: synced_def sless_small)
  then show ?thesis
    using loc_marker.recalc_synced [OF assms] by (auto simp: locIsDST_def i(2))
qed

lemma offset_secs_int: "offset_secs r = of_int (60 * offset r)"
  by (simp add: offset_secs_def secs_per_defs mult.commute)

text \<open>The offset in force at a UTC time, in seconds.\<close>

definition utc_offset :: "Timezone \<Rightarrow> nat \<Rightarrow> int \<Rightarrow> int" where
  "utc_offset z y t = 60 * offset (if in_dst z y t then dst z else std z)"

lemma toLocal_synced:
  assumes "zone_ok z" "year_of t = 1970 + int y" "y \<le> 67" "cache_ok s"
    and "zone_synced z \<or> year_of (dstUTC z) \<noteq> year_of t"
  shows "\<exists>s'. toLocal t z s = Some (t + of_int (utc_offset z y (int (unat t))), synced z y, s') \<and>
    cache_ok s'"
proof -
  obtain s1 where s1: "recalc dstUTC t z s = Some (synced z y, s1)" "cache_ok s1"
    using utc_marker.recalc_synced [OF assms] by blast
  obtain s2 where "utcIsDST t (synced z y) s1 =
      Some (in_dst z y (int (unat t)), synced z y, s2)" "cache_ok s2"
    using utcIsDST_synced [of "synced z y" t y s1] assms(1-3) s1(2) zone_synced_synced [OF assms(3)]
    by auto
  with s1 show ?thesis
    by (auto simp: toLocal_def utc_offset_def offset_secs_int simp del: of_int_mult)
qed

lemma toUTC_synced:
  assumes "zone_ok z" "year_of t = 1970 + int y" "y \<le> 67" "cache_ok s"
    and "zone_synced z \<or> year_of (dstLoc z) \<noteq> year_of t"
  shows "\<exists>s'. toUTC t z s =
    Some (t - of_int (60 * offset (if in_dst_loc z y (int (unat t)) then dst z else std z)),
          synced z y, s') \<and> cache_ok s'"
proof -
  obtain s1 where s1: "recalc dstLoc t z s = Some (synced z y, s1)" "cache_ok s1"
    using loc_marker.recalc_synced [OF assms] by blast
  obtain s2 where "locIsDST t (synced z y) s1 =
      Some (in_dst_loc z y (int (unat t)), synced z y, s2)" "cache_ok s2"
    using locIsDST_synced [of "synced z y" t y s1] assms(1-3) s1(2) zone_synced_synced [OF assms(3)]
    by (auto simp: in_dst_loc_def)
  with s1 show ?thesis
    by (auto simp: toUTC_def offset_secs_int simp del: of_int_mult)
qed

text \<open>The local time of a UTC time, which year it is in, and the offset found for it there.\<close>

lemma local_year:
  assumes "zone_ok z" "year_of t = 1970 + int y" "1 \<le> y" "y \<le> 66" "\<bar>d\<bar> \<le> 86400"
  shows "\<exists>y' i. y' \<le> 67 \<and> year_of (t + of_int d) = 1970 + int y' \<and>
    i = int (unat (t + of_int d)) \<and> i = int (unat t) + d \<and>
    (y' = y \<or> y' = y - 1 \<and> 86400 * int (ydays y) - 86400 \<le> i \<and> i < 86400 * int (ydays y)
            \<or> y' = y + 1 \<and> i < 86400 * int (ydays (Suc y)) + 86400 \<and> 86400 * int (ydays (Suc y)) \<le> i)"
proof -
  define n where "n = int (unat t)"
  have n: "86400 * int (ydays y) \<le> n" "n < 86400 * int (ydays (Suc y))"
    using assms(2) unfolding year_of_iff n_def by linarith+
  have lo: "365 \<le> ydays y" using assms(3) ydays_ge [of y] by linarith
  have ys: "ydays (Suc (y - 1)) = ydays y" using assms(3) by simp
  have st: "ydays (y - 1) + 365 \<le> ydays y" "ydays (Suc y) + 365 \<le> ydays (Suc (Suc y))"
    using assms(3) by (cases y; simp add: ylen_leap)+
  have hi: "86400 * ydays (Suc (Suc y)) \<le> 2145916800" using ydays_68 [of "Suc y"] assms(4) by simp
  have t: "t + of_int d = of_int (n + d)" unfolding n_def by simp
  have "0 \<le> n + d" "n + d < 4294967296" using n lo st hi assms(5) by linarith+
  then have r: "0 \<le> n + d" "n + d < 2 ^ 32" by simp_all
  have i: "int (unat (t + of_int d)) = n + d"
    unfolding t by (rule int_unat_of_int [OF r])
  have yr: "year_of (t + of_int d) = 1970 + int y' \<longleftrightarrow>
      86400 * int (ydays y') \<le> n + d \<and> n + d < 86400 * int (ydays (Suc y'))" for y'
    unfolding t by (rule year_of_int [OF r])
  consider "n + d < 86400 * int (ydays y)" | "86400 * int (ydays (Suc y)) \<le> n + d"
    | "86400 * int (ydays y) \<le> n + d" "n + d < 86400 * int (ydays (Suc y))"
    by linarith
  then show ?thesis
  proof cases
    case 1
    then have "year_of (t + of_int d) = 1970 + int (y - 1)"
      unfolding yr ys using n st assms(5) by linarith
    then show ?thesis using 1 i n assms(4,5) unfolding n_def by (intro exI [of _ "y - 1"]) auto
  next
    case 2
    then have "year_of (t + of_int d) = 1970 + int (y + 1)"
      unfolding yr Suc_eq_plus1 [symmetric] using n st assms(5) by linarith
    then show ?thesis using 2 i n assms(4,5) unfolding n_def by (intro exI [of _ "y + 1"]) auto
  next
    case 3
    then have "year_of (t + of_int d) = 1970 + int y" unfolding yr by blast
    then show ?thesis using i assms(4) unfolding n_def by (intro exI [of _ y]) auto
  qed
qed

text \<open>Zones of the northern hemisphere: daylight time from spring to autumn.\<close>

definition northern :: "Timezone \<Rightarrow> bool" where
  "northern z \<longleftrightarrow> zone_ok z \<and> unat (rmonth (dst z)) + 1 < unat (rmonth (std z)) \<and>
     offset (std z) \<le> offset (dst z)"

lemma northern_order:
  assumes "northern z"
  shows "rule_secs (dst z) y + 86400 * 7 \<le> rule_secs (std z) y"
proof -
  define m m' where defs: "m = unat (rmonth (dst z))" "m' = unat (rmonth (std z))"
  have r: "rule_ok (dst z)" "rule_ok (std z)" "m + 2 \<le> m'" "1 \<le> m" "m' \<le> 12" "m \<le> 12"
    using assms by (auto simp: northern_def zone_ok_def mid_year_def rule_ok_def defs)
  have "mdays y (m + 1) \<le> mdays y (m' - 1)" using r by (intro mdays_mono) simp
  moreover have "mdays y (m + 1) = mdays y (m - 1) + mlen y (m - 1) + mlen y m"
    using r(4) by (cases m) simp_all
  moreover have "28 \<le> mlen y m" using r mlen_bounds [of m y] by simp
  ultimately have "date_days y m (rule_day (dst z) y) + 8 \<le> date_days y m' (rule_day (std z) y)"
    using rule_day_bounds [OF r(1), of y] rule_day_bounds [OF r(2), of y]
    unfolding date_days_def defs [symmetric] by linarith
  then have "int (date_days y m (rule_day (dst z) y)) + 8 \<le> int (date_days y m' (rule_day (std z) y))"
    by linarith
  moreover have "unat (rhour (dst z)) < 24" using r(1) by (simp add: rule_ok_def)
  then have "int (unat (rhour (dst z))) < 24" "0 \<le> int (unat (rhour (std z)))" by linarith+
  ultimately show ?thesis
    unfolding rule_secs_def date_secs_def defs [symmetric]
    by (simp only: of_nat_add of_nat_mult of_nat_numeral)
qed

lemma northern_dst:
  assumes "northern z"
  shows "in_dst z y t \<longleftrightarrow> dst_utc z y \<le> t \<and> t < std_utc z y"
    "in_dst_loc z y t \<longleftrightarrow> rule_secs (dst z) y \<le> t \<and> t < rule_secs (std z) y"
proof -
  have o: "\<bar>offset (dst z)\<bar> \<le> 1440" "\<bar>offset (std z)\<bar> \<le> 1440"
    using assms by (auto simp: northern_def zone_ok_def mid_year_def)
  then have "dst_utc z y < std_utc z y"
    using northern_order [OF assms, of y] unfolding dst_utc_def std_utc_def by linarith
  moreover have "rule_secs (dst z) y < rule_secs (std z) y"
    using northern_order [OF assms, of y] by linarith
  ultimately show "in_dst z y t \<longleftrightarrow> dst_utc z y \<le> t \<and> t < std_utc z y"
    "in_dst_loc z y t \<longleftrightarrow> rule_secs (dst z) y \<le> t \<and> t < rule_secs (std z) y"
    by (simp_all add: in_dst_def in_dst_loc_def)
qed

definition repeated_hour :: "Timezone \<Rightarrow> nat \<Rightarrow> int \<Rightarrow> bool" where
  "repeated_hour z y t \<longleftrightarrow> std_utc z y \<le> t \<and>
     t < std_utc z y + 60 * (offset (dst z) - offset (std z))"

lemma local_in_dst:
  assumes "northern z" "year_of u = 1970 + int y" "1 \<le> y" "y \<le> 66"
  defines "n \<equiv> int (unat u)"
  shows "\<exists>y'\<le>67. year_of (u + of_int (utc_offset z y n)) = 1970 + int y' \<and>
    in_dst_loc z y' (int (unat (u + of_int (utc_offset z y n)))) = (in_dst z y n \<or> repeated_hour z y n)"
proof -
  have z: "mid_year (dst z)" "mid_year (std z)" "zone_ok z" "offset (std z) \<le> offset (dst z)"
    using assms(1) by (auto simp: northern_def zone_ok_def)
  then have o: "\<bar>offset (dst z)\<bar> \<le> 1440" "\<bar>offset (std z)\<bar> \<le> 1440" by (auto simp: mid_year_def)
  then have "\<bar>utc_offset z y n\<bar> \<le> 86400" by (auto simp: utc_offset_def)
  from local_year [OF z(3) assms(2-4) this] obtain y' i where y': "y' \<le> 67"
    "year_of (u + of_int (utc_offset z y n)) = 1970 + int y'"
    "i = int (unat (u + of_int (utc_offset z y n)))" "i = n + utc_offset z y n"
    "y' = y \<or> y' = y - 1 \<and> 86400 * int (ydays y) - 86400 \<le> i \<and> i < 86400 * int (ydays y)
      \<or> y' = y + 1 \<and> i < 86400 * int (ydays (Suc y)) + 86400 \<and> 86400 * int (ydays (Suc y)) \<le> i"
    unfolding n_def by blast
  note b = rule_secs_bounds [OF z(1), of y] rule_secs_bounds [OF z(2), of y]
  have "in_dst_loc z y' i = (in_dst z y n \<or> repeated_hour z y n)"
    using y'(5)
  proof (elim disjE conjE)
    assume "y' = y"
    then show ?thesis
      using z(4) o northern_order [OF assms(1), of y] y'(4)
      unfolding utc_offset_def repeated_hour_def northern_dst [OF assms(1)] dst_utc_def std_utc_def
      by (auto split: if_splits)
  next
    assume e: "y' = y - 1" "86400 * int (ydays y) - 86400 \<le> i" "i < 86400 * int (ydays y)"
    have "Suc (y - 1) = y" using assms(3) by simp
    then have "rule_secs (std z) y' < i"
      using rule_secs_bounds(2) [OF z(2), of "y - 1"] e by simp
    then show ?thesis
      using e(3) b o z(4) y'(4)
      unfolding utc_offset_def repeated_hour_def northern_dst [OF assms(1)] dst_utc_def std_utc_def
      by (auto split: if_splits)
  next
    assume e: "y' = y + 1" "i < 86400 * int (ydays (Suc y)) + 86400" "86400 * int (ydays (Suc y)) \<le> i"
    then have "i < rule_secs (dst z) y'"
      using rule_secs_bounds(1) [OF z(1), of "y + 1"] by simp
    then show ?thesis
      using e(3) b o z(4) y'(4)
      unfolding utc_offset_def repeated_hour_def northern_dst [OF assms(1)] dst_utc_def std_utc_def
      by (auto split: if_splits simp del: ydays.simps)
  qed
  with y' show ?thesis by blast
qed

section \<open>Properties\<close>

text \<open>C15: For a rule "n-th weekday of a month", \<open>toTime_t\<close> yields the hour of the rule on that
  weekday of that month and year, in the n-th run of seven days.\<close>

theorem toTime_t_nth_weekday:
  assumes "rule_ok r" "week r \<noteq> 0" "y \<le> 134" "cache_ok s"
  shows "\<exists>t s'. toTime_t r (1970 + int y) s = Some (t, s') \<and> year_of t = 1970 + int y \<and>
    tm_Month (breakTime t) = rmonth r \<and> tm_Wday (breakTime t) = dow r \<and>
    tm_Hour (breakTime t) = rhour r \<and> tm_Minute (breakTime t) = 0 \<and> tm_Second (breakTime t) = 0 \<and>
    7 * (unat (week r) - 1) < unat (tm_Day (breakTime t)) \<and>
    unat (tm_Day (breakTime t)) \<le> 7 * unat (week r)"
proof -
  have w: "1 \<le> unat (week r)" using assms(2) by (simp add: word_unat_eq_iff Suc_le_eq)
  obtain g where "rule_day r y = 7 * (unat (week r) - 1) + g mod 7 + 1"
    using assms(2) unfolding rule_day_def Let_def by auto
  moreover have "g mod 7 < 7" by simp
  ultimately have "7 * (unat (week r) - 1) < rule_day r y" "rule_day r y \<le> 7 * unat (week r)"
    using w by linarith+
  then show ?thesis
    using toTime_t_date [OF assms(1,3,4)] breakTime_rule [OF assms(1,3)] by fastforce
qed

text \<open>For a "last weekday" rule (week 0), the day is the last such weekday of the month.\<close>

theorem toTime_t_last_weekday:
  assumes "rule_ok r" "week r = 0" "y \<le> 134" "cache_ok s"
  shows "\<exists>t s'. toTime_t r (1970 + int y) s = Some (t, s') \<and> year_of t = 1970 + int y \<and>
    tm_Month (breakTime t) = rmonth r \<and> tm_Wday (breakTime t) = dow r \<and>
    tm_Hour (breakTime t) = rhour r \<and>
    unat (tm_Day (breakTime t)) \<le> mlen y (unat (rmonth r) - 1) \<and>
    mlen y (unat (rmonth r) - 1) < unat (tm_Day (breakTime t)) + 7"
proof -
  obtain g where "rule_day r y = mlen y (unat (rmonth r) - 1) + g mod 7 - 6"
    using assms(2) unfolding rule_day_def Let_def by auto
  then have "mlen y (unat (rmonth r) - 1) < rule_day r y + 7" by linarith
  then show ?thesis
    using toTime_t_date [OF assms(1,3,4)] breakTime_rule [OF assms(1,3)]
      rule_day_bounds(2) [OF assms(1), of y] by fastforce
qed

text \<open>The firmware's zone: second Sunday of March, first Sunday of November, 2 o'clock.\<close>

definition usDST :: "int \<Rightarrow> TimeChangeRule" where
  "usDST dst_offset = \<lparr>abbrev = '''', week = Second, dow = Sun, rmonth = Mar, rhour = 2,
     offset = dst_offset\<rparr>"

definition usSTD :: "int \<Rightarrow> TimeChangeRule" where
  "usSTD std_offset = \<lparr>abbrev = '''', week = First, dow = Sun, rmonth = Nov, rhour = 2,
     offset = std_offset\<rparr>"

lemma us_rules_ok: "rule_ok (usDST d)" "rule_ok (usSTD d)"
  by (simp_all add: rule_ok_def usDST_def usSTD_def rule_constants)

definition mst_zone :: Timezone where
  "mst_zone = synced (new_Timezone (0, 0, 0, 0) (usDST (- 360)) (usSTD (- 420))) 0"

lemma mst_zone_ok: "northern mst_zone" "zone_synced mst_zone"
  by (simp add: northern_def zone_ok_def mid_year_def us_rules_ok mst_zone_def new_Timezone_def
        synced_def, simp add: usDST_def usSTD_def rule_constants)
     (simp add: mst_zone_def zone_synced_synced)

lemma year_of_0: "year_of 0 = 1970"
  by (simp add: year_of_def breakTime_0 tmYearToCalendar_def)

theorem toTime_t_nth_weekday_witness:
  "rule_ok (usDST (- 360)) \<and> cache_ok timelib_fresh \<and>
   (\<exists>t s'. toTime_t (usDST (- 360)) 2017 timelib_fresh = Some (t, s') \<and>
      tm_Wday (breakTime t) = Sun \<and> 7 < unat (tm_Day (breakTime t)) \<and>
      unat (tm_Day (breakTime t)) \<le> 14)"
  using toTime_t_nth_weekday [of "usDST (- 360)" 47 timelib_fresh] us_rules_ok(1) [of "- 360"] fresh_ok
  by (auto simp: usDST_def rule_constants)

definition euDST :: TimeChangeRule where
  "euDST = \<lparr>abbrev = '''', week = Last, dow = Sun, rmonth = Mar, rhour = 2, offset = 120\<rparr>"

theorem toTime_t_last_weekday_witness:
  "rule_ok euDST \<and> (\<exists>t s'. toTime_t euDST 2017 timelib_fresh = Some (t, s') \<and>
      tm_Wday (breakTime t) = Sun \<and> 31 < unat (tm_Day (breakTime t)) + 7)"
proof -
  have ok: "rule_ok euDST" by (simp add: rule_ok_def euDST_def rule_constants)
  have "mlen 47 (unat (rmonth euDST) - 1) = 31" by (simp add: euDST_def rule_constants mlen_leap)
  then show ?thesis
    using ok toTime_t_last_weekday [of euDST 47 timelib_fresh] fresh_ok
    by (auto simp: euDST_def rule_constants)
qed

text \<open>C13: \<open>toLocal\<close> adds the daylight offset exactly between the two change points of the
  UTC time's own year and the standard offset otherwise, recomputing the stored change points
  when they are those of another year, and leaves in the zone the four change points of that
  year (\<open>synced z y\<close>). The year is one of 1970 to 2037; the rules are well formed, with changes
  in the months February to November and offsets of at most a day; and the stored points are
  those of some year to begin with, or their year is not the one asked for: a zone whose
  uninitialised points happen to lie in the year of the first query is excluded.\<close>

theorem toLocal_correct:
  assumes "zone_ok z" "year_of t = 1970 + int y" "y \<le> 67" "cache_ok s"
    and "zone_synced z \<or> year_of (dstUTC z) \<noteq> year_of t"
  shows "\<exists>z' s'. toLocal t z s = Some
      (t + of_int (60 * offset (if in_dst z y (int (unat t)) then dst z else std z)), z', s') \<and>
    z' = synced z y \<and> zone_synced z' \<and> dst z' = dst z \<and> std z' = std z \<and> cache_ok s'"
  using toLocal_synced [OF assms] zone_synced_synced [OF assms(3), of z]
  by (auto simp: utc_offset_def simp del: of_int_mult)

theorem toLocal_correct_witness:
  "zone_ok mst_zone \<and> (\<exists>z' s'. toLocal 0 mst_zone timelib_fresh = Some
     (of_int (60 * offset (if in_dst mst_zone 0 0 then dst mst_zone else std mst_zone)), z', s'))"
  using toLocal_correct [of mst_zone 0 0 timelib_fresh] mst_zone_ok fresh_ok
  by (auto simp: northern_def year_of_0 simp del: of_int_mult)

text \<open>C14: \<open>toUTC\<close> inverts \<open>toLocal\<close> for a zone of the northern hemisphere in the years 1971
  to 2036, except in the hour that local clocks show twice when daylight time ends: there the
  local time is taken as the earlier of the two, as the source's comment says.\<close>

theorem toUTC_toLocal:
  assumes "northern z" "year_of u = 1970 + int y" "1 \<le> y" "y \<le> 66" "cache_ok s"
    and "zone_synced z \<or> year_of (dstUTC z) \<noteq> year_of u"
  shows "\<exists>l z1 s1 z2 s2. toLocal u z s = Some (l, z1, s1) \<and>
    toUTC l z1 s1 = Some
      (if repeated_hour z y (int (unat u)) then u - of_int (60 * (offset (dst z) - offset (std z)))
       else u, z2, s2)"
proof -
  let ?n = "int (unat u)"
  have z: "zone_ok z" using assms(1) by (simp add: northern_def)
  define l where "l = u + of_int (utc_offset z y ?n)"
  obtain s1 where l: "toLocal u z s = Some (l, synced z y, s1)" "cache_ok s1"
    using toLocal_synced [OF z assms(2) _ assms(5,6)] assms(4) by (auto simp: l_def)
  obtain y' where y': "y' \<le> 67" "year_of l = 1970 + int y'"
    "in_dst_loc z y' (int (unat l)) = (in_dst z y ?n \<or> repeated_hour z y ?n)"
    using local_in_dst [OF assms(1-4)] unfolding l_def by blast
  have loc: "in_dst_loc (synced z y) = in_dst_loc z" by (simp add: in_dst_loc_def fun_eq_iff)
  have z': "zone_ok (synced z y)" "zone_synced (synced z y)"
    using z assms(4) by (simp_all add: zone_synced_synced)
  obtain s2 where "toUTC l (synced z y) s1 =
      Some (l - of_int (60 * offset (if in_dst z y ?n \<or> repeated_hour z y ?n then dst z else std z)),
        synced z y', s2)"
    using toUTC_synced [OF z'(1) y'(2,1) l(2)] z'(2) unfolding loc y'(3) synced_rules by blast
  moreover have "repeated_hour z y ?n \<Longrightarrow> \<not> in_dst z y ?n"
    by (simp add: repeated_hour_def northern_dst [OF assms(1)])
  ultimately show ?thesis
    using l(1) by (auto simp: l_def utc_offset_def algebra_simps)
qed

lemma year_of_1971: "year_of 31536000 = 1971"
  using year_of_iff [of 31536000 1] by (simp add: ylen_leap LEAP_YEAR_def)

theorem toUTC_toLocal_witness:
  "northern mst_zone \<and> (\<exists>l z1 s1 u z2 s2. toLocal 31536000 mst_zone timelib_fresh = Some (l, z1, s1) \<and>
     toUTC l z1 s1 = Some (u, z2, s2))"
  using toUTC_toLocal [of mst_zone 31536000 1 timelib_fresh] mst_zone_ok fresh_ok
  by (auto simp: year_of_1971 simp del: of_int_mult)

text \<open>The constructor leaves the change points indeterminate, and a conversion trusts them
  when they happen to lie in the right year: with the memory all zero, a northern zone applies
  daylight time at the epoch, in January.\<close>

theorem uninitialised_change_points:
  assumes "northern (new_Timezone (0, 0, 0, 0) d r)"
  shows "(\<exists>z' s'. toLocal 0 (new_Timezone (0, 0, 0, 0) d r) timelib_fresh =
      Some (offset_secs d, z', s')) \<and>
    \<not> in_dst (new_Timezone (0, 0, 0, 0) d r) 0 0"
proof
  have "cache_ok (refreshCache t timelib_fresh)" for t
    using fresh_ok by (simp add: refreshCache_ok)
  then show "\<exists>z' s'. toLocal 0 (new_Timezone (0, 0, 0, 0) d r) timelib_fresh =
      Some (offset_secs d, z', s')"
    using fresh_ok
    by (simp add: toLocal_def utcIsDST_def recalc_def year_coherent refreshCache_ok new_Timezone_def)
  have z: "mid_year d" "\<bar>offset r\<bar> \<le> 1440"
    using assms by (auto simp: northern_def zone_ok_def new_Timezone_def mid_year_def)
  then show "\<not> in_dst (new_Timezone (0, 0, 0, 0) d r) 0 0"
    using rule_secs_bounds(1) [OF z(1), of 0] unfolding northern_dst [OF assms]
    by (auto simp: dst_utc_def new_Timezone_def)
qed

theorem uninitialised_change_points_witness:
  "northern (new_Timezone (0, 0, 0, 0) (usDST (- 360)) (usSTD (- 420))) \<and>
   (\<exists>z' s'. toLocal 0 (new_Timezone (0, 0, 0, 0) (usDST (- 360)) (usSTD (- 420))) timelib_fresh =
      Some (- 21600, z', s'))"
proof -
  have "northern (new_Timezone (0, 0, 0, 0) (usDST (- 360)) (usSTD (- 420)))"
    using mst_zone_ok(1) by (simp add: mst_zone_def northern_def)
  with uninitialised_change_points [of "usDST (- 360)" "usSTD (- 420)"] show ?thesis
    by (simp add: offset_secs_int usDST_def)
qed

end
