(* ===== verification/DateStrings.thy ===== *)
theory DateStrings
  imports TimeLib
begin

text \<open>
  The names of months and weekdays, \<^verbatim>\<open>esp8266_sim/DateStrings.cpp\<close>. The tables are the
  source's arrays with their terminating zero; a read past an array is \<open>None\<close>. The functions
  return a static buffer, which every caller in the firmware copies into a \<open>String\<close> at once,
  so the model returns its contents.
\<close>

definition dt_SHORT_STR_LEN :: nat where "dt_SHORT_STR_LEN = 3"

definition monthNames_P :: "string list" where
  "monthNames_P = [[], ''January'', ''February'', ''March'', ''April'', ''May'', ''June'',
     ''July'', ''August'', ''September'', ''October'', ''November'', ''December'']"

definition monthShortNames_P :: string where
  "monthShortNames_P = ''ErrJanFebMarAprMayJunJulAugSepOctNovDec'' @ [NUL]"

definition dayNames_P :: "string list" where
  "dayNames_P = [''Err'', ''Sunday'', ''Monday'', ''Tuesday'', ''Wednesday'', ''Thursday'',
     ''Friday'', ''Saturday'']"

definition dayShortNames_P :: string where
  "dayShortNames_P = ''ErrSunMonTueWedThuFriSat'' @ [NUL]"

definition read_at :: "'a list \<Rightarrow> nat \<Rightarrow> 'a option" where
  "read_at xs i = (if i < length xs then Some (xs ! i) else None)"

text \<open>The copy loop \<open>for (int i = 0; i < dt_SHORT_STR_LEN; i++) buffer[i] = table[base + i];\<close>
  followed by \<open>buffer[dt_SHORT_STR_LEN] = 0;\<close>, read as a C string.\<close>

fun copy_chars :: "string \<Rightarrow> nat \<Rightarrow> nat list \<Rightarrow> string option" where
  "copy_chars table base [] = Some []"
| "copy_chars table base (i # is) =
     (case read_at table (base + i) of
        None \<Rightarrow> None
      | Some c \<Rightarrow> map_option ((#) c) (copy_chars table base is))"

definition c_string_of :: "string \<Rightarrow> string" where
  "c_string_of buffer = takeWhile (\<lambda>c. c \<noteq> NUL) buffer"

definition monthStr :: "u8 \<Rightarrow> string option" where
  "monthStr m = read_at monthNames_P (unat m)"

definition monthShortStr :: "u8 \<Rightarrow> string option" where
  "monthShortStr m =
     map_option c_string_of
       (copy_chars monthShortNames_P (unat m * dt_SHORT_STR_LEN) [0..<dt_SHORT_STR_LEN])"

definition dayStr :: "u8 \<Rightarrow> string option" where
  "dayStr d = read_at dayNames_P (unat d)"

text \<open>The index is an 8-bit variable.\<close>

definition dayShortStr :: "u8 \<Rightarrow> string option" where
  "dayShortStr d =
     (let index = d * of_nat dt_SHORT_STR_LEN
      in map_option c_string_of (copy_chars dayShortNames_P (unat index) [0..<dt_SHORT_STR_LEN]))"

lemmas name_tables = monthNames_P_def monthShortNames_P_def dayNames_P_def dayShortNames_P_def

lemma upt_3: "[0..<dt_SHORT_STR_LEN] = [0, 1, 2]" "[0..<3] = [0, 1, 2 :: nat]"
  by (simp_all add: dt_SHORT_STR_LEN_def upt_conv_Cons)

lemma u8_of_nat: "(x :: u8) = of_nat (unat x)"
  by simp

lemma nat_less_13: "(n :: nat) < 13 \<longleftrightarrow> n \<in> {0, 1, 2, 3, 4, 5, 6, 7, 8, 9, 10, 11, 12}"
  unfolding insert_iff empty_iff by arith

lemma nat_less_8: "(n :: nat) < 8 \<longleftrightarrow> n \<in> {0, 1, 2, 3, 4, 5, 6, 7}"
  unfolding insert_iff empty_iff by arith

text \<open>The short name of a month is the first three letters of the long one, and the read is in
  bounds exactly up to December.\<close>

lemma table_lengths: "length monthShortNames_P = 40" "length dayShortNames_P = 25"
  by (simp_all add: name_tables)

lemma monthShortStr_defined: "monthShortStr m = None \<longleftrightarrow> 12 < unat m"
  by (auto simp: monthShortStr_def upt_3 read_at_def table_lengths dt_SHORT_STR_LEN_def)

lemma monthStr_defined: "monthStr m = None \<longleftrightarrow> 12 < unat m"
  by (auto simp: monthStr_def read_at_def name_tables)

lemma dayStr_defined: "dayStr d = None \<longleftrightarrow> 7 < unat d"
  by (auto simp: dayStr_def read_at_def name_tables)

text \<open>Every date that \<open>breakTime\<close> produces has names: its month and weekday are in the
  tables, and the short name is the first three letters of the long one.\<close>

theorem date_names_defined:
  "\<exists>ml ms dl ds. monthStr (tm_Month (breakTime t)) = Some ml \<and>
     monthShortStr (tm_Month (breakTime t)) = Some ms \<and> ms = take 3 ml \<and> length ms = 3 \<and>
     dayStr (tm_Wday (breakTime t)) = Some dl \<and> dayShortStr (tm_Wday (breakTime t)) = Some ds \<and>
     ds = take 3 dl \<and> length ds = 3"
proof -
  have v: "tm_valid (breakTime t)" by (rule breakTime_valid)
  define m where "m = unat (tm_Month (breakTime t))"
  define d where "d = unat (tm_Wday (breakTime t))"
  have m: "1 \<le> m" "m < 13" "tm_Month (breakTime t) = of_nat m"
    using v by (auto simp: tm_valid_def tm_date_valid_def m_def)
  have "d = (tm_days (breakTime t) + 4) mod 7 + 1" using v by (simp add: tm_valid_def d_def)
  then have d: "1 \<le> d" "d < 8" by simp_all
  have d': "tm_Wday (breakTime t) = of_nat d" by (simp add: d_def)
  have "\<exists>ml ms. monthStr (of_nat m) = Some ml \<and> monthShortStr (of_nat m) = Some ms \<and>
      ms = take 3 ml \<and> length ms = 3"
    using m(1,2) unfolding nat_less_13
    by (elim insertE)
       (simp_all add: monthStr_def monthShortStr_def upt_3 read_at_def dt_SHORT_STR_LEN_def
         name_tables c_string_of_def NUL_def)
  moreover have "\<exists>dl ds. dayStr (of_nat d) = Some dl \<and> dayShortStr (of_nat d) = Some ds \<and>
      ds = take 3 dl \<and> length ds = 3"
    using d(1,2) unfolding nat_less_8
    by (elim insertE)
       (simp_all add: dayStr_def dayShortStr_def upt_3 read_at_def dt_SHORT_STR_LEN_def
         name_tables c_string_of_def NUL_def)
  ultimately show ?thesis unfolding m(3) d' by blast
qed

end
