(* ===== verification/DisplayData.thy ===== *)
theory DisplayData
  imports TimeLib
begin

text \<open>
  The readings and what the display last showed, \<^verbatim>\<open>weather_station_base/sensor_data.cpp\<close> and
  \<^verbatim>\<open>display_data.cpp\<close>: \<open>sensor_data\<close>, \<open>display_data\<close>, the test whether a redraw is due
  (\<open>changed\<close>, which threads the Time library's cache) and the strings shown. \<open>String(int)\<close> is
  \<open>dec_of_int\<close>; the degree sign of the display font is the byte \<open>0xA7\<close>.
\<close>

section \<open>sensor_data\<close>

record sensor_data =
  temperature :: int
  humidity :: int

definition new_sensor_data :: sensor_data where
  "new_sensor_data = \<lparr>temperature = 0xffff, humidity = 0xffff\<rparr>"

definition sensor_eq :: "sensor_data \<Rightarrow> sensor_data \<Rightarrow> bool" where
  "sensor_eq a b \<longleftrightarrow> temperature a = temperature b \<and> humidity a = humidity b"

definition sensor_neq :: "sensor_data \<Rightarrow> sensor_data \<Rightarrow> bool" where
  "sensor_neq a b \<longleftrightarrow> \<not> sensor_eq a b"

definition degree_sign :: char where
  "degree_sign = CHR 0xA7"

definition sensor_to_string :: "sensor_data \<Rightarrow> string" where
  "sensor_to_string d =
     (let temp_string = (if temperature d < 255 then dec_of_int (temperature d) else ''--'');
          humidity_string = (if humidity d < 255 then dec_of_int (humidity d) else ''--'')
      in temp_string @ [degree_sign] @ ''F '' @ humidity_string @ ''%'')"

section \<open>display_data\<close>

record display_data =
  local_data :: sensor_data
  remote_data :: sensor_data
  shown_time :: time_t

text \<open>\<open>minute(time) == minute(new_time)\<close> and the like, and the short-circuit conjunction.\<close>

definition same_field ::
    "(time_t \<Rightarrow> timelib \<Rightarrow> int \<times> timelib) \<Rightarrow> time_t \<Rightarrow> time_t \<Rightarrow> timelib \<Rightarrow> bool \<times> timelib" where
  "same_field get t u s = (let (a, s) = get t s; (b, s) = get u s in (a = b, s))"

fun same_fields ::
    "(time_t \<Rightarrow> timelib \<Rightarrow> int \<times> timelib) list \<Rightarrow> time_t \<Rightarrow> time_t \<Rightarrow> timelib \<Rightarrow> bool \<times> timelib" where
  "same_fields [] t u s = (True, s)"
| "same_fields (get # gets) t u s =
     (let (same, s) = same_field get t u s
      in if same then same_fields gets t u s else (False, s))"

definition time_is_same :: "display_data \<Rightarrow> time_t \<Rightarrow> timelib \<Rightarrow> bool \<times> timelib" where
  "time_is_same d new_time s =
     same_fields [minute, hour, day, month, year] (shown_time d) new_time s"

definition changed ::
    "display_data \<Rightarrow> sensor_data \<Rightarrow> sensor_data \<Rightarrow> time_t \<Rightarrow> timelib \<Rightarrow> bool \<times> timelib" where
  "changed d new_local new_remote new_time s =
     (let (same, s) = time_is_same d new_time s
      in (\<not> same \<or> sensor_neq new_local (local_data d) \<or> sensor_neq new_remote (remote_data d), s))"

definition update :: "display_data \<Rightarrow> sensor_data \<Rightarrow> sensor_data \<Rightarrow> time_t \<Rightarrow> display_data" where
  "update d new_local new_remote new_time =
     d\<lparr>shown_time := new_time, local_data := new_local, remote_data := new_remote\<rparr>"

definition get_local_sensor_string :: "display_data \<Rightarrow> string" where
  "get_local_sensor_string d = sensor_to_string (local_data d)"

definition get_remote_sensor_string :: "display_data \<Rightarrow> string" where
  "get_remote_sensor_string d = sensor_to_string (remote_data d)"

text \<open>The fill loop of \<open>pad_int\<close> appends one fill character per round.\<close>

fun fill_loop :: "nat \<Rightarrow> char \<Rightarrow> string \<Rightarrow> string" where
  "fill_loop 0 fill fill_str = fill_str"
| "fill_loop (Suc n) fill fill_str = fill_loop n fill (fill_str @ [fill])"

definition pad_int :: "int \<Rightarrow> nat \<Rightarrow> char \<Rightarrow> string" where
  "pad_int val width fill =
     (let s = dec_of_int val
      in if length s < width then fill_loop (width - length s) fill [] @ s else s)"

definition time_string :: "tmElements_t \<Rightarrow> string" where
  "time_string tm =
     pad_int (uint (tm_Hour tm)) 2 (CHR '' '') @ '':'' @ pad_int (uint (tm_Minute tm)) 2 (CHR ''0'')"

definition date_string :: "tmElements_t \<Rightarrow> string" where
  "date_string tm =
     pad_int (uint (tm_Month tm)) 2 (CHR '' '') @ ''/'' @ pad_int (uint (tm_Day tm)) 2 (CHR '' '') @
     ''/'' @ dec_of_int (uint (tm_Year tm) + 1970)"

definition get_time_string :: "display_data \<Rightarrow> string" where
  "get_time_string d = time_string (breakTime (shown_time d))"

definition get_date_string :: "display_data \<Rightarrow> string" where
  "get_date_string d = date_string (breakTime (shown_time d))"

section \<open>Lemmas\<close>

lemma sensor_neq_iff: "sensor_neq a b \<longleftrightarrow> a \<noteq> b"
  by (auto simp: sensor_neq_def sensor_eq_def intro: sensor_data.equality)

text \<open>The short-circuit chain from a coherent cache compares the fields of \<open>breakTime\<close>.\<close>

lemma same_field_coherent:
  assumes "cached_accessor get f" "cache_ok s"
  shows "fst (same_field get t u s) \<longleftrightarrow> f (breakTime t) = f (breakTime u)"
    "cache_ok (snd (same_field get t u s))"
  using assms cached_accessor.get_coherent [OF assms(1)] refreshCache_ok
  by (simp_all add: same_field_def case_prod_beta)

lemma same_fields_coherent:
  assumes "list_all2 cached_accessor gets fs" "cache_ok s"
  shows "(fst (same_fields gets t u s) \<longleftrightarrow> (\<forall>f \<in> set fs. f (breakTime t) = f (breakTime u))) \<and>
    cache_ok (snd (same_fields gets t u s))"
  using assms
proof (induction gets fs arbitrary: s rule: list_all2_induct)
  case Nil
  then show ?case by simp
next
  case (Cons get gets f fs)
  note h = same_field_coherent [OF Cons.hyps(1) Cons.prems, of t u]
  show ?case
    using Cons.IH [OF h(2)] h by (auto simp: case_prod_beta Let_def)
qed

definition shown_fields :: "(tmElements_t \<Rightarrow> int) list" where
  "shown_fields = [\<lambda>tm. uint (tm_Minute tm), \<lambda>tm. uint (tm_Hour tm), \<lambda>tm. uint (tm_Day tm),
     \<lambda>tm. uint (tm_Month tm), \<lambda>tm. tmYearToCalendar (tm_Year tm)]"

lemma shown_accessors: "list_all2 cached_accessor [minute, hour, day, month, year] shown_fields"
  by (simp add: shown_fields_def minute_acc.cached_accessor_axioms hour_acc.cached_accessor_axioms
      day_acc.cached_accessor_axioms month_acc.cached_accessor_axioms year_acc.cached_accessor_axioms)

lemma div_radix: "s < k \<Longrightarrow> (x * k + s) div k = (x :: nat)"
  by simp

lemma minute_number:
  assumes "tm_valid a"
  shows "tm_secs a div 60 = (tm_days a * 24 + unat (tm_Hour a)) * 60 + unat (tm_Minute a)"
  using assms unfolding tm_secs_def tm_valid_def by (simp only: div_radix)

lemma same_minute:
  "(\<forall>f \<in> set shown_fields. f (breakTime t) = f (breakTime u)) \<longleftrightarrow> unat t div 60 = unat u div 60"
proof -
  let ?a = "breakTime t" and ?b = "breakTime u"
  have v: "tm_valid ?a" "tm_valid ?b" by (simp_all add: breakTime_valid)
  have "(\<forall>f \<in> set shown_fields. f ?a = f ?b) \<longleftrightarrow>
      tm_Minute ?a = tm_Minute ?b \<and> tm_Hour ?a = tm_Hour ?b \<and> tm_Day ?a = tm_Day ?b \<and>
      tm_Month ?a = tm_Month ?b \<and> tm_Year ?a = tm_Year ?b"
    by (simp add: shown_fields_def tmYearToCalendar_def word_uint_eq_iff)
  also have "\<dots> \<longleftrightarrow> tm_Minute ?a = tm_Minute ?b \<and> tm_Hour ?a = tm_Hour ?b \<and> tm_days ?a = tm_days ?b"
    using date_unique [of ?a ?b] v by (auto simp: tm_valid_def tm_days_def)
  also have "\<dots> \<longleftrightarrow> tm_secs ?a div 60 = tm_secs ?b div 60"
    unfolding minute_number [OF v(1)] minute_number [OF v(2)] word_unat_eq_iff
    using v unfolding tm_valid_def by (metis radix_unique)
  finally show ?thesis by (simp add: breakTime_secs)
qed

lemma changed_coherent:
  assumes "cache_ok s"
  shows "(fst (changed d l r t s) \<longleftrightarrow>
      unat (shown_time d) div 60 \<noteq> unat t div 60 \<or> l \<noteq> local_data d \<or> r \<noteq> remote_data d)"
    "cache_ok (snd (changed d l r t s))"
  using same_fields_coherent [OF shown_accessors assms, of "shown_time d" t]
  unfolding same_minute
  by (auto simp: changed_def time_is_same_def case_prod_beta Let_def sensor_neq_iff)

text \<open>What a reader of the display can tell: a reading of 255 or more shows as dashes.\<close>

definition shown :: "int \<Rightarrow> int option" where
  "shown v = (if v < 255 then Some v else None)"

definition shown_string :: "int option \<Rightarrow> string" where
  "shown_string v = (case v of None \<Rightarrow> ''--'' | Some i \<Rightarrow> dec_of_int i)"

lemma dec_of_nat_inj: "dec_of_nat a = dec_of_nat b \<longleftrightarrow> a = b"
  by (metis digits_value_dec)

lemma dec_of_nat_no_minus: "CHR ''-'' \<notin> set (dec_of_nat n)"
  using dec_of_nat_digits [of n] digit_not_sign by blast

lemma dec_of_int_inj: "dec_of_int a = dec_of_int b \<longleftrightarrow> a = b"
  using dec_of_nat_no_minus dec_of_nat_inj [of "nat a" "nat b"] dec_of_nat_inj [of "nat (- a)" "nat (- b)"]
  by (auto simp: dec_of_int_def split: if_splits) (metis list.set_intros(1))+

lemma shown_string_inj: "shown_string a = shown_string b \<longleftrightarrow> a = b"
proof -
  have "dec_of_int i \<noteq> ''--''" for i
    using dec_of_nat_no_minus [of "nat (- i)"] dec_of_nat_no_minus [of "nat i"]
    by (auto simp: dec_of_int_def)
  then show ?thesis
    by (auto simp: shown_string_def dec_of_int_inj split: option.split) metis+
qed

lemma shown_string_chars: "c \<in> set (shown_string v) \<Longrightarrow> is_digit c \<or> c = CHR ''-''"
  by (auto simp: shown_string_def dest: dec_of_int_chars split: option.splits)

lemma sensor_to_string_shown:
  "sensor_to_string d = shown_string (shown (temperature d)) @ degree_sign # ''F '' @
     shown_string (shown (humidity d)) @ ''%''"
  by (simp add: sensor_to_string_def shown_def shown_string_def Let_def)

lemma split_at_unique:
  assumes "xs @ c # ys = xs' @ c # ys'" "c \<notin> set xs" "c \<notin> set xs'"
  shows "xs = xs' \<and> ys = ys'"
proof -
  have "takeWhile (\<lambda>x. x \<noteq> c) (xs @ c # ys) = xs" "takeWhile (\<lambda>x. x \<noteq> c) (xs' @ c # ys') = xs'"
    using assms(2,3) by (induction xs, auto, induction xs', auto)
  with assms(1) show ?thesis by auto
qed

lemma fill_loop_replicate: "fill_loop n fill s = s @ replicate n fill"
  by (induction n arbitrary: s) (simp_all add: replicate_app_Cons_same)

lemma pad_int_eq: "pad_int v w fill = replicate (w - length (dec_of_int v)) fill @ dec_of_int v"
  by (simp add: pad_int_def fill_loop_replicate Let_def)

text \<open>Two-digit fields.\<close>

lemma dec_two:
  assumes "n < 100"
  shows "length (dec_of_int (int n)) \<le> 2"
proof -
  have "n div 10 < 10" using assms by simp
  then have "length (dec_of_nat (n div 10)) = 1" by (subst dec_of_nat.simps) simp
  then have "length (dec_of_nat n) \<le> 2" by (subst dec_of_nat.simps) simp
  then show ?thesis by (simp add: dec_of_int_def)
qed

lemma atol_space: "atol (CHR '' '' # s) = atol s"
  by (simp add: atol_def is_space_def char_code_def)

lemma atol_zero_dec: "atol (CHR ''0'' # dec_of_int (int n) @ ys) = atol (dec_of_int (int n) @ ys)"
proof -
  obtain c cs where c: "dec_of_nat n = c # cs" "is_digit c" using dec_of_nat_hd by blast
  have z: "is_digit CHR ''0''" "digit_val CHR ''0'' = 0" "\<not> is_space CHR ''0''"
    by (simp_all add: is_digit_def digit_val_def is_space_def char_code_def)
  show ?thesis
    using c z digit_not_space [OF c(2)] digit_not_sign [OF c(2)]
    by (simp add: atol_def atol_unsigned_def dec_of_int_def)
qed

lemma pad_two:
  assumes "n < 100" "fill = CHR '' '' \<or> fill = CHR ''0''"
  shows "length (pad_int (int n) 2 fill) = 2"
    "ys = [] \<or> \<not> is_digit (hd ys) \<Longrightarrow> atol (pad_int (int n) 2 fill @ ys) = int n"
proof -
  have l: "length (dec_of_int (int n)) \<in> {1, 2}"
    using dec_two [OF assms(1)] dec_of_int_nonempty [of "int n"]
    by (cases "length (dec_of_int (int n))") auto
  then show "length (pad_int (int n) 2 fill) = 2" by (auto simp: pad_int_eq)
  assume "ys = [] \<or> \<not> is_digit (hd ys)"
  then have "atol (dec_of_int (int n) @ ys) = int n"
    using assms(1) by (intro atol_dec_append) (simp_all add: int32_range_def)
  then show "atol (pad_int (int n) 2 fill @ ys) = int n"
    using l assms(2) by (auto simp: pad_int_eq atol_space atol_zero_dec numeral_2_eq_2)
qed

section \<open>Properties\<close>

text \<open>C19: From a coherent cache, \<open>changed\<close> asks for a redraw exactly when the minute on the
  clock (calendar date included) or one of the two readings differs from what was last shown,
  and right after \<open>update\<close> with the same values it does not.\<close>

theorem changed_iff_visible:
  assumes "cache_ok s"
  shows "(fst (changed d l r t s) \<longleftrightarrow>
      unat (shown_time d) div 60 \<noteq> unat t div 60 \<or> l \<noteq> local_data d \<or> r \<noteq> remote_data d) \<and>
    \<not> fst (changed (update d l r t) l r t (snd (changed d l r t s)))"
  using changed_coherent [OF assms, of d l r t]
    changed_coherent(1) [of "snd (changed d l r t s)" "update d l r t" l r t]
  by (simp add: update_def)

theorem changed_iff_visible_witness:
  "fst (changed \<lparr>local_data = new_sensor_data, remote_data = new_sensor_data, shown_time = 59\<rparr>
     new_sensor_data new_sensor_data 60 timelib_fresh)"
proof -
  have "cache_ok timelib_fresh" by (simp add: cache_ok_def timelib_fresh_def timelib_init_def)
  from changed_iff_visible [OF this, of "\<lparr>local_data = new_sensor_data,
      remote_data = new_sensor_data, shown_time = 59\<rparr>" new_sensor_data new_sensor_data 60]
  show ?thesis by simp
qed

text \<open>Two readings are displayed alike exactly when they agree up to values of 255 and more,
  which show as dashes.\<close>

theorem sensor_string_faithful:
  "sensor_to_string a = sensor_to_string b \<longleftrightarrow>
     shown (temperature a) = shown (temperature b) \<and> shown (humidity a) = shown (humidity b)"
proof -
  have n: "degree_sign \<notin> set (shown_string v)" "CHR ''%'' \<notin> set (shown_string v)" for v
    by (auto dest!: shown_string_chars simp: degree_sign_def is_digit_def char_code_def)
  let ?t = "\<lambda>d. shown_string (shown (temperature d))"
  let ?h = "\<lambda>d. shown_string (shown (humidity d))"
  have "?t a @ degree_sign # ''F '' @ ?h a @ ''%'' = ?t b @ degree_sign # ''F '' @ ?h b @ ''%'' \<longleftrightarrow>
      ?t a = ?t b \<and> ?h a = ?h b" (is "?l \<longleftrightarrow> ?r")
  proof
    assume ?l
    from split_at_unique [OF this n(1) n(1)] show ?r by (simp only: append_same_eq same_append_eq)
  qed (simp only:)
  then show ?thesis
    unfolding sensor_to_string_shown by (simp only: shown_string_inj)
qed

text \<open>The clock string always has five characters and reads back as the hour and minute of
  the displayed time.\<close>

theorem time_string_reads_back:
  "length (get_time_string d) = 5 \<and>
   atol (get_time_string d) = int (unat (shown_time d) div 3600 mod 24) \<and>
   atol (drop 3 (get_time_string d)) = int (unat (shown_time d) div 60 mod 60)"
proof -
  define h m where "h = unat (shown_time d) div 60 div 60 mod 24"
    and "m = unat (shown_time d) div 60 mod 60"
  have "h < 24" "m < 60" unfolding h_def m_def by simp_all
  then have hm: "h < 100" "m < 100" by simp_all
  have "get_time_string d = pad_int (int h) 2 (CHR '' '') @ '':'' @ pad_int (int m) 2 (CHR ''0'')"
    unfolding get_time_string_def time_string_def uint_nat h_def m_def by (simp only: breakTime_clock)
  moreover have "h = unat (shown_time d) div 3600 mod 24"
    by (simp add: h_def div_mult2_eq [symmetric])
  moreover have "\<not> is_digit CHR '':''" by (simp add: is_digit_def char_code_def)
  ultimately show ?thesis
    using pad_two(1) [OF hm(1), of "CHR '' ''"] pad_two(1) [OF hm(2), of "CHR ''0''"]
      pad_two(2) [OF hm(1), of "CHR '' ''" "CHR '':'' # pad_int (int m) 2 (CHR ''0'')"]
      pad_two(2) [OF hm(2), of "CHR ''0''" "[]"]
    by (simp add: m_def del: of_nat_mod)
qed

end
