(* ===== verification/Display.thy ===== *)
theory Display
  imports DisplayData
begin

text \<open>
  The screen, \<^verbatim>\<open>weather_station_base/display.cpp\<close>: five fixed regions, each redrawn only when
  its string differs from the last one drawn there. The LCD driver is the sequence of drawing
  commands sent to it; an abstract screen says which text was last printed in which region, and the
  operations are shown to keep it. What the commands do to the pixels is in LcdPixels. The log lines on the serial port are left out.
\<close>

section \<open>Data\<close>

record Region =
  rx :: int
  ry :: int
  rw :: int
  rh :: int
  font_size :: int

definition time_region :: Region where
  "time_region = \<lparr>rx = 20, ry = 40, rw = 120, rh = 35, font_size = 4\<rparr>"
definition time_meridian_region :: Region where
  "time_meridian_region = \<lparr>rx = 145, ry = 50, rw = 30, rh = 25, font_size = 2\<rparr>"
definition date_region :: Region where
  "date_region = \<lparr>rx = 20, ry = 85, rw = 210, rh = 20, font_size = 2\<rparr>"
definition inside_temp_region :: Region where
  "inside_temp_region = \<lparr>rx = 20, ry = 160, rw = 180, rh = 20, font_size = 2\<rparr>"
definition outside_temp_region :: Region where
  "outside_temp_region = \<lparr>rx = 20, ry = 220, rw = 180, rh = 20, font_size = 2\<rparr>"

lemmas region_defs = time_region_def time_meridian_region_def date_region_def
  inside_temp_region_def outside_temp_region_def

definition ILI9341_WHITE :: u16 where "ILI9341_WHITE = 0xFFFF"
definition ILI9341_BLACK :: u16 where "ILI9341_BLACK = 0x0000"

datatype lcd_cmd =
    LcdBegin
  | SetRotation int
  | FillScreen u16
  | FillRect int int int int u16
  | SetCursor int int
  | SetTextColor u16
  | SetTextSize int
  | Print string

record Display =
  m_lcd :: "lcd_cmd list"
  m_last_time_string :: string
  m_last_time_meridian :: string
  m_last_date_string :: string
  m_last_inside_temp_string :: string
  m_last_outside_temp_string :: string

section \<open>Operations\<close>

definition new_Display :: Display where
  "new_Display = \<lparr>m_lcd = [], m_last_time_string = [], m_last_time_meridian = [],
     m_last_date_string = [], m_last_inside_temp_string = [], m_last_outside_temp_string = []\<rparr>"

definition send_lcd :: "lcd_cmd list \<Rightarrow> Display \<Rightarrow> Display" where
  "send_lcd cmds d = d\<lparr>m_lcd := m_lcd d @ cmds\<rparr>"

definition display_begin :: "Display \<Rightarrow> Display" where
  "display_begin d = send_lcd [LcdBegin, SetRotation 2, FillScreen ILI9341_WHITE] d"

definition clear_region :: "Region \<Rightarrow> Display \<Rightarrow> Display" where
  "clear_region r d = send_lcd [FillRect (rx r) (ry r) (rw r) (rh r) ILI9341_WHITE] d"

definition write_region :: "Region \<Rightarrow> string \<Rightarrow> Display \<Rightarrow> Display" where
  "write_region r str d =
     send_lcd [SetCursor (rx r + 2) (ry r + 2), SetTextColor ILI9341_BLACK,
               SetTextSize (font_size r), Print str] d"

definition update_region :: "Region \<Rightarrow> string \<Rightarrow> Display \<Rightarrow> Display" where
  "update_region r str d = write_region r str (clear_region r d)"

definition update_time_string :: "string \<Rightarrow> Display \<Rightarrow> Display" where
  "update_time_string str d =
     (if str \<noteq> m_last_time_string d
      then (update_region time_region str d)\<lparr>m_last_time_string := str\<rparr> else d)"

definition update_time_meridian :: "string \<Rightarrow> Display \<Rightarrow> Display" where
  "update_time_meridian str d =
     (if str \<noteq> m_last_time_meridian d
      then (update_region time_meridian_region str d)\<lparr>m_last_time_meridian := str\<rparr> else d)"

definition update_date_string :: "string \<Rightarrow> Display \<Rightarrow> Display" where
  "update_date_string str d =
     (if str \<noteq> m_last_date_string d
      then (update_region date_region str d)\<lparr>m_last_date_string := str\<rparr> else d)"

definition update_inside_temp_string :: "string \<Rightarrow> Display \<Rightarrow> Display" where
  "update_inside_temp_string str d =
     (if str \<noteq> m_last_inside_temp_string d
      then (let inside_temp_string = ''In: '' @ str
            in (update_region inside_temp_region inside_temp_string d)
                 \<lparr>m_last_inside_temp_string := str\<rparr>) else d)"

definition update_outside_temp_string :: "string \<Rightarrow> Display \<Rightarrow> Display" where
  "update_outside_temp_string str d =
     (if str \<noteq> m_last_outside_temp_string d
      then (let outside_temp_string = ''Out: '' @ str
            in (update_region outside_temp_region outside_temp_string d)
                 \<lparr>m_last_outside_temp_string := str\<rparr>) else d)"

section \<open>The abstract screen\<close>

text \<open>
  Which text was last printed where, after a command sequence: a map from text origins to texts. Filling a
  rectangle erases the text that starts inside it; printing puts a text at the cursor. This abstraction knows
  nothing of the colour, the size and the extent of a text, and so nothing of whether one is drawn over
  another: that the texts stand on the screen unharmed is shown for the pixels, in LcdPixels and StationPixels.
\<close>

record screen =
  cursor :: "int \<times> int"
  texts :: "int \<times> int \<Rightarrow> string"

definition inside :: "int \<Rightarrow> int \<Rightarrow> int \<Rightarrow> int \<Rightarrow> int \<times> int \<Rightarrow> bool" where
  "inside x y w h p \<longleftrightarrow> x \<le> fst p \<and> fst p < x + w \<and> y \<le> snd p \<and> snd p < y + h"

fun draw :: "lcd_cmd \<Rightarrow> screen \<Rightarrow> screen" where
  "draw (FillScreen c) s = s\<lparr>texts := (\<lambda>_. [])\<rparr>"
| "draw (FillRect x y w h c) s = s\<lparr>texts := (\<lambda>p. if inside x y w h p then [] else texts s p)\<rparr>"
| "draw (SetCursor x y) s = s\<lparr>cursor := (x, y)\<rparr>"
| "draw (Print str) s = s\<lparr>texts := (texts s)(cursor s := str)\<rparr>"
| "draw _ s = s"

definition blank :: screen where
  "blank = \<lparr>cursor = (0, 0), texts = (\<lambda>_. [])\<rparr>"

definition screen_of :: "Display \<Rightarrow> screen" where
  "screen_of d = fold draw (m_lcd d) blank"

definition origin :: "Region \<Rightarrow> int \<times> int" where
  "origin r = (rx r + 2, ry r + 2)"

definition text_in :: "Region \<Rightarrow> Display \<Rightarrow> string" where
  "text_in r d = texts (screen_of d) (origin r)"

definition regions :: "Region list" where
  "regions = [time_region, time_meridian_region, date_region, inside_temp_region, outside_temp_region]"

definition in_region :: "Region \<Rightarrow> int \<times> int \<Rightarrow> bool" where
  "in_region r p \<longleftrightarrow> inside (rx r) (ry r) (rw r) (rh r) p"

text \<open>The fields that are not the LCD do not matter for the screen.\<close>

lemma screen_of_last [simp]:
  "screen_of (d\<lparr>m_last_time_string := s\<rparr>) = screen_of d"
  "screen_of (d\<lparr>m_last_time_meridian := s\<rparr>) = screen_of d"
  "screen_of (d\<lparr>m_last_date_string := s\<rparr>) = screen_of d"
  "screen_of (d\<lparr>m_last_inside_temp_string := s\<rparr>) = screen_of d"
  "screen_of (d\<lparr>m_last_outside_temp_string := s\<rparr>) = screen_of d"
  by (simp_all add: screen_of_def)

lemma text_in_last [simp]:
  "text_in r (d\<lparr>m_last_time_string := s\<rparr>) = text_in r d"
  "text_in r (d\<lparr>m_last_time_meridian := s\<rparr>) = text_in r d"
  "text_in r (d\<lparr>m_last_date_string := s\<rparr>) = text_in r d"
  "text_in r (d\<lparr>m_last_inside_temp_string := s\<rparr>) = text_in r d"
  "text_in r (d\<lparr>m_last_outside_temp_string := s\<rparr>) = text_in r d"
  by (simp_all add: text_in_def)

lemma update_region_texts:
  "texts (screen_of (update_region r str d)) =
     (\<lambda>p. if p = origin r then str else if in_region r p then [] else texts (screen_of d) p)"
  by (auto simp: update_region_def write_region_def clear_region_def send_lcd_def screen_of_def
      origin_def in_region_def fun_eq_iff)

lemma update_region_frame [simp]:
  "m_last_time_string (update_region r str d) = m_last_time_string d"
  "m_last_time_meridian (update_region r str d) = m_last_time_meridian d"
  "m_last_date_string (update_region r str d) = m_last_date_string d"
  "m_last_inside_temp_string (update_region r str d) = m_last_inside_temp_string d"
  "m_last_outside_temp_string (update_region r str d) = m_last_outside_temp_string d"
  by (simp_all add: update_region_def write_region_def clear_region_def send_lcd_def)

lemma update_region_text_in:
  "text_in r (update_region r str d) = str"
  "origin r' \<noteq> origin r \<Longrightarrow> \<not> in_region r (origin r') \<Longrightarrow> text_in r' (update_region r str d) = text_in r' d"
  by (auto simp: text_in_def update_region_texts)

section \<open>The update operations as writers of a region\<close>

text \<open>
  The interface the firmware draws through: a writer owns a region and a label, remembers the
  string last written, and touches the screen only when the string changes.
\<close>

locale region_writer =
  fixes upd :: "string \<Rightarrow> Display \<Rightarrow> Display" and last_str :: "Display \<Rightarrow> string"
    and region :: Region and label :: string
  assumes upd_same: "last_str d = s \<Longrightarrow> upd s d = d"
    and upd_new: "last_str d \<noteq> s \<Longrightarrow>
      screen_of (upd s d) = screen_of (update_region region (label @ s) d)"
    and last_upd: "last_str (upd s d) = s"
begin

definition shows_last :: "Display \<Rightarrow> bool" where
  "shows_last d \<longleftrightarrow> (last_str d \<noteq> [] \<longrightarrow> text_in region d = label @ last_str d)"

lemma shows_last_upd: "shows_last d \<Longrightarrow> shows_last (upd s d)"
  using upd_new [of d s] update_region_text_in(1) [of region "label @ s" d]
  by (cases "last_str d = s") (auto simp: shows_last_def upd_same last_upd text_in_def)

lemma other_text:
  "origin r' \<noteq> origin region \<Longrightarrow> \<not> in_region region (origin r') \<Longrightarrow> text_in r' (upd s d) = text_in r' d"
  using upd_new [of d s] update_region_text_in(2) [of r' region "label @ s" d]
  by (cases "last_str d = s") (auto simp: upd_same text_in_def)

lemma idle: "upd s (upd s d) = upd s d"
  by (rule upd_same) (rule last_upd)

end

interpretation time_writer: region_writer update_time_string m_last_time_string time_region "[]"
  by unfold_locales (simp_all add: update_time_string_def)

interpretation meridian_writer:
  region_writer update_time_meridian m_last_time_meridian time_meridian_region "[]"
  by unfold_locales (simp_all add: update_time_meridian_def)

interpretation date_writer: region_writer update_date_string m_last_date_string date_region "[]"
  by unfold_locales (simp_all add: update_date_string_def)

interpretation inside_writer:
  region_writer update_inside_temp_string m_last_inside_temp_string inside_temp_region "''In: ''"
  by unfold_locales (simp_all add: update_inside_temp_string_def)

interpretation outside_writer:
  region_writer update_outside_temp_string m_last_outside_temp_string outside_temp_region "''Out: ''"
  by unfold_locales (simp_all add: update_outside_temp_string_def)

section \<open>The five slots together\<close>

datatype slot = TimeSlot | MeridianSlot | DateSlot | InsideSlot | OutsideSlot

fun update_slot :: "slot \<Rightarrow> string \<Rightarrow> Display \<Rightarrow> Display" where
  "update_slot TimeSlot = update_time_string"
| "update_slot MeridianSlot = update_time_meridian"
| "update_slot DateSlot = update_date_string"
| "update_slot InsideSlot = update_inside_temp_string"
| "update_slot OutsideSlot = update_outside_temp_string"

fun last_of :: "slot \<Rightarrow> Display \<Rightarrow> string" where
  "last_of TimeSlot = m_last_time_string"
| "last_of MeridianSlot = m_last_time_meridian"
| "last_of DateSlot = m_last_date_string"
| "last_of InsideSlot = m_last_inside_temp_string"
| "last_of OutsideSlot = m_last_outside_temp_string"

fun region_of :: "slot \<Rightarrow> Region" where
  "region_of TimeSlot = time_region"
| "region_of MeridianSlot = time_meridian_region"
| "region_of DateSlot = date_region"
| "region_of InsideSlot = inside_temp_region"
| "region_of OutsideSlot = outside_temp_region"

fun label_of :: "slot \<Rightarrow> string" where
  "label_of InsideSlot = ''In: ''"
| "label_of OutsideSlot = ''Out: ''"
| "label_of _ = []"

lemma slot_writer: "region_writer (update_slot k) (last_of k) (region_of k) (label_of k)"
  by (cases k) (simp_all add: time_writer.region_writer_axioms meridian_writer.region_writer_axioms
      date_writer.region_writer_axioms inside_writer.region_writer_axioms
      outside_writer.region_writer_axioms)

lemma slots_apart:
  "k \<noteq> k' \<Longrightarrow> origin (region_of k') \<noteq> origin (region_of k) \<and>
     \<not> in_region (region_of k) (origin (region_of k'))"
  by (cases k; cases k') (simp_all add: origin_def in_region_def inside_def region_defs)

lemma last_of_update_slot:
  "last_of k' (update_slot k s d) = (if k' = k then s else last_of k' d)"
  by (cases k; cases k') (simp_all add: update_time_string_def update_time_meridian_def
      update_date_string_def update_inside_temp_string_def update_outside_temp_string_def)

definition display_ok :: "Display \<Rightarrow> bool" where
  "display_ok d \<longleftrightarrow>
     (\<forall>k. last_of k d \<noteq> [] \<longrightarrow> text_in (region_of k) d = label_of k @ last_of k d)"

lemma display_ok_update_slot:
  assumes "display_ok d"
  shows "display_ok (update_slot k s d)"
  unfolding display_ok_def
proof (intro allI impI)
  fix k'
  assume ne: "last_of k' (update_slot k s d) \<noteq> []"
  show "text_in (region_of k') (update_slot k s d) = label_of k' @ last_of k' (update_slot k s d)"
  proof (cases "k' = k")
    case True
    have "region_writer.shows_last (last_of k) (region_of k) (label_of k) d"
      using assms by (simp add: display_ok_def region_writer.shows_last_def [OF slot_writer])
    with True ne region_writer.shows_last_upd [OF slot_writer this, of s] show ?thesis
      by (simp add: region_writer.shows_last_def [OF slot_writer])
  next
    case False
    then have "k \<noteq> k'" by simp
    from slots_apart [OF this] have "text_in (region_of k') (update_slot k s d) = text_in (region_of k') d"
      by (intro region_writer.other_text [OF slot_writer]) simp_all
    with False ne assms show ?thesis by (simp add: display_ok_def last_of_update_slot)
  qed
qed

lemma display_begin_ok: "display_ok (display_begin new_Display)"
proof -
  have "last_of k (display_begin new_Display) = []" for k
    by (cases k) (simp_all add: display_begin_def new_Display_def send_lcd_def)
  then show ?thesis by (simp add: display_ok_def)
qed

text \<open>The string a sequence of updates leaves in a slot.\<close>

definition run_updates :: "(slot \<times> string) list \<Rightarrow> Display \<Rightarrow> Display" where
  "run_updates us d = fold (\<lambda>(k, s). update_slot k s) us d"

fun latest :: "slot \<Rightarrow> (slot \<times> string) list \<Rightarrow> string \<Rightarrow> string" where
  "latest k [] s = s"
| "latest k ((k', s') # us) s = latest k us (if k = k' then s' else s)"

lemma run_updates_ok:
  "display_ok d \<Longrightarrow>
   display_ok (run_updates us d) \<and> last_of k (run_updates us d) = latest k us (last_of k d)"
  unfolding run_updates_def
proof (induction us arbitrary: d)
  case Nil
  then show ?case by simp
next
  case (Cons u us)
  obtain k' s' where u: "u = (k', s')" by (cases u)
  show ?case
    using Cons.IH [OF display_ok_update_slot [OF Cons.prems, of k' s']] by (simp add: u last_of_update_slot)
qed

section \<open>Properties\<close>

text \<open>After any sequence of updates, the text printed last in each region is the string it was last
  given, with its label.\<close>

theorem display_shows_latest:
  assumes "latest k us [] \<noteq> []"
  shows "text_in (region_of k) (run_updates us (display_begin new_Display)) =
    label_of k @ latest k us []"
proof -
  have "last_of k (display_begin new_Display) = []"
    by (cases k) (simp_all add: display_begin_def new_Display_def send_lcd_def)
  with run_updates_ok [OF display_begin_ok, of us k] assms show ?thesis
    by (simp add: display_ok_def)
qed

theorem display_shows_latest_witness:
  "text_in inside_temp_region
     (run_updates [(InsideSlot, ''70''), (TimeSlot, ''12:00''), (InsideSlot, ''71'')]
        (display_begin new_Display)) = ''In: 71''"
  using display_shows_latest [of InsideSlot "[(InsideSlot, ''70''), (TimeSlot, ''12:00''), (InsideSlot, ''71'')]"]
  by simp

text \<open>An update with the string already shown sends nothing to the LCD, and the operations
  for the five regions do not disturb each other's memory.\<close>

theorem update_slot_idle:
  "update_slot k s (update_slot k s d) = update_slot k s d \<and>
   last_of k' (update_slot k s d) = (if k' = k then s else last_of k' d)"
  by (simp add: region_writer.idle [OF slot_writer] last_of_update_slot)

end
