(* ===== verification/Platform.thy ===== *)
theory Platform
  imports Complex_Main Prelude "HOL-Library.While_Combinator"
begin

text \<open>
  The hardware and the third-party drivers below the firmware: the WiFi station and access
  point, the UDP socket, the sensor, the clock chip, the analog and digital pins, the flash
  file system, and the millisecond counter. None of them is modelled: \<open>platform\<close> is the
  record of the calls the firmware makes on them, over an opaque world \<open>'w\<close> that each call
  threads, and every definition that uses a driver takes the platform as an argument. What is read only to
  be logged on the serial port is left out.
\<close>

datatype wl_status = WL_IDLE_STATUS | WL_NO_SSID_AVAIL | WL_SCAN_COMPLETED | WL_CONNECTED
  | WL_CONNECT_FAILED | WL_CONNECTION_LOST | WL_DISCONNECTED | WL_NO_SHIELD

text \<open>An IPv4 address, its four octets in order.\<close>

type_synonym ip = "u8 \<times> u8 \<times> u8 \<times> u8"

record 'w platform =
  get_millis :: "'w \<Rightarrow> u32 \<times> 'w"
  do_delay :: "nat \<Rightarrow> 'w \<Rightarrow> 'w"
  wifi_begin :: "string \<Rightarrow> string \<Rightarrow> 'w \<Rightarrow> 'w"
  wifi_status :: "'w \<Rightarrow> wl_status \<times> 'w"
  wifi_disconnect :: "'w \<Rightarrow> bool \<times> 'w"
  wifi_isConnected :: "'w \<Rightarrow> bool \<times> 'w"
  wifi_localIP :: "'w \<Rightarrow> ip \<times> 'w"
  wifi_mode_ap_sta :: "'w \<Rightarrow> bool \<times> 'w"
  wifi_softAP :: "string \<Rightarrow> string \<Rightarrow> 'w \<Rightarrow> bool \<times> 'w"
  wifi_hostByName :: "string \<Rightarrow> 'w \<Rightarrow> ip \<times> 'w"
  udp_begin :: "nat \<Rightarrow> 'w \<Rightarrow> 'w"
  udp_parsePacket :: "'w \<Rightarrow> int \<times> 'w"
  udp_read :: "nat \<Rightarrow> 'w \<Rightarrow> u8 list \<times> 'w"
  udp_send :: "ip \<Rightarrow> nat \<Rightarrow> u8 list \<Rightarrow> 'w \<Rightarrow> 'w"
  dht_begin :: "'w \<Rightarrow> 'w"
  dht_readHumidity :: "'w \<Rightarrow> rat option \<times> 'w"
  dht_readTemperature :: "bool \<Rightarrow> 'w \<Rightarrow> rat option \<times> 'w"
  rtc_setup :: "'w \<Rightarrow> 'w"
  rtc_isValid :: "'w \<Rightarrow> bool \<times> 'w"
  rtc_get :: "'w \<Rightarrow> u32 \<times> 'w"
  rtc_set :: "u32 \<Rightarrow> 'w \<Rightarrow> 'w"
  analog_read :: "nat \<Rightarrow> 'w \<Rightarrow> int \<times> 'w"
  analog_write :: "nat \<Rightarrow> int \<Rightarrow> 'w \<Rightarrow> 'w"
  digital_read :: "nat \<Rightarrow> 'w \<Rightarrow> bool \<times> 'w"
  pin_mode :: "nat \<Rightarrow> bool \<Rightarrow> 'w \<Rightarrow> 'w"
  fs_read :: "string \<Rightarrow> 'w \<Rightarrow> string option \<times> 'w"
  fs_write :: "string \<Rightarrow> string \<Rightarrow> 'w \<Rightarrow> nat option \<times> 'w"
  unfit_to_int :: "rat option \<Rightarrow> int"

end
