(* ===== verification/Wifi.thy ===== *)
theory Wifi
  imports Platform
begin

text \<open>
  Joining and serving WiFi networks, \<^verbatim>\<open>shared/wifi_station.cpp\<close> and \<^verbatim>\<open>shared/wifi_ap.cpp\<close>.
  The station polls the driver every half second for a bounded number of attempts.
\<close>

section \<open>The station\<close>

text \<open>\<open>while (WiFi.status() != WL_CONNECTED && attempts < retries) { delay(500); attempts++; }\<close>\<close>

function connect_loop :: "'w platform \<Rightarrow> int \<Rightarrow> int \<Rightarrow> 'w \<Rightarrow> 'w" where
  "connect_loop p retries attempts w =
     (let (status, w) = wifi_status p w
      in if status \<noteq> WL_CONNECTED \<and> attempts < retries
         then connect_loop p retries (attempts + 1) (do_delay p 500 w)
         else w)"
  by pat_completeness auto
termination
  by (relation "measure (\<lambda>(p, retries, attempts, w). nat (retries - attempts))") auto

declare connect_loop.simps [simp del]

definition connect_wifi :: "'w platform \<Rightarrow> string \<Rightarrow> string \<Rightarrow> int \<Rightarrow> 'w \<Rightarrow> bool \<times> 'w" where
  "connect_wifi p ap_ssid ap_password retries w =
     (let w = wifi_begin p ap_ssid ap_password w;
          w = connect_loop p retries 0 w;
          (status, w) = wifi_status p w
      in if status \<noteq> WL_CONNECTED
         then (let (_, w) = wifi_disconnect p w in (False, w))
         else (True, w))"

definition disconnect_wifi :: "'w platform \<Rightarrow> 'w \<Rightarrow> bool \<times> 'w" where
  "disconnect_wifi p w = wifi_disconnect p w"

definition is_wifi_connected :: "'w platform \<Rightarrow> 'w \<Rightarrow> bool \<times> 'w" where
  "is_wifi_connected p w = wifi_isConnected p w"

definition get_local_ip :: "'w platform \<Rightarrow> 'w \<Rightarrow> ip \<times> 'w" where
  "get_local_ip p w = wifi_localIP p w"

section \<open>The access point\<close>

definition start_access_point :: "'w platform \<Rightarrow> string \<Rightarrow> string \<Rightarrow> 'w \<Rightarrow> bool \<times> 'w" where
  "start_access_point p ap_ssid ap_password w =
     (let (ok, w) = wifi_mode_ap_sta p w
      in if \<not> ok then (False, w)
         else wifi_softAP p ap_ssid ap_password w)"

section \<open>The polling loop\<close>

text \<open>One unsuccessful poll: ask the status, wait half a second.\<close>

definition poll :: "'w platform \<Rightarrow> 'w \<Rightarrow> 'w" where
  "poll p w = do_delay p 500 (snd (wifi_status p w))"

definition connected_at :: "'w platform \<Rightarrow> 'w \<Rightarrow> bool" where
  "connected_at p w \<longleftrightarrow> fst (wifi_status p w) = WL_CONNECTED"

lemma connect_loop_unfold:
  "connect_loop p retries attempts w =
     (if connected_at p w \<or> \<not> attempts < retries then snd (wifi_status p w)
      else connect_loop p retries (attempts + 1) (poll p w))"
  by (subst connect_loop.simps) (simp add: case_prod_beta connected_at_def poll_def Let_def)

lemma connect_loop_polls:
  "\<exists>k. k \<le> nat (retries - attempts) \<and>
     connect_loop p retries attempts w = snd (wifi_status p ((poll p ^^ k) w)) \<and>
     (\<forall>j<k. \<not> connected_at p ((poll p ^^ j) w)) \<and>
     (connected_at p ((poll p ^^ k) w) \<or> k = nat (retries - attempts))"
proof (induction "nat (retries - attempts)" arbitrary: attempts w)
  case 0
  then show ?case by (intro exI [of _ 0]) (simp add: connect_loop_unfold)
next
  case (Suc n)
  show ?case
  proof (cases "connected_at p w")
    case True
    then show ?thesis by (intro exI [of _ 0]) (simp add: connect_loop_unfold)
  next
    case False
    have n: "n = nat (retries - (attempts + 1))" "attempts < retries" using Suc.hyps(2) by simp_all
    from Suc.hyps(1) [OF n(1), of "poll p w"] obtain k where k:
      "k \<le> n" "connect_loop p retries (attempts + 1) (poll p w) =
         snd (wifi_status p ((poll p ^^ k) (poll p w)))"
      "\<forall>j<k. \<not> connected_at p ((poll p ^^ j) (poll p w))"
      "connected_at p ((poll p ^^ k) (poll p w)) \<or> k = n"
      unfolding n(1) by blast
    have "\<not> connected_at p ((poll p ^^ j) w)" if "j < Suc k" for j
      using that False k(3) by (cases j) (simp_all add: funpow_swap1)
    with k False n Suc.hyps(2) show ?thesis
      by (intro exI [of _ "Suc k"])
         (auto simp: connect_loop_unfold [of p retries attempts w] funpow_swap1)
  qed
qed

section \<open>Properties\<close>

text \<open>\<open>connect_wifi\<close> waits for at most \<open>retries\<close> half-second polls, stops at the first poll
  that finds the station connected, and returns whether the status read after the loop is
  connected; on failure, and only then, it disconnects.\<close>

theorem connect_wifi_bounded:
  "\<exists>k. k \<le> nat retries \<and>
     (let w1 = wifi_begin p ssid password w; w2 = (poll p ^^ k) w1;
          w3 = snd (wifi_status p w2)
      in \<not> (\<exists>j. j < k \<and> connected_at p ((poll p ^^ j) w1)) \<and> (connected_at p w2 \<or> k = nat retries) \<and>
         connect_wifi p ssid password retries w =
           (if connected_at p w3 then (True, snd (wifi_status p w3))
            else (False, snd (wifi_disconnect p (snd (wifi_status p w3))))))"
proof -
  obtain k where "k \<le> nat retries"
    "connect_loop p retries 0 (wifi_begin p ssid password w) =
       snd (wifi_status p ((poll p ^^ k) (wifi_begin p ssid password w)))"
    "\<forall>j<k. \<not> connected_at p ((poll p ^^ j) (wifi_begin p ssid password w))"
    "connected_at p ((poll p ^^ k) (wifi_begin p ssid password w)) \<or> k = nat retries"
    using connect_loop_polls [of retries 0 p "wifi_begin p ssid password w"] by auto
  then show ?thesis
    by (intro exI [of _ k]) (simp add: connect_wifi_def case_prod_beta Let_def connected_at_def)
qed

end
