(* ===== verification/NtpClient.thy ===== *)
theory NtpClient
  imports Platform
begin

unbundle bit_operations_syntax

text \<open>
  The NTP client, \<^verbatim>\<open>shared/ntp_client.cpp\<close>: the request packet, the wait for an answer and
  the decoding of its timestamp. The UDP socket and the millisecond counter are the platform's.
  Neither loop of the source is bounded by itself, so both are \<open>while_option\<close>: \<open>None\<close> is a run
  that does not return. \<open>packetBuffer\<close> is a global of the source and is threaded.
\<close>

section \<open>The packet\<close>

definition NTP_PACKET_SIZE :: nat where "NTP_PACKET_SIZE = 48"

definition ntpServerName :: string where "ntpServerName = ''us.pool.ntp.org''"

type_synonym packet = "u8 list"

definition packet_init :: packet where
  "packet_init = replicate NTP_PACKET_SIZE 0"

text \<open>\<open>memset\<close> and the assignments of \<open>sendNTPpacket\<close>, in their order.\<close>

definition request_packet :: "packet \<Rightarrow> packet" where
  "request_packet packetBuffer =
     (let b = replicate (length packetBuffer) 0;
          b = b[0 := 0b11100011];
          b = b[1 := 0];
          b = b[2 := 6];
          b = b[3 := 0xEC];
          b = b[12 := 49];
          b = b[13 := 0x4E];
          b = b[14 := 49];
          b = b[15 := 52]
      in b)"

definition sendNTPpacket :: "'w platform \<Rightarrow> ip \<Rightarrow> packet \<times> 'w \<Rightarrow> packet \<times> 'w" where
  "sendNTPpacket p address = (\<lambda>(packetBuffer, w).
     (let b = request_packet packetBuffer in (b, udp_send p address 123 b w)))"

text \<open>\<open>udp.read(packetBuffer, NTP_PACKET_SIZE)\<close> overwrites as many bytes as it delivers.\<close>

definition read_packet :: "'w platform \<Rightarrow> packet \<times> 'w \<Rightarrow> packet \<times> 'w" where
  "read_packet p = (\<lambda>(packetBuffer, w).
     (let (bytes, w) = udp_read p NTP_PACKET_SIZE w;
          bytes = take NTP_PACKET_SIZE bytes
      in (bytes @ drop (length bytes) packetBuffer, w)))"

definition packet_seconds :: "packet \<Rightarrow> u32" where
  "packet_seconds b =
     (let secsSince1900 = push_bit 24 (ucast (b ! 40));
          secsSince1900 = secsSince1900 OR push_bit 16 (ucast (b ! 41));
          secsSince1900 = secsSince1900 OR push_bit 8 (ucast (b ! 42));
          secsSince1900 = secsSince1900 OR ucast (b ! 43)
      in secsSince1900)"

section \<open>getNtpTime\<close>

text \<open>\<open>while (udp.parsePacket() > 0);\<close> The state is the value the condition tests and the world
  after the call.\<close>

definition discard_packets :: "'w platform \<Rightarrow> 'w \<Rightarrow> 'w option" where
  "discard_packets p w =
     map_option snd (while_option (\<lambda>(size, w). 0 < size) (\<lambda>(_, w). udp_parsePacket p w)
       (udp_parsePacket p w))"

text \<open>The wait: a round reads the clock and, within 1.5 seconds of \<open>beginWait\<close>, looks for a
  packet of full size.\<close>

datatype wait_state = Waiting | Received time_t | TimedOut

definition wait_round :: "'w platform \<Rightarrow> u32 \<Rightarrow> wait_state \<times> packet \<times> 'w \<Rightarrow> wait_state \<times> packet \<times> 'w" where
  "wait_round p beginWait = (\<lambda>(_, packetBuffer, w).
     (let (t, w) = get_millis p w
      in if t - beginWait < 1500
         then (let (size, w) = udp_parsePacket p w
               in if int NTP_PACKET_SIZE \<le> size
                  then (let (packetBuffer, w) = read_packet p (packetBuffer, w)
                        in (Received (packet_seconds packetBuffer - 2208988800), packetBuffer, w))
                  else (Waiting, packetBuffer, w))
         else (TimedOut, packetBuffer, w)))"

definition wait_response :: "'w platform \<Rightarrow> u32 \<Rightarrow> packet \<times> 'w \<Rightarrow> (time_t \<times> packet \<times> 'w) option" where
  "wait_response p beginWait = (\<lambda>(packetBuffer, w).
     (case while_option (\<lambda>(st, _). st = Waiting) (wait_round p beginWait) (Waiting, packetBuffer, w) of
        None \<Rightarrow> None
      | Some (Received t, packetBuffer, w) \<Rightarrow> Some (t, packetBuffer, w)
      | Some (_, packetBuffer, w) \<Rightarrow> Some (0, packetBuffer, w)))"

definition getNtpTime :: "'w platform \<Rightarrow> packet \<times> 'w \<Rightarrow> (time_t \<times> packet \<times> 'w) option" where
  "getNtpTime p = (\<lambda>(packetBuffer, w).
     (case discard_packets p w of
        None \<Rightarrow> None
      | Some w \<Rightarrow>
          (let (ntpServerIP, w) = wifi_hostByName p ntpServerName w;
               (packetBuffer, w) = sendNTPpacket p ntpServerIP (packetBuffer, w);
               (beginWait, w) = get_millis p w
           in wait_response p beginWait (packetBuffer, w))))"

text \<open>The client object: whether \<open>begin\<close> has created the socket. Before that, \<open>get_time\<close>
  dereferences a null pointer.\<close>

record NtpClient =
  m_udp :: bool

definition new_NtpClient :: NtpClient where
  "new_NtpClient = \<lparr>m_udp = False\<rparr>"

definition ntp_begin :: "'w platform \<Rightarrow> nat \<Rightarrow> NtpClient \<Rightarrow> 'w \<Rightarrow> NtpClient \<times> 'w" where
  "ntp_begin p udp_listen_port c w = (c\<lparr>m_udp := True\<rparr>, udp_begin p udp_listen_port w)"

definition get_time ::
    "'w platform \<Rightarrow> NtpClient \<Rightarrow> packet \<times> 'w \<Rightarrow> (time_t \<times> packet \<times> 'w) option" where
  "get_time p c s = (if m_udp c then getNtpTime p s else None)"

section \<open>The timestamp\<close>

text \<open>The four bytes of a 32-bit number, most significant first.\<close>

definition be_bytes :: "u32 \<Rightarrow> u8 list" where
  "be_bytes t = [ucast (drop_bit 24 t), ucast (drop_bit 16 t), ucast (drop_bit 8 t), ucast t]"

lemma packet_seconds_bytes:
  assumes "take 4 (drop 40 b) = be_bytes t"
  shows "packet_seconds b = t"
proof -
  have len: "44 \<le> length b"
  proof -
    have "length (take 4 (drop 40 b)) = 4" by (simp add: assms be_bytes_def)
    then show ?thesis by simp
  qed
  have "b ! (40 + i) = be_bytes t ! i" if "i < 4" for i
    unfolding assms [symmetric] using that len by simp
  from this [of 0] this [of 1] this [of 2] this [of 3]
  have b: "b ! 40 = ucast (drop_bit 24 t)" "b ! 41 = ucast (drop_bit 16 t)"
    "b ! 42 = ucast (drop_bit 8 t)" "b ! 43 = ucast t"
    by (simp_all add: be_bytes_def)
  show ?thesis
    unfolding packet_seconds_def b Let_def
  proof (rule bit_word_eqI)
    fix n assume "n < LENGTH(32)"
    then consider "n < 8" | "8 \<le> n" "n < 16" | "16 \<le> n" "n < 24" | "24 \<le> n" "n < 32"
      by (cases "n < 8"; cases "n < 16"; cases "n < 24") auto
    then show "bit (((push_bit 24 (ucast (ucast (drop_bit 24 t) :: u8)) OR
        push_bit 16 (ucast (ucast (drop_bit 16 t) :: u8))) OR
        push_bit 8 (ucast (ucast (drop_bit 8 t) :: u8))) OR ucast (ucast t :: u8) :: u32) n \<longleftrightarrow> bit t n"
      by cases (auto simp: bit_simps)
  qed
qed

section \<open>Termination and result of the wait\<close>

text \<open>
  A poll of the wait is a call of \<open>millis()\<close> and one of \<open>parsePacket()\<close>. On a board that is not
  halted the millisecond counter is a clock that never goes back, a poll takes less than an hour,
  and from every state on, finitely many polls see the counter advance: most of them may take
  microseconds and leave it as it is.
\<close>

definition udp_poll :: "'w platform \<Rightarrow> 'w \<Rightarrow> 'w" where
  "udp_poll p w = snd (udp_parsePacket p (snd (get_millis p w)))"

definition live :: "'w platform \<Rightarrow> ('w \<Rightarrow> nat) \<Rightarrow> bool" where
  "live p clock \<longleftrightarrow>
     (\<forall>w. fst (get_millis p w) = of_nat (clock w) \<and> clock w \<le> clock (snd (get_millis p w)) \<and>
        clock (snd (get_millis p w)) \<le> clock (udp_poll p w) \<and> clock (udp_poll p w) \<le> clock w + 3600000 \<and>
        (\<exists>n. clock w < clock ((udp_poll p ^^ n) w)))"

definition waited :: "nat \<Rightarrow> nat \<Rightarrow> bool" where
  "waited begin now \<longleftrightarrow> begin \<le> now \<and> now \<le> begin + 1500 + 3600000"

lemma live_millis:
  assumes "live p clock"
  shows "fst (get_millis p w) = of_nat (clock w)" "clock w \<le> clock (snd (get_millis p w))"
    "clock (snd (get_millis p w)) \<le> clock w + 3600000"
proof -
  note l = assms [unfolded live_def, rule_format, of w]
  from l show "fst (get_millis p w) = of_nat (clock w)" "clock w \<le> clock (snd (get_millis p w))"
    by blast+
  from l show "clock (snd (get_millis p w)) \<le> clock w + 3600000" by linarith
qed

lemma wait_time_left:
  assumes "waited b c"
  shows "of_nat c - of_nat b < (1500 :: u32) \<longleftrightarrow> c < b + 1500"
proof -
  have "of_nat c - of_nat b = (of_nat (c - b) :: u32)" using assms by (simp add: waited_def of_nat_diff)
  moreover have "unat (of_nat (c - b) :: u32) = c - b"
    unfolding unat_of_nat using assms by (auto simp: waited_def intro!: mod_less)
  ultimately show ?thesis using assms by (simp add: waited_def word_less_nat_alt) linarith
qed

lemma wait_stop [simp]:
  "st \<noteq> Waiting \<Longrightarrow> while_option (\<lambda>(st, _). st = Waiting) f (st, x) = Some (st, x)"
  by (simp add: while_option_unfold)

text \<open>The wait ends, and its answer is either a decoded packet or 0. A round either ends it or polls; a
  poll advances the clock, or leaves one poll fewer before it advances.\<close>

definition wait_ends :: "'w platform \<Rightarrow> nat \<Rightarrow> packet \<Rightarrow> 'w \<Rightarrow> bool" where
  "wait_ends p b pk0 w \<longleftrightarrow>
     (\<exists>st pk w'. while_option (\<lambda>(st, _). st = Waiting) (wait_round p (of_nat b)) (Waiting, pk0, w) =
        Some (st, pk, w') \<and> st \<noteq> Waiting \<and> (\<forall>t. st = Received t \<longrightarrow> t = packet_seconds pk - 2208988800))"

lemma live_poll: "live p clock \<Longrightarrow> clock w \<le> clock (udp_poll p w) \<and> clock (udp_poll p w) \<le> clock w + 3600000"
  unfolding live_def by (meson le_trans)

lemma wait_step:
  assumes "live p clock" "waited b (clock w)"
  shows "wait_ends p b pk0 w \<or>
    clock w < b + 1500 \<and> waited b (clock (udp_poll p w)) \<and> wait_ends p b pk0 w = wait_ends p b pk0 (udp_poll p w)"
proof -
  obtain t w1 where m: "get_millis p w = (t, w1)" by fastforce
  obtain size w2 where r: "udp_parsePacket p w1 = (size, w2)" by fastforce
  have t: "t = of_nat (clock w)" using live_millis(1) [OF assms(1), of w] m by simp
  have w2: "w2 = udp_poll p w" by (simp add: udp_poll_def m r)
  show ?thesis
  proof (cases "clock w < b + 1500")
    case False
    then show ?thesis
      using wait_time_left [OF assms(2)] t
      by (simp add: wait_ends_def while_option_unfold [of _ _ "(Waiting, pk0, w)"] wait_round_def m)
  next
    case True
    then have left: "t - of_nat b < 1500" using wait_time_left [OF assms(2)] t by simp
    show ?thesis
    proof (cases "int NTP_PACKET_SIZE \<le> size")
      case True
      then show ?thesis
        using left
        by (simp add: wait_ends_def while_option_unfold [of _ _ "(Waiting, pk0, w)"] wait_round_def m r
            split: prod.split)
    next
      case False
      have "waited b (clock (udp_poll p w))" using assms(2) live_poll [OF assms(1), of w] True by (simp add: waited_def)
      moreover have "wait_ends p b pk0 w = wait_ends p b pk0 (udp_poll p w)"
        unfolding w2 [symmetric] using left False
        by (simp add: wait_ends_def while_option_unfold [of _ _ "(Waiting, pk0, w)"] wait_round_def m r)
      ultimately show ?thesis using True by blast
    qed
  qed
qed

lemma wait_loop_returns:
  assumes "live p clock" "waited b (clock w)"
  shows "wait_ends p b pk0 w"
  using assms(2)
proof (induction "b + 1500 - clock w" arbitrary: w rule: less_induct)
  case less
  have "wait_ends p b pk0 v" if "clock v = clock w" "clock w < clock ((udp_poll p ^^ n) v)" for n v
    using that
  proof (induction n arbitrary: v)
    case (Suc n)
    have "waited b (clock v)" using less.prems Suc.prems(1) by simp
    from wait_step [OF assms(1) this, of pk0] show ?case
    proof (elim disjE conjE)
      assume s: "clock v < b + 1500" "waited b (clock (udp_poll p v))"
        "wait_ends p b pk0 v = wait_ends p b pk0 (udp_poll p v)"
      show ?thesis
      proof (cases "clock (udp_poll p v) = clock w")
        case True
        then show ?thesis using Suc s(3) by (simp add: funpow_Suc_right del: funpow.simps)
      next
        case False
        then have "clock w < clock (udp_poll p v)" using live_poll [OF assms(1), of v] Suc.prems(1) by simp
        then show ?thesis using less.hyps [of "udp_poll p v"] s Suc.prems(1) by simp
      qed
    qed
  qed simp
  then show ?case using assms(1) unfolding live_def by blast
qed

definition packets_end :: "'w platform \<Rightarrow> 'w \<Rightarrow> nat \<Rightarrow> bool" where
  "packets_end p w n \<longleftrightarrow> fst (udp_parsePacket p (((\<lambda>w. snd (udp_parsePacket p w)) ^^ n) w)) \<le> 0"

lemma discard_returns:
  "packets_end p w n \<Longrightarrow> \<exists>w'. discard_packets p w = Some w'"
proof (induction n arbitrary: w)
  case 0
  then show ?case
    by (auto simp: discard_packets_def packets_end_def case_prod_beta
        while_option_unfold [of _ _ "udp_parsePacket p w"])
next
  case (Suc n)
  then have "packets_end p (snd (udp_parsePacket p w)) n"
    by (simp add: packets_end_def funpow_Suc_right del: funpow.simps)
  with Suc.IH obtain w' where "discard_packets p (snd (udp_parsePacket p w)) = Some w'" by blast
  then show ?case
    by (auto simp: discard_packets_def while_option_unfold [of _ _ "udp_parsePacket p w"] split_beta
        intro: exI [of _ "snd (udp_parsePacket p w)"] prod.collapse [symmetric])
qed

text \<open>What \<open>get_time\<close> gives on such a board.\<close>

lemma get_time_answers:
  assumes "m_udp c" "packets_end p w n" "live p clock"
  shows "\<exists>t pk w'. get_time p c (packetBuffer, w) = Some (t, pk, w') \<and>
    (t = 0 \<or> t = packet_seconds pk - 2208988800)"
proof -
  obtain w1 where w1: "discard_packets p w = Some w1" using discard_returns [OF assms(2)] by blast
  obtain a w2 where w2: "wifi_hostByName p ntpServerName w1 = (a, w2)" by fastforce
  obtain pk3 w3 where w3: "sendNTPpacket p a (packetBuffer, w2) = (pk3, w3)" by fastforce
  obtain t0 w4 where w4: "get_millis p w3 = (t0, w4)" by fastforce
  have c: "t0 = of_nat (clock w3)" "clock w3 \<le> clock w4" "clock w4 \<le> clock w3 + 3600000"
    using live_millis [OF assms(3), of w3] w4 by auto
  have "waited (clock w3) (clock w4)" using c by (simp add: waited_def)
  from wait_loop_returns [OF assms(3) this, of pk3] obtain st pk w' where
    "while_option (\<lambda>(st, _). st = Waiting) (wait_round p t0) (Waiting, pk3, w4) = Some (st, pk, w')"
    "st \<noteq> Waiting" "\<forall>t. st = Received t \<longrightarrow> t = packet_seconds pk - 2208988800"
    unfolding c(1) wait_ends_def by blast
  then show ?thesis
    using assms(1) w1 w2 w3 w4
    by (cases st) (auto simp: get_time_def getNtpTime_def wait_response_def)
qed

section \<open>Properties\<close>

text \<open>The answer to a request: a packet that carries, in bytes 40 to 43, the seconds since
  1900 of a Unix time is decoded to that time, modulo the 32-bit era.\<close>

theorem timestamp_decoded:
  assumes "take 4 (drop 40 b) = be_bytes (of_int (unix + 2208988800))"
  shows "packet_seconds b - 2208988800 = of_int unix"
  using packet_seconds_bytes [OF assms] by simp

definition sample_packet :: packet where
  "sample_packet = replicate 40 0 @ be_bytes (of_int (1500000000 + 2208988800)) @ replicate 4 0"

theorem timestamp_decoded_witness: "packet_seconds sample_packet - 2208988800 = 1500000000"
  using timestamp_decoded [of sample_packet 1500000000]
  by (simp add: sample_packet_def be_bytes_def)

text \<open>C37: \<open>get_time\<close> returns, with 0 or with the timestamp of the packet it leaves in the buffer, on
  every board whose queue of old packets is finite and whose millisecond counter is a clock: it
  never goes back, a poll of the wait takes less than an hour, and it advances again and again,
  not at every poll but after finitely many of them.\<close>

theorem get_time_returns:
  assumes "m_udp c" "packets_end p w n" "live p clock"
  shows "\<exists>t pk w'. get_time p c (packetBuffer, w) = Some (t, pk, w') \<and>
    (t = 0 \<or> t = packet_seconds pk - 2208988800)"
  using assms by (rule get_time_answers)

text \<open>A board with an empty socket whose clock gains a millisecond at every poll, and one whose clock
  needs a thousand polls for it.\<close>

definition quiet_board :: "nat platform" where
  "quiet_board = \<lparr>get_millis = (\<lambda>w. (of_nat w, w)), do_delay = (\<lambda>n w. w + n),
     wifi_begin = (\<lambda>_ _ w. w), wifi_status = (\<lambda>w. (WL_CONNECTED, w)),
     wifi_disconnect = (\<lambda>w. (True, w)), wifi_isConnected = (\<lambda>w. (True, w)),
     wifi_localIP = (\<lambda>w. ((127, 0, 0, 1), w)), wifi_mode_ap_sta = (\<lambda>w. (True, w)),
     wifi_softAP = (\<lambda>_ _ w. (True, w)), wifi_hostByName = (\<lambda>_ w. ((127, 0, 0, 1), w)),
     udp_begin = (\<lambda>_ w. w), udp_parsePacket = (\<lambda>w. (0, w + 1)), udp_read = (\<lambda>_ w. ([], w)),
     udp_send = (\<lambda>_ _ _ w. w), dht_begin = (\<lambda>w. w), dht_readHumidity = (\<lambda>w. (Some 40, w)),
     dht_readTemperature = (\<lambda>_ w. (Some 70, w)), rtc_setup = (\<lambda>w. w),
     rtc_isValid = (\<lambda>w. (True, w)), rtc_get = (\<lambda>w. (0, w)), rtc_set = (\<lambda>_ w. w),
     analog_read = (\<lambda>_ w. (511, w)), analog_write = (\<lambda>_ _ w. w), digital_read = (\<lambda>_ w. (True, w)),
     pin_mode = (\<lambda>_ _ w. w), fs_read = (\<lambda>_ w. (None, w)),
     fs_write = (\<lambda>_ s w. (Some (length s), w)), unfit_to_int = (\<lambda>_. 0)\<rparr>"

definition fast_board :: "nat platform" where
  "fast_board = quiet_board\<lparr>get_millis := \<lambda>w. (of_nat (w div 1000), w)\<rparr>"

lemma quiet_poll [simp]: "udp_poll quiet_board w = w + 1" "(udp_poll quiet_board ^^ n) w = w + n"
proof -
  show step: "udp_poll quiet_board w = w + 1" for w by (simp add: udp_poll_def quiet_board_def)
  show "(udp_poll quiet_board ^^ n) w = w + n" by (induction n) (simp_all add: step)
qed

lemma fast_poll [simp]: "udp_poll fast_board w = w + 1" "(udp_poll fast_board ^^ n) w = w + n"
proof -
  show step: "udp_poll fast_board w = w + 1" for w by (simp add: udp_poll_def fast_board_def quiet_board_def)
  show "(udp_poll fast_board ^^ n) w = w + n" by (induction n) (simp_all add: step)
qed

lemma live_quiet: "live quiet_board id"
  unfolding live_def
proof (intro allI conjI)
  show "\<exists>n. id w < id ((udp_poll quiet_board ^^ n) w)" for w by (intro exI [of _ 1]) simp
qed (simp_all, simp_all add: quiet_board_def)

lemma live_fast: "live fast_board (\<lambda>w. w div 1000)"
  unfolding live_def
proof (intro allI conjI)
  show "\<exists>n. w div 1000 < (udp_poll fast_board ^^ n) w div 1000" for w by (intro exI [of _ 1000]) simp
qed (simp_all add: div_le_mono, simp_all add: fast_board_def quiet_board_def div_le_mono)

theorem get_time_returns_witness:
  "m_udp \<lparr>m_udp = True\<rparr> \<and> packets_end fast_board 0 0 \<and> live fast_board (\<lambda>w. w div 1000) \<and>
   (\<exists>r. get_time fast_board \<lparr>m_udp = True\<rparr> (packet_init, 0) = Some r)"
proof -
  have "packets_end fast_board 0 0" by (simp add: packets_end_def fast_board_def quiet_board_def)
  with get_time_returns [of "\<lparr>m_udp = True\<rparr>" fast_board 0 0 "\<lambda>w. w div 1000" packet_init] live_fast
  show ?thesis by auto
qed

end
