(* ===== verification/Base64.thy ===== *)
theory Base64
  imports Prelude
begin

unbundle bit_operations_syntax

text \<open>
  Base64 of the desktop web server, \<^verbatim>\<open>simple_web_server/base64.cpp\<close>. The two loops keep up to
  three input bytes (four code characters) pending and emit a group when it is full; what is
  left is padded. Bytes are \<open>unsigned char\<close> values, code text is a string.
\<close>

definition base64_chars :: string where
  "base64_chars = ''ABCDEFGHIJKLMNOPQRSTUVWXYZabcdefghijklmnopqrstuvwxyz0123456789+/''"

definition is_base64 :: "char \<Rightarrow> bool" where
  "is_base64 c \<longleftrightarrow> is_alnum c \<or> c = CHR ''+'' \<or> c = CHR ''/''"

section \<open>Encoding\<close>

definition encode_group :: "u8 \<Rightarrow> u8 \<Rightarrow> u8 \<Rightarrow> u8 list" where
  "encode_group a b c =
     [drop_bit 2 (a AND 0xfc),
      push_bit 4 (a AND 0x03) + drop_bit 4 (b AND 0xf0),
      push_bit 2 (b AND 0x0f) + drop_bit 6 (c AND 0xc0),
      c AND 0x3f]"

definition code_char :: "u8 \<Rightarrow> char" where
  "code_char v = base64_chars ! unat v"

text \<open>One round of the encoding loop on the pending bytes and the output so far.\<close>

definition encode_round :: "u8 \<Rightarrow> u8 list \<times> string \<Rightarrow> u8 list \<times> string" where
  "encode_round b = (\<lambda>(char_array_3, ret).
     (let char_array_3 = char_array_3 @ [b]
      in if length char_array_3 = 3
         then ([], ret @ map code_char
                 (encode_group (char_array_3 ! 0) (char_array_3 ! 1) (char_array_3 ! 2)))
         else (char_array_3, ret)))"

text \<open>The rest: zero-fill the group, emit one code more than there are bytes, pad with \<open>=\<close>.\<close>

definition encode_rest :: "u8 list \<times> string \<Rightarrow> string" where
  "encode_rest = (\<lambda>(char_array_3, ret).
     (let i = length char_array_3
      in if i \<noteq> 0
         then (let a = char_array_3 @ replicate (3 - i) 0
               in ret @ take (i + 1) (map code_char (encode_group (a ! 0) (a ! 1) (a ! 2)))
                  @ replicate (3 - i) (CHR ''=''))
         else ret))"

definition base64_encode :: "u8 list \<Rightarrow> string" where
  "base64_encode bytes = encode_rest (fold encode_round bytes ([], []))"

section \<open>Decoding\<close>

text \<open>\<open>(unsigned char)base64_chars.find(c)\<close>: \<open>npos\<close> becomes 255.\<close>

fun index_of :: "char \<Rightarrow> string \<Rightarrow> nat option" where
  "index_of c [] = None"
| "index_of c (x # xs) = (if c = x then Some 0 else map_option Suc (index_of c xs))"

definition code_value :: "char \<Rightarrow> u8" where
  "code_value c = (case index_of c base64_chars of Some i \<Rightarrow> of_nat i | None \<Rightarrow> 255)"

definition decode_group :: "u8 \<Rightarrow> u8 \<Rightarrow> u8 \<Rightarrow> u8 \<Rightarrow> u8 list" where
  "decode_group a b c d =
     [push_bit 2 a + drop_bit 4 (b AND 0x30),
      push_bit 4 (b AND 0xf) + drop_bit 2 (c AND 0x3c),
      push_bit 6 (c AND 0x3) + d]"

definition decode_codes :: "string \<Rightarrow> u8 list" where
  "decode_codes cs =
     decode_group (code_value (cs ! 0)) (code_value (cs ! 1)) (code_value (cs ! 2)) (code_value (cs ! 3))"

text \<open>The loop stops at the end, at \<open>=\<close>, and at the first character that is no code.\<close>

fun decode_loop :: "string \<Rightarrow> string \<Rightarrow> u8 list \<Rightarrow> string \<times> u8 list" where
  "decode_loop [] char_array_4 ret = (char_array_4, ret)"
| "decode_loop (c # cs) char_array_4 ret =
     (if c \<noteq> CHR ''='' \<and> is_base64 c
      then (let a = char_array_4 @ [c]
            in if length a = 4 then decode_loop cs [] (ret @ decode_codes a)
               else decode_loop cs a ret)
      else (char_array_4, ret))"

definition decode_rest :: "string \<times> u8 list \<Rightarrow> u8 list" where
  "decode_rest = (\<lambda>(char_array_4, ret).
     (let i = length char_array_4
      in if i \<noteq> 0
         then ret @ take (i - 1) (decode_codes (char_array_4 @ replicate (4 - i) NUL))
         else ret))"

definition base64_decode :: "string \<Rightarrow> u8 list" where
  "base64_decode encoded_string = decode_rest (decode_loop encoded_string [] [])"

section \<open>The alphabet\<close>

lemma base64_chars_length: "length base64_chars = 64"
  by (simp add: base64_chars_def)

lemma base64_chars_ok:
  "list_all (\<lambda>i. index_of (base64_chars ! i) base64_chars = Some i \<and> is_base64 (base64_chars ! i) \<and>
     base64_chars ! i \<noteq> CHR ''='' \<and> base64_chars ! i \<noteq> CHR 0x0A) [0..<64]"
  by code_simp

lemma code_char_ok:
  assumes "unat v < 64"
  shows "code_value (code_char v) = v" "is_base64 (code_char v)"
    "code_char v \<noteq> CHR ''=''" "code_char v \<noteq> CHR 0x0A"
  using base64_chars_ok assms unfolding list_all_iff
  by (auto simp: code_char_def code_value_def)

section \<open>One group\<close>

text \<open>Bytes are equal when their eight bits are; sums of disjoint bit fields are disjunctions.\<close>

lemma all_less_8: "(\<forall>n<8. P n) \<longleftrightarrow> P 0 \<and> P 1 \<and> P 2 \<and> P 3 \<and> P 4 \<and> P 5 \<and> P 6 \<and> P (7 :: nat)"
  by (simp add: eval_nat_numeral less_Suc_eq all_conj_distrib)

lemma u8_bits_eqI:
  assumes "\<forall>n<8. bit (x :: u8) n = bit y n"
  shows "x = y"
  using assms by (intro bit_word_eqI) simp

lemmas u8_bitsI = u8_bits_eqI [unfolded all_less_8]

lemma u8_bits_add:
  assumes "\<forall>n<8. \<not> bit (x :: u8) n \<or> \<not> bit y n"
  shows "x + y = x OR y"
proof (rule disjunctive_add)
  fix n
  show "\<not> bit x n \<or> \<not> bit y n"
    using assms bit_imp_le_length [of x n] by (cases "n < 8") auto
qed

lemma bits_add:
  "push_bit 4 (a AND 0x03) + drop_bit 4 (b AND 0xf0) =
     (push_bit 4 (a AND 0x03) OR drop_bit 4 (b AND 0xf0) :: u8)"
  "push_bit 2 (b AND 0x0f) + drop_bit 6 (c AND 0xc0) =
     (push_bit 2 (b AND 0x0f) OR drop_bit 6 (c AND 0xc0) :: u8)"
  by (rule u8_bits_add, simp add: all_less_8 bit_simps)+

lemma small_bits: "unat ((v :: u8) AND 0x3f) < 64"
proof -
  have "v AND 0x3f = v mod 64"
    using take_bit_eq_mask [of 6 v] by (simp add: take_bit_eq_mod mask_eq_exp_minus_1)
  then have "unat (v AND 0x3f) = unat v mod 64" by (simp add: unat_mod)
  then show ?thesis by simp
qed

lemma encode_group_masked:
  "drop_bit 2 ((a :: u8) AND 0xfc) = drop_bit 2 (a AND 0xfc) AND 0x3f"
  "(push_bit 4 (a AND 0x03) OR drop_bit 4 (b AND 0xf0) :: u8) =
     (push_bit 4 (a AND 0x03) OR drop_bit 4 (b AND 0xf0)) AND 0x3f"
  "(push_bit 2 (b AND 0x0f) OR drop_bit 6 (c AND 0xc0) :: u8) =
     (push_bit 2 (b AND 0x0f) OR drop_bit 6 (c AND 0xc0)) AND 0x3f"
  by (rule u8_bitsI, simp add: bit_simps)+

lemma encode_group_small: "\<forall>v \<in> set (encode_group a b c). unat v < 64"
proof -
  have "v = v AND 0x3f" if "v \<in> set (encode_group a b c)" for v
    using that encode_group_masked unfolding encode_group_def bits_add
    by (auto simp del: bit_and_iff)
  then show ?thesis by (metis small_bits)
qed

lemma decode_encode_group:
  "decode_group (encode_group a b c ! 0) (encode_group a b c ! 1) (encode_group a b c ! 2)
     (encode_group a b c ! 3) = [a, b, c]"
proof -
  let ?A = "drop_bit 2 (a AND 0xfc)"
  let ?B = "push_bit 4 (a AND 0x03) OR drop_bit 4 (b AND 0xf0)"
  let ?C = "push_bit 2 (b AND 0x0f) OR drop_bit 6 (c AND 0xc0)"
  let ?D = "c AND 0x3f"
  have "push_bit 2 ?A + drop_bit 4 (?B AND 0x30) = a"
    by (subst u8_bits_add, simp add: all_less_8 bit_simps, rule u8_bitsI, simp add: bit_simps)
  moreover have "push_bit 4 (?B AND 0xf) + drop_bit 2 (?C AND 0x3c) = b"
    by (subst u8_bits_add, simp add: all_less_8 bit_simps, rule u8_bitsI, simp add: bit_simps)
  moreover have "push_bit 6 (?C AND 0x3) + ?D = c"
    by (subst u8_bits_add, simp add: all_less_8 bit_simps, rule u8_bitsI, simp add: bit_simps)
  ultimately show ?thesis
    unfolding decode_group_def encode_group_def bits_add by simp
qed

section \<open>Whole texts\<close>

text \<open>The encoder, group by group.\<close>

fun encode_groups :: "u8 list \<Rightarrow> string" where
  "encode_groups (a # b # c # rest) = map code_char (encode_group a b c) @ encode_groups rest"
| "encode_groups rest = encode_rest (rest, [])"

lemma encode_rest_append: "encode_rest (p, ret) = ret @ encode_rest (p, [])"
  by (simp add: encode_rest_def Let_def)

lemma encode_fold: "encode_rest (fold encode_round bs ([], ret)) = ret @ encode_groups bs"
proof (induction bs arbitrary: ret rule: encode_groups.induct)
  case (1 a b c rest)
  then show ?case by (simp add: encode_round_def)
qed (simp_all add: encode_round_def, (subst encode_rest_append, simp)+)

lemma base64_encode_groups: "base64_encode bs = encode_groups bs"
  by (simp add: base64_encode_def encode_fold)

text \<open>A group read back; the loop state between groups has nothing pending.\<close>

definition is_code :: "char \<Rightarrow> bool" where
  "is_code c \<longleftrightarrow> c \<noteq> CHR ''='' \<and> is_base64 c"

lemma decode_loop_group:
  assumes "is_code w" "is_code x" "is_code y" "is_code z"
  shows "decode_loop (w # x # y # z # cs) [] ret = decode_loop cs [] (ret @ decode_codes [w, x, y, z])"
  using assms by (simp add: is_code_def)

lemma encode_group_codes:
  obtains w x y z where "map code_char (encode_group a b c) = [w, x, y, z]"
    "is_code w" "is_code x" "is_code y" "is_code z" "decode_codes [w, x, y, z] = [a, b, c]"
proof -
  obtain p q r s where g: "encode_group a b c = [p, q, r, s]" by (simp add: encode_group_def)
  have small: "unat p < 64" "unat q < 64" "unat r < 64" "unat s < 64"
    using encode_group_small [of a b c] g by simp_all
  have "decode_group p q r s = [a, b, c]" using decode_encode_group [of a b c] g by simp
  then show ?thesis
    using small g
    by (intro that [of "code_char p" "code_char q" "code_char r" "code_char s"])
       (simp_all add: is_code_def code_char_ok decode_codes_def)
qed

lemma decode_group_prefix:
  "decode_group p q r s ! 0 = decode_group p q r' s' ! 0"
  "decode_group p q r s ! 1 = decode_group p q r s' ! 1"
  by (simp_all add: decode_group_def)

lemma decode_rest_encode_rest:
  assumes "length bs < 3"
  shows "decode_rest (decode_loop (encode_rest (bs, [])) [] ret) = ret @ bs"
proof -
  consider "bs = []" | a where "bs = [a]" | a b where "bs = [a, b]"
    using assms by (cases bs; cases "tl bs"; cases "tl (tl bs)") auto
  then show ?thesis
  proof cases
    case 1
    then show ?thesis by (simp add: encode_rest_def decode_rest_def)
  next
    case (2 a)
    obtain w x y z where g: "map code_char (encode_group a 0 0) = [w, x, y, z]"
      "is_code w" "is_code x" "decode_codes [w, x, y, z] = [a, 0, 0]"
      using encode_group_codes [of a 0 0] by metis
    have "decode_codes [w, x, NUL, NUL] ! 0 = a"
      using g(4) decode_group_prefix(1) [of "code_value w" "code_value x"]
      by (simp add: decode_codes_def) (metis nth_Cons_0)
    then have "take 1 (decode_codes [w, x, NUL, NUL]) = [a]"
      by (simp add: decode_codes_def decode_group_def)
    with 2 g show ?thesis
      by (simp add: encode_rest_def decode_rest_def is_code_def Let_def numeral_2_eq_2)
  next
    case (3 a b)
    obtain w x y z where g: "map code_char (encode_group a b 0) = [w, x, y, z]"
      "is_code w" "is_code x" "is_code y" "decode_codes [w, x, y, z] = [a, b, 0]"
      using encode_group_codes [of a b 0] by metis
    have "take 2 (decode_codes [w, x, y, NUL]) = [a, b]"
      using g(5) by (simp add: decode_codes_def decode_group_def numeral_2_eq_2)
    with 3 g show ?thesis
      by (simp add: encode_rest_def decode_rest_def is_code_def Let_def numeral_2_eq_2 numeral_3_eq_3)
  qed
qed

lemma decode_encode_groups:
  "decode_rest (decode_loop (encode_groups bs) [] ret) = ret @ bs"
proof (induction bs arbitrary: ret rule: encode_groups.induct)
  case (1 a b c rest)
  obtain w x y z where g: "map code_char (encode_group a b c) = [w, x, y, z]"
    "is_code w" "is_code x" "is_code y" "is_code z" "decode_codes [w, x, y, z] = [a, b, c]"
    using encode_group_codes by metis
  have "decode_loop (encode_groups (a # b # c # rest)) [] ret =
      decode_loop (encode_groups rest) [] (ret @ [a, b, c])"
    using decode_loop_group [OF g(2-5), of "encode_groups rest" ret] g(1,6) by simp
  then show ?case by (simp add: 1)
qed (simp_all add: decode_rest_encode_rest)

lemma encode_groups_length: "length (encode_groups bs) = 4 * ((length bs + 2) div 3)"
proof (induction bs rule: encode_groups.induct)
  case (1 a b c rest)
  have "(length (a # b # c # rest) + 2) div 3 = (length rest + 2) div 3 + 1" by simp
  with 1 show ?case by (simp add: encode_group_def)
qed (simp_all add: encode_rest_def encode_group_def)

section \<open>Properties\<close>

text \<open>Decoding inverts encoding on every byte string, and the code text has four characters
  for every three bytes begun.\<close>

theorem base64_round_trip:
  "base64_decode (base64_encode bs) = bs \<and> length (base64_encode bs) = 4 * ((length bs + 2) div 3)"
  using decode_encode_groups [of bs "[]"]
  by (simp add: base64_decode_def base64_encode_groups encode_groups_length)

end
