(* ===== verification/LibB64.thy ===== *)
theory LibB64
  imports Base64
begin

text \<open>
  The base64 library of the device's web server, \<^verbatim>\<open>esp8266_sim/libb64/cencode.cpp\<close> and
  \<^verbatim>\<open>cdecode.c\<close>. Its coders are resumable: the \<open>switch\<close> jumps into the middle of a loop, so
  one input character always advances the state by one step, and the model is that step
  function, folded over the input. Plain \<open>char\<close> is signed in the desktop build and unsigned on
  the ESP8266; the decoder depends on it, so it is an argument there. Output buffers are the
  returned text; the decoder's half-written last byte is part of its state.
\<close>

section \<open>Encoding\<close>

datatype encodestep = step_A | step_B | step_C

record base64_encodestate =
  estep :: encodestep
  eresult :: u8
  stepcount :: int

definition CHARS_PER_LINE :: int where "CHARS_PER_LINE = 72"

definition base64_init_encodestate :: base64_encodestate where
  "base64_init_encodestate = \<lparr>estep = step_A, eresult = 0, stepcount = 0\<rparr>"

definition base64_encode_value :: "u8 \<Rightarrow> char" where
  "base64_encode_value value_in =
     (if value_in > 63 then CHR ''='' else base64_chars ! unat value_in)"

definition encode_byte :: "u8 \<Rightarrow> base64_encodestate \<times> string \<Rightarrow> base64_encodestate \<times> string" where
  "encode_byte fragment = (\<lambda>(st, code_out).
     (case estep st of
        step_A \<Rightarrow>
          (st\<lparr>estep := step_B, eresult := push_bit 4 (fragment AND 0x003)\<rparr>,
           code_out @ [base64_encode_value (drop_bit 2 (fragment AND 0x0fc))])
      | step_B \<Rightarrow>
          (st\<lparr>estep := step_C, eresult := push_bit 2 (fragment AND 0x00f)\<rparr>,
           code_out @ [base64_encode_value (eresult st OR drop_bit 4 (fragment AND 0x0f0))])
      | step_C \<Rightarrow>
          (let result = eresult st OR drop_bit 6 (fragment AND 0x0c0);
               code_out = code_out @ [base64_encode_value result];
               result = fragment AND 0x03f;
               code_out = code_out @ [base64_encode_value result];
               n = stepcount st + 1
           in if n = CHARS_PER_LINE sdiv 4
              then (st\<lparr>estep := step_A, eresult := result, stepcount := 0\<rparr>, code_out @ [CHR 0x0A])
              else (st\<lparr>estep := step_A, eresult := result, stepcount := n\<rparr>, code_out))))"

definition base64_encode_block ::
    "u8 list \<Rightarrow> base64_encodestate \<times> string \<Rightarrow> base64_encodestate \<times> string" where
  "base64_encode_block plaintext_in = fold encode_byte plaintext_in"

definition base64_encode_blockend :: "base64_encodestate \<Rightarrow> string" where
  "base64_encode_blockend st =
     (case estep st of
        step_B \<Rightarrow> [base64_encode_value (eresult st), CHR ''='', CHR ''='']
      | step_C \<Rightarrow> [base64_encode_value (eresult st), CHR ''='']
      | step_A \<Rightarrow> [])"

definition base64_encode_chars :: "u8 list \<Rightarrow> string" where
  "base64_encode_chars plaintext_in =
     (let (st, code) = base64_encode_block plaintext_in (base64_init_encodestate, [])
      in code @ base64_encode_blockend st)"

text \<open>The buffer size the header promises: \<open>((((4 * n) / 3) + 3) & ~3)\<close>.\<close>

definition base64_encode_expected_len :: "nat \<Rightarrow> nat" where
  "base64_encode_expected_len n = (4 * n div 3 + 3) div 4 * 4"

section \<open>Decoding\<close>

datatype decodestep = step_a | step_b | step_c | step_d

record base64_decodestate =
  dstep :: decodestep
  plainchar :: u8

definition decoding :: "int list" where
  "decoding = [62, -1, -1, -1, 63, 52, 53, 54, 55, 56, 57, 58, 59, 60, 61, -1, -1, -1, -2, -1, -1,
     -1, 0, 1, 2, 3, 4, 5, 6, 7, 8, 9, 10, 11, 12, 13, 14, 15, 16, 17, 18, 19, 20, 21, 22, 23, 24, 25,
     -1, -1, -1, -1, -1, -1, 26, 27, 28, 29, 30, 31, 32, 33, 34, 35, 36, 37, 38, 39, 40, 41, 42, 43,
     44, 45, 46, 47, 48, 49, 50, 51]"

text \<open>The value of an 8-bit pattern as a plain \<open>char\<close>.\<close>

definition char_value :: "bool \<Rightarrow> int \<Rightarrow> int" where
  "char_value sgnd i =
     (if sgnd then sint (word_of_int i :: u8) else uint (word_of_int i :: u8))"

text \<open>The bound check lets one index past the table through; that read is \<open>None\<close>.\<close>

definition base64_decode_value :: "bool \<Rightarrow> char \<Rightarrow> int option" where
  "base64_decode_value sgnd c =
     (let value_in = char_value sgnd (int (char_code c) - 43);
          decoding_size = int (length decoding)
      in if value_in < 0 \<or> value_in > decoding_size then Some (- 1)
         else if value_in < decoding_size then Some (char_value sgnd (decoding ! nat value_in))
         else None)"

definition base64_init_decodestate :: base64_decodestate where
  "base64_init_decodestate = \<lparr>dstep = step_a, plainchar = 0\<rparr>"

definition decode_fragment ::
    "u8 \<Rightarrow> base64_decodestate \<times> u8 list \<Rightarrow> base64_decodestate \<times> u8 list" where
  "decode_fragment fragment = (\<lambda>(st, out).
     (case dstep st of
        step_a \<Rightarrow> (\<lparr>dstep = step_b, plainchar = push_bit 2 (fragment AND 0x03f)\<rparr>, out)
      | step_b \<Rightarrow> (\<lparr>dstep = step_c, plainchar = push_bit 4 (fragment AND 0x00f)\<rparr>,
                   out @ [plainchar st OR drop_bit 4 (fragment AND 0x030)])
      | step_c \<Rightarrow> (\<lparr>dstep = step_d, plainchar = push_bit 6 (fragment AND 0x003)\<rparr>,
                   out @ [plainchar st OR drop_bit 2 (fragment AND 0x03c)])
      | step_d \<Rightarrow> (\<lparr>dstep = step_a, plainchar = plainchar st\<rparr>,
                   out @ [plainchar st OR (fragment AND 0x03f)])))"

text \<open>One input character: the \<open>do \<dots> while (fragment < 0)\<close> skips what is no code.\<close>

fun base64_decode_block ::
    "bool \<Rightarrow> string \<Rightarrow> base64_decodestate \<times> u8 list \<Rightarrow> (base64_decodestate \<times> u8 list) option" where
  "base64_decode_block sgnd [] s = Some s"
| "base64_decode_block sgnd (c # code_in) s =
     (case base64_decode_value sgnd c of
        None \<Rightarrow> None
      | Some v \<Rightarrow>
          base64_decode_block sgnd code_in
            (if char_value sgnd v < 0 then s else decode_fragment (word_of_int v) s))"

definition base64_decode_chars :: "bool \<Rightarrow> string \<Rightarrow> u8 list option" where
  "base64_decode_chars sgnd code_in =
     map_option snd (base64_decode_block sgnd code_in (base64_init_decodestate, []))"

section \<open>The encoder against the other implementation\<close>

definition newline :: char where "newline = CHR 0x0A"

lemma encode_value_code: "unat v < 64 \<Longrightarrow> base64_encode_value v = code_char v"
  by (simp add: base64_encode_value_def code_char_def word_less_nat_alt)

text \<open>From a group boundary, three bytes produce one group of code and perhaps a newline.\<close>

definition line_break :: "int \<Rightarrow> int \<times> string" where
  "line_break n = (if n + 1 = 18 then (0, [newline]) else (n + 1, []))"

lemma encode_three:
  assumes "estep st = step_A"
  shows "\<exists>st'. fold encode_byte [a, b, c] (st, code) =
      (st', code @ map code_char (encode_group a b c) @ snd (line_break (stepcount st))) \<and>
    estep st' = step_A \<and> stepcount st' = fst (line_break (stepcount st))"
proof -
  have small: "unat (encode_group a b c ! i) < 64" if "i < 4" for i
  proof -
    have "length (encode_group a b c) = 4" by (simp add: encode_group_def)
    then show ?thesis using encode_group_small [of a b c] that nth_mem by metis
  qed
  have g: "encode_group a b c = [drop_bit 2 (a AND 0xfc),
      push_bit 4 (a AND 0x03) OR drop_bit 4 (b AND 0xf0),
      push_bit 2 (b AND 0x0f) OR drop_bit 6 (c AND 0xc0), c AND 0x3f]"
    by (simp only: encode_group_def bits_add)
  have v: "base64_encode_value (drop_bit 2 (a AND 0xfc)) = code_char (drop_bit 2 (a AND 0xfc))"
    "base64_encode_value (push_bit 4 (a AND 0x03) OR drop_bit 4 (b AND 0xf0)) =
       code_char (push_bit 4 (a AND 0x03) OR drop_bit 4 (b AND 0xf0))"
    "base64_encode_value (push_bit 2 (b AND 0x0f) OR drop_bit 6 (c AND 0xc0)) =
       code_char (push_bit 2 (b AND 0x0f) OR drop_bit 6 (c AND 0xc0))"
    "base64_encode_value (c AND 0x3f) = code_char (c AND 0x3f)"
    using small [of 0] small [of 1] small [of 2] small [of 3] unfolding g
    by (simp_all add: encode_value_code del: bit_and_iff)
  show ?thesis
    using assms v unfolding g
    by (simp add: encode_byte_def Let_def line_break_def CHARS_PER_LINE_def newline_def)
qed

fun encode_lines :: "int \<Rightarrow> u8 list \<Rightarrow> string" where
  "encode_lines n (a # b # c # rest) =
     map code_char (encode_group a b c) @ snd (line_break n) @ encode_lines (fst (line_break n)) rest"
| "encode_lines n rest = encode_rest (rest, [])"

lemma encode_value_masked:
  "base64_encode_value (drop_bit 2 (a AND 0xfc)) = code_char (drop_bit 2 (a AND 0xfc))"
  "base64_encode_value (push_bit 4 (a AND 0x03)) = code_char (push_bit 4 (a AND 0x03))"
  "base64_encode_value (push_bit 4 (a AND 0x03) OR drop_bit 4 (b AND 0xf0)) =
     code_char (push_bit 4 (a AND 0x03) OR drop_bit 4 (b AND 0xf0))"
  "base64_encode_value (push_bit 2 (b AND 0x0f)) = code_char (push_bit 2 (b AND 0x0f))"
proof -
  have "unat v < 64" if "v \<in> set (encode_group x y z)" for v x y z
    using encode_group_small [of x y z] that by blast
  from this [of _ a 0 0] this [of _ a b 0] this [of _ 0 b 0]
  show "base64_encode_value (drop_bit 2 (a AND 0xfc)) = code_char (drop_bit 2 (a AND 0xfc))"
    "base64_encode_value (push_bit 4 (a AND 0x03)) = code_char (push_bit 4 (a AND 0x03))"
    "base64_encode_value (push_bit 4 (a AND 0x03) OR drop_bit 4 (b AND 0xf0)) =
     code_char (push_bit 4 (a AND 0x03) OR drop_bit 4 (b AND 0xf0))"
    "base64_encode_value (push_bit 2 (b AND 0x0f)) = code_char (push_bit 2 (b AND 0x0f))"
    unfolding encode_group_def bits_add by (intro encode_value_code; simp)+
qed

lemma encode_lines_correct:
  assumes "estep st = step_A"
  shows "(case fold encode_byte bs (st, code) of (st', code') \<Rightarrow> code' @ base64_encode_blockend st')
    = code @ encode_lines (stepcount st) bs"
  using assms
proof (induction "stepcount st" bs arbitrary: st code
    rule: encode_lines.induct [case_names three none one two])
  case (three a b c rest)
  obtain st' where st': "fold encode_byte [a, b, c] (st, code) =
      (st', code @ map code_char (encode_group a b c) @ snd (line_break (stepcount st)))"
    "estep st' = step_A" "stepcount st' = fst (line_break (stepcount st))"
    using encode_three [OF three(2), of a b c code] by blast
  have "fold encode_byte (a # b # c # rest) (st, code) =
      fold encode_byte rest (fold encode_byte [a, b, c] (st, code))"
    by simp
  then show ?case
    unfolding st'(1) using three(1) [OF st'(3) [symmetric] st'(2)] st'(3) by simp
next
  case none
  then show ?case by (simp add: encode_rest_def base64_encode_blockend_def)
next
  case (one a)
  have "push_bit 4 (a AND 3) + drop_bit 4 (0 AND 0xF0) = (push_bit 4 (a AND 3) :: u8)" by simp
  with one encode_value_masked(1,2) [of a] show ?case
    by (simp add: encode_rest_def base64_encode_blockend_def encode_byte_def encode_group_def
        Let_def numeral_2_eq_2)
next
  case (two a b)
  with two encode_value_masked(1) [of a] encode_value_masked(3) [of a b]
    encode_value_masked(4) [of b] bits_add(1) [of a b] show ?case
    by (simp add: encode_rest_def base64_encode_blockend_def encode_byte_def encode_group_def
        Let_def numeral_2_eq_2 numeral_3_eq_3)
qed

lemma base64_encode_chars_lines: "base64_encode_chars bs = encode_lines 0 bs"
  using encode_lines_correct [of base64_init_encodestate bs "[]"]
  by (simp add: base64_encode_chars_def base64_encode_block_def base64_init_encodestate_def)

lemma code_not_newline: "newline \<notin> set (map code_char (encode_group a b c))"
proof
  assume "newline \<in> set (map code_char (encode_group a b c))"
  then obtain v where "v \<in> set (encode_group a b c)" "code_char v = newline" by auto
  with code_char_ok(4) [of v] encode_group_small [of a b c] show False by (simp add: newline_def)
qed

lemma rest_not_newline:
  assumes "length bs < 3"
  shows "newline \<notin> set (encode_rest (bs, []))"
proof -
  let ?p = "bs @ replicate (3 - length bs) 0"
  have "set (encode_rest (bs, [])) \<subseteq>
      set (map code_char (encode_group (?p ! 0) (?p ! 1) (?p ! 2))) \<union> {CHR ''=''}"
    unfolding encode_rest_def Let_def by (auto dest: in_set_takeD)
  then show ?thesis using code_not_newline [of "?p ! 0" "?p ! 1" "?p ! 2"] by (auto simp: newline_def)
qed

lemma encode_lines_filter: "filter (\<lambda>c. c \<noteq> newline) (encode_lines n bs) = encode_groups bs"
proof (induction n bs
    rule: encode_lines.induct [case_names three none one two])
  case (three n a b c rest)
  have "filter (\<lambda>c. c \<noteq> newline) (map code_char (encode_group a b c)) =
      map code_char (encode_group a b c)"
    using code_not_newline [of a b c] by (intro filter_True) metis
  then show ?case using three by (simp add: line_break_def)
qed (use rest_not_newline in \<open>auto intro!: filter_True\<close>)

lemma encode_lines_length:
  assumes "k < 18"
  shows "length (encode_lines (int k) bs) =
    4 * ((length bs + 2) div 3) + (k + length bs div 3) div 18"
  using assms
proof (induction "int k" bs arbitrary: k
    rule: encode_lines.induct [case_names three none one two])
  case (three a b c rest)
  define q where "q = length rest div 3"
  have len: "(length (a # b # c # rest) + 2) div 3 = (length rest + 2) div 3 + 1"
    "length (a # b # c # rest) div 3 = q + 1" by (simp_all add: q_def)
  have g: "length (encode_group a b c) = 4" by (simp add: encode_group_def)
  show ?case
  proof (cases "k = 17")
    case True
    have "length (encode_lines 0 rest) = 4 * ((length rest + 2) div 3) + q div 18"
      using three(1) [of 0] True by (simp add: line_break_def q_def)
    then show ?thesis using True unfolding len by (simp add: line_break_def g)
  next
    case False
    have "length (encode_lines (int (k + 1)) rest) = 4 * ((length rest + 2) div 3) + (k + 1 + q) div 18"
      using three(1) [of "k + 1"] False three(2) by (simp add: line_break_def q_def add.commute)
    then show ?thesis using False unfolding len by (simp add: line_break_def g add.commute)
  qed
qed (simp_all add: encode_rest_def encode_group_def)

text \<open>Where the newlines are: the code of 54 bytes, 72 characters, is a line of its own, and the
  last line, of fewer than 54 bytes, has none.\<close>

function code_lines :: "u8 list \<Rightarrow> string" where
  "code_lines bs =
     (if length bs < 54 then base64_encode bs
      else base64_encode (take 54 bs) @ newline # code_lines (drop 54 bs))"
  by auto
termination by (relation "measure length") auto

declare code_lines.simps [simp del]

lemma encode_lines_last:
  assumes "length bs < 3 * (18 - k)" "k < 18"
  shows "encode_lines (int k) bs = encode_groups bs"
  using assms
proof (induction "int k" bs arbitrary: k
    rule: encode_lines.induct [case_names three none one two])
  case (three a b c rest)
  then have "k + 1 < 18" by simp
  moreover from this three(1) [of "k + 1"] three(2) have "encode_lines (int (k + 1)) rest = encode_groups rest"
    by (simp add: line_break_def add.commute)
  ultimately show ?case by (simp add: line_break_def add.commute)
qed simp_all

lemma encode_lines_full:
  assumes "length xs = 3 * (18 - k)" "k < 18"
  shows "encode_lines (int k) (xs @ ys) = encode_groups xs @ newline # encode_lines 0 ys"
  using assms
proof (induction "int k" xs arbitrary: k
    rule: encode_lines.induct [case_names three none one two])
  case (three a b c rest)
  show ?case
  proof (cases "k = 17")
    case True
    with three(2) show ?thesis by (simp add: line_break_def encode_rest_def)
  next
    case False
    with three(3) have "k + 1 < 18" by simp
    with three(1) [of "k + 1"] three(2) have
      "encode_lines (int (k + 1)) (rest @ ys) = encode_groups rest @ newline # encode_lines 0 ys"
      by (simp add: line_break_def add.commute)
    with False show ?thesis by (simp add: line_break_def add.commute)
  qed
qed simp_all

lemma encode_lines_code: "encode_lines 0 bs = code_lines bs"
proof (induction bs rule: code_lines.induct)
  case (1 bs)
  show ?case
  proof (cases "length bs < 54")
    case True
    with encode_lines_last [of bs 0] show ?thesis
      by (subst code_lines.simps) (simp add: base64_encode_groups)
  next
    case False
    with 1 encode_lines_full [of "take 54 bs" 0 "drop 54 bs"] show ?thesis
      by (subst code_lines.simps) (simp add: base64_encode_groups)
  qed
qed

section \<open>The decoder\<close>

lemma char_value_small: "0 \<le> v \<Longrightarrow> v < 128 \<Longrightarrow> char_value True v = v"
  by (simp add: char_value_def signed_take_bit_int_eq_self sint_sbintrunc')

lemma char_value_neg:
  "char_value True (- 1) = - 1" "char_value True (- 2) = - 2" "char_value True (- 33) = - 33"
  by (simp_all add: char_value_def sint_sbintrunc')

text \<open>Alphabet and table by their four runs.\<close>

lemma base64_chars_runs:
  "base64_chars = map char_of [65..<91] @ map char_of [97..<123] @ map char_of [48..<58] @ ''+/''"
  by code_simp

lemma decoding_runs:
  "decoding = [62, -1, -1, -1, 63] @ map int [52..<62] @ [-1, -1, -1, -2, -1, -1, -1] @
     map int [0..<26] @ replicate 6 (-1) @ map int [26..<52]"
  by code_simp

lemma plus_slash: "char_of (43 :: nat) = CHR ''+''" "char_of (47 :: nat) = CHR ''/''"
  by code_simp+

lemma decoding_table:
  assumes "i < 64"
  shows "\<exists>k. base64_chars ! i = char_of k \<and> 43 \<le> k \<and> k < 123 \<and> decoding ! (k - 43) = int i"
proof -
  consider "i < 26" | "26 \<le> i" "i < 52" | "52 \<le> i" "i < 62" | "i = 62" | "i = 63"
    using assms by linarith
  then show ?thesis
  proof cases
    case 1
    then show ?thesis unfolding base64_chars_runs decoding_runs
      by (intro exI [of _ "65 + i"]) (auto simp add: nth_append simp del: append_Cons upt_rec_numeral)
  next
    case 2
    then show ?thesis unfolding base64_chars_runs decoding_runs
      by (intro exI [of _ "71 + i"]) (auto simp add: nth_append simp del: append_Cons upt_rec_numeral)
  next
    case 3
    then show ?thesis unfolding base64_chars_runs decoding_runs
      by (intro exI [of _ "i - 4"]) (auto simp add: nth_append simp del: append_Cons upt_rec_numeral)
  next
    case 4
    then show ?thesis unfolding base64_chars_runs decoding_runs
      by (intro exI [of _ 43]) (simp add: nth_append plus_slash del: append_Cons upt_rec_numeral)
  next
    case 5
    then show ?thesis unfolding base64_chars_runs decoding_runs
      by (intro exI [of _ 47]) (simp add: nth_append plus_slash del: append_Cons upt_rec_numeral)
  qed
qed

lemma decoding_length: "length decoding = 80"
  by (simp add: decoding_def)

lemma decode_value_code:
  assumes "i < 64"
  shows "base64_decode_value True (base64_chars ! i) = Some (int i)"
proof -
  obtain k where "base64_chars ! i = char_of k" and k: "43 \<le> k" "k < 123" "decoding ! (k - 43) = int i"
    using decoding_table [OF assms] by blast
  then have c: "char_code (base64_chars ! i) = k" by (simp add: char_code_char_of)
  have "char_value True (int k - 43) = int k - 43" using k by (intro char_value_small) simp_all
  moreover have "nat (int k - 43) = k - 43" using k by simp
  moreover have "char_value True (int i) = int i" using assms by (intro char_value_small) simp_all
  ultimately show ?thesis
    using k unfolding base64_decode_value_def c by (simp add: decoding_length)
qed

lemma decode_value_skipped:
  "base64_decode_value True newline = Some (- 1)" "base64_decode_value True (CHR ''='') = Some (- 2)"
proof -
  have "decoding ! 18 = - 2" by (simp add: decoding_def)
  then show "base64_decode_value True newline = Some (- 1)"
    "base64_decode_value True (CHR ''='') = Some (- 2)"
    by (simp_all add: base64_decode_value_def newline_def char_code_def char_value_neg
        char_value_small decoding_length)
qed

lemma decode_block_code:
  assumes "unat v < 64"
  shows "base64_decode_block True (code_char v # cs) s =
    base64_decode_block True cs (decode_fragment v s)"
proof -
  have "base64_decode_value True (code_char v) = Some (int (unat v))"
    unfolding code_char_def by (rule decode_value_code [OF assms])
  moreover have "\<not> char_value True (int (unat v)) < 0"
  proof -
    have "0 \<le> int (unat v)" "int (unat v) < 64" using assms by linarith+
    then show ?thesis by (simp only: char_value_small)
  qed
  moreover have "word_of_int (int (unat v)) = v" by simp
  ultimately show ?thesis by (simp del: of_nat_unat uint_nat)
qed

lemma decode_block_skip:
  "base64_decode_block True (newline # cs) s = base64_decode_block True cs s"
  "base64_decode_block True (CHR ''='' # cs) s = base64_decode_block True cs s"
  by (simp_all add: decode_value_skipped char_value_neg)

lemma decode_block_line_break:
  "base64_decode_block True (snd (line_break n) @ cs) s = base64_decode_block True cs s"
  by (simp add: line_break_def decode_block_skip del: base64_decode_block.simps(2))

text \<open>The bytes the decoder assembles from the codes of a group.\<close>

lemma assembled:
  "push_bit 2 (drop_bit 2 ((a :: u8) AND 0xfc) AND 0x3f) OR
     drop_bit 4 ((push_bit 4 (a AND 0x03) OR drop_bit 4 (b AND 0xf0)) AND 0x30) = a"
  "push_bit 4 ((push_bit 4 (a AND 0x03) OR drop_bit 4 ((b :: u8) AND 0xf0)) AND 0x0f) OR
     drop_bit 2 ((push_bit 2 (b AND 0x0f) OR drop_bit 6 (c AND 0xc0)) AND 0x3c) = b"
  "push_bit 6 ((push_bit 2 (b AND 0x0f) OR drop_bit 6 ((c :: u8) AND 0xc0)) AND 0x03) OR
     ((c AND 0x3f) AND 0x3f) = c"
  by (rule u8_bitsI, simp add: bit_simps)+

lemma decode_block_codes:
  assumes "\<forall>v \<in> set vs. unat v < 64"
  shows "base64_decode_block True (map code_char vs @ cs) s =
    base64_decode_block True cs (fold decode_fragment vs s)"
  using assms
proof (induction vs arbitrary: s)
  case (Cons v vs)
  then have "unat v < 64" "\<forall>v \<in> set vs. unat v < 64" by simp_all
  with Cons.IH decode_block_code [of v] show ?case by (simp del: base64_decode_block.simps)
qed simp

lemma encode_group_or:
  "encode_group a b c =
     [drop_bit 2 (a AND 0xfc), push_bit 4 (a AND 0x03) OR drop_bit 4 (b AND 0xf0),
      push_bit 2 (b AND 0x0f) OR drop_bit 6 (c AND 0xc0), c AND 0x3f]"
  by (simp only: encode_group_def bits_add)

lemma decode_fragments:
  assumes "dstep st = step_a"
  shows "\<exists>st'. fold decode_fragment (encode_group a b c) (st, out) = (st', out @ [a, b, c]) \<and>
      dstep st' = step_a"
    "\<exists>st'. fold decode_fragment (take 2 (encode_group a b c)) (st, out) = (st', out @ [a])"
    "\<exists>st'. fold decode_fragment (take 3 (encode_group a b c)) (st, out) = (st', out @ [a, b])"
  using assms assembled(1) [of a b] assembled(2) [of a b c] assembled(3) [of b c]
  unfolding encode_group_or
  by (simp_all add: decode_fragment_def numeral_2_eq_2 numeral_3_eq_3 del: bit_and_iff)

lemma decode_lines:
  assumes "dstep st = step_a"
  shows "\<exists>st'. base64_decode_block True (encode_lines n bs) (st, out) = Some (st', out @ bs)"
  using assms
proof (induction n bs arbitrary: st out
    rule: encode_lines.induct [case_names three none one two])
  case (three n a b c rest)
  obtain st' where "fold decode_fragment (encode_group a b c) (st, out) = (st', out @ [a, b, c])"
    "dstep st' = step_a"
    using decode_fragments(1) [OF three(2)] by blast
  with three(1) [of st' "out @ [a, b, c]"] show ?case
    by (simp add: decode_block_codes encode_group_small decode_block_line_break)
next
  case (none n)
  then show ?case by (simp add: encode_rest_def)
next
  case (one n a)
  have small: "\<forall>v \<in> set (take 2 (encode_group a 0 0)). unat v < 64"
    using encode_group_small [of a 0 0] in_set_takeD by metis
  have "encode_lines n [a] = map code_char (take 2 (encode_group a 0 0)) @ ''==''"
    by (simp add: encode_rest_def take_map numeral_2_eq_2)
  with decode_fragments(2) [OF one, of a 0 0 out] show ?case
    by (auto simp: decode_block_codes [OF small] decode_block_skip
        simp del: encode_lines.simps base64_decode_block.simps(2))
next
  case (two n a b)
  have small: "\<forall>v \<in> set (take 3 (encode_group a b 0)). unat v < 64"
    using encode_group_small [of a b 0] in_set_takeD by metis
  have "encode_lines n [a, b] = map code_char (take 3 (encode_group a b 0)) @ ''=''"
    by (simp add: encode_rest_def take_map numeral_2_eq_2 numeral_3_eq_3)
  with decode_fragments(3) [OF two, of a b 0 out] show ?case
    by (auto simp: decode_block_codes [OF small] decode_block_skip
        simp del: encode_lines.simps base64_decode_block.simps(2))
qed

text \<open>With an unsigned \<open>char\<close> the negative table entries are not recognised.\<close>

lemma two_pads: "replicate 2 c = [c, c]"
  by (simp add: numeral_2_eq_2)

lemma one_byte_code: "base64_encode_chars [65] = ''QQ==''"
  by (simp add: base64_encode_chars_lines encode_rest_def encode_group_def code_char_def
      base64_chars_def take_Cons' two_pads)

lemma unsigned_values:
  "base64_decode_value False (CHR ''Q'') = Some 16" "base64_decode_value False (CHR ''='') = Some 254"
  by (simp_all add: base64_decode_value_def char_value_def char_code_def decoding_def)

section \<open>Properties\<close>

text \<open>C38: The library's encoder writes the same code as the desktop server's, broken into lines:
  a newline stands after the code of every 54 bytes, that is after every 72 characters of full
  groups, and nowhere else. Without the newlines it is the base64 text; with them it exceeds the
  length its header announces by one character for every 54 bytes.\<close>

theorem libb64_encodes_base64:
  "base64_encode_chars bs = code_lines bs \<and>
   filter (\<lambda>c. c \<noteq> newline) (base64_encode_chars bs) = base64_encode bs \<and>
   length (base64_encode_chars bs) = base64_encode_expected_len (length bs) + length bs div 54"
proof -
  have "(4 * n div 3 + 3) div 4 = (n + 2) div 3" for n :: nat
  proof -
    define q where "q = n div 3"
    consider "n = 3 * q" | "n = 3 * q + 1" | "n = 3 * q + 2" unfolding q_def by linarith
    then show ?thesis
    proof cases
      case 1
      have "4 * n div 3 = 4 * q" using 1 by simp
      then show ?thesis using 1 by simp
    next
      case 2
      have "4 * n div 3 = 4 * q + 1" using 2 by simp
      then show ?thesis using 2 by simp
    next
      case 3
      have "4 * n div 3 = 4 * q + 2" using 3 by simp
      then show ?thesis using 3 by simp
    qed
  qed
  moreover have "length bs div 3 div 18 = length bs div 54" by (simp add: div_mult2_eq [symmetric])
  ultimately show ?thesis
    using encode_lines_length [of 0 bs]
    by (simp add: base64_encode_chars_lines encode_lines_filter base64_encode_groups
        base64_encode_expected_len_def flip: encode_lines_code)
qed

text \<open>Where plain \<open>char\<close> is signed, the library's decoder inverts its encoder, newlines and
  padding included; where it is unsigned, as on the ESP8266, already the padding of one byte
  is taken for data.\<close>

theorem libb64_round_trip:
  "base64_decode_chars True (base64_encode_chars bs) = Some bs \<and>
   base64_decode_chars False (base64_encode_chars [65]) \<noteq> Some [65]"
proof
  show "base64_decode_chars True (base64_encode_chars bs) = Some bs"
    using decode_lines [of base64_init_decodestate 0 bs "[]"]
    by (auto simp: base64_decode_chars_def base64_encode_chars_lines base64_init_decodestate_def)
  show "base64_decode_chars False (base64_encode_chars [65]) \<noteq> Some [65]"
    unfolding one_byte_code base64_decode_chars_def base64_init_decodestate_def
      base64_decode_block.simps unsigned_values option.case
    by (simp add: decode_fragment_def char_value_def)
qed

end
