(* ===== verification/UrlHelper.thy ===== *)
theory UrlHelper
  imports Prelude "HOL-Library.List_Lexorder" "HOL-Library.Char_ord"
begin

text \<open>
  URL and request-line parsing of the desktop web server, \<^verbatim>\<open>simple_web_server/UrlHelper.cpp\<close>
  with \<^verbatim>\<open>stdHelpers.cpp\<close>. \<open>std::string\<close> is a list of characters, a position past the end is
  \<open>npos\<close>, and \<open>None\<close> is an exception of \<open>substr\<close> or a read through a wrapped index.
  \<open>std::map\<close> is an association list sorted by key.
\<close>

section \<open>std::string and std::map\<close>

text \<open>\<open>s.find(p, pos)\<close>\<close>

definition find_from :: "string \<Rightarrow> string \<Rightarrow> nat \<Rightarrow> nat option" where
  "find_from p s pos = (if pos \<le> length s then map_option ((+) pos) (find_sub p (drop pos s)) else None)"

text \<open>\<open>s.replace(pos, n, r)\<close> with \<open>pos\<close> inside the string.\<close>

definition str_replace :: "string \<Rightarrow> nat \<Rightarrow> nat \<Rightarrow> string \<Rightarrow> string" where
  "str_replace s pos n r = take pos s @ r @ drop (pos + n) s"

text \<open>\<open>std::map::insert\<close> keeps an existing entry.\<close>

fun map_insert :: "string \<Rightarrow> 'v \<Rightarrow> (string \<times> 'v) list \<Rightarrow> (string \<times> 'v) list" where
  "map_insert k v [] = [(k, v)]"
| "map_insert k v ((k', v') # m) =
     (if k < k' then (k, v) # (k', v') # m
      else if k = k' then (k', v') # m
      else (k', v') # map_insert k v m)"

section \<open>stdHelpers\<close>

text \<open>
  \<open>pos - search_for.size() + replace_with.size() + 1\<close> is computed on \<open>size_t\<close>: where it would
  be negative it wraps past every string, and the search ends.
\<close>

function replace_loop :: "string \<Rightarrow> string \<Rightarrow> nat option \<Rightarrow> string \<Rightarrow> string" where
  "replace_loop search_for replace_with None ret = ret"
| "replace_loop search_for replace_with (Some pos) ret =
     (if pos + length search_for \<le> length ret
      then (let ret' = str_replace ret pos (length search_for) replace_with;
                nxt = int pos - int (length search_for) + int (length replace_with) + 1
            in if nxt < 0 then ret'
               else replace_loop search_for replace_with (find_from search_for ret' (nat nxt)) ret')
      else ret)"
  by pat_completeness auto
termination
proof (relation "measures [\<lambda>(s, r, p, ret). if length r < length s then length ret else 0,
    \<lambda>(s, r, p, ret). case p of None \<Rightarrow> 0 | Some pos \<Rightarrow> Suc (length ret - pos)]", goal_cases)
  case 1
  then show ?case by simp
next
  case (2 s r pos ret ret' nxt)
  have len: "length ret' = length ret - length s + length r"
    using 2 by (simp add: str_replace_def)
  show ?case
  proof (cases "length r < length s")
    case True
    then have "length ret' < length ret" using len 2(1) by linarith
    with True show ?thesis by simp
  next
    case False
    show ?thesis
    proof (cases "find_from s ret' (nat nxt)")
      case None
      with False show ?thesis by simp
    next
      case (Some q)
      then have "nat nxt \<le> q" "nat nxt \<le> length ret'" by (auto simp: find_from_def split: if_splits)
      then have "length ret' - q < length ret - pos" using 2 len False by linarith
      with Some False show ?thesis by simp
    qed
  qed
qed

definition ReplaceInStr :: "string \<Rightarrow> string \<Rightarrow> string \<Rightarrow> string" where
  "ReplaceInStr s search_for replace_with =
     replace_loop search_for replace_with (find_from search_for s 0) s"

definition ToUpper :: "string \<Rightarrow> string" where "ToUpper s = map to_upper s"
definition ToLower :: "string \<Rightarrow> string" where "ToLower s = map to_lower s"

section \<open>UrlHelper\<close>

text \<open>The result is the returned flag, the protocol when it is set, and the rest.\<close>

definition RemoveProtocolFromUrl :: "string \<Rightarrow> bool \<times> string option \<times> string" where
  "RemoveProtocolFromUrl url =
     (case find_sub '':'' url of
        None \<Rightarrow> (False, None, url)
      | Some pos_colon \<Rightarrow>
          if length url < pos_colon + 2 then (False, None, url)
          else if (url @ [NUL]) ! (pos_colon + 1) \<noteq> CHR ''/'' \<or>
                  (url @ [NUL]) ! (pos_colon + 2) \<noteq> CHR ''/'' then (False, None, url)
          else (True, Some (take pos_colon url), drop (3 + pos_colon) url))"

text \<open>One trailing carriage return or newline; \<open>get_req[size() - 1]\<close> of an empty string is a
  read through a wrapped index.\<close>

definition strip_newline :: "string \<Rightarrow> string option" where
  "strip_newline s =
     (if s = [] then None
      else if last s = CHR 0x0D \<or> last s = CHR 0x0A then Some (butlast s) else Some s)"

text \<open>\<open>get_req.substr(0, get_req.size() - 9)\<close>: for a text that is nothing but the version, the size wraps to
  \<open>npos\<close> and the text is kept.\<close>

definition strip_http_version :: "string \<Rightarrow> string" where
  "strip_http_version s =
     (if 7 < length s \<and> take 7 (drop (length s - 8) s) = ''HTTP/1.''
      then (if length s < 9 then s else take (length s - 9) s) else s)"

text \<open>\<open>while ((pos_plus = val.find("+")) != npos) val.replace(pos_plus, 1, " ");\<close>\<close>

function plus_loop :: "string \<Rightarrow> string" where
  "plus_loop val =
     (case find_sub ''+'' val of
        None \<Rightarrow> val
      | Some pos_plus \<Rightarrow> plus_loop (str_replace val pos_plus 1 '' ''))"
  by pat_completeness auto
termination
proof (relation "measure (\<lambda>val. length (filter (\<lambda>c. c = CHR ''+'') val))", goal_cases)
  case 1
  then show ?case by simp
next
  case (2 val p)
  have s: "val = take p val @ ''+'' @ drop (p + length ''+'') val" by (rule find_sub_split [OF 2])
  show ?case
    by (subst (2) s) (simp add: str_replace_def)
qed

declare plus_loop.simps [simp del]

text \<open>\<open>h << val.substr(pos_hex + 1, 2); h << std::hex; h >> i;\<close>: an optional sign and the
  hexadecimal digits that follow; 0 when there are none. When there is nothing to read, the end of the stream
  is met before the conversion and \<open>i\<close> stays uninitialised, which is undefined.\<close>

definition hex_digit :: "char \<Rightarrow> nat option" where
  "hex_digit c =
     (if is_digit c then Some (char_code c - 48)
      else if 65 \<le> char_code c \<and> char_code c \<le> 70 then Some (char_code c - 55)
      else if 97 \<le> char_code c \<and> char_code c \<le> 102 then Some (char_code c - 87)
      else None)"

fun hex_digits :: "nat \<Rightarrow> string \<Rightarrow> nat" where
  "hex_digits acc [] = acc"
| "hex_digits acc (c # cs) = (case hex_digit c of None \<Rightarrow> acc | Some d \<Rightarrow> hex_digits (acc * 16 + d) cs)"

definition read_hex :: "string \<Rightarrow> int option" where
  "read_hex s =
     (case dropWhile is_space s of
        [] \<Rightarrow> None
      | c # cs \<Rightarrow>
          Some (if c = CHR ''-'' then - int (hex_digits 0 cs)
                else if c = CHR ''+'' then int (hex_digits 0 cs)
                else int (hex_digits 0 (c # cs))))"

text \<open>\<open>f << static_cast<char>(i); f >> s;\<close>: reading a string skips white space.\<close>

definition percent_char :: "string \<Rightarrow> string option" where
  "percent_char xy =
     (case read_hex xy of
        None \<Rightarrow> None
      | Some i \<Rightarrow> (let c = char_of (nat (i mod 256)) in Some (if is_space c then [] else [c])))"

lemma percent_char_short: "percent_char xy = Some s \<Longrightarrow> length s \<le> 1"
  by (auto simp: percent_char_def Let_def split: option.splits if_splits)

lemma suffix_shrinks:
  "(L :: nat) \<le> p + 1 + (n - (p + 3)) \<Longrightarrow> p < n \<Longrightarrow> pos \<le> p \<Longrightarrow> L - (p + 1) < n - pos"
  by linarith

function percent_loop :: "string \<Rightarrow> nat \<Rightarrow> string option" where
  "percent_loop val pos_hex =
     (case find_from ''%'' val pos_hex of
        None \<Rightarrow> Some val
      | Some p \<Rightarrow>
          (case percent_char (take 2 (drop (p + 1) val)) of
             None \<Rightarrow> None
           | Some s \<Rightarrow> percent_loop (str_replace val p 3 s) (p + 1)))"
  by pat_completeness auto
termination
proof (relation "measure (\<lambda>(val, pos). length val - pos)", goal_cases)
  case 1
  then show ?case by simp
next
  case (2 val pos p s)
  then obtain q where q: "find_sub ''%'' (drop pos val) = Some q" "p = pos + q"
    by (auto simp: find_from_def split: if_splits)
  from find_sub_length [OF q(1)] have "p < length val" by (simp add: q(2))
  moreover have "length s \<le> 1" using percent_char_short [OF 2(2)] .
  then have "length (str_replace val p 3 s) \<le> p + 1 + (length val - (p + 3))"
    using \<open>p < length val\<close> by (simp add: str_replace_def)
  then have "length (str_replace val p 3 s) - (p + 1) < length val - pos"
    using \<open>p < length val\<close> q(2) by (intro suffix_shrinks) simp_all
  then show ?case by simp
qed

declare percent_loop.simps [simp del]

definition url_decode :: "string \<Rightarrow> string option" where
  "url_decode val = percent_loop (plus_loop val) 0"

text \<open>A name-value pair; without \<open>=\<close>, \<open>npos + 1\<close> is 0 and the value is the whole text.\<close>

definition split_pair :: "string \<Rightarrow> (string \<times> string) option" where
  "split_pair name_value =
     (case find_sub ''='' name_value of
        None \<Rightarrow> map_option (Pair name_value) (url_decode name_value)
      | Some pos_equal \<Rightarrow>
          map_option (Pair (take pos_equal name_value)) (url_decode (drop (pos_equal + 1) name_value)))"

function params_loop :: "string \<Rightarrow> (string \<times> string) list \<Rightarrow> (string \<times> string) list option" where
  "params_loop url_params params =
     (case find_sub ''&'' url_params of
        None \<Rightarrow> Some params
      | Some next_amp \<Rightarrow>
          (case split_pair (take next_amp url_params) of
             None \<Rightarrow> None
           | Some (nam, val) \<Rightarrow> params_loop (drop (next_amp + 1) url_params) (map_insert nam val params)))"
  by pat_completeness auto
termination
proof (relation "measure (\<lambda>(u, _). length u)", goal_cases)
  case 1
  then show ?case by simp
next
  case (2 u ps p x y z)
  from find_sub_length [OF 2(1)] show ?case by simp
qed

declare params_loop.simps [simp del]

definition SplitGetReq ::
    "string \<Rightarrow> (string \<times> string) list \<Rightarrow> (string \<times> (string \<times> string) list) option" where
  "SplitGetReq get_req params =
     (case strip_newline get_req of None \<Rightarrow> None | Some get_req \<Rightarrow>
     (case strip_newline get_req of None \<Rightarrow> None | Some get_req \<Rightarrow>
     (let get_req = strip_http_version get_req
      in case find_sub ''?'' get_req of
           None \<Rightarrow> Some (get_req, params)
         | Some qm \<Rightarrow> map_option (Pair (take qm get_req)) (params_loop (drop (qm + 1) get_req @ ''&'') params))))"

text \<open>The protocol is an in-out argument of the source; callers pass an empty string.\<close>

definition SplitUrl :: "string \<Rightarrow> string \<times> string \<times> string" where
  "SplitUrl url =
     (let (_, protocol, server) = RemoveProtocolFromUrl url;
          protocol = (case protocol of None \<Rightarrow> [] | Some s \<Rightarrow> s)
      in if protocol = ''http''
         then (case find_sub ''/'' server of
                 Some pos_slash \<Rightarrow> (protocol, take pos_slash server, drop pos_slash server)
               | None \<Rightarrow> (protocol, server, ''/''))
         else if protocol = ''file'' then (protocol, [], ReplaceInStr server [CHR 0x5C] ''/'')
         else (protocol, server, []))"

section \<open>std::map\<close>

definition sorted_map :: "(string \<times> 'v) list \<Rightarrow> bool" where
  "sorted_map m \<longleftrightarrow> sorted_wrt (<) (map fst m)"

lemma map_insert_keys: "fst ` set (map_insert k v m) = insert k (fst ` set m)"
  by (induction k v m rule: map_insert.induct) auto

lemma map_insert_sorted: "sorted_map m \<Longrightarrow> sorted_map (map_insert k v m)"
  unfolding sorted_map_def
proof (induction k v m rule: map_insert.induct)
  case (2 k v k' v' m)
  have keys: "set (map fst (map_insert k v m)) = insert k (set (map fst m))"
    using map_insert_keys [of k v m] by simp
  show ?case
  proof (cases "k < k' \<or> k = k'")
    case True
    with 2(2) show ?thesis by auto
  next
    case False
    then have "k' < k" by auto
    with False 2 keys show ?thesis by auto
  qed
qed simp

lemma map_insert_lookup:
  "sorted_map m \<Longrightarrow> map_of (map_insert k v m) =
     (if k \<in> dom (map_of m) then map_of m else (map_of m)(k \<mapsto> v))"
  unfolding sorted_map_def
proof (induction k v m rule: map_insert.induct)
  case (2 k v k' v' m)
  show ?case
  proof (cases "k < k'")
    case True
    then have "k \<notin> set (map fst ((k', v') # m))" using 2(2) by auto
    then have "map_of ((k', v') # m) k = None" by (simp only: map_of_eq_None_iff set_map) auto
    then show ?thesis using True by (auto simp: fun_eq_iff domIff)
  next
    case False
    with 2 show ?thesis by (auto simp: fun_eq_iff domIff split: if_splits)
  qed
qed simp

section \<open>Decoding loops\<close>

lemma plus_loop_map: "plus_loop val = map (\<lambda>c. if c = CHR ''+'' then CHR '' '' else c) val"
proof (induction val rule: plus_loop.induct)
  case (1 val)
  show ?case
  proof (cases "find_sub ''+'' val")
    case None
    then have "CHR ''+'' \<notin> set val" by (simp add: find_sub_singleton_None)
    then have "map (\<lambda>c. if c = CHR ''+'' then CHR '' '' else c) val = val"
      by (intro map_idI) auto
    with None show ?thesis by (subst plus_loop.simps) simp
  next
    case (Some p)
    have s: "val = take p val @ ''+'' @ drop (p + length ''+'') val" by (rule find_sub_split [OF Some])
    let ?f = "\<lambda>c. if c = CHR ''+'' then CHR '' '' else c"
    have "plus_loop val = map ?f (str_replace val p 1 '' '')"
      using 1 [OF Some] by (subst plus_loop.simps) (simp add: Some)
    also have "\<dots> = map ?f (take p val @ ''+'' @ drop (p + length ''+'') val)"
      by (simp add: str_replace_def)
    also have "\<dots> = map ?f val" by (rule arg_cong [OF s [symmetric]])
    finally show ?thesis .
  qed
qed

lemma find_from_skip:
  assumes "pos < length val" "val ! pos \<noteq> c"
  shows "find_from [c] val pos = find_from [c] val (pos + 1)"
proof -
  have "drop pos val = val ! pos # drop (pos + 1) val"
    using assms(1) by (simp add: Cons_nth_drop_Suc)
  then show ?thesis
    using assms by (cases "find_sub [c] (drop (pos + 1) val)") (auto simp: find_from_def starts_at_def)
qed

lemma percent_skip:
  "c \<noteq> CHR ''%'' \<Longrightarrow>
   percent_loop (done @ c # rest) (length done) = percent_loop ((done @ [c]) @ rest) (length (done @ [c]))"
  using find_from_skip [of "length done" "done @ c # rest" "CHR ''%''"]
  by (simp add: percent_loop.simps [of "done @ c # rest"])

lemma percent_hit:
  assumes "percent_char [x, y] = Some [c]"
  shows "percent_loop (done @ CHR ''%'' # x # y # rest) (length done) =
    percent_loop ((done @ [c]) @ rest) (length (done @ [c]))"
proof -
  have "find_from ''%'' (done @ CHR ''%'' # x # y # rest) (length done) = Some (length done)"
    by (simp add: find_from_def starts_at_def)
  then show ?thesis
    by (subst percent_loop.simps) (simp add: assms str_replace_def numeral_3_eq_3 numeral_2_eq_2)
qed

lemma percent_end: "percent_loop val (length val) = Some val"
  by (subst percent_loop.simps) (simp add: find_from_def)

section \<open>Encoding, as a browser or the remote sensor does\<close>

definition unreserved :: "char \<Rightarrow> bool" where
  "unreserved c \<longleftrightarrow> is_alnum c \<or> c \<in> set ''-_.~''"

definition hex_char :: "nat \<Rightarrow> char" where
  "hex_char d = ''0123456789ABCDEF'' ! d"

definition encode_char :: "char \<Rightarrow> string" where
  "encode_char c =
     (if unreserved c then [c]
      else if c = CHR '' '' then ''+''
      else [CHR ''%'', hex_char (char_code c div 16), hex_char (char_code c mod 16)])"

definition url_encode :: "string \<Rightarrow> string" where
  "url_encode s = concat (map encode_char s)"

lemma hex_char_digit: "d < 16 \<Longrightarrow> hex_digit (hex_char d) = Some d"
  and hex_char_chars: "d < 16 \<Longrightarrow> \<not> is_space (hex_char d) \<and> hex_char d \<notin> set ''-+=&?''"
proof -
  have "list_all (\<lambda>d. hex_digit (hex_char d) = Some d \<and> \<not> is_space (hex_char d) \<and>
      hex_char d \<notin> set ''-+=&?'') [0..<16]"
    by code_simp
  then show "d < 16 \<Longrightarrow> hex_digit (hex_char d) = Some d"
    "d < 16 \<Longrightarrow> \<not> is_space (hex_char d) \<and> hex_char d \<notin> set ''-+=&?''"
    by (auto simp: list_all_iff)
qed

lemma char_code_less: "char_code c < 256"
  by (simp add: char_code_def)

lemma percent_char_hex:
  assumes "\<not> is_space c"
  shows "percent_char [hex_char (char_code c div 16), hex_char (char_code c mod 16)] = Some [c]"
proof -
  have d: "char_code c div 16 < 16" "char_code c mod 16 < 16" using char_code_less [of c] by simp_all
  have "read_hex [hex_char (char_code c div 16), hex_char (char_code c mod 16)] = Some (int (char_code c))"
    using hex_char_digit [OF d(1)] hex_char_digit [OF d(2)] hex_char_chars [OF d(1)]
    by (simp add: read_hex_def)
  moreover have "char_of (char_code c) = c" by (simp add: char_code_def)
  ultimately show ?thesis
    using assms char_code_less [of c] by (simp add: percent_char_def Let_def nat_mod_distrib)
qed

text \<open>A text that survives: blanks are the only white space in it.\<close>

definition plain_text :: "string \<Rightarrow> bool" where
  "plain_text s \<longleftrightarrow> (\<forall>c \<in> set s. is_space c \<longrightarrow> c = CHR '' '')"

lemma unreserved_chars: "unreserved c \<Longrightarrow> c \<notin> set ''%+&=? ''"
  by (auto simp: unreserved_def is_alnum_def is_digit_def is_upper_def is_lower_def char_code_def)

text \<open>The first loop undoes \<open>+\<close>; what the second loop then sees of a character.\<close>

definition encode_hex :: "char \<Rightarrow> string" where
  "encode_hex c =
     (if unreserved c \<or> c = CHR '' '' then [c]
      else [CHR ''%'', hex_char (char_code c div 16), hex_char (char_code c mod 16)])"

lemma plus_undone:
  "map (\<lambda>c. if c = CHR ''+'' then CHR '' '' else c) (url_encode s) = concat (map encode_hex s)"
proof (induction s)
  case (Cons c s)
  have d: "char_code c div 16 < 16" "char_code c mod 16 < 16" using char_code_less [of c] by simp_all
  show ?case
    using Cons hex_char_chars [OF d(1)] hex_char_chars [OF d(2)] unreserved_chars [of c]
    by (auto simp: url_encode_def encode_char_def encode_hex_def unreserved_def)
qed (simp add: url_encode_def)

lemma percent_loop_encoded:
  "plain_text s \<Longrightarrow> percent_loop (done @ concat (map encode_hex s)) (length done) = Some (done @ s)"
proof (induction s arbitrary: "done")
  case Nil
  then show ?case by (simp add: percent_end)
next
  case (Cons c s)
  from Cons.prems have s: "plain_text s" by (simp add: plain_text_def)
  note IH = Cons.IH [OF s, of "done @ [c]"]
  show ?case
  proof (cases "unreserved c \<or> c = CHR '' ''")
    case True
    then have "c \<noteq> CHR ''%''" using unreserved_chars [of c] by auto
    with True IH show ?thesis by (simp add: encode_hex_def percent_skip)
  next
    case False
    with Cons.prems have "\<not> is_space c" by (auto simp: plain_text_def)
    with False IH percent_hit [OF percent_char_hex, of c "done"] show ?thesis
      by (simp add: encode_hex_def)
  qed
qed

lemma url_decode_encode: "plain_text s \<Longrightarrow> url_decode (url_encode s) = Some s"
  using percent_loop_encoded [of s "[]"] by (simp add: url_decode_def plus_loop_map plus_undone)

lemma url_encode_chars: "c \<in> set (url_encode s) \<Longrightarrow> c \<notin> set ''&=?''"
proof -
  assume "c \<in> set (url_encode s)"
  then obtain d where "c \<in> set (encode_char d)" by (auto simp: url_encode_def)
  moreover have "char_code d div 16 < 16" "char_code d mod 16 < 16" using char_code_less [of d] by simp_all
  ultimately show ?thesis
    using hex_char_chars [of "char_code d div 16"] hex_char_chars [of "char_code d mod 16"]
      unreserved_chars [of d]
    by (auto simp: encode_char_def split: if_splits)
qed

section \<open>Request lines\<close>

definition print_pair :: "string \<times> string \<Rightarrow> string" where
  "print_pair = (\<lambda>(n, v). n @ ''='' @ url_encode v)"

fun print_params :: "(string \<times> string) list \<Rightarrow> string" where
  "print_params [] = []"
| "print_params [p] = print_pair p"
| "print_params (p # ps) = print_pair p @ ''&'' @ print_params ps"

definition param_ok :: "string \<times> string \<Rightarrow> bool" where
  "param_ok = (\<lambda>(n, v). CHR ''&'' \<notin> set n \<and> CHR ''='' \<notin> set n \<and> plain_text v)"

definition insert_params ::
    "(string \<times> string) list \<Rightarrow> (string \<times> string) list \<Rightarrow> (string \<times> string) list" where
  "insert_params ps m = fold (\<lambda>(n, v). map_insert n v) ps m"

lemma split_pair_print: "param_ok p \<Longrightarrow> split_pair (print_pair p) = Some p"
  by (cases p) (simp add: param_ok_def print_pair_def split_pair_def find_sub_singleton_append
      url_decode_encode)

lemma print_pair_no_amp: "param_ok p \<Longrightarrow> CHR ''&'' \<notin> set (print_pair p)"
  using url_encode_chars by (cases p) (force simp: param_ok_def print_pair_def)

lemma params_loop_pair:
  assumes "param_ok p"
  shows "params_loop (print_pair p @ ''&'' @ rest) m = params_loop rest (map_insert (fst p) (snd p) m)"
  using find_sub_singleton_append [OF print_pair_no_amp [OF assms], of rest] split_pair_print [OF assms]
  by (subst params_loop.simps) (simp add: case_prod_beta)

lemma params_loop_end: "params_loop [] m = Some m"
  by (subst params_loop.simps) simp

lemma params_loop_print:
  assumes "ps \<noteq> []" "\<forall>p \<in> set ps. param_ok p"
  shows "params_loop (print_params ps @ ''&'') m = Some (insert_params ps m)"
  using assms
proof (induction ps arbitrary: m rule: print_params.induct)
  case (2 p)
  then show ?case
    using params_loop_pair [of p "[]" m]
    by (simp add: insert_params_def params_loop_end case_prod_beta)
next
  case (3 p q ps)
  then show ?case
    using params_loop_pair [of p "print_params (q # ps) @ ''&''" m]
    by (simp add: insert_params_def case_prod_beta)
qed simp

text \<open>A request line as clients send it.\<close>

definition request_line :: "string \<Rightarrow> string" where
  "request_line uri = uri @ '' HTTP/1.1'' @ [CHR 0x0D, CHR 0x0A]"

lemma strip_request_line:
  "strip_newline (request_line uri) = Some (uri @ '' HTTP/1.1'' @ [CHR 0x0D])"
  "strip_newline (uri @ '' HTTP/1.1'' @ [CHR 0x0D]) = Some (uri @ '' HTTP/1.1'')"
  by (simp_all add: strip_newline_def request_line_def butlast_append)

lemma strip_version: "strip_http_version (uri @ '' HTTP/1.1'') = uri"
  by (simp add: strip_http_version_def)

lemma SplitGetReq_line:
  "SplitGetReq (request_line uri) m =
     (case find_sub ''?'' uri of
        None \<Rightarrow> Some (uri, m)
      | Some qm \<Rightarrow> map_option (Pair (take qm uri)) (params_loop (drop (qm + 1) uri @ ''&'') m))"
  unfolding SplitGetReq_def strip_request_line option.case strip_version Let_def ..

lemma insert_params_sorted: "sorted_map m \<Longrightarrow> sorted_map (insert_params ps m)"
  unfolding insert_params_def by (induction ps arbitrary: m) (auto simp: map_insert_sorted)

lemma insert_params_lookup: "sorted_map m \<Longrightarrow> map_of (insert_params ps m) = map_of (m @ ps)"
proof (induction ps arbitrary: m)
  case Nil
  then show ?case by (simp add: insert_params_def)
next
  case (Cons p ps)
  obtain n v where p: "p = (n, v)" by (cases p)
  have "map_of (insert_params (p # ps) m) = map_of (map_insert n v m @ ps)"
    using Cons.IH [OF map_insert_sorted [OF Cons.prems]] by (simp add: insert_params_def p)
  also have "\<dots> = map_of (m @ p # ps)"
    using map_insert_lookup [OF Cons.prems, of n v]
    by (auto simp: p fun_eq_iff map_add_def domIff split: option.splits if_splits)
  finally show ?case .
qed

section \<open>Properties\<close>

text \<open>C31: A request line with a query, its values encoded as a browser does, is parsed back to its path and
  parameters: names as they stand, values decoded, and of several values for a name the first is kept. The path has no
  question mark, the names no \<open>&\<close> and no \<open>=\<close>, and blanks, which are sent as \<open>+\<close>, are the only white
  space in the values: other white space is sent as an escape, which the decoder loses.\<close>

theorem SplitGetReq_round_trip:
  assumes "CHR ''?'' \<notin> set path" "ps \<noteq> []" "\<forall>p \<in> set ps. param_ok p" "sorted_map m"
  shows "SplitGetReq (request_line (path @ ''?'' @ print_params ps)) m = Some (path, insert_params ps m) \<and>
    sorted_map (insert_params ps m) \<and>
    map_of (insert_params ps m) n = map_of (m @ ps) n"
  using SplitGetReq_line [of "path @ ''?'' @ print_params ps" m] params_loop_print [OF assms(2,3), of m]
    insert_params_sorted [OF assms(4), of ps] insert_params_lookup [OF assms(4), of ps]
    find_sub_singleton_append [OF assms(1), of "print_params ps"]
  by simp

theorem SplitGetReq_round_trip_witness:
  "SplitGetReq (request_line (''/form'' @ ''?'' @ print_params [(''a'', ''1 + 1''), (''b'', ''%''), (''a'', ''2'')])) []
     = Some (''/form'', insert_params [(''a'', ''1 + 1''), (''b'', ''%''), (''a'', ''2'')] []) \<and>
   map_of (insert_params [(''a'', ''1 + 1''), (''b'', ''%''), (''a'', ''2'')] []) ''a'' = Some ''1 + 1''"
proof -
  have "param_ok (''a'', ''1 + 1'')" "param_ok (''b'', ''%'')" "param_ok (''a'', ''2'')"
    by (auto simp: param_ok_def plain_text_def is_space_def char_code_def)
  then show ?thesis
    using SplitGetReq_round_trip [of "''/form''" "[(''a'', ''1 + 1''), (''b'', ''%''), (''a'', ''2'')]" "[]" "''a''"]
    by (simp add: sorted_map_def)
qed

text \<open>An escaped blank is lost: the decoder reads the character back with \<open>>>\<close>, which skips
  white space, and then steps over one more character without looking at it.\<close>

theorem escaped_blank_lost:
  "url_decode ''a%20b'' = Some ''ab'' \<and> url_decode ''%20%41'' = Some ''%41''"
  by (simp add: url_decode_def plus_loop_map percent_loop.simps find_from_def starts_at_def
      str_replace_def percent_char_def read_hex_def hex_digit_def is_digit_def is_space_def
      char_code_def)

text \<open>An escape that is cut off by the end of the value, or that has only blanks, is decoded from an uninitialised
  number; and a request of nothing but the version keeps it as its path.\<close>

lemma cut_escape_undefined: "url_decode ''100%'' = None" "url_decode ''%++'' = None"
  by (simp_all add: url_decode_def plus_loop_map percent_loop.simps find_from_def starts_at_def
      str_replace_def percent_char_def read_hex_def is_space_def char_code_def)

lemma version_alone_kept: "strip_http_version ''HTTP/1.1'' = ''HTTP/1.1''"
  by (simp add: strip_http_version_def)

section \<open>ReplaceInStr and SplitUrl\<close>

lemma find_from_append:
  "find_from [c] (done @ rest) (length done) = map_option ((+) (length done)) (find_sub [c] rest)"
  by (simp add: find_from_def)

text \<open>With a single character to search for, the loop replaces each occurrence once.\<close>

lemma replace_loop_char:
  "replace_loop [c] r (find_from [c] (done @ s) (length done)) (done @ s) =
     done @ concat (map (\<lambda>x. if x = c then r else [x]) s)"
proof (induction "length s" arbitrary: s "done" rule: less_induct)
  case less
  show ?case
  proof (cases "find_sub [c] s")
    case None
    then have "c \<notin> set s" by (simp add: find_sub_singleton_None)
    then have "concat (map (\<lambda>x. if x = c then r else [x]) s) = s" by (induction s) auto
    with None show ?thesis by (simp add: find_from_append)
  next
    case (Some n)
    define a b where "a = take n s" and "b = drop (n + 1) s"
    have s: "s = a @ c # b" using find_sub_split [OF Some] by (simp add: a_def b_def)
    have n: "n = length a" using find_sub_length [OF Some] by (simp add: a_def)
    have "c \<notin> set a"
    proof
      assume "c \<in> set a"
      then obtain k where "k < n" "s ! k = c" unfolding s n by (auto simp: in_set_conv_nth nth_append)
      then have "starts_at [c] (drop k s)"
        using find_sub_length [OF Some] by (cases "drop k s") (auto simp: starts_at_def hd_drop_conv_nth [symmetric])
      with find_sub_first [OF Some \<open>k < n\<close>] show False by contradiction
    qed
    then have a: "concat (map (\<lambda>x. if x = c then r else [x]) a) = a" by (induction a) auto
    have "length b < length s" by (simp add: s)
    from less [OF this, of "done @ a @ r"]
    have "replace_loop [c] r (find_from [c] ((done @ a @ r) @ b) (length (done @ a @ r))) ((done @ a @ r) @ b)
        = (done @ a @ r) @ concat (map (\<lambda>x. if x = c then r else [x]) b)" .
    moreover have "str_replace (done @ s) (length done + n) 1 r = (done @ a @ r) @ b"
      by (simp add: str_replace_def s n)
    moreover have "nat (int (length done + n) - 1 + int (length r) + 1) = length (done @ a @ r)"
      by (simp add: n)
    ultimately show ?thesis
      using Some by (simp add: find_from_append s n a)
  qed
qed

lemma ReplaceInStr_char:
  "ReplaceInStr s [c] r = concat (map (\<lambda>x. if x = c then r else [x]) s)"
  using replace_loop_char [of c r "[]" s] by (simp add: ReplaceInStr_def)

text \<open>With a longer pattern the position arithmetic can wrap and end the loop early.\<close>

lemma ReplaceInStr_stops_early: "ReplaceInStr ''abcabc'' ''abc'' '''' = ''abc''"
  by (simp add: ReplaceInStr_def find_from_def starts_at_def str_replace_def)

lemma SplitUrl_http:
  assumes "CHR '':'' \<notin> set host" "CHR ''/'' \<notin> set host"
  shows "SplitUrl (''http://'' @ host @ ''/'' @ path) = (''http'', host, ''/'' @ path)"
    "SplitUrl (''http://'' @ host) = (''http'', host, ''/'')"
proof -
  have f: "find_sub '':'' (''http://'' @ rest) = Some 4" for rest
    by (simp add: starts_at_def)
  have h: "find_sub ''/'' (host @ CHR ''/'' # path) = Some (length host)" "find_sub ''/'' host = None"
    using assms(2) find_sub_singleton_append [of "CHR ''/''" host path]
    by (simp_all add: find_sub_singleton_None)
  show "SplitUrl (''http://'' @ host @ ''/'' @ path) = (''http'', host, ''/'' @ path)"
    "SplitUrl (''http://'' @ host) = (''http'', host, ''/'')"
    unfolding SplitUrl_def RemoveProtocolFromUrl_def f using h by simp_all
qed

end
