(* ===== verification/SimpleWebServer.thy ===== *)
theory SimpleWebServer
  imports UrlHelper Base64
begin

text \<open>
  The desktop web server, \<^verbatim>\<open>simple_web_server/webserver.cpp\<close> and \<^verbatim>\<open>webserver.h\<close>, the socket
  operations it uses (\<^verbatim>\<open>socket.cpp\<close>) and its example site (\<^verbatim>\<open>main.cpp\<close>). A connection is what the
  peer sends before it closes, how many bytes have arrived at each poll of \<open>ReceiveBytes\<close>, and
  what has been sent back. \<open>None\<close> is a run that does not return or is undefined.
\<close>

section \<open>Sockets\<close>

record connection =
  incoming :: string
  arrivals :: "nat list"
  outgoing :: string

text \<open>\<open>ReceiveLine\<close> blocks for every byte; when the peer closes first, what was read is dropped.\<close>

fun receive_line :: "string \<Rightarrow> string \<Rightarrow> string \<times> string" where
  "receive_line ret [] = ([], [])"
| "receive_line ret (r # rest) =
     (if r = CHR 0x0A then (ret @ [r], rest) else receive_line (ret @ [r]) rest)"

definition ReceiveLine :: "connection \<Rightarrow> string \<times> connection" where
  "ReceiveLine s = (let (line, rest) = receive_line [] (incoming s) in (line, s\<lparr>incoming := rest\<rparr>))"

text \<open>\<open>ReceiveBytes\<close> returns what has arrived, perhaps nothing.\<close>

definition ReceiveBytes :: "connection \<Rightarrow> (string \<times> connection) option" where
  "ReceiveBytes s =
     (case arrivals s of
        [] \<Rightarrow> None
      | n # ns \<Rightarrow> Some (take n (incoming s), s\<lparr>incoming := drop n (incoming s), arrivals := ns\<rparr>))"

definition SendBytes :: "string \<Rightarrow> connection \<Rightarrow> connection" where
  "SendBytes bytes s = s\<lparr>outgoing := outgoing s @ bytes\<rparr>"

definition SendLine :: "string \<Rightarrow> connection \<Rightarrow> connection" where
  "SendLine line s = SendBytes (line @ [CHR 0x0A]) s"

section \<open>Requests\<close>

record http_request =
  req_method :: string
  req_path :: string
  req_params :: "(string \<times> string) list"
  req_accept :: string
  req_accept_language :: string
  req_accept_encoding :: string
  req_user_agent :: string
  req_status :: string
  req_auth_realm :: string
  req_answer :: string
  req_responseHeaders :: string
  req_authentication_given :: bool
  req_username :: string
  req_password :: string

definition new_http_request :: http_request where
  "new_http_request = \<lparr>req_method = [], req_path = [], req_params = [], req_accept = [], req_accept_language = [],
     req_accept_encoding = [], req_user_agent = [], req_status = [], req_auth_realm = [], req_answer = [],
     req_responseHeaders = [], req_authentication_given = False, req_username = [], req_password = []\<rparr>"

definition authorization :: string where "authorization = ''Authorization: Basic ''"
definition accept :: string where "accept = ''Accept: ''"
definition accept_language :: string where "accept_language = ''Accept-Language: ''"
definition accept_encoding :: string where "accept_encoding = ''Accept-Encoding: ''"
definition user_agent :: string where "user_agent = ''User-Agent: ''"
definition content_length :: string where "content_length = ''Content-Length: ''"

lemmas header_names = authorization_def accept_def accept_language_def accept_encoding_def
  user_agent_def content_length_def

definition chars_of_bytes :: "u8 list \<Rightarrow> string" where
  "chars_of_bytes bs = map (\<lambda>b. char_of (unat b)) bs"

text \<open>One header line without its line end, on the request and the content length. Without a
  colon, \<open>npos + 1\<close> is 0 and user and password are the whole decoded text.\<close>

definition header_line :: "string \<Rightarrow> http_request \<times> int \<Rightarrow> http_request \<times> int" where
  "header_line line = (\<lambda>(req, contentLength).
     (if starts_at authorization line
      then (let decoded = chars_of_bytes (base64_decode (drop (length authorization) line));
                (user, password) =
                  (case find_sub '':'' decoded of
                     None \<Rightarrow> (decoded, decoded)
                   | Some pos_colon \<Rightarrow> (take pos_colon decoded, drop (pos_colon + 1) decoded))
            in (req\<lparr>req_authentication_given := True, req_username := user, req_password := password\<rparr>,
                contentLength))
      else if starts_at accept line
      then (req\<lparr>req_accept := drop (length accept) line\<rparr>, contentLength)
      else if starts_at accept_language line
      then (req\<lparr>req_accept_language := drop (length accept_language) line\<rparr>, contentLength)
      else if starts_at accept_encoding line
      then (req\<lparr>req_accept_encoding := drop (length accept_encoding) line\<rparr>, contentLength)
      else if starts_at user_agent line
      then (req\<lparr>req_user_agent := drop (length user_agent) line\<rparr>, contentLength)
      else if starts_at content_length line
      then (req, atol (drop (length content_length) line))
      else (req, contentLength)))"

text \<open>\<open>while (1)\<close> over the header lines: ends at a closed connection and at an empty line.\<close>

lemma receive_line_length: "length (snd (receive_line ret s)) \<le> length s - 1"
  by (induction ret s rule: receive_line.induct) auto

function header_loop ::
    "connection \<Rightarrow> http_request \<times> int \<Rightarrow> (http_request \<times> int) \<times> connection" where
  "header_loop s st =
     (let (line, s') = ReceiveLine s
      in if line = [] then (st, s')
         else (let line = takeWhile (\<lambda>c. c \<noteq> CHR 0x0A \<and> c \<noteq> CHR 0x0D) line
               in if line = [] then (st, s') else header_loop s' (header_line line st)))"
  by pat_completeness auto
termination
proof (relation "measure (\<lambda>(s, _). length (incoming s))", goal_cases)
  case 1
  then show ?case by simp
next
  case (2 s st x line s' y)
  then have "s' = s\<lparr>incoming := snd (receive_line [] (incoming s))\<rparr>"
    and "line = fst (receive_line [] (incoming s))" "line \<noteq> []"
    by (auto simp: ReceiveLine_def case_prod_beta)
  moreover from this have "incoming s \<noteq> []" by auto
  ultimately show ?case
    using receive_line_length [of "[]" "incoming s"] by (cases "incoming s") auto
qed

declare header_loop.simps [simp del]

text \<open>\<open>while (line.length() < contentLength) line += s.ReceiveBytes();\<close>\<close>

fun body_polls :: "nat list \<Rightarrow> nat \<Rightarrow> string \<Rightarrow> connection \<Rightarrow> (string \<times> connection) option" where
  "body_polls [] n line s = (if length line < n then None else Some (line, s))"
| "body_polls (a # as) n line s =
     (if length line < n
      then (case ReceiveBytes s of
              None \<Rightarrow> None
            | Some (bytes, s) \<Rightarrow> body_polls as n (line @ bytes) s)
      else Some (line, s))"

definition receive_body :: "nat \<Rightarrow> connection \<Rightarrow> (string \<times> connection) option" where
  "receive_body n s = body_polls (arrivals s) n [] s"

definition line_method :: "string \<Rightarrow> string" where
  "line_method line =
     (if starts_at ''GET'' line then ''GET'' else if starts_at ''POST'' line then ''POST'' else [])"

text \<open>\<open>line.find_first_not_of(" ", methodLength)\<close>\<close>

definition path_start :: "string \<Rightarrow> nat \<Rightarrow> nat" where
  "path_start line n = n + length (takeWhile (\<lambda>c. c = CHR '' '') (drop n line))"

definition Request_parse :: "connection \<Rightarrow> (http_request \<times> connection) option" where
  "Request_parse s =
     (let (line, s) = ReceiveLine s;
          method = line_method line;
          posStartPath = path_start line (length method)
      in case SplitGetReq (drop posStartPath line) [] of
           None \<Rightarrow> None
         | Some (path, params) \<Rightarrow>
             (let req = new_http_request\<lparr>req_method := method, req_status := ''202 OK'', req_path := path,
                          req_params := params\<rparr>;
                  ((req, contentLength), s) = header_loop s (req, 0)
              in if req_method req = ''POST'' \<and> 0 < contentLength
                 then (case receive_body (nat contentLength) s of
                         None \<Rightarrow> None
                       | Some (body, s) \<Rightarrow>
                           (let line = req_method req @ '' '' @ req_path req @ ''?'' @ body
                            in if length line < posStartPath then None
                               else (case SplitGetReq (drop posStartPath line) params of
                                       None \<Rightarrow> None
                                     | Some (path, params) \<Rightarrow> Some (req\<lparr>req_params := params\<rparr>, s))))
                 else Some (req, s)))"

text \<open>The response; the date line comes from the C library.\<close>

definition Response :: "string \<Rightarrow> http_request \<Rightarrow> connection \<Rightarrow> connection" where
  "Response asctime req s =
     (let s = SendBytes ''HTTP/1.1 '' s;
          s = (if req_auth_realm req \<noteq> []
               then (let s = SendLine ''401 Unauthorized'' s;
                         s = SendBytes (''WWW-Authenticate: Basic Realm='' @ [CHR 0x22]) s;
                         s = SendBytes (req_auth_realm req) s
                     in SendLine [CHR 0x22] s)
               else SendLine (req_status req) s);
          s = SendLine (''Date: '' @ asctime @ '' GMT'') s;
          s = SendLine (''Server: RenesWebserver (Windows)'') s;
          s = SendLine ''Connection: close'' s;
          s = SendLine ''Content-Type: text/html; charset=ISO-8859-1'' s;
          s = SendLine (''Content-Length: '' @ dec_of_int (int (length (req_answer req)))) s;
          s = (if req_responseHeaders req \<noteq> [] then SendBytes (req_responseHeaders req) s else s);
          s = SendLine [] s
      in SendLine (req_answer req) s)"

text \<open>The whole of \<open>Request\<close>; the request function is an argument, as in the source, and has
  its own state.\<close>

definition Request ::
    "(http_request \<Rightarrow> 's \<Rightarrow> (http_request \<times> 's) option) \<Rightarrow> string \<Rightarrow> connection \<Rightarrow> 's
     \<Rightarrow> (nat \<times> connection \<times> 's) option" where
  "Request request_func asctime s st =
     (if fst (ReceiveLine s) = [] then Some (1, snd (ReceiveLine s), st)
      else case Request_parse s of
             None \<Rightarrow> None
           | Some (req, s) \<Rightarrow>
               (case request_func req st of
                  None \<Rightarrow> None
                | Some (req, st) \<Rightarrow> Some (0, Response asctime req s, st)))"

section \<open>The example site\<close>

text \<open>\<open>Get\<close> of \<^verbatim>\<open>main.cpp\<close>: the page for a path.\<close>

definition links :: string where
  "links = ''<p><a href='/red'>red</a> '' @ ''<br><a href='/blue'>blue</a> '' @
     ''<br><a href='/form'>form</a> '' @
     ''<br><a href='/auth'>authentication example</a> [use <b>adp</b> as username and <b>gmbh</b> as password'' @
     ''<br><a href='/header'>show some HTTP header details</a> ''"

definition form_page :: string where
  "form_page = ''<form action='/form'>'' @ ''<table>'' @
     ''<tr><td>Field 1</td><td><input name=field_1></td></tr>'' @
     ''<tr><td>Field 2</td><td><input name=field_2></td></tr>'' @
     ''<tr><td>Field 3</td><td><input name=field_3></td></tr>'' @
     ''</table>'' @ ''<input type=submit></form>''"

definition header_page :: "http_request \<Rightarrow> string" where
  "header_page r =
     ''<table>'' @
     ''<tr><td>Accept:</td><td>'' @ req_accept r @ ''</td></tr>'' @
     ''<tr><td>Accept-Encoding:</td><td>'' @ req_accept_encoding r @ ''</td></tr>'' @
     ''<tr><td>Accept-Language:</td><td>'' @ req_accept_language r @ ''</td></tr>'' @
     ''<tr><td>User-Agent:</td><td>'' @ req_user_agent r @ ''</td></tr>'' @
     ''</table>'' @ links"

text \<open>Background colour, title and body, and the request as the page leaves it.\<close>

definition page_for :: "http_request \<Rightarrow> string \<times> string \<times> string \<times> http_request" where
  "page_for r =
     (let white = ''#ffffff'' in
      if req_path r = ''/''
      then (white, ''Web Server Example'',
            ''<h1>Web Server Example</h1>I wonder what you're going to click'' @ links, r)
      else if req_path r = ''/red''
      then (''#ff4444'', ''You chose red'', ''<h1>Red</h1>'' @ links, r)
      else if req_path r = ''/blue''
      then (''#4444ff'', ''You chose blue'', ''<h1>Blue</h1>'' @ links, r)
      else if req_path r = ''/form''
      then (white, ''Fill a form'',
            ''<h1>Fill a form</h1>'' @ form_page @
            concat (map (\<lambda>(n, v). ''<br>'' @ n @ '' = '' @ v) (req_params r)) @ ''<hr>'' @ links, r)
      else if req_path r = ''/auth''
      then (if req_authentication_given r
            then (if req_username r = ''adp'' \<and> req_password r = ''gmbh''
                  then (white, [], ''<h1>Successfully authenticated</h1>'' @ links, r)
                  else (white, [], ''<h1>Wrong username or password</h1>'' @ links,
                        r\<lparr>req_auth_realm := ''Private Stuff''\<rparr>))
            else (white, [], [], r\<lparr>req_auth_realm := ''Private Stuff''\<rparr>))
      else if req_path r = ''/header''
      then (white, ''some HTTP header details'', header_page r, r)
      else (white, ''Wrong URL'',
            ''<h1>Wrong URL</h1>Path is : &gt;'' @ req_path r @ ''&lt;'',
            r\<lparr>req_status := ''404 Not Found''\<rparr>))"

definition Get :: "http_request \<Rightarrow> http_request" where
  "Get r =
     (let (bgcolor, title, body, r) = page_for r
      in r\<lparr>req_answer := ''<html><head><title>'' @ title @ ''</title></head><body bgcolor='' @
             [CHR 0x27] @ bgcolor @ [CHR 0x27] @ ''>'' @ body @ ''</body></html>''\<rparr>)"

section \<open>Receiving\<close>

definition CRLF :: string where "CRLF = [CHR 0x0D, CHR 0x0A]"

definition no_newline :: "string \<Rightarrow> bool" where
  "no_newline s \<longleftrightarrow> CHR 0x0A \<notin> set s \<and> CHR 0x0D \<notin> set s"

lemma receive_line_found:
  "CHR 0x0A \<notin> set xs \<Longrightarrow> receive_line ret (xs @ CHR 0x0A # rest) = (ret @ xs @ [CHR 0x0A], rest)"
  by (induction xs arbitrary: ret) auto

lemma ReceiveLine_crlf:
  assumes "no_newline h" "incoming s = h @ CRLF @ rest"
  shows "ReceiveLine s = (h @ CRLF, s\<lparr>incoming := rest\<rparr>)"
  using receive_line_found [of "h @ [CHR 0x0D]" "[]" rest] assms
  by (simp add: ReceiveLine_def no_newline_def CRLF_def)

lemma header_line_frame:
  "req_method (fst (header_line h st)) = req_method (fst st)"
  "req_path (fst (header_line h st)) = req_path (fst st)"
  "req_params (fst (header_line h st)) = req_params (fst st)"
  "req_status (fst (header_line h st)) = req_status (fst st)"
  "req_auth_realm (fst (header_line h st)) = req_auth_realm (fst st)"
  by (auto simp: header_line_def case_prod_beta Let_def)

lemma header_lines_frame:
  "req_method (fst (fold header_line hs st)) = req_method (fst st)"
  "req_path (fst (fold header_line hs st)) = req_path (fst st)"
  "req_params (fst (fold header_line hs st)) = req_params (fst st)"
  "req_status (fst (fold header_line hs st)) = req_status (fst st)"
  "req_auth_realm (fst (fold header_line hs st)) = req_auth_realm (fst st)"
  by (induction hs arbitrary: st) (simp_all add: header_line_frame)

text \<open>The header block of a request.\<close>

definition print_headers :: "string list \<Rightarrow> string" where
  "print_headers hs = concat (map (\<lambda>h. h @ CRLF) hs) @ CRLF"

lemma header_loop_lines:
  assumes "\<forall>h \<in> set hs. h \<noteq> [] \<and> no_newline h" "incoming s = print_headers hs @ rest"
  shows "header_loop s st = (fold header_line hs st, s\<lparr>incoming := rest\<rparr>)"
  using assms
proof (induction hs arbitrary: s st)
  case Nil
  have "ReceiveLine s = ([] @ CRLF, s\<lparr>incoming := rest\<rparr>)"
    using Nil by (intro ReceiveLine_crlf) (simp_all add: print_headers_def no_newline_def)
  then show ?case by (subst header_loop.simps) (simp add: CRLF_def)
next
  case (Cons h hs)
  have "incoming s = h @ CRLF @ print_headers hs @ rest"
    using Cons.prems(2) by (simp add: print_headers_def)
  with Cons.prems have rl: "ReceiveLine s = (h @ CRLF, s\<lparr>incoming := print_headers hs @ rest\<rparr>)"
    by (intro ReceiveLine_crlf) simp_all
  have "takeWhile (\<lambda>c. c \<noteq> CHR 0x0A \<and> c \<noteq> CHR 0x0D) (h @ CRLF) = h"
    using Cons.prems(1) by (subst takeWhile_append2) (auto simp: no_newline_def CRLF_def)
  with rl Cons.prems(1) Cons.IH [of "s\<lparr>incoming := print_headers hs @ rest\<rparr>" "header_line h st"]
  show ?case by (subst header_loop.simps) (simp add: CRLF_def)
qed

text \<open>The body is a prefix of what was sent, at least as long as announced.\<close>

lemma body_polls_prefix:
  assumes "arrivals s = as" "n \<le> length line + sum_list as" "n \<le> length line + length (incoming s)"
  shows "\<exists>k s'. body_polls as n line s = Some (line @ take k (incoming s), s') \<and> n \<le> length line + k"
  using assms
proof (induction as arbitrary: line s)
  case Nil
  then show ?case by (auto intro!: exI [of _ 0])
next
  case (Cons a as)
  show ?case
  proof (cases "length line < n")
    case False
    then show ?thesis by (auto intro!: exI [of _ 0])
  next
    case True
    let ?s = "s\<lparr>incoming := drop a (incoming s), arrivals := as\<rparr>"
    let ?line = "line @ take a (incoming s)"
    have "n \<le> length ?line + sum_list as" "n \<le> length ?line + length (incoming ?s)"
      using Cons.prems by (auto simp: min_def)
    from Cons.IH [OF _ this] obtain k s' where
      k: "body_polls as n ?line ?s = Some (?line @ take k (incoming ?s), s')" "n \<le> length ?line + k"
      by auto
    have "take a (incoming s) @ take k (drop a (incoming s)) = take (a + k) (incoming s)"
      by (simp add: take_add)
    then show ?thesis
      using True k Cons.prems(1)
      by (intro exI [of _ "a + k"] exI [of _ s'])
         (auto simp: ReceiveBytes_def)
  qed
qed

section \<open>Bodies\<close>

lemma url_encode_safe: "c \<in> set (url_encode s) \<Longrightarrow> c \<notin> {CHR 0x0A, CHR 0x0D, CHR ''/''}"
proof -
  assume "c \<in> set (url_encode s)"
  then obtain d where "c \<in> set (encode_char d)" by (auto simp: url_encode_def)
  moreover have "list_all (\<lambda>i. hex_char i \<notin> {CHR 0x0A, CHR 0x0D, CHR ''/''}) [0..<16]" by code_simp
  moreover have "char_code d div 16 < 16" "char_code d mod 16 < 16" using char_code_less [of d] by simp_all
  moreover have "unreserved c \<Longrightarrow> c \<notin> {CHR 0x0A, CHR 0x0D, CHR ''/''}" for c
    by (auto simp: unreserved_def is_alnum_def is_digit_def is_upper_def is_lower_def char_code_def)
  ultimately show ?thesis
    by (auto simp: encode_char_def list_all_iff split: if_splits)
qed

definition field_ok :: "string \<times> string \<Rightarrow> bool" where
  "field_ok p \<longleftrightarrow> param_ok p \<and> CHR ''/'' \<notin> set (fst p) \<and> no_newline (fst p)"

lemma print_params_safe:
  assumes "\<forall>p \<in> set ps. field_ok p"
  shows "CHR ''/'' \<notin> set (print_params ps) \<and> no_newline (print_params ps)"
  using assms
proof (induction ps rule: print_params.induct)
  case (2 p)
  then show ?case
    using url_encode_safe by (cases p) (force simp: print_pair_def field_ok_def no_newline_def)
next
  case (3 p q ps)
  then show ?case
    using url_encode_safe by (cases p) (force simp: print_pair_def field_ok_def no_newline_def)
qed (simp add: no_newline_def)

lemma print_params_nonempty: "ps \<noteq> [] \<Longrightarrow> print_params ps \<noteq> []"
  by (cases ps rule: print_params.cases) (auto simp: print_pair_def)

lemma strip_newline_other:
  assumes "no_newline b" "b \<noteq> []"
  shows "strip_newline (x @ b) = Some (x @ b)"
proof -
  have "last b \<in> set b" using assms(2) by simp
  with assms(1) have "last b \<noteq> CHR 0x0A" "last b \<noteq> CHR 0x0D" by (metis no_newline_def)+
  then show ?thesis using assms(2) by (simp add: strip_newline_def)
qed

lemma strip_version_query:
  assumes "CHR ''/'' \<notin> set b" "b \<noteq> []"
  shows "strip_http_version (path @ CHR ''?'' # b) = path @ CHR ''?'' # b"
proof -
  let ?s = "path @ CHR ''?'' # b"
  have "take 7 (drop (length ?s - 8) ?s) \<noteq> ''HTTP/1.''" if len: "8 \<le> length ?s"
  proof
    assume eq: "take 7 (drop (length ?s - 8) ?s) = ''HTTP/1.''"
    show False
    proof (cases "8 \<le> length b")
      case True
      then have e: "length ?s - 8 = length path + Suc (length b - 8)" by simp
      have d: "drop (length ?s - 8) ?s = drop (length b - 8) b" unfolding e by simp
      have "take 7 (drop (length b - 8) b) = ''HTTP/1.''" using eq unfolding d .
      then have "CHR ''/'' \<in> set (take 7 (drop (length b - 8) b))" by simp
      with assms(1) show False by (meson in_set_dropD in_set_takeD)
    next
      case False
      have q: "?s ! (length ?s - 8 + (7 - length b)) = CHR ''?''"
        using False len by (simp add: nth_append)
      have k: "7 - length b < 7" using assms(2) by (cases b) auto
      have "take 7 (drop (length ?s - 8) ?s) ! (7 - length b) = CHR ''?''"
        unfolding nth_take [OF k] using q by (simp only: nth_drop diff_le_self)
      moreover have "length ''HTTP/1.'' = 7" by simp
      ultimately have "CHR ''?'' \<in> set ''HTTP/1.''"
        unfolding eq using k nth_mem [of "7 - length b" "''HTTP/1.''"] by metis
      then show False by simp
    qed
  qed
  then show ?thesis by (auto simp: strip_http_version_def)
qed

text \<open>A body with up to two line-end characters after it.\<close>

lemma SplitGetReq_body:
  assumes "CHR ''?'' \<notin> set path" "ps \<noteq> []" "\<forall>p \<in> set ps. field_ok p" "k \<le> 2"
  shows "SplitGetReq (path @ ''?'' @ print_params ps @ take k CRLF) m = Some (path, insert_params ps m)"
proof -
  let ?b = "CHR ''?'' # print_params ps"
  have b: "no_newline ?b" "?b \<noteq> []" and slash: "CHR ''/'' \<notin> set (print_params ps)"
    using print_params_safe [OF assms(3)] by (auto simp: no_newline_def)
  have s0: "strip_newline (path @ ?b) = Some (path @ ?b)" by (rule strip_newline_other [OF b])
  have s1: "strip_newline (path @ ?b @ [c]) = Some (path @ ?b)" if "c \<in> set CRLF" for c
    using that by (auto simp: strip_newline_def CRLF_def butlast_append)
  have "k = 0 \<or> k = 1 \<or> k = 2" using assms(4) by arith
  then have "Option.bind (strip_newline (path @ ?b @ take k CRLF)) strip_newline = Some (path @ ?b)"
  proof (elim disjE)
    assume "k = 2"
    have "strip_newline ((path @ ?b @ [CHR 0x0D]) @ [CHR 0x0A]) = Some (path @ ?b @ [CHR 0x0D])"
      by (simp add: strip_newline_def butlast_append)
    then show ?thesis using s1 [of "CHR 0x0D"] \<open>k = 2\<close> by (simp add: CRLF_def)
  qed (use s0 s1 [of "CHR 0x0D"] in \<open>simp_all add: CRLF_def\<close>)
  then obtain y where "strip_newline (path @ ?b @ take k CRLF) = Some y"
    "strip_newline y = Some (path @ ?b)"
    by (auto simp: bind_eq_Some_conv)
  moreover have "strip_http_version (path @ ?b) = path @ ?b"
    using slash print_params_nonempty [OF assms(2)] by (rule strip_version_query)
  moreover have "\<forall>p \<in> set ps. param_ok p" using assms(3) by (simp add: field_ok_def)
  ultimately show ?thesis
    using find_sub_singleton_append [OF assms(1), of "print_params ps"] params_loop_print [OF assms(2)]
    by (simp add: SplitGetReq_def)
qed

text \<open>A POST request as a client prints it; the body may be followed by a line end.\<close>

definition post_request :: "string \<Rightarrow> string list \<Rightarrow> string \<Rightarrow> string" where
  "post_request uri hs body = ''POST '' @ request_line uri @ print_headers hs @ body"

definition uri_ok :: "string \<Rightarrow> bool" where
  "uri_ok uri \<longleftrightarrow> uri \<noteq> [] \<and> hd uri \<noteq> CHR '' '' \<and> CHR ''?'' \<notin> set uri \<and> no_newline uri"

text \<open>The fields come out as they were printed, however the bytes arrive.\<close>

lemma post_request_read:
  assumes "uri_ok uri" "ps \<noteq> []" "\<forall>p \<in> set ps. field_ok p"
    and "\<forall>h \<in> set hs. h \<noteq> [] \<and> no_newline h"
    and "\<And>req. snd (fold header_line hs (req, 0)) = int (length (print_params ps))"
    and "incoming s = post_request uri hs (print_params ps @ CRLF)"
    and "length (print_params ps) \<le> sum_list (arrivals s)"
  shows "\<exists>req s'. Request_parse s = Some (req, s') \<and> req_method req = ''POST'' \<and>
    req_path req = uri \<and> req_params req = insert_params ps [] \<and> req_auth_realm req = []"
proof -
  let ?B = "print_params ps"
  define line where "line = ''POST '' @ uri @ '' HTTP/1.1'' @ CRLF"
  define s1 where "s1 = s\<lparr>incoming := print_headers hs @ ?B @ CRLF\<rparr>"
  have "no_newline (''POST '' @ uri @ '' HTTP/1.1'')" using assms(1) by (simp add: no_newline_def uri_ok_def)
  from ReceiveLine_crlf [OF this, of s "print_headers hs @ ?B @ CRLF"]
  have rl: "ReceiveLine s = (line, s1)"
    using assms(6) by (simp add: post_request_def request_line_def line_def s1_def CRLF_def)
  have m: "line_method line = ''POST''" by (simp add: line_method_def line_def starts_at_def)
  have start: "path_start line (length (line_method line)) = 5" "drop 5 line = request_line uri"
    using assms(1) unfolding m
    by (cases uri; simp add: path_start_def line_def uri_ok_def request_line_def CRLF_def)+
  have long: "\<not> length (''POST '' @ x) < 5" "drop 5 (''POST '' @ x) = x" for x :: string
    by simp_all
  have split1: "SplitGetReq (request_line uri) [] = Some (uri, [])"
    using assms(1) by (simp add: SplitGetReq_line uri_ok_def find_sub_singleton_None [THEN iffD2])
  let ?req = "new_http_request\<lparr>req_method := ''POST'', req_status := ''202 OK'', req_path := uri,
    req_params := []\<rparr>"
  define req where "req = fst (fold header_line hs (?req, 0))"
  have hl: "header_loop s1 (?req, 0) = ((req, int (length ?B)), s1\<lparr>incoming := ?B @ CRLF\<rparr>)"
    using header_loop_lines [OF assms(4), of s1 "?B @ CRLF" "(?req, 0)"] assms(5) [of ?req]
    by (simp add: s1_def req_def prod_eq_iff)
  have req: "req_method req = ''POST''" "req_path req = uri" "req_auth_realm req = []"
    by (simp_all add: req_def header_lines_frame new_http_request_def)
  obtain k s2 where body: "receive_body (length ?B) (s1\<lparr>incoming := ?B @ CRLF\<rparr>) =
      Some (take k (?B @ CRLF), s2)" "length ?B \<le> k"
    using body_polls_prefix [of "s1\<lparr>incoming := ?B @ CRLF\<rparr>" "arrivals s" "length ?B" "[]"] assms(7)
    by (auto simp: receive_body_def s1_def)
  define j where "j = min 2 (k - length ?B)"
  have tk: "take k (?B @ CRLF) = ?B @ take j CRLF"
    using body(2) by (simp add: j_def CRLF_def min_def)
  have "SplitGetReq (uri @ ''?'' @ ?B @ take j CRLF) [] = Some (uri, insert_params ps [])"
    using assms(1-3) by (intro SplitGetReq_body) (simp_all add: uri_ok_def j_def)
  moreover have "0 < length ?B" using print_params_nonempty [OF assms(2)] by simp
  moreover have "''POST'' @ '' '' @ x = ''POST '' @ x" for x by simp
  moreover have "receive_body (length ?B) (s1\<lparr>incoming := ?B @ CRLF\<rparr>) = Some (?B @ take j CRLF, s2)"
    using body(1) unfolding tk .
  ultimately show ?thesis
    using hl req
    unfolding Request_parse_def rl Let_def prod.case start split1 option.case
    unfolding m
    by (simp add: long del: append.simps(2))
qed

section \<open>Properties\<close>

text \<open>C26: A POST with a form body, sent as the remote sensor sends it (with a line end after the
  body that the announced length does not count), is received as the method, the path and the
  fields of the form, however its bytes are cut into packets.\<close>

theorem post_received:
  assumes "uri_ok uri" "ps \<noteq> []" "\<forall>p \<in> set ps. field_ok p"
    and "\<forall>h \<in> set hs. h \<noteq> [] \<and> no_newline h"
    and "\<And>req. snd (fold header_line hs (req, 0)) = int (length (print_params ps))"
    and "incoming s = post_request uri hs (print_params ps @ CRLF)"
    and "length (print_params ps) \<le> sum_list (arrivals s)"
  shows "\<exists>req s'. Request_parse s = Some (req, s') \<and> req_method req = ''POST'' \<and>
    req_path req = uri \<and> req_params req = insert_params ps []"
  using post_request_read [OF assms] by blast

lemma print_params_sample:
  "print_params [(''temp'', ''70''), (''humidity'', ''40'')] = ''temp=70&humidity=40''"
  by (simp add: print_pair_def url_encode_def encode_char_def unreserved_def is_alnum_def
      is_digit_def char_code_def)

theorem post_received_witness:
  "\<exists>req s'. Request_parse \<lparr>incoming = post_request ''/report'' [''Host: a'', ''Content-Length: 19'']
        (print_params [(''temp'', ''70''), (''humidity'', ''40'')] @ CRLF), arrivals = [0, 10, 11], outgoing = []\<rparr>
      = Some (req, s') \<and> req_path req = ''/report'' \<and>
    req_params req = insert_params [(''temp'', ''70''), (''humidity'', ''40'')] []"
proof -
  let ?ps = "[(''temp'', ''70''), (''humidity'', ''40'')]" and ?hs = "[''Host: a'', ''Content-Length: 19'']"
  let ?s = "\<lparr>incoming = post_request ''/report'' ?hs (print_params ?ps @ CRLF), arrivals = [0, 10, 11],
    outgoing = []\<rparr>"
  have u: "uri_ok ''/report''" by (simp add: uri_ok_def no_newline_def)
  have f: "\<forall>p \<in> set ?ps. field_ok p"
    by (auto simp: field_ok_def param_ok_def plain_text_def is_space_def char_code_def no_newline_def)
  have h: "\<forall>h \<in> set ?hs. h \<noteq> [] \<and> no_newline h" by (simp add: no_newline_def)
  have l: "length (print_params ?ps) = 19"
    unfolding print_params_sample by simp
  have c: "snd (fold header_line ?hs (req, 0)) = int (length (print_params ?ps))" for req
    unfolding l
    by (simp add: header_line_def header_names starts_at_def atol_def atol_unsigned_def clamp32_def
        is_space_def is_digit_def digit_val_def char_code_def)
  have "length (print_params ?ps) \<le> sum_list (arrivals ?s)" unfolding l by simp
  from post_received [OF u _ f h c _ this] show ?thesis by auto
qed

text \<open>The example site lets a request into its private page exactly with the right name and
  password, and asks for authentication otherwise.\<close>

theorem auth_page:
  assumes "req_path r = ''/auth''" "req_auth_realm r = []"
  shows "req_auth_realm (Get r) = [] \<longleftrightarrow>
    req_authentication_given r \<and> req_username r = ''adp'' \<and> req_password r = ''gmbh''"
  using assms by (simp add: Get_def page_for_def Let_def)

theorem auth_page_witness:
  "req_auth_realm (Get (new_http_request\<lparr>req_path := ''/auth''\<rparr>)) \<noteq> []"
  using auth_page [of "new_http_request\<lparr>req_path := ''/auth''\<rparr>"]
  by (simp add: new_http_request_def)

end
