(* ===== verification/WString.thy ===== *)
theory WString
  imports StringOps
begin

text \<open>
  The Arduino \<open>String\<close> class, \<^verbatim>\<open>esp8266_sim/WString.cpp\<close> and \<^verbatim>\<open>wstring.h\<close>: a heap block, its
  capacity, and a length kept beside the terminating \<open>NUL\<close>. A block is the list of its
  characters; a write past its end is \<open>None\<close>. The allocator is an argument, because it may
  fail and because a fresh block holds anything: it gives the contents of a block of the
  requested size, or nothing. No operation allocates more than once, so one function per call
  describes every allocator. Copies between overlapping parts of a block (\<open>memcpy\<close>, \<open>strcpy\<close>
  and \<open>strncpy\<close> in \<open>replace\<close>, \<open>trim\<close>, \<open>remove\<close>) are taken to copy as \<open>memmove\<close> does; an object
  concatenated to itself is not modelled. An assignment of an object to
  itself changes nothing. Numbers are printed in base 10. Floating-point conversions are left
  out.
\<close>

section \<open>Blocks and C strings\<close>

type_synonym heap = "nat \<Rightarrow> (nat \<Rightarrow> char) option"

definition u32n :: "nat \<Rightarrow> nat" where
  "u32n n = n mod 4294967296"

definition realloc :: "heap \<Rightarrow> char list option \<Rightarrow> nat \<Rightarrow> char list option" where
  "realloc h old n =
     (let kept = (case old of None \<Rightarrow> [] | Some b \<Rightarrow> b)
      in map_option (\<lambda>f. take n (kept @ map f [length kept..<n])) (h n))"

definition poke :: "char list \<Rightarrow> nat \<Rightarrow> char list \<Rightarrow> char list option" where
  "poke b i cs = (if i + length cs \<le> length b then Some (take i b @ cs @ drop (i + length cs) b) else None)"

text \<open>The C string that starts at offset \<open>i\<close> of a block.\<close>

definition c_str :: "char list \<Rightarrow> nat \<Rightarrow> string" where
  "c_str b i = takeWhile (\<lambda>c. c \<noteq> NUL) (drop i b)"

fun strcmp :: "string \<Rightarrow> string \<Rightarrow> int" where
  "strcmp [] [] = 0"
| "strcmp [] (y # ys) = - 1"
| "strcmp (x # xs) [] = 1"
| "strcmp (x # xs) (y # ys) =
     (if x = y then strcmp xs ys else if char_code x < char_code y then - 1 else 1)"

section \<open>Construction, memory, copying\<close>

record StringObj =
  buffer :: "char list option"
  capacity :: nat
  len :: nat

definition string_init :: StringObj where
  "string_init = \<lparr>buffer = None, capacity = 0, len = 0\<rparr>"

definition invalidate :: "StringObj \<Rightarrow> StringObj" where
  "invalidate s = s\<lparr>buffer := None, capacity := 0, len := 0\<rparr>"

definition changeBuffer :: "heap \<Rightarrow> nat \<Rightarrow> StringObj \<Rightarrow> bool \<times> StringObj" where
  "changeBuffer h maxStrLen s =
     (case realloc h (buffer s) (u32n (maxStrLen + 1)) of
        Some newbuffer \<Rightarrow> (True, s\<lparr>buffer := Some newbuffer, capacity := maxStrLen\<rparr>)
      | None \<Rightarrow> (False, s))"

text \<open>\<open>buffer[i..] = cs\<close>\<close>

definition write_buffer :: "nat \<Rightarrow> char list \<Rightarrow> StringObj \<Rightarrow> StringObj option" where
  "write_buffer i cs s =
     do { b \<leftarrow> buffer s; b' \<leftarrow> poke b i cs; Some (s\<lparr>buffer := Some b'\<rparr>) }"

definition reserve :: "heap \<Rightarrow> nat \<Rightarrow> StringObj \<Rightarrow> (bool \<times> StringObj) option" where
  "reserve h n s =
     (if buffer s \<noteq> None \<and> n \<le> capacity s then Some (True, s)
      else (case changeBuffer h n s of
              (True, s) \<Rightarrow>
                if len s = 0 then map_option (Pair True) (write_buffer 0 [NUL] s)
                else Some (True, s)
            | (False, s) \<Rightarrow> Some (False, s)))"

text \<open>\<open>cstr\<close> is the C string at the pointer.\<close>

definition copy :: "heap \<Rightarrow> string \<Rightarrow> nat \<Rightarrow> StringObj \<Rightarrow> StringObj option" where
  "copy h cstr n s =
     do { (ok, s) \<leftarrow> reserve h n s;
          if \<not> ok then Some (invalidate s)
          else write_buffer 0 (cstr @ [NUL]) (s\<lparr>len := n\<rparr>) }"

text \<open>\<open>s.move(rhs)\<close> gives the new values of both.\<close>

definition move :: "StringObj \<Rightarrow> StringObj \<Rightarrow> (StringObj \<times> StringObj) option" where
  "move s rhs =
     (if buffer s \<noteq> None \<and> len rhs \<le> capacity s
      then do { rb \<leftarrow> buffer rhs;
                s' \<leftarrow> write_buffer 0 (c_str rb 0 @ [NUL]) s;
                Some (s'\<lparr>len := len rhs\<rparr>, rhs\<lparr>len := 0\<rparr>) }
      else Some (s\<lparr>buffer := buffer rhs, capacity := capacity rhs, len := len rhs\<rparr>,
                 rhs\<lparr>buffer := None, capacity := 0, len := 0\<rparr>))"

definition assign :: "heap \<Rightarrow> StringObj \<Rightarrow> StringObj \<Rightarrow> StringObj option" where
  "assign h rhs s =
     (case buffer rhs of Some rb \<Rightarrow> copy h (c_str rb 0) (len rhs) s | None \<Rightarrow> Some (invalidate s))"

definition assign_cstr :: "heap \<Rightarrow> string option \<Rightarrow> StringObj \<Rightarrow> StringObj option" where
  "assign_cstr h cstr s =
     (case cstr of Some cs \<Rightarrow> copy h cs (length cs) s | None \<Rightarrow> Some (invalidate s))"

definition copy_flash :: "heap \<Rightarrow> string \<Rightarrow> nat \<Rightarrow> StringObj \<Rightarrow> StringObj option" where
  "copy_flash h pstr n s =
     do { (ok, s) \<leftarrow> reserve h n s;
          if \<not> ok then Some (invalidate s)
          else write_buffer 0 (pstr @ [NUL]) (s\<lparr>len := n\<rparr>) }"

definition assign_flash :: "heap \<Rightarrow> string option \<Rightarrow> StringObj \<Rightarrow> StringObj option" where
  "assign_flash h pstr s =
     (case pstr of Some cs \<Rightarrow> copy_flash h cs (length cs) s | None \<Rightarrow> Some (invalidate s))"

definition String_cstr :: "heap \<Rightarrow> string option \<Rightarrow> StringObj option" where
  "String_cstr h cstr =
     (case cstr of Some cs \<Rightarrow> copy h cs (length cs) string_init | None \<Rightarrow> Some string_init)"

definition String_copy :: "heap \<Rightarrow> StringObj \<Rightarrow> StringObj option" where
  "String_copy h value = assign h value string_init"

definition String_flash :: "heap \<Rightarrow> string option \<Rightarrow> StringObj option" where
  "String_flash h pstr = assign_flash h pstr string_init"

definition String_move :: "StringObj \<Rightarrow> (StringObj \<times> StringObj) option" where
  "String_move rval = move string_init rval"

text \<open>\<open>if (this != &rval) move(rval);\<close>\<close>

definition assign_move :: "bool \<Rightarrow> StringObj \<Rightarrow> StringObj \<Rightarrow> (StringObj \<times> StringObj) option" where
  "assign_move same rval s = (if \<not> same then move s rval else Some (s, rval))"

definition String_char :: "heap \<Rightarrow> char \<Rightarrow> StringObj option" where
  "String_char h c = (let buf = [c, NUL] in assign_cstr h (Some (c_str buf 0)) string_init)"

definition String_int :: "heap \<Rightarrow> int \<Rightarrow> StringObj option" where
  "String_int h value = assign_cstr h (Some (dec_of_int value)) string_init"

definition String_unsigned :: "heap \<Rightarrow> nat \<Rightarrow> StringObj option" where
  "String_unsigned h value = assign_cstr h (Some (dec_of_nat value)) string_init"

definition String_uchar :: "heap \<Rightarrow> u8 \<Rightarrow> StringObj option" where
  "String_uchar h value = assign_cstr h (Some (dec_of_nat (unat value))) string_init"

definition String_long :: "heap \<Rightarrow> int \<Rightarrow> StringObj option" where
  "String_long h value = assign_cstr h (Some (dec_of_int value)) string_init"

definition String_ulong :: "heap \<Rightarrow> nat \<Rightarrow> StringObj option" where
  "String_ulong h value = assign_cstr h (Some (dec_of_nat value)) string_init"

section \<open>Concatenation\<close>

definition concat_n :: "heap \<Rightarrow> string option \<Rightarrow> nat \<Rightarrow> StringObj \<Rightarrow> (bool \<times> StringObj) option" where
  "concat_n h cstr n s =
     (let newlen = u32n (len s + n)
      in case cstr of
           None \<Rightarrow> Some (False, s)
         | Some cs \<Rightarrow>
             if n = 0 then Some (True, s)
             else do { (ok, s) \<leftarrow> reserve h newlen s;
                       if \<not> ok then Some (False, s)
                       else do { s \<leftarrow> write_buffer (len s) (cs @ [NUL]) s;
                                 Some (True, s\<lparr>len := newlen\<rparr>) } })"

definition concat_string :: "heap \<Rightarrow> StringObj \<Rightarrow> StringObj \<Rightarrow> (bool \<times> StringObj) option" where
  "concat_string h t s = concat_n h (map_option (\<lambda>b. c_str b 0) (buffer t)) (len t) s"

definition concat_cstr :: "heap \<Rightarrow> string option \<Rightarrow> StringObj \<Rightarrow> (bool \<times> StringObj) option" where
  "concat_cstr h cstr s =
     (case cstr of None \<Rightarrow> Some (False, s) | Some cs \<Rightarrow> concat_n h (Some cs) (length cs) s)"

definition concat_char :: "heap \<Rightarrow> char \<Rightarrow> StringObj \<Rightarrow> (bool \<times> StringObj) option" where
  "concat_char h c s = (let buf = [c, NUL] in concat_n h (Some (c_str buf 0)) 1 s)"

definition concat_int :: "heap \<Rightarrow> int \<Rightarrow> StringObj \<Rightarrow> (bool \<times> StringObj) option" where
  "concat_int h num s = (let buf = dec_of_int num in concat_n h (Some buf) (length buf) s)"

definition concat_unsigned :: "heap \<Rightarrow> nat \<Rightarrow> StringObj \<Rightarrow> (bool \<times> StringObj) option" where
  "concat_unsigned h num s = (let buf = dec_of_nat num in concat_n h (Some buf) (length buf) s)"

definition concat_uchar :: "heap \<Rightarrow> u8 \<Rightarrow> StringObj \<Rightarrow> (bool \<times> StringObj) option" where
  "concat_uchar h num s = (let buf = dec_of_nat (unat num) in concat_n h (Some buf) (length buf) s)"

definition concat_long :: "heap \<Rightarrow> int \<Rightarrow> StringObj \<Rightarrow> (bool \<times> StringObj) option" where
  "concat_long h num s = (let buf = dec_of_int num in concat_n h (Some buf) (length buf) s)"

definition concat_ulong :: "heap \<Rightarrow> nat \<Rightarrow> StringObj \<Rightarrow> (bool \<times> StringObj) option" where
  "concat_ulong h num s = (let buf = dec_of_nat num in concat_n h (Some buf) (length buf) s)"

text \<open>Text in flash memory is read like any other.\<close>

definition concat_flash :: "heap \<Rightarrow> string option \<Rightarrow> StringObj \<Rightarrow> (bool \<times> StringObj) option" where
  "concat_flash h str s =
     (case str of
        None \<Rightarrow> Some (False, s)
      | Some cs \<Rightarrow>
          if length cs = 0 then Some (True, s)
          else (let newlen = u32n (len s + length cs)
                in do { (ok, s) \<leftarrow> reserve h newlen s;
                        if \<not> ok then Some (False, s)
                        else do { s \<leftarrow> write_buffer (len s) (cs @ [NUL]) s;
                                  Some (True, s\<lparr>len := newlen\<rparr>) } }))"

text \<open>\<open>if (!a.concat(...)) a.invalidate(); return a;\<close>\<close>

definition sum_helper :: "(bool \<times> StringObj) option \<Rightarrow> StringObj option" where
  "sum_helper r = map_option (\<lambda>(ok, a). if \<not> ok then invalidate a else a) r"

definition plus_string :: "heap \<Rightarrow> StringObj \<Rightarrow> StringObj \<Rightarrow> StringObj option" where
  "plus_string h lhs rhs = sum_helper (concat_string h rhs lhs)"

definition plus_cstr :: "heap \<Rightarrow> StringObj \<Rightarrow> string option \<Rightarrow> StringObj option" where
  "plus_cstr h lhs cstr = sum_helper (concat_cstr h cstr lhs)"

definition plus_char :: "heap \<Rightarrow> StringObj \<Rightarrow> char \<Rightarrow> StringObj option" where
  "plus_char h lhs c = sum_helper (concat_char h c lhs)"

definition plus_int :: "heap \<Rightarrow> StringObj \<Rightarrow> int \<Rightarrow> StringObj option" where
  "plus_int h lhs num = sum_helper (concat_int h num lhs)"

definition plus_unsigned :: "heap \<Rightarrow> StringObj \<Rightarrow> nat \<Rightarrow> StringObj option" where
  "plus_unsigned h lhs num = sum_helper (concat_unsigned h num lhs)"

definition plus_uchar :: "heap \<Rightarrow> StringObj \<Rightarrow> u8 \<Rightarrow> StringObj option" where
  "plus_uchar h lhs num = sum_helper (concat_uchar h num lhs)"

definition plus_long :: "heap \<Rightarrow> StringObj \<Rightarrow> int \<Rightarrow> StringObj option" where
  "plus_long h lhs num = sum_helper (concat_long h num lhs)"

definition plus_ulong :: "heap \<Rightarrow> StringObj \<Rightarrow> nat \<Rightarrow> StringObj option" where
  "plus_ulong h lhs num = sum_helper (concat_ulong h num lhs)"

definition plus_flash :: "heap \<Rightarrow> StringObj \<Rightarrow> string option \<Rightarrow> StringObj option" where
  "plus_flash h lhs rhs = sum_helper (concat_flash h rhs lhs)"

section \<open>Comparison\<close>

definition compareTo :: "StringObj \<Rightarrow> StringObj \<Rightarrow> int" where
  "compareTo this s =
     (case (buffer this, buffer s) of
        (Some b, Some sb) \<Rightarrow> strcmp (c_str b 0) (c_str sb 0)
      | (None, Some sb) \<Rightarrow> if len s > 0 then 0 - int (char_code (sb ! 0)) else 0
      | (Some b, None) \<Rightarrow> if len this > 0 then int (char_code (b ! 0)) else 0
      | (None, None) \<Rightarrow> 0)"

definition equals :: "StringObj \<Rightarrow> StringObj \<Rightarrow> bool" where
  "equals this s2 \<longleftrightarrow> len this = len s2 \<and> compareTo this s2 = 0"

text \<open>A string of length 0 may have no block; any other has one.\<close>

definition equals_cstr :: "StringObj \<Rightarrow> string option \<Rightarrow> bool option" where
  "equals_cstr this cstr =
     (if len this = 0 then Some (cstr = None \<or> cstr = Some [])
      else do { b \<leftarrow> buffer this;
                case cstr of None \<Rightarrow> Some (b ! 0 = NUL) | Some cs \<Rightarrow> Some (strcmp (c_str b 0) cs = 0) })"

definition less_than :: "StringObj \<Rightarrow> StringObj \<Rightarrow> bool" where
  "less_than this rhs \<longleftrightarrow> compareTo this rhs < 0"

definition greater_than :: "StringObj \<Rightarrow> StringObj \<Rightarrow> bool" where
  "greater_than this rhs \<longleftrightarrow> compareTo this rhs > 0"

definition less_equal :: "StringObj \<Rightarrow> StringObj \<Rightarrow> bool" where
  "less_equal this rhs \<longleftrightarrow> compareTo this rhs \<le> 0"

definition greater_equal :: "StringObj \<Rightarrow> StringObj \<Rightarrow> bool" where
  "greater_equal this rhs \<longleftrightarrow> compareTo this rhs \<ge> 0"

text \<open>\<open>while (*p1) if (tolower(*p1++) != tolower(*p2++)) return 0;\<close> over the two blocks: reading
  past a block is \<open>None\<close>.\<close>

fun equal_fold :: "char list \<Rightarrow> char list \<Rightarrow> bool option" where
  "equal_fold [] p2 = None"
| "equal_fold (c # p1) p2 =
     (if c = NUL then Some True
      else (case p2 of
              [] \<Rightarrow> None
            | d # p2 \<Rightarrow> if to_lower c \<noteq> to_lower d then Some False else equal_fold p1 p2))"

definition equalsIgnoreCase :: "StringObj \<Rightarrow> StringObj \<Rightarrow> bool option" where
  "equalsIgnoreCase this s2 =
     (if len this \<noteq> len s2 then Some False
      else if len this = 0 then Some True
      else do { b1 \<leftarrow> buffer this; b2 \<leftarrow> buffer s2; equal_fold b1 b2 })"

text \<open>\<open>len - s2.len\<close> is computed on \<open>unsigned int\<close>.\<close>

definition startsWith_at :: "StringObj \<Rightarrow> StringObj \<Rightarrow> nat \<Rightarrow> bool option" where
  "startsWith_at this s2 offset =
     (if offset > u32n (len this + 4294967296 - len s2) then Some False
      else case (buffer this, buffer s2) of
        (Some b, Some sb) \<Rightarrow>
          if offset \<le> length b
          then Some (take (len s2) (c_str b offset) = take (len s2) (c_str sb 0)) else None
      | _ \<Rightarrow> Some False)"

definition startsWith :: "StringObj \<Rightarrow> StringObj \<Rightarrow> bool option" where
  "startsWith this s2 = (if len this < len s2 then Some False else startsWith_at this s2 0)"

definition endsWith :: "StringObj \<Rightarrow> StringObj \<Rightarrow> bool" where
  "endsWith this s2 =
     (if len this < len s2 then False
      else case (buffer this, buffer s2) of
        (Some b, Some sb) \<Rightarrow> strcmp (c_str b (len this - len s2)) (c_str sb 0) = 0
      | _ \<Rightarrow> False)"

section \<open>Character access\<close>

definition char_op :: "StringObj \<Rightarrow> nat \<Rightarrow> char" where
  "char_op this index =
     (case buffer this of
        Some b \<Rightarrow> if index \<ge> len this then NUL else b ! index
      | None \<Rightarrow> NUL)"

definition charAt :: "StringObj \<Rightarrow> nat \<Rightarrow> char" where
  "charAt this loc = char_op this loc"

definition setCharAt :: "nat \<Rightarrow> char \<Rightarrow> StringObj \<Rightarrow> StringObj option" where
  "setCharAt loc c this = (if loc < len this then write_buffer loc [c] this else Some this)"

text \<open>The bytes written to the caller's buffer, \<open>[]\<close> when there is none.\<close>

definition getBytes :: "StringObj \<Rightarrow> nat \<Rightarrow> nat \<Rightarrow> char list option" where
  "getBytes this bufsize index =
     (if bufsize = 0 then Some []
      else if index \<ge> len this then Some [NUL]
      else do { b \<leftarrow> buffer this;
                let n = min (bufsize - 1) (len this - index);
                    cs = take n (c_str b index)
                in Some (cs @ replicate (n - length cs) NUL @ [NUL]) })"

section \<open>Search\<close>

text \<open>Positions are \<open>int\<close>, \<open>-1\<close> for none. \<open>strchr\<close> also finds the terminator.\<close>

definition indexOf_char :: "StringObj \<Rightarrow> char \<Rightarrow> nat \<Rightarrow> int option" where
  "indexOf_char this ch fromIndex =
     (if fromIndex \<ge> len this then Some (- 1)
      else do { b \<leftarrow> buffer this;
                Some (case find_sub [ch] (c_str b fromIndex @ [NUL]) of
                        None \<Rightarrow> - 1 | Some n \<Rightarrow> int (fromIndex + n)) })"

definition indexOf_char_start :: "StringObj \<Rightarrow> char \<Rightarrow> int option" where
  "indexOf_char_start this c = indexOf_char this c 0"

definition indexOf :: "StringObj \<Rightarrow> StringObj \<Rightarrow> nat \<Rightarrow> int option" where
  "indexOf this s2 fromIndex =
     (if fromIndex \<ge> len this then Some (- 1)
      else do { b \<leftarrow> buffer this; sb \<leftarrow> buffer s2;
                Some (case find_sub (c_str sb 0) (c_str b fromIndex) of
                        None \<Rightarrow> - 1 | Some n \<Rightarrow> int (fromIndex + n)) })"

definition indexOf_start :: "StringObj \<Rightarrow> StringObj \<Rightarrow> int option" where
  "indexOf_start this s2 = indexOf this s2 0"

text \<open>\<open>strrchr\<close>\<close>

fun last_char :: "char \<Rightarrow> string \<Rightarrow> nat \<Rightarrow> int \<Rightarrow> int" where
  "last_char ch [] i found = found"
| "last_char ch (c # cs) i found = last_char ch cs (i + 1) (if c = ch then int i else found)"

text \<open>The text up to \<open>fromIndex\<close> is cut off by a temporary \<open>NUL\<close>, put back after the search.\<close>

definition lastIndexOf_char :: "StringObj \<Rightarrow> char \<Rightarrow> nat \<Rightarrow> int option" where
  "lastIndexOf_char this ch fromIndex =
     (if fromIndex \<ge> len this then Some (- 1)
      else do { b \<leftarrow> buffer this; b' \<leftarrow> poke b (fromIndex + 1) [NUL];
                Some (last_char ch (c_str b' 0 @ [NUL]) 0 (- 1)) })"

definition lastIndexOf_char_end :: "StringObj \<Rightarrow> char \<Rightarrow> int option" where
  "lastIndexOf_char_end this ch = lastIndexOf_char this ch (u32n (len this + 4294967295))"

function last_loop :: "string \<Rightarrow> char list \<Rightarrow> nat \<Rightarrow> nat \<Rightarrow> int \<Rightarrow> int" where
  "last_loop f b fromIndex p found =
     (if p \<le> fromIndex
      then (case find_sub f (c_str b p) of
              None \<Rightarrow> found
            | Some n \<Rightarrow>
                last_loop f b fromIndex (p + n + 1)
                  (if p + n \<le> fromIndex then int (p + n) else found))
      else found)"
  by pat_completeness auto
termination
  by (relation "measure (\<lambda>(f, b, fromIndex, p, found). Suc fromIndex - p)") auto

declare last_loop.simps [simp del]

definition lastIndexOf :: "StringObj \<Rightarrow> StringObj \<Rightarrow> nat \<Rightarrow> int option" where
  "lastIndexOf this s2 fromIndex =
     (if len s2 = 0 \<or> len this = 0 \<or> len s2 > len this then Some (- 1)
      else do { b \<leftarrow> buffer this; sb \<leftarrow> buffer s2;
                let fromIndex = (if fromIndex \<ge> len this then len this - 1 else fromIndex)
                in Some (last_loop (c_str sb 0) b fromIndex 0 (- 1)) })"

definition lastIndexOf_end :: "StringObj \<Rightarrow> StringObj \<Rightarrow> int option" where
  "lastIndexOf_end this s2 = lastIndexOf this s2 (u32n (len this + 4294967296 - len s2))"

definition substring :: "heap \<Rightarrow> StringObj \<Rightarrow> nat \<Rightarrow> nat \<Rightarrow> StringObj option" where
  "substring h this left right =
     (let (left, right) = (if left > right then (right, left) else (left, right))
      in if left \<ge> len this then Some string_init
         else (let right = (if right > len this then len this else right)
               in do { b \<leftarrow> buffer this; b' \<leftarrow> poke b right [NUL];
                       assign_cstr h (Some (c_str b' left)) string_init }))"

section \<open>Modification\<close>

definition replace_char :: "char \<Rightarrow> char \<Rightarrow> StringObj \<Rightarrow> StringObj" where
  "replace_char what rep this =
     (case buffer this of
        None \<Rightarrow> this
      | Some b \<Rightarrow>
          this\<lparr>buffer := Some (map (\<lambda>c. if c = what then rep else c) (takeWhile (\<lambda>c. c \<noteq> NUL) b)
                              @ dropWhile (\<lambda>c. c \<noteq> NUL) b)\<rparr>)"

text \<open>
  The three loops of \<open>replace(find, replace)\<close>, over the block \<open>b\<close>; \<open>f\<close> and \<open>r\<close> are the C
  strings of the two arguments, \<open>nf\<close> and \<open>nr\<close> their lengths.
\<close>

partial_function (option) replace_same ::
    "string \<Rightarrow> string \<Rightarrow> nat \<Rightarrow> char list \<Rightarrow> nat \<Rightarrow> char list option" where
  "replace_same f r nr b readFrom =
     (case find_sub f (c_str b readFrom) of
        None \<Rightarrow> Some b
      | Some n \<Rightarrow>
          (let foundAt = readFrom + n
           in do { b \<leftarrow> poke b foundAt (take nr r); replace_same f r nr b (foundAt + nr) }))"

partial_function (option) replace_shorter ::
    "string \<Rightarrow> string \<Rightarrow> nat \<Rightarrow> nat \<Rightarrow> char list \<Rightarrow> nat \<Rightarrow> nat \<Rightarrow> nat \<Rightarrow> (char list \<times> nat) option" where
  "replace_shorter f r nf nr b readFrom writeTo n_len =
     (case find_sub f (c_str b readFrom) of
        None \<Rightarrow> map_option (\<lambda>b. (b, n_len)) (poke b writeTo (c_str b readFrom @ [NUL]))
      | Some n \<Rightarrow>
          (let foundAt = readFrom + n
           in do { b \<leftarrow> poke b writeTo (take n (drop readFrom b));
                   b \<leftarrow> poke b (writeTo + n) (take nr r);
                   replace_shorter f r nf nr b (foundAt + nf) (writeTo + n + nr) (n_len + nr - nf) }))"

text \<open>The size needed, counted from the left.\<close>

partial_function (option) grown_size ::
    "string \<Rightarrow> nat \<Rightarrow> nat \<Rightarrow> char list \<Rightarrow> nat \<Rightarrow> nat \<Rightarrow> nat option" where
  "grown_size f nf diff b readFrom n_size =
     (case find_sub f (c_str b readFrom) of
        None \<Rightarrow> Some n_size
      | Some n \<Rightarrow> grown_size f nf diff b (readFrom + n + nf) (n_size + diff))"

text \<open>One replacement from the right: move the tail up, terminate, copy.\<close>

definition grow_at :: "string \<Rightarrow> nat \<Rightarrow> nat \<Rightarrow> nat \<Rightarrow> StringObj \<Rightarrow> StringObj option" where
  "grow_at r nr nf index this =
     do { b \<leftarrow> buffer this;
          let readFrom = index + nf; diff = nr - nf
          in do { b \<leftarrow> poke b (readFrom + diff) (take (len this - readFrom) (drop readFrom b));
                  b \<leftarrow> poke b (len this + diff) [NUL];
                  b \<leftarrow> poke b index (take nr r);
                  Some (this\<lparr>buffer := Some b, len := len this + diff\<rparr>) } }"

partial_function (option) replace_longer ::
    "StringObj \<Rightarrow> string \<Rightarrow> nat \<Rightarrow> int \<Rightarrow> StringObj \<Rightarrow> StringObj option" where
  "replace_longer what r nr index this =
     (if index \<ge> 0
      then do { index \<leftarrow> lastIndexOf this what (nat index);
                if index \<ge> 0
                then do { this \<leftarrow> grow_at r nr (len what) (nat index) this;
                          replace_longer what r nr (index - 1) this }
                else Some this }
      else Some this)"

definition replace :: "heap \<Rightarrow> StringObj \<Rightarrow> StringObj \<Rightarrow> StringObj \<Rightarrow> StringObj option" where
  "replace h what rep this =
     (if len this = 0 \<or> len what = 0 then Some this
      else do { b \<leftarrow> buffer this; fb \<leftarrow> buffer what;
        let f = c_str fb 0; nf = len what; nr = len rep;
            r = (case buffer rep of None \<Rightarrow> [] | Some rb \<Rightarrow> c_str rb 0)
        in if nr = nf then map_option (\<lambda>b. this\<lparr>buffer := Some b\<rparr>) (replace_same f r nr b 0)
           else if nr < nf
             then map_option (\<lambda>(b, n). this\<lparr>buffer := Some b, len := n\<rparr>)
                    (replace_shorter f r nf nr b 0 0 (len this))
           else do { n_size \<leftarrow> grown_size f nf (nr - nf) b 0 (len this);
                     if n_size = len this then Some this
                     else (let (ok, this) = (if n_size > capacity this then changeBuffer h n_size this
                                             else (True, this))
                           in if \<not> ok then Some this
                              else replace_longer what r nr (int (len this) - 1) this) } })"

definition remove_count :: "nat \<Rightarrow> nat \<Rightarrow> StringObj \<Rightarrow> StringObj option" where
  "remove_count index count this =
     (if index \<ge> len this then Some this
      else if count = 0 then Some this
      else (let count = (if count > len this - index then len this - index else count);
                n_len = len this - count
            in do { b \<leftarrow> buffer this;
                    let moved = take (n_len - index) (c_str b (index + count))
                    in do { b \<leftarrow> poke b index (moved @ replicate (n_len - index - length moved) NUL);
                            b \<leftarrow> poke b n_len [NUL];
                            Some (this\<lparr>buffer := Some b, len := n_len\<rparr>) } }))"

definition remove :: "nat \<Rightarrow> StringObj \<Rightarrow> StringObj option" where
  "remove index this = remove_count index 4294967295 this"

definition map_text :: "(char \<Rightarrow> char) \<Rightarrow> StringObj \<Rightarrow> StringObj" where
  "map_text g this =
     (case buffer this of
        None \<Rightarrow> this
      | Some b \<Rightarrow> this\<lparr>buffer := Some (map g (takeWhile (\<lambda>c. c \<noteq> NUL) b)
                                        @ dropWhile (\<lambda>c. c \<noteq> NUL) b)\<rparr>)"

definition toLowerCase :: "StringObj \<Rightarrow> StringObj" where
  "toLowerCase this = map_text to_lower this"

definition toUpperCase :: "StringObj \<Rightarrow> StringObj" where
  "toUpperCase this = map_text to_upper this"

text \<open>\<open>while (isspace(*begin)) begin++;\<close> and \<open>while (isspace(*end) && end >= begin) end--;\<close>,
  where \<open>end_next\<close> is \<open>end + 1\<close>.\<close>

fun trim_end :: "char list \<Rightarrow> nat \<Rightarrow> nat \<Rightarrow> nat" where
  "trim_end b beg 0 = 0"
| "trim_end b beg (Suc e) = (if is_space (b ! e) \<and> e \<ge> beg then trim_end b beg e else Suc e)"

definition trim :: "StringObj \<Rightarrow> StringObj option" where
  "trim this =
     (if buffer this = None \<or> len this = 0 then Some this
      else do { b \<leftarrow> buffer this;
                let beg = length (takeWhile is_space b);
                    n_len = trim_end b beg (len this) - beg
                in do { b \<leftarrow> (if beg > 0 then poke b 0 (take n_len (drop beg b)) else Some b);
                        b \<leftarrow> poke b n_len [NUL];
                        Some (this\<lparr>buffer := Some b, len := n_len\<rparr>) } })"

definition toInt :: "StringObj \<Rightarrow> int" where
  "toInt this = (case buffer this of Some b \<Rightarrow> atol (c_str b 0) | None \<Rightarrow> 0)"



section \<open>Well-formed objects\<close>

definition string_ok :: "StringObj \<Rightarrow> bool" where
  "string_ok s \<longleftrightarrow>
     (case buffer s of
        None \<Rightarrow> capacity s = 0 \<and> len s = 0
      | Some b \<Rightarrow> length b = capacity s + 1 \<and> length b < 4294967296 \<and> len s \<le> capacity s \<and>
                 b ! len s = NUL \<and> NUL \<notin> set (take (len s) b))"

text \<open>The text an object stands for.\<close>

definition text_of :: "StringObj \<Rightarrow> string" where
  "text_of s = (case buffer s of None \<Rightarrow> [] | Some b \<Rightarrow> take (len s) b)"

text \<open>A well-formed object is the empty one, or a text, its terminator and some slack.\<close>

definition obj :: "string \<Rightarrow> string \<Rightarrow> StringObj" where
  "obj t slack = \<lparr>buffer = Some (t @ NUL # slack), capacity = length t + length slack, len = length t\<rparr>"

definition obj_ok :: "string \<Rightarrow> string \<Rightarrow> bool" where
  "obj_ok t slack \<longleftrightarrow> NUL \<notin> set t \<and> length t + length slack + 1 < 4294967296"

lemma obj_sel [simp]:
  "buffer (obj t slack) = Some (t @ NUL # slack)" "len (obj t slack) = length t"
  "capacity (obj t slack) = length t + length slack" "text_of (obj t slack) = t"
  by (simp_all add: obj_def text_of_def)

lemma string_init_sel [simp]:
  "buffer string_init = None" "len string_init = 0" "capacity string_init = 0"
  "text_of string_init = []"
  by (simp_all add: string_init_def text_of_def)

lemma invalidate_init [simp]: "invalidate s = string_init"
  by (simp add: invalidate_def string_init_def)

lemma string_ok_obj [simp]: "string_ok (obj t slack) \<longleftrightarrow> obj_ok t slack"
  by (auto simp: string_ok_def obj_ok_def)

lemma string_ok_init [simp]: "string_ok string_init"
  by (simp add: string_ok_def)

lemma string_ok_cases:
  assumes "string_ok s"
  obtains (init) "s = string_init" | (obj) t slack where "s = obj t slack" "obj_ok t slack"
proof (cases "buffer s")
  case None
  with assms have "s = string_init" by (cases s) (simp add: string_ok_def string_init_def)
  then show ?thesis by (rule init)
next
  case (Some b)
  define t where "t = take (len s) b"
  define slack where "slack = drop (Suc (len s)) b"
  have b: "length b = capacity s + 1" "length b < 4294967296" "len s \<le> capacity s" "b ! len s = NUL"
    "NUL \<notin> set t"
    using assms Some by (simp_all add: string_ok_def t_def)
  then have split: "b = t @ NUL # slack"
    unfolding t_def slack_def by (metis Suc_eq_plus1 id_take_nth_drop le_imp_less_Suc)
  have "length t = len s" "length t + length slack = capacity s" using b by (simp_all add: t_def slack_def)
  with split Some have "s = obj t slack" by (cases s) (simp add: obj_def)
  moreover have "obj_ok t slack" using b split by (simp add: obj_ok_def)
  ultimately show ?thesis by (rule obj)
qed

lemma string_ok_length: "string_ok s \<Longrightarrow> length (text_of s) = len s"
  by (erule string_ok_cases) auto

lemma text_no_NUL: "string_ok s \<Longrightarrow> NUL \<notin> set (text_of s)"
  by (erule string_ok_cases) (auto simp: obj_ok_def)

lemma takeWhile_text: "NUL \<notin> set t \<Longrightarrow> takeWhile (\<lambda>c. c \<noteq> NUL) (t @ NUL # r) = t"
  by (subst takeWhile_append2) auto

lemma dropWhile_text: "NUL \<notin> set t \<Longrightarrow> dropWhile (\<lambda>c. c \<noteq> NUL) (t @ NUL # r) = NUL # r"
  by (subst dropWhile_append2) auto

lemma c_str_text [simp]: "NUL \<notin> set t \<Longrightarrow> i \<le> length t \<Longrightarrow> c_str (t @ NUL # r) i = drop i t"
proof -
  assume "NUL \<notin> set t" "i \<le> length t"
  moreover from this have "NUL \<notin> set (drop i t)" by (meson in_set_dropD)
  ultimately show ?thesis by (simp add: c_str_def takeWhile_text)
qed

lemma obj_okD: "obj_ok t slack \<Longrightarrow> NUL \<notin> set t"
  by (simp add: obj_ok_def)

lemma poke_append: "length r = length cs \<Longrightarrow> poke (t @ r @ u) (length t) cs = Some (t @ cs @ u)"
  by (simp add: poke_def)

text \<open>What writing a terminated string into a large enough block leaves.\<close>

lemma write_text:
  assumes "i \<le> length t" and "i + length cs \<le> length t + length slack"
  shows "\<exists>slack'. poke (t @ NUL # slack) i (cs @ [NUL]) = Some (take i t @ cs @ NUL # slack') \<and>
    i + length cs + length slack' = length t + length slack"
proof -
  let ?b = "t @ NUL # slack"
  have "poke ?b i (cs @ [NUL]) = Some (take i t @ cs @ NUL # drop (i + length cs + 1) ?b)"
    using assms by (simp add: poke_def)
  moreover have "i + length cs + length (drop (i + length cs + 1) ?b) = length t + length slack"
    using assms by simp
  ultimately show ?thesis by blast
qed

lemma write_text_start:
  assumes "length cs \<le> length t + length slack"
  obtains slack' where "poke (t @ NUL # slack) 0 (cs @ [NUL]) = Some (cs @ NUL # slack')"
    "length cs + length slack' = length t + length slack"
  using write_text [of 0 t cs slack] assms by auto

lemma write_text_end:
  assumes "length t + length cs \<le> length t + length slack"
  obtains slack' where "poke (t @ NUL # slack) (length t) (cs @ [NUL]) = Some (t @ cs @ NUL # slack')"
    "length t + length cs + length slack' = length t + length slack"
  using write_text [of "length t" t cs slack] assms by auto

section \<open>Allocation\<close>

lemma realloc_obj:
  assumes "realloc h (Some (t @ NUL # slack)) (n + 1) = Some b" and "length t + length slack \<le> n"
  shows "\<exists>slack'. b = t @ NUL # slack' \<and> length t + length slack' = n"
proof -
  obtain g where b: "b = take (n + 1) (t @ NUL # slack @ map g [length t + 1 + length slack..<n + 1])"
    using assms(1) by (auto simp: realloc_def simp del: upt_Suc take_append)
  let ?new = "map g [length t + 1 + length slack..<n + 1]"
  have "length (t @ NUL # slack @ ?new) = n + 1" using assms(2) by simp
  then have "b = t @ NUL # (slack @ ?new)" unfolding b by simp
  moreover have "length t + length (slack @ ?new) = n" using assms(2) by simp
  ultimately show ?thesis by blast
qed

lemma realloc_init: "realloc h None n = Some b \<Longrightarrow> length b = n"
  by (auto simp: realloc_def simp del: upt_Suc)

lemma reserve_obj:
  assumes "length t \<le> n" and "n + 1 < 4294967296"
  shows "(\<exists>slack'. reserve h n (obj t slack) = Some (True, obj t slack') \<and>
      n \<le> length t + length slack' \<and>
      (length t + length slack' = length t + length slack \<or> length t + length slack' = n)) \<or>
    reserve h n (obj t slack) = Some (False, obj t slack)"
proof (cases "n \<le> length t + length slack")
  case True
  then show ?thesis by (intro disjI1 exI [of _ slack]) (simp add: reserve_def)
next
  case False
  have eq: "u32n (n + 1) = n + 1" using assms by (simp add: u32n_def)
  show ?thesis
  proof (cases "realloc h (Some (t @ NUL # slack)) (n + 1)")
    case None
    then show ?thesis using False eq by (simp add: reserve_def changeBuffer_def)
  next
    case (Some b)
    then obtain slack' where b: "b = t @ NUL # slack'" "length t + length slack' = n"
      using realloc_obj [OF Some] False by auto
    have "changeBuffer h n (obj t slack) = (True, obj t slack')"
      using Some eq b by (simp add: changeBuffer_def obj_def)
    moreover have "write_buffer 0 [NUL] (obj [] slack') = Some (obj [] slack')"
      by (simp add: write_buffer_def poke_def obj_def)
    ultimately have "reserve h n (obj t slack) = Some (True, obj t slack')"
      using False by (cases "t = []") (auto simp: reserve_def)
    with b show ?thesis by auto
  qed
qed

lemma reserve_init:
  assumes "n + 1 < 4294967296"
  shows "(\<exists>slack'. reserve h n string_init = Some (True, obj [] slack') \<and> length slack' = n) \<or>
    reserve h n string_init = Some (False, string_init)"
proof (cases "realloc h None (n + 1)")
  case None
  then show ?thesis using assms by (simp add: reserve_def changeBuffer_def u32n_def)
next
  case (Some b)
  then have "length b = n + 1" by (rule realloc_init)
  then obtain c r where "b = c # r" "length r = n" by (cases b) auto
  with Some assms show ?thesis
    by (intro disjI1 exI [of _ r])
       (simp add: reserve_def changeBuffer_def u32n_def write_buffer_def poke_def obj_def string_init_def)
qed

section \<open>Copying and concatenating\<close>

text \<open>
  \<open>outcome s s' t\<close>: the operation on \<open>s\<close> gave the well-formed \<open>s'\<close> with the text \<open>t\<close>, or the
  allocator failed; \<open>kept\<close> is what an object holds in that case.
\<close>

lemma reserve_keeps:
  assumes "obj_ok t slack" and "n + 1 < 4294967296"
  shows "(\<exists>slack'. reserve h n (obj t slack) = Some (True, obj t slack') \<and>
      n \<le> length t + length slack' \<and> obj_ok t slack') \<or>
    reserve h n (obj t slack) = Some (False, obj t slack)"
proof (cases "length t \<le> n")
  case True
  from reserve_obj [OF True assms(2), of h slack] show ?thesis
  proof (elim disjE exE conjE)
    fix slack'
    assume "reserve h n (obj t slack) = Some (True, obj t slack')" "n \<le> length t + length slack'"
      "length t + length slack' = length t + length slack"
    with assms(1) show ?thesis by (intro disjI1 exI [of _ slack']) (simp add: obj_ok_def)
  next
    fix slack'
    assume "reserve h n (obj t slack) = Some (True, obj t slack')" "n \<le> length t + length slack'"
      "length t + length slack' = n"
    with assms show ?thesis by (intro disjI1 exI [of _ slack']) (simp add: obj_ok_def)
  qed simp
next
  case False
  with assms(1) show ?thesis by (intro disjI1 exI [of _ slack]) (simp add: reserve_def)
qed

lemma copy_ok:
  assumes "string_ok s" and "NUL \<notin> set cs" and "length cs + 1 < 4294967296"
  shows "\<exists>s'. copy h cs (length cs) s = Some s' \<and> string_ok s' \<and>
    (text_of s' = cs \<or> s' = string_init)"
  using assms(1)
proof (cases rule: string_ok_cases)
  case init
  from reserve_init [OF assms(3), of h] show ?thesis
  proof (elim disjE exE conjE)
    fix slack assume r: "reserve h (length cs) string_init = Some (True, obj [] slack)"
      "length slack = length cs"
    obtain slack' where "poke (NUL # slack) 0 (cs @ [NUL]) = Some (cs @ NUL # slack')"
      "length cs + length slack' = length slack"
      using write_text [of 0 "[]" cs slack] r by auto
    then have "copy h cs (length cs) s = Some (obj cs slack')"
      using r init by (simp add: copy_def write_buffer_def obj_def)
    moreover have "obj_ok cs slack'" using assms r \<open>_ = length slack\<close> by (simp add: obj_ok_def)
    ultimately show ?thesis by auto
  qed (use init in \<open>simp add: copy_def\<close>)
next
  case (obj t slack)
  have fits: "\<exists>s'. write_buffer 0 (cs @ [NUL]) ((obj t slack')\<lparr>len := length cs\<rparr>) = Some s' \<and>
      string_ok s' \<and> text_of s' = cs"
    if fit: "length cs \<le> length t + length slack'" and ok: "obj_ok t slack'" for slack'
  proof -
    obtain r where r: "poke (t @ NUL # slack') 0 (cs @ [NUL]) = Some (cs @ NUL # r)"
      "length cs + length r = length t + length slack'"
      by (rule write_text_start [OF fit])
    then have "write_buffer 0 (cs @ [NUL]) ((obj t slack')\<lparr>len := length cs\<rparr>) = Some (obj cs r)"
      by (simp add: write_buffer_def obj_def)
    moreover have "obj_ok cs r" using assms r(2) ok by (simp add: obj_ok_def)
    ultimately show ?thesis by auto
  qed
  from reserve_keeps [OF obj(2) assms(3), of h] show ?thesis
  proof (elim exE disjE conjE)
    fix slack'
    assume "reserve h (length cs) (obj t slack) = Some (True, obj t slack')"
      "length cs \<le> length t + length slack'" "obj_ok t slack'"
    with fits [of slack'] obj show ?thesis by (auto simp: copy_def)
  qed (use obj in \<open>simp add: copy_def\<close>)
qed

lemma concat_n_ok:
  assumes "string_ok s" and "NUL \<notin> set cs" and "len s + length cs + 1 < 4294967296"
  shows "\<exists>ok s'. concat_n h (Some cs) (length cs) s = Some (ok, s') \<and> string_ok s' \<and>
    text_of s' = (if ok then text_of s @ cs else text_of s)"
proof (cases "cs = []")
  case True
  with assms(1) show ?thesis by (intro exI [of _ True] exI [of _ s]) (simp add: concat_n_def)
next
  case False
  from assms(1) have "\<exists>t slack. text_of s = t \<and> len s = length t \<and> obj_ok t slack \<and>
      ((\<exists>slack'. reserve h (len s + length cs) s = Some (True, obj t slack') \<and>
         length t + length cs \<le> length t + length slack' \<and> obj_ok t slack') \<or>
       reserve h (len s + length cs) s = Some (False, s))"
  proof (cases rule: string_ok_cases)
    case init
    then show ?thesis using reserve_init [of "length cs" h] assms
      by (intro exI [of _ "[]"]) (auto simp: obj_ok_def)
  next
    case (obj t slack)
    then show ?thesis
      using reserve_keeps [OF obj(2), of "length t + length cs" h] assms
      by (intro exI [of _ t] exI [of _ slack]) simp
  qed
  then obtain t slack where t: "text_of s = t" "len s = length t" "obj_ok t slack"
    and r: "(\<exists>slack'. reserve h (len s + length cs) s = Some (True, obj t slack') \<and>
         length t + length cs \<le> length t + length slack' \<and> obj_ok t slack') \<or>
       reserve h (len s + length cs) s = Some (False, s)" by blast
  have u32: "u32n (len s + length cs) = len s + length cs" using assms(3) by (simp add: u32n_def)
  from r show ?thesis
  proof (elim disjE exE conjE)
    fix slack'
    assume a: "reserve h (len s + length cs) s = Some (True, obj t slack')"
      "length t + length cs \<le> length t + length slack'" "obj_ok t slack'"
    obtain r where p: "poke (t @ NUL # slack') (length t) (cs @ [NUL]) = Some (t @ cs @ NUL # r)"
      "length t + length cs + length r = length t + length slack'"
      by (rule write_text_end [OF a(2)])
    have "concat_n h (Some cs) (length cs) s = Some (True, obj (t @ cs) r)"
      using a p False t u32 by (simp add: concat_n_def write_buffer_def obj_def)
    moreover have "obj_ok (t @ cs) r" using a p(2) assms by (simp add: obj_ok_def)
    ultimately show ?thesis using t by auto
  next
    assume "reserve h (len s + length cs) s = Some (False, s)"
    then show ?thesis using False u32 assms(1) t
      by (intro exI [of _ False] exI [of _ s]) (simp add: concat_n_def)
  qed
qed

lemma object_text: "string_ok t \<Longrightarrow> buffer t = Some b \<Longrightarrow> c_str b 0 = text_of t \<and> length (text_of t) = len t"
  by (erule string_ok_cases) (auto simp: obj_ok_def)

lemma no_buffer: "string_ok t \<Longrightarrow> buffer t = None \<Longrightarrow> t = string_init"
  by (erule string_ok_cases) auto

text \<open>A concatenated value and the text it adds.\<close>

lemma concat_string_ok:
  assumes "string_ok s" and "string_ok t" and "len s + len t + 1 < 4294967296"
  shows "\<exists>ok s'. concat_string h t s = Some (ok, s') \<and> string_ok s' \<and>
    text_of s' = (if ok then text_of s @ text_of t else text_of s)"
proof (cases "buffer t")
  case None
  with assms show ?thesis by (auto simp: concat_string_def concat_n_def no_buffer)
next
  case (Some b)
  with assms(2) object_text [of t b] text_no_NUL [of t] have t: "c_str b 0 = text_of t"
    "length (text_of t) = len t" "NUL \<notin> set (text_of t)" by auto
  with Some concat_n_ok [OF assms(1) t(3), of h] assms(3) show ?thesis
    by (simp add: concat_string_def)
qed

section \<open>Comparing and searching\<close>

lemma strcmp_zero [simp]: "strcmp xs ys = 0 \<longleftrightarrow> xs = ys"
  by (induction xs ys rule: strcmp.induct) auto

lemma compareTo_zero:
  assumes "string_ok s" and "string_ok t" and "len s = len t"
  shows "compareTo s t = 0 \<longleftrightarrow> text_of s = text_of t"
  using assms
  by (auto elim!: string_ok_cases simp: compareTo_def obj_ok_def)

lemma equals_text: "string_ok s \<Longrightarrow> string_ok t \<Longrightarrow> equals s t \<longleftrightarrow> text_of s = text_of t"
  using compareTo_zero [of s t] string_ok_length [of s] string_ok_length [of t]
  by (auto simp: equals_def)

lemma equals_cstr_text:
  "string_ok s \<Longrightarrow> equals_cstr s (Some cs) = Some (text_of s = cs)"
  by (erule string_ok_cases) (auto simp: equals_cstr_def obj_ok_def)

lemma startsWith_text:
  assumes "string_ok s" and "string_ok t" and "buffer s \<noteq> None" and "buffer t \<noteq> None"
  shows "startsWith s t = Some (starts_with (text_of t) (text_of s))"
  using assms(1)
proof (cases rule: string_ok_cases)
  case s: (obj x r)
  from assms(2) show ?thesis
  proof (cases rule: string_ok_cases)
    case t: (obj y q)
    then show ?thesis using s
      by (auto simp: startsWith_def startsWith_at_def starts_with_def obj_ok_def
          dest: arg_cong [where f = length])
  qed (use assms(4) in simp)
qed (use assms(3) in simp)

lemma endsWith_text:
  assumes "string_ok s" and "string_ok t" and "buffer s \<noteq> None" and "buffer t \<noteq> None"
  shows "endsWith s t \<longleftrightarrow> ends_with (text_of t) (text_of s)"
  using assms(1)
proof (cases rule: string_ok_cases)
  case s: (obj x r)
  from assms(2) show ?thesis
  proof (cases rule: string_ok_cases)
    case t: (obj y q)
    then show ?thesis using s by (simp add: endsWith_def ends_with_def obj_ok_def)
  qed (use assms(4) in simp)
qed (use assms(3) in simp)

lemma find_sub_terminated: "c \<noteq> NUL \<Longrightarrow> find_sub [c] (xs @ [NUL]) = find_sub [c] xs"
  by (induction xs) (auto simp: starts_at_def)

definition found_at :: "nat option \<Rightarrow> int" where
  "found_at r = (case r of None \<Rightarrow> - 1 | Some n \<Rightarrow> int n)"

lemma indexOf_char_text:
  assumes "string_ok s" and "c \<noteq> NUL"
  shows "indexOf_char s c i = Some (found_at (index_from c i (text_of s)))"
  using assms(1)
proof (cases rule: string_ok_cases)
  case (obj t slack)
  then show ?thesis using assms(2)
    by (auto simp: indexOf_char_def index_from_def found_at_def obj_ok_def find_sub_terminated
        split: option.split)
qed (simp add: indexOf_char_def index_from_def found_at_def)

lemma indexOf_text:
  assumes "string_ok s" and "string_ok t" and "buffer t \<noteq> None"
  shows "indexOf s t i = Some (found_at (index_str (text_of t) i (text_of s)))"
  using assms(2)
proof (cases rule: string_ok_cases)
  case (obj y q)
  from assms(1) show ?thesis
    by (cases rule: string_ok_cases)
       (use obj in \<open>auto simp: indexOf_def index_str_def found_at_def obj_ok_def split: option.split\<close>)
qed (use assms(3) in simp)

text \<open>The last occurrence that starts at or before a position.\<close>

definition last_index :: "string \<Rightarrow> nat \<Rightarrow> string \<Rightarrow> nat option" where
  "last_index f i t =
     (case filter (\<lambda>n. starts_at f (drop n t)) [0..<i + 1] of [] \<Rightarrow> None | ns \<Rightarrow> Some (last ns))"

lemma last_loop_eq:
  assumes "NUL \<notin> set t" and "i < length t"
  shows "last_loop f (t @ NUL # r) i p found =
    (case filter (\<lambda>n. starts_at f (drop n t)) [p..<i + 1] of [] \<Rightarrow> found | ns \<Rightarrow> int (last ns))"
proof (induction "Suc i - p" arbitrary: p found rule: less_induct)
  case less
  show ?case
  proof (cases "p \<le> i")
    case False
    then show ?thesis by (simp add: last_loop.simps)
  next
    case True
    show ?thesis
    proof (cases "find_sub f (drop p t)")
      case None
      then have "\<not> starts_at f (drop n t)" if "p \<le> n" for n
        using find_sub_None [OF None, of "n - p"] that by simp
      then have "filter (\<lambda>n. starts_at f (drop n t)) [p..<i + 1] = []"
        by (auto simp: filter_empty_conv simp del: upt_Suc)
      with None True assms show ?thesis by (subst last_loop.simps) simp
    next
      case (Some n)
      have before: "\<not> starts_at f (drop m t)" if "p \<le> m" "m < p + n" for m
        using find_sub_first [OF Some, of "m - p"] that by simp
      have at: "starts_at f (drop (p + n) t)"
        using find_sub_Some [OF Some] by (simp add: add.commute)
      let ?rest = "filter (\<lambda>n. starts_at f (drop n t)) [p + n + 1..<i + 1]"
      have IH: "last_loop f (t @ NUL # r) i (p + n + 1) found' =
          (case ?rest of [] \<Rightarrow> found' | ns \<Rightarrow> int (last ns))" for found'
        using True by (intro less) simp
      show ?thesis
      proof (cases "p + n \<le> i")
        case False
        then have "filter (\<lambda>n. starts_at f (drop n t)) [p..<i + 1] = []" "?rest = []"
          using before by (auto simp: filter_empty_conv)
        with False True Some assms IH show ?thesis by (subst last_loop.simps) simp
      next
        case le: True
        then have "[p..<i + 1] = [p..<p + n] @ (p + n) # [p + n + 1..<i + 1]"
          using upt_add_eq_append [of p "p + n" "i + 1 - (p + n)"] upt_conv_Cons [of "p + n" "i + 1"]
          by simp
        moreover have "filter (\<lambda>n. starts_at f (drop n t)) [p..<p + n] = []"
          using before by (auto simp: filter_empty_conv)
        ultimately have "filter (\<lambda>n. starts_at f (drop n t)) [p..<i + 1] = (p + n) # ?rest"
          using at by simp
        with le True Some assms IH show ?thesis
          by (subst last_loop.simps) (simp add: list.case_eq_if)
      qed
    qed
  qed
qed

lemma lastIndexOf_text:
  assumes "obj_ok t slack" and "string_ok q" and "text_of q \<noteq> []"
  shows "lastIndexOf (obj t slack) q i =
    Some (found_at (if t = [] then None else last_index (text_of q) (min i (length t - 1)) t))"
  using assms(2)
proof (cases rule: string_ok_cases)
  case (obj f r)
  show ?thesis
  proof (cases "t = [] \<or> length t < length f")
    case True
    have "\<not> starts_at f (drop n t)" if "t = [] \<or> length t < length f" for n
      using that obj assms(3) by (auto simp: starts_at_iff dest!: arg_cong [where f = length])
    with True show ?thesis using obj assms(3)
      by (auto simp: lastIndexOf_def found_at_def last_index_def filter_empty_conv split: list.split)
  next
    case False
    then obtain k where "length t = Suc k" by (cases t) auto
    then have "(if length t \<le> i then length t - 1 else i) = min i (length t - 1)"
      "min i (length t - 1) < length t" by (auto simp: min_def)
    then show ?thesis using False obj assms
      by (simp add: lastIndexOf_def last_loop_eq found_at_def last_index_def obj_ok_def
          split: list.split del: upt_Suc)
  qed
qed (use assms(3) in simp)

lemma assign_cstr_init:
  assumes "NUL \<notin> set cs" and "length cs + 1 < 4294967296"
  shows "\<exists>s'. assign_cstr h (Some cs) string_init = Some s' \<and> string_ok s' \<and>
    (text_of s' = cs \<or> s' = string_init)"
  using copy_ok [OF string_ok_init assms, of h] by (simp add: assign_cstr_def)

lemma poke_one:
  assumes "i < length b"
  shows "poke b i [c] = Some (b[i := c])"
  using assms by (simp add: poke_def upd_conv_take_nth_drop)

text \<open>\<open>substring\<close> cuts the parts the client asks for, ends exchanged and clipped.\<close>

lemma substring_text:
  assumes "string_ok s"
  shows "\<exists>s'. substring h s left right = Some s' \<and> string_ok s' \<and>
    (text_of s' = substr left right (text_of s) \<or> s' = string_init)"
  using assms
proof (cases rule: string_ok_cases)
  case (obj t slack)
  define l where "l = min left right"
  define r where "r = (if max left right > length t then length t else max left right)"
  have lr: "(if left > right then (right, left) else (left, right)) = (l, max left right)"
    by (auto simp: l_def max_def)
  show ?thesis
  proof (cases "length t \<le> l")
    case True
    then show ?thesis using obj lr by (auto simp: substring_def substr_def l_def)
  next
    case False
    then have r: "l \<le> r" "r \<le> length t"
      by (auto simp: r_def l_def)
    have "poke (t @ NUL # slack) r [NUL] = Some ((t @ NUL # slack)[r := NUL])"
      using r by (intro poke_one) simp
    moreover have "c_str ((t @ NUL # slack)[r := NUL]) l = take (r - l) (drop l t)"
    proof -
      have "(t @ NUL # slack)[r := NUL] = take r t @ NUL # drop (Suc r) (t @ NUL # slack)"
        using r by (simp add: upd_conv_take_nth_drop)
      moreover have "NUL \<notin> set (take r t)" using obj by (auto simp: obj_ok_def dest: in_set_takeD)
      ultimately show ?thesis using r by (simp add: drop_take)
    qed
    moreover have "take (r - l) (drop l t) = substr left right t"
      by (auto simp: substr_def l_def r_def min_def max_def)
    moreover have "NUL \<notin> set (substr left right t)" "length (substr left right t) + 1 < 4294967296"
      using obj by (auto simp: substr_def obj_ok_def dest!: in_set_takeD in_set_dropD)
    ultimately show ?thesis
      unfolding substring_def lr Let_def prod.case obj obj_sel r_def [symmetric]
      using False assign_cstr_init [of "substr left right t" h] by simp
  qed
qed (auto simp: substring_def substr_def)

section \<open>Editing in place\<close>

text \<open>What the class promises of an operation that edits an object in place: it always
  succeeds, keeps the object well formed, and acts on the text as a given function.\<close>

locale string_editor =
  fixes edit :: "StringObj \<Rightarrow> StringObj option"
    and spec :: "string \<Rightarrow> string"
  assumes edit_text: "string_ok s \<Longrightarrow>
    \<exists>s'. edit s = Some s' \<and> string_ok s' \<and> text_of s' = spec (text_of s)"
begin

lemma edit_defined: "string_ok s \<Longrightarrow> edit s \<noteq> None"
  using edit_text by fastforce

lemma edit_length: "string_ok s \<Longrightarrow> edit s = Some s' \<Longrightarrow> len s' = length (spec (text_of s))"
  using edit_text string_ok_length by fastforce

text \<open>Any number of edits.\<close>

lemma edit_repeated:
  "string_ok s \<Longrightarrow> \<exists>s'. ((\<lambda>r. Option.bind r edit) ^^ n) (Some s) = Some s' \<and> string_ok s' \<and>
     text_of s' = (spec ^^ n) (text_of s)"
proof (induction n)
  case (Suc n)
  then show ?case using edit_text by fastforce
qed simp

end

lemma map_text_ok:
  assumes "string_ok s" and "\<And>c. c \<noteq> NUL \<Longrightarrow> g c \<noteq> NUL"
  shows "string_ok (map_text g s) \<and> text_of (map_text g s) = map g (text_of s)"
  using assms(1)
proof (cases rule: string_ok_cases)
  case (obj t slack)
  then have "NUL \<notin> set t" by (simp add: obj_ok_def)
  then have "map_text g s = obj (map g t) slack"
    using obj by (simp add: map_text_def takeWhile_text dropWhile_text obj_def)
  moreover have "obj_ok (map g t) slack" using obj assms(2) by (auto simp: obj_ok_def) (metis assms(2))
  ultimately show ?thesis using obj by simp
qed (simp add: map_text_def)

lemma case_not_NUL: "c \<noteq> NUL \<Longrightarrow> to_lower c \<noteq> NUL" "c \<noteq> NUL \<Longrightarrow> to_upper c \<noteq> NUL"
proof -
  have zero: "char_code NUL = 0" by (simp add: NUL_def char_code_def)
  have "char_of n \<noteq> NUL" if "0 < n" "n < 256" for n :: nat
  proof
    assume "char_of n = NUL"
    with zero have "char_code (char_of n) = 0" by simp
    with char_code_char_of [OF that(2)] that(1) show False by simp
  qed
  then show "c \<noteq> NUL \<Longrightarrow> to_lower c \<noteq> NUL" "c \<noteq> NUL \<Longrightarrow> to_upper c \<noteq> NUL"
    by (auto simp: to_lower_def to_upper_def is_upper_def is_lower_def)
qed

interpretation lower: string_editor "\<lambda>s. Some (toLowerCase s)" "map to_lower"
  by unfold_locales (simp add: toLowerCase_def map_text_ok case_not_NUL)

interpretation upper: string_editor "\<lambda>s. Some (toUpperCase s)" "map to_upper"
  by unfold_locales (simp add: toUpperCase_def map_text_ok case_not_NUL)

lemma obj_update:
  "length v + length r = length t + length slack \<Longrightarrow>
     (obj t slack)\<lparr>buffer := Some (v @ NUL # r), len := length v\<rparr> = obj v r"
  by (simp add: obj_def)

lemma write_buffer_obj:
  assumes "loc < length t"
  shows "write_buffer loc [c] (obj t slack) = Some (obj (t[loc := c]) slack)"
proof -
  have "poke (t @ NUL # slack) loc [c] = Some (t[loc := c] @ NUL # slack)"
    using assms by (simp add: poke_one list_update_append)
  then show ?thesis by (simp add: write_buffer_def obj_def)
qed

lemma setCharAt_text:
  assumes "string_ok s" and "c \<noteq> NUL"
  shows "\<exists>s'. setCharAt loc c s = Some s' \<and> string_ok s' \<and> text_of s' = set_char loc c (text_of s)"
  using assms(1)
proof (cases rule: string_ok_cases)
  case (obj t slack)
  have "obj_ok (t[loc := c]) slack"
    using obj assms(2) set_update_subset_insert [of t loc c] by (auto simp: obj_ok_def)
  with obj show ?thesis
    by (cases "loc < length t")
       (auto simp: setCharAt_def write_buffer_obj set_char_def list_update_beyond)
qed (simp add: setCharAt_def set_char_def)

lemma remove_text:
  assumes "string_ok s"
  shows "\<exists>s'. remove_count i n s = Some s' \<and> string_ok s' \<and> text_of s' = remove_part i n (text_of s)"
  using assms
proof (cases rule: string_ok_cases)
  case (obj t slack)
  show ?thesis
  proof (cases "length t \<le> i \<or> n = 0")
    case True
    then show ?thesis using obj by (auto simp: remove_count_def remove_part_def)
  next
    case False
    define k where "k = min n (length t - i)"
    define m where "m = length t - k"
    define tail where "tail = drop (i + k) t"
    have k: "(if n > length t - i then length t - i else n) = k" "i + k \<le> length t" "0 < k"
      using False by (auto simp: k_def)
    have tail: "length tail = m - i" "i \<le> m" "m \<le> length t" using k by (simp_all add: tail_def m_def)
    have p1: "poke (t @ NUL # slack) i tail = Some (take i t @ tail @ drop m (t @ NUL # slack))"
      using tail by (simp add: poke_def)
    let ?b = "take i t @ tail @ drop m (t @ NUL # slack)"
    have "length (take i t @ tail) = m" using tail by simp
    then have p2: "poke ?b m [NUL] = Some ((take i t @ tail) @ NUL # drop (Suc m) (t @ NUL # slack))"
      using tail poke_append [of "[(t @ NUL # slack) ! m]" "[NUL]" "take i t @ tail"
          "drop (Suc m) (t @ NUL # slack)"] Cons_nth_drop_Suc [of m "t @ NUL # slack"] by simp
    let ?slack = "drop (Suc m) (t @ NUL # slack)"
    have "remove_count i n (obj t slack) = Some (obj (take i t @ tail) ?slack)"
    proof -
      have "take (m - i) (c_str (t @ NUL # slack) (i + k)) = tail"
        using obj k tail by (simp add: obj_ok_def tail_def m_def)
      moreover have "(obj t slack)\<lparr>buffer := Some ((take i t @ tail) @ NUL # ?slack), len := m\<rparr> =
          obj (take i t @ tail) ?slack"
        using obj_update [of "take i t @ tail" ?slack t slack] tail by simp
      ultimately show ?thesis
        unfolding remove_count_def Let_def obj_sel k(1) m_def [symmetric]
        using False p1 p2 tail(1) by (simp del: drop_append take_append length_take)
    qed
    moreover have "obj_ok (take i t @ tail) ?slack"
      using obj tail by (auto simp: obj_ok_def tail_def dest: in_set_takeD in_set_dropD)
    moreover have "take i t @ tail = remove_part i n t"
      using k by (auto simp: remove_part_def tail_def k_def min_def)
    ultimately show ?thesis using obj by auto
  qed
qed (simp add: remove_count_def remove_part_def)

lemma trim_end_eq:
  "trim_end (sp @ u @ w) (length sp) (length sp + length u) =
     length sp + length (dropWhile is_space (rev u))"
proof (induction u arbitrary: w rule: rev_induct)
  case Nil
  then show ?case by (cases "length sp") simp_all
next
  case (snoc x u)
  have e: "length sp + length (u @ [x]) = Suc (length sp + length u)" by simp
  have nth: "(sp @ (u @ [x]) @ w) ! (length sp + length u) = x"
    by (simp add: nth_append)
  show ?case unfolding e
    using snoc [of "x # w"] nth by (simp add: Suc_le_eq)
qed

lemma not_space_NUL [simp]: "\<not> is_space NUL"
  by (simp add: is_space_def char_code_def NUL_def)

lemma trim_text:
  assumes "string_ok s"
  shows "\<exists>s'. trim s = Some s' \<and> string_ok s' \<and> text_of s' = trim_space (text_of s)"
  using assms
proof (cases rule: string_ok_cases)
  case (obj t slack)
  show ?thesis
  proof (cases "t = []")
    case True
    then show ?thesis using obj by (simp add: trim_def trim_space_def)
  next
    case False
    obtain sp u where t: "t = sp @ u" and sp: "\<And>x. x \<in> set sp \<Longrightarrow> is_space x"
      and u: "dropWhile is_space t = u" "takeWhile is_space t = sp"
      by (metis set_takeWhileD takeWhile_dropWhile_id)
    define v where "v = trim_space t"
    have v': "v = rev (dropWhile is_space (rev u))" by (simp add: v_def trim_space_def u)
    obtain w where w: "u = v @ w"
      using v' by (metis rev_append rev_rev_ident takeWhile_dropWhile_id)
    have n: "trim_end (t @ NUL # slack) (length sp) (length t) - length sp = length v"
      using trim_end_eq [of sp u "NUL # slack"] v' t by simp
    have "takeWhile is_space (u @ NUL # slack) = []"
    proof (cases u)
      case (Cons x xs)
      then have "\<not> is_space x" using u(1) hd_dropWhile [of is_space t] by auto
      with Cons show ?thesis by simp
    qed simp
    with sp have beg: "takeWhile is_space (t @ NUL # slack) = sp"
      unfolding t by (simp add: takeWhile_append2)
    define slack' where "slack' = drop (Suc (length v)) (t @ NUL # slack)"
    let ?c = "(t @ NUL # slack) ! length v"
    have less: "length v < length (t @ NUL # slack)" by (simp add: t w)
    have b: "drop (length v) (t @ NUL # slack) = ?c # slack'"
      unfolding slack'_def using less by (rule Cons_nth_drop_Suc [symmetric])
    have p1: "poke (t @ NUL # slack) 0 v = Some (v @ ?c # slack')"
      using less b by (simp add: poke_def del: drop_append)
    have p2: "poke (v @ ?c # slack') (length v) [NUL] = Some (v @ NUL # slack')"
      using poke_append [of "[?c]" "[NUL]" v slack'] by simp
    have moved: "take (length v) (drop (length sp) (t @ NUL # slack)) = v" by (simp add: t w)
    have len': "length v + length slack' = length t + length slack"
      using less by (simp add: slack'_def del: drop_append)
    have "sp = [] \<Longrightarrow> t @ NUL # slack = v @ ?c # slack'"
      using b append_take_drop_id [of "length v" "t @ NUL # slack"] moved
      by (simp del: drop_append take_append append_assoc nth_append)
    then have "trim (obj t slack) =
        Some ((obj t slack)\<lparr>buffer := Some (v @ NUL # slack'), len := length v\<rparr>)"
      using False beg n p1 p2 moved
      by (cases "sp = []") (simp_all add: trim_def del: drop_append nth_append)
    then have "trim (obj t slack) = Some (obj v slack')" using len' by (simp add: obj_update)
    moreover have "obj_ok v slack'" using obj len' by (simp add: obj_ok_def t w)
    ultimately show ?thesis using obj by (simp add: v_def)
  qed
qed (simp add: trim_def trim_space_def)

interpretation trimmer: string_editor trim trim_space
  by unfold_locales (rule trim_text)

interpretation remover: string_editor "remove_count i n" "remove_part i n" for i n
  by unfold_locales (rule remove_text)

section \<open>Replacing text\<close>

lemma find_sub_take: "find_sub f t = Some n \<Longrightarrow> take (length f) (drop n t) = f"
  by (drule find_sub_Some) (simp add: starts_at_def)

lemma poke_prefix:
  "length cs \<le> length x \<Longrightarrow> poke (a @ x @ c) (length a) cs = Some (a @ cs @ drop (length cs) x @ c)"
  by (simp add: poke_def)

text \<open>A match in the unread part of the block: gap, match and rest.\<close>

lemma find_sub_parts:
  assumes "find_sub f t = Some n"
  obtains g rest where "t = g @ f @ rest" "length g = n"
    "replace_all f r t = (if f = [] then t else g @ r @ replace_all f r rest)"
proof
  show "t = take n t @ f @ drop (n + length f) t" using assms by (rule find_sub_split)
  show "length (take n t) = n" using find_sub_length [OF assms] by simp
  show "replace_all f r t = (if f = [] then t else take n t @ r @ replace_all f r (drop (n + length f) t))"
    using assms by (simp add: replace_all_found replace_all.simps [of "[]"])
qed

lemma replace_same_text:
  assumes "length r = length f" and "f \<noteq> []" and "NUL \<notin> set r" and "NUL \<notin> set rest"
  shows "replace_same f r (length r) (seen @ rest @ NUL # slack) (length seen) =
    Some (seen @ replace_all f r rest @ NUL # slack)"
  using assms(4)
proof (induction "length rest" arbitrary: seen rest rule: less_induct)
  case less
  have cs: "c_str (seen @ rest @ NUL # slack) (length seen) = rest"
    using less(2) by (simp add: c_str_def takeWhile_text)
  show ?case
  proof (cases "find_sub f rest")
    case None
    then show ?thesis
      by (subst replace_same.simps) (simp add: cs replace_all_absent)
  next
    case (Some n)
    then obtain g tl where g: "rest = g @ f @ tl" "length g = n"
      "replace_all f r rest = g @ r @ replace_all f r tl"
      using assms(2) by (rule_tac find_sub_parts [where r = r]) auto
    have p: "poke (seen @ rest @ NUL # slack) (length seen + n) r =
        Some ((seen @ g @ r) @ tl @ NUL # slack)"
      using poke_prefix [of r f "seen @ g" "tl @ NUL # slack"] assms(1) g(2) by (simp add: g(1))
    have "replace_same f r (length r) ((seen @ g @ r) @ tl @ NUL # slack) (length (seen @ g @ r)) =
        Some ((seen @ g @ r) @ replace_all f r tl @ NUL # slack)"
      using less(2) g assms(2) by (intro less(1)) (auto simp: g(1))
    then show ?thesis
      using p Some g(2,3) by (subst replace_same.simps) (simp add: cs add.assoc)
  qed
qed

lemma replace_shorter_text:
  assumes "length r < length f" and "NUL \<notin> set rest"
  shows "\<exists>slack'. replace_shorter f r (length f) (length r) (seen @ gap @ rest @ NUL # slack)
      (length seen + length gap) (length seen) (length seen + length rest) =
    Some ((seen @ replace_all f r rest) @ NUL # slack', length (seen @ replace_all f r rest)) \<and>
    length (seen @ replace_all f r rest) + length slack' = length (seen @ gap @ rest) + length slack"
  using assms(2)
proof (induction "length rest" arbitrary: seen gap rest rule: less_induct)
  case less
  let ?b = "seen @ gap @ rest @ NUL # slack"
  have cs: "c_str ?b (length seen + length gap) = rest"
    using less(2) by (simp add: c_str_def takeWhile_text)
  show ?case
  proof (cases "find_sub f rest")
    case None
    have "poke ?b (length seen) (rest @ [NUL]) =
        Some (seen @ (rest @ [NUL]) @ drop (length rest + 1) (gap @ rest @ NUL # slack))"
      using poke_prefix [of "rest @ [NUL]" "gap @ rest @ NUL # slack" seen "[]"] by simp
    with None show ?thesis
      by (intro exI [of _ "drop (length rest + 1) (gap @ rest @ NUL # slack)"])
         (subst replace_shorter.simps, simp add: cs replace_all_absent del: drop_append)
  next
    case (Some n)
    have "f \<noteq> []" using assms(1) by auto
    with Some obtain g tl where g: "rest = g @ f @ tl" "length g = n"
      "replace_all f r rest = g @ r @ replace_all f r tl"
      by (rule_tac find_sub_parts [where r = r]) auto
    define gap' where "gap' = drop (n + length r) (gap @ g @ f)"
    have len: "length gap' = length gap + length f - length r"
      using g(2) assms(1) by (simp add: gap'_def)
    have d: "take n (drop (length seen + length gap) ?b) = g" using g by simp
    have p1: "poke ?b (length seen) g = Some (seen @ g @ drop n (gap @ g @ f) @ tl @ NUL # slack)"
      using poke_prefix [of g "gap @ g @ f" seen "tl @ NUL # slack"] g by simp
    have p2: "poke (seen @ g @ drop n (gap @ g @ f) @ tl @ NUL # slack) (length seen + n) r =
        Some ((seen @ g @ r) @ gap' @ tl @ NUL # slack)"
      using poke_prefix [of r "drop n (gap @ g @ f)" "seen @ g" "tl @ NUL # slack"] g(2) assms(1)
      by (simp add: gap'_def add.commute del: drop_append)
    have less': "length tl < length rest" using g(1) assms(1) by auto
    have eqs: "length seen + length gap + n + length f = length (seen @ g @ r) + length gap'"
      "length seen + n + length r = length (seen @ g @ r)"
      "length seen + length rest + length r - length f = length (seen @ g @ r) + length tl"
      using len g assms(1) by simp_all
    have "NUL \<notin> set tl" using less(2) g(1) by auto
    from less(1) [OF less' this, of "seen @ g @ r" gap'] obtain slack' where IH:
      "replace_shorter f r (length f) (length r) ((seen @ g @ r) @ gap' @ tl @ NUL # slack)
         (length (seen @ g @ r) + length gap') (length (seen @ g @ r))
         (length (seen @ g @ r) + length tl) =
       Some (((seen @ g @ r) @ replace_all f r tl) @ NUL # slack',
         length ((seen @ g @ r) @ replace_all f r tl))"
      "length ((seen @ g @ r) @ replace_all f r tl) + length slack' =
       length ((seen @ g @ r) @ gap' @ tl) + length slack" by blast
    have "replace_shorter f r (length f) (length r) ?b (length seen + length gap) (length seen)
        (length seen + length rest) =
      replace_shorter f r (length f) (length r) ((seen @ g @ r) @ gap' @ tl @ NUL # slack)
         (length seen + length gap + n + length f) (length seen + n + length r)
         (length seen + length rest + length r - length f)"
      by (subst replace_shorter.simps)
         (simp only: cs Some d p1 p2 option.case Let_def bind.bind_lunit take_all order.refl)
    then show ?thesis
      unfolding eqs IH(1) using IH(2) g len assms(1) by (intro exI [of _ slack']) simp
  qed
qed

lemma grown_size_text:
  assumes "length f < length r" and "f \<noteq> []" and "NUL \<notin> set rest"
  shows "grown_size f (length f) (length r - length f) (seen @ rest @ NUL # slack) (length seen) n_size =
    Some (n_size + length (replace_all f r rest) - length rest)"
  using assms(3)
proof (induction "length rest" arbitrary: seen rest n_size rule: less_induct)
  case less
  have cs: "c_str (seen @ rest @ NUL # slack) (length seen) = rest"
    using less(2) by (simp add: c_str_def takeWhile_text)
  show ?case
  proof (cases "find_sub f rest")
    case None
    then show ?thesis by (subst grown_size.simps) (simp add: cs replace_all_absent)
  next
    case (Some n)
    then obtain g tl where g: "rest = g @ f @ tl" "length g = n"
      "replace_all f r rest = g @ r @ replace_all f r tl"
      using assms(2) by (rule_tac find_sub_parts [where r = r]) auto
    have "grown_size f (length f) (length r - length f) ((seen @ g @ f) @ tl @ NUL # slack)
        (length (seen @ g @ f)) (n_size + (length r - length f)) =
      Some (n_size + (length r - length f) + length (replace_all f r tl) - length tl)"
      using less(2) g assms(2) by (intro less(1)) (auto simp: g(1))
    moreover have "n_size + (length r - length f) + length (replace_all f r tl) - length tl =
        n_size + length (replace_all f r rest) - length rest"
    proof -
      have "length rest = n + length f + length tl"
        "length (replace_all f r rest) = n + length r + length (replace_all f r tl)"
        unfolding g(3) using g(1,2) by simp_all
      then show ?thesis using assms(1) by simp
    qed
    moreover have "grown_size f (length f) (length r - length f) (seen @ rest @ NUL # slack)
        (length seen) n_size =
      grown_size f (length f) (length r - length f) (seen @ rest @ NUL # slack)
        (length seen + n + length f) (n_size + (length r - length f))"
      by (subst grown_size.simps) (simp only: cs Some option.case)
    moreover have "seen @ rest @ NUL # slack = (seen @ g @ f) @ tl @ NUL # slack"
      "length seen + n + length f = length (seen @ g @ f)" using g(1,2) by simp_all
    ultimately show ?thesis by metis
  qed
qed

subsection \<open>Growing: from the right\<close>

text \<open>No occurrence of \<open>f\<close> is directly preceded by a proper prefix of \<open>f\<close>; then no two
  occurrences overlap, and a replacement cannot create a new one on its left.\<close>

definition no_overlap :: "string \<Rightarrow> string \<Rightarrow> bool" where
  "no_overlap f t \<longleftrightarrow> list_all (\<lambda>k. find_sub (take k f @ f) t = None) [1..<length f]"

lemma no_overlapD:
  assumes "no_overlap f t" and "0 < k" and "k < length f"
  shows "\<not> starts_at (take k f @ f) (drop n t)"
  using assms by (intro find_sub_None) (simp add: no_overlap_def list_all_iff)

text \<open>An occurrence that runs over the end of \<open>u\<close> leaves a proper prefix of \<open>f\<close> there.\<close>

lemma crossing:
  assumes "starts_at f (drop n (u @ w))" and "n < length u" and "length u < n + length f"
  shows "drop n u = take (length u - n) f" "0 < length u - n" "length u - n < length f"
proof -
  from assms(1,2) obtain x where x: "drop n u @ w = f @ x" by (auto simp: starts_at_iff)
  have "drop n u = take (length u - n) (drop n u @ w)" using assms(2) by simp
  also have "\<dots> = take (length u - n) f" unfolding x using assms(3) by simp
  finally show "drop n u = take (length u - n) f" .
qed (use assms in auto)

lemma no_crossing:
  assumes "no_overlap f (u @ f @ v)" and "starts_at f (drop n (u @ w))" and "n < length u"
  shows "n + length f \<le> length u"
proof (rule ccontr)
  assume "\<not> n + length f \<le> length u"
  then have c: "drop n u = take (length u - n) f" "0 < length u - n" "length u - n < length f"
    using crossing [OF assms(2,3)] by simp_all
  then have "starts_at (take (length u - n) f @ f) (drop n (u @ f @ v))"
    using assms(3) by (auto simp: starts_at_iff)
  with no_overlapD [OF assms(1) c(2,3)] show False by blast
qed

lemma no_overlap_stable:
  assumes "f \<noteq> []" "no_overlap f t"
  shows "stable f r t"
proof -
  have cross: "j + length f \<le> i" if "starts_at f (drop i t)" "j < i" "starts_at f (drop j (take i t @ w))" for i j w
  proof -
    have i: "i \<le> length t" using starts_at_length [OF that(1) assms(1)] by simp
    from that(1) obtain v where "drop i t = f @ v" unfolding starts_at_iff by blast
    then have "t = take i t @ f @ v" by (metis append_take_drop_id)
    then show ?thesis using no_crossing [of f "take i t" v j w] assms(2) that(2,3) i by simp
  qed
  have "starts_at f (drop j (take i t @ drop i t))" if "starts_at f (drop j t)" for i j
    using that by simp
  then show ?thesis unfolding stable_def apart_def using assms(1) cross by meson
qed

lemma grow_at_text:
  assumes "length f < length r" and "length r - length f \<le> length slack"
  shows "\<exists>slack'. grow_at r (length r) (length f) (length a) (obj (a @ f @ c) slack) =
      Some (obj (a @ r @ c) slack') \<and>
    length (a @ r @ c) + length slack' = length (a @ f @ c) + length slack"
proof -
  let ?b = "a @ f @ c @ NUL # slack"
  define x where "x = take (length a + length r) ?b"
  define y where "y = drop (length a + length r + length c) ?b"
  have lx: "length x = length a + length r" using assms by (simp add: x_def)
  have ly: "length y = Suc (length f + length slack - length r)" using assms by (simp add: y_def)
  then obtain d slack' where y: "y = d # slack'" by (cases y) auto
  have p1: "poke ?b (length a + length r) c = Some (x @ c @ y)"
    using assms by (simp add: poke_def x_def y_def add.assoc)
  have p2: "poke (x @ c @ y) (length a + length r + length c) [NUL] = Some (x @ c @ NUL # slack')"
    using lx poke_append [of "[d]" "[NUL]" "x @ c" slack'] by (simp add: y)
  have "x = a @ drop (length a) x" using assms by (simp add: x_def)
  then have p3: "poke (x @ c @ NUL # slack') (length a) r = Some (a @ r @ c @ NUL # slack')"
    using poke_prefix [of r "drop (length a) x" a "c @ NUL # slack'"] lx
    by (metis append_eq_appendI drop_append append_Nil2 length_drop add_diff_cancel_left' order.refl
        drop_all append_Nil)
  have idx: "length a + length f + (length r - length f) = length a + length r"
    "length (a @ f @ c) + (length r - length f) = length a + length r + length c"
    "length (a @ f @ c) - (length a + length f) = length c"
    "length (a @ r @ c) = length a + length r + length c"
    "take (length c) (drop (length a + length f) ?b) = c"
    using assms by simp_all
  have "grow_at r (length r) (length f) (length a) (obj (a @ f @ c) slack) =
      Some ((obj (a @ f @ c) slack)\<lparr>buffer := Some ((a @ r @ c) @ NUL # slack'), len := length (a @ r @ c)\<rparr>)"
    unfolding grow_at_def Let_def obj_sel append_assoc
    by (simp only: idx append_assoc append_Cons p1 p2 p3 bind.bind_lunit take_all order.refl)
  moreover have eq: "length (a @ r @ c) + length slack' = length (a @ f @ c) + length slack"
    using ly assms by (simp add: y)
  ultimately show ?thesis unfolding obj_update [OF eq] by blast
qed

lemma last_index_None:
  assumes "last_index f i t = None" and "n \<le> i"
  shows "\<not> starts_at f (drop n t)"
  using assms by (auto simp: last_index_def filter_empty_conv split: list.splits simp del: upt_Suc)

lemma last_index_Some:
  assumes "last_index f i t = Some n"
  shows "n \<le> i" "starts_at f (drop n t)" "\<And>m. n < m \<Longrightarrow> m \<le> i \<Longrightarrow> \<not> starts_at f (drop m t)"
proof -
  let ?ns = "filter (\<lambda>n. starts_at f (drop n t)) [0..<i + 1]"
  have ns: "?ns \<noteq> []" "n = last ?ns"
    using assms by (auto simp: last_index_def split: list.splits simp del: upt_Suc)
  then have "n \<in> set ?ns" by (metis last_in_set)
  then show "n \<le> i" "starts_at f (drop n t)" by (auto simp del: upt_Suc)
  fix m assume m: "n < m" "m \<le> i"
  show "\<not> starts_at f (drop m t)"
  proof
    assume "starts_at f (drop m t)"
    then have "m \<in> set ?ns" using m by (simp del: upt_Suc)
    moreover have "sorted ?ns" by (rule sorted_wrt_filter [OF sorted_upt])
    moreover obtain xs where "?ns = xs @ [n]" using ns by (metis append_butlast_last_id)
    ultimately have "m \<in> set (xs @ [n])" "sorted (xs @ [n])" by metis+
    then show False using m(1) by (auto simp: sorted_append)
  qed
qed

lemma grow_at_full:
  assumes "length f < length r" and "length slack < length r - length f"
  shows "grow_at r (length r) (length f) (length a) (obj (a @ f @ c) slack) = None"
proof (cases "poke (a @ f @ c @ NUL # slack) (length a + length r) c")
  case None
  then show ?thesis using assms by (simp add: grow_at_def)
next
  case (Some b)
  then have "length b = length (a @ f @ c @ NUL # slack)" by (auto simp: poke_def split: if_splits)
  then have "poke b (length a + (length f + length c) + (length r - length f)) [NUL] = None"
    using assms by (simp add: poke_def)
  with Some show ?thesis using assms by (simp add: grow_at_def)
qed

lemma grow_from_length:
  assumes "length f \<le> length r" "f \<noteq> []"
  shows "length t \<le> length (grow_from f r i t)"
proof (induction i arbitrary: t)
  case (Suc i)
  show ?case
  proof (cases "starts_at f (drop i t)")
    case True
    then show ?thesis
      using Suc [of "take i t @ r @ drop (i + length f) t"] starts_at_length [OF True assms(2)] assms(1) by simp
  qed (use Suc in simp)
qed simp

text \<open>The loop from the right, from a given position on: it ends with the text of \<open>grow_from\<close> where that fits
  into the block, and runs past the block's end where it does not.\<close>

lemma replace_longer_grow:
  assumes "string_ok what" and "text_of what = f" and "f \<noteq> []" and "length f < length r" and "NUL \<notin> set r"
  shows "obj_ok t slack \<Longrightarrow> i \<le> length t \<Longrightarrow>
    if length (grow_from f r i t) \<le> length t + length slack
    then \<exists>slack'. replace_longer what r (length r) (int i - 1) (obj t slack) = Some (obj (grow_from f r i t) slack') \<and>
           length (grow_from f r i t) + length slack' = length t + length slack \<and> NUL \<notin> set (grow_from f r i t)
    else replace_longer what r (length r) (int i - 1) (obj t slack) = None"
proof (induction i arbitrary: t slack)
  case 0
  then show ?case by (subst (1 2) replace_longer.simps) (auto simp: obj_okD)
next
  case (Suc i)
  have wl: "len what = length f" using string_ok_length [OF assms(1)] assms(2) by simp
  have li: "lastIndexOf (obj t slack) what k = Some (found_at (last_index f k t))" if "k \<le> i" for k
    using lastIndexOf_text [OF Suc.prems(1) assms(1), of k] assms(2,3) Suc.prems(2) that
    by (cases "t = []") (simp_all add: min_absorb1)
  show ?case
  proof (cases "starts_at f (drop i t)")
    case True
    have "last_index f i t = Some i"
    proof (cases "last_index f i t")
      case None
      then show ?thesis using last_index_None [OF None, of i] True by simp
    next
      case (Some n)
      then show ?thesis using last_index_Some [OF Some] True by (metis le_neq_implies_less order_refl)
    qed
    then have loop: "replace_longer what r (length r) (int (Suc i) - 1) (obj t slack) =
        Option.bind (grow_at r (length r) (length f) i (obj t slack))
          (replace_longer what r (length r) (int i - 1))"
      using li [of i] by (subst replace_longer.simps) (simp add: found_at_def wl)
    define a where "a = take i t"
    define c where "c = drop (i + length f) t"
    have t: "t = a @ f @ c" and la: "length a = i"
      using True starts_at_length [OF True assms(3)]
      by (simp_all add: a_def c_def starts_at_def) (metis add.commute append_take_drop_id drop_drop)
    have grow: "grow_from f r (Suc i) t = grow_from f r i (a @ r @ c)"
      using True by (simp add: a_def c_def)
    show ?thesis
    proof (cases "length r - length f \<le> length slack")
      case full: True
      from grow_at_text [OF assms(4) full, of a c] obtain slack1 where g:
        "grow_at r (length r) (length f) i (obj t slack) = Some (obj (a @ r @ c) slack1)"
        "length (a @ r @ c) + length slack1 = length t + length slack"
        using la by (auto simp: t)
      have "obj_ok (a @ r @ c) slack1"
        using Suc.prems(1) g(2) assms(5) by (auto simp: obj_ok_def t)
      from Suc.IH [OF this] la show ?thesis unfolding grow loop g(1) g(2) Option.bind.simps by simp
    next
      case False
      then have "grow_at r (length r) (length f) i (obj t slack) = None"
        using grow_at_full [OF assms(4), of slack a c] la by (simp add: t)
      moreover have "length t + length slack < length (grow_from f r i (a @ r @ c))"
        using grow_from_length [of f r "a @ r @ c" i] assms(3,4) False by (simp add: t)
      ultimately show ?thesis unfolding grow loop by simp
    qed
  next
    case False
    have "replace_longer what r (length r) (int (Suc i) - 1) (obj t slack) =
        replace_longer what r (length r) (int i - 1) (obj t slack)"
    proof (cases i)
      case 0
      then have "last_index f i t = None" using False by (simp add: last_index_def)
      then show ?thesis using li [of i] 0 by (subst (1 2) replace_longer.simps) (simp add: found_at_def)
    next
      case (Suc k)
      then have "last_index f i t = last_index f k t" using False by (simp add: last_index_def)
      moreover have "nat (1 + int k) = Suc k" by simp
      ultimately show ?thesis using li [of i] li [of k] Suc
        by (subst (1 2) replace_longer.simps) (simp del: nat_1_add_1)
    qed
    then show ?thesis using Suc.IH [OF Suc.prems(1)] Suc.prems(2) False by simp
  qed
qed

lemma replace_all_longer:
  assumes "length f < length r" and "f \<noteq> []"
  shows "length t \<le> length (replace_all f r t)"
proof (induction t rule: measure_induct_rule [where f = length])
  case (less t)
  show ?case
  proof (cases "find_sub f t")
    case (Some k)
    then obtain g tl where "t = g @ f @ tl" "replace_all f r t = g @ r @ replace_all f r tl"
      using assms(2) by (rule_tac find_sub_parts [where r = r]) auto
    then show ?thesis using less [of tl] assms by simp
  qed (simp add: replace_all_absent)
qed

lemma replace_all_same_length:
  assumes "length r = length f"
  shows "length (replace_all f r t) = length t"
proof (induction t rule: measure_induct_rule [where f = length])
  case (less t)
  show ?case
  proof (cases "f = [] \<or> find_sub f t = None")
    case True
    then show ?thesis by (subst replace_all.simps) (auto split: option.split)
  next
    case False
    then obtain k where k: "find_sub f t = Some k" by auto
    then obtain g tl where "t = g @ f @ tl" "replace_all f r t = g @ r @ replace_all f r tl"
      using False by (rule_tac find_sub_parts [where r = r]) auto
    then show ?thesis using less [of tl] False assms by (cases f) auto
  qed
qed

lemma replace_all_size_eq:
  assumes "length f < length r" and "f \<noteq> []" and "length (replace_all f r t) = length t"
  shows "replace_all f r t = t"
proof (cases "find_sub f t")
  case (Some k)
  then obtain g tl where "t = g @ f @ tl" "replace_all f r t = g @ r @ replace_all f r tl"
    using assms(2) by (rule_tac find_sub_parts [where r = r]) auto
  then show ?thesis using replace_all_longer [OF assms(1,2), of tl] assms(1,3) by simp
qed (simp add: replace_all_absent)

lemma replace_all_chars: "set (replace_all f r t) \<subseteq> set r \<union> set t"
proof (induction t rule: measure_induct_rule [where f = length])
  case (less t)
  show ?case
  proof (cases "f = [] \<or> find_sub f t = None")
    case True
    then show ?thesis by (subst replace_all.simps) (auto split: option.split)
  next
    case False
    then obtain k where k: "find_sub f t = Some k" by auto
    then obtain g tl where "t = g @ f @ tl" "replace_all f r t = g @ r @ replace_all f r tl"
      using False by (rule_tac find_sub_parts [where r = r]) auto
    then show ?thesis using less [of tl] False by auto
  qed
qed

text \<open>\<open>replace\<close> on objects, by the length of the replacement.\<close>

lemma grown_absent:
  assumes "length f < length r" "f \<noteq> []" "replace_all f r t = t"
  shows "grown f r t = t"
proof (cases "find_sub f t")
  case None
  then have "\<not> starts_at f (drop i t)" for i using find_sub_None by blast
  then have "grow_from f r i t = t" for i by (induction i) simp_all
  then show ?thesis by (simp add: grown_def)
next
  case (Some k)
  then obtain g tl where "t = g @ f @ tl" "replace_all f r t = g @ r @ replace_all f r tl"
    using assms(2) by (rule_tac find_sub_parts [where r = r]) auto
  then show ?thesis using replace_all_longer [OF assms(1,2), of tl] assms(1,3)
    by (metis add_less_le_mono length_append less_irrefl nat_add_left_cancel_less)
qed

lemma replace_exact:
  assumes "string_ok s" and "string_ok what" and "string_ok rep"
    and "length (replace_all (text_of what) (text_of rep) (text_of s)) + 1 < 4294967296"
  shows "if len what < len rep \<and> capacity s < length (replace_all (text_of what) (text_of rep) (text_of s)) \<and>
       realloc h (buffer s) (length (replace_all (text_of what) (text_of rep) (text_of s)) + 1) = None
    then replace h what rep s = Some s
    else case text_replace (text_of what) (text_of rep) (text_of s, capacity s) of
        None \<Rightarrow> replace h what rep s = None
      | Some (t', room) \<Rightarrow> \<exists>s'. replace h what rep s = Some s' \<and> string_ok s' \<and> text_of s' = t' \<and> capacity s' = room"
proof (cases "text_of what = [] \<or> text_of s = []")
  case True
  then have "len s = 0 \<or> len what = 0" "replace_all (text_of what) (text_of rep) (text_of s) = text_of s"
    using string_ok_length [OF assms(1)] string_ok_length [OF assms(2)]
    by (auto simp: replace_all.simps [of "[]"] replace_all.simps [of _ _ "[]"])
  moreover have "grown (text_of what) (text_of rep) (text_of s) = text_of s" using True by (auto simp: grown_def)
  moreover have "length (text_of s) \<le> capacity s" using assms(1) by (auto elim!: string_ok_cases)
  ultimately show ?thesis using assms(1) by (simp add: replace_def text_replace_def max_absorb1)
next
  case False
  define f where "f = text_of what"
  define r where "r = text_of rep"
  obtain t slack where s: "s = obj t slack" "obj_ok t slack" "t \<noteq> []"
    using assms(1) False by (auto elim!: string_ok_cases)
  obtain q where w: "what = obj f q" "obj_ok f q" "f \<noteq> []"
    using assms(2) False by (auto elim!: string_ok_cases simp: f_def)
  have r: "NUL \<notin> set r" "len rep = length r"
    using text_no_NUL [OF assms(3)] string_ok_length [OF assms(3)] by (simp_all add: r_def)
  have rb: "(case buffer rep of None \<Rightarrow> [] | Some rb \<Rightarrow> c_str rb 0) = r"
  proof (cases "buffer rep")
    case None
    then have "rep = string_init" by (rule no_buffer [OF assms(3)])
    then show ?thesis by (simp add: r_def)
  next
    case (Some rb)
    then show ?thesis using object_text [OF assms(3) Some] by (simp add: r_def)
  qed
  have nul: "NUL \<notin> set t" "NUL \<notin> set f" "NUL \<notin> set (replace_all f r t)"
    using s w r(1) replace_all_chars [of f r t] by (auto simp: obj_ok_def)
  have ft: "text_of what = f" "text_of s = t" "len what = length f"
    using string_ok_length [OF assms(2)] s(1) by (simp_all add: f_def)
  note unfold = s(1) w(1) replace_def Let_def rb r(2) obj_sel
  consider "length r = length f" | "length r < length f" | "length f < length r" by linarith
  then show ?thesis
  proof cases
    case 1
    have "replace_same f r (length r) (t @ NUL # slack) 0 = Some (replace_all f r t @ NUL # slack)"
      using replace_same_text [of r f t "[]" slack] 1 w(3) r(1) nul by simp
    moreover have same: "length (replace_all f r t) = length t"
      using replace_all_same_length [OF 1] .
    ultimately have "replace h what rep s = Some (obj (replace_all f r t) slack)"
      unfolding unfold using 1 s(3) w(3) nul by (simp add: obj_def)
    moreover have "obj_ok (replace_all f r t) slack"
      using s(2) nul same by (simp add: obj_ok_def)
    ultimately show ?thesis
      unfolding ft r_def [symmetric] using 1 same r(2) s(1) by (simp add: text_replace_def)
  next
    case 2
    obtain slack' where p:
      "replace_shorter f r (length f) (length r) (t @ NUL # slack) 0 0 (length t) =
         Some (replace_all f r t @ NUL # slack', length (replace_all f r t))"
      "length (replace_all f r t) + length slack' = length t + length slack"
      using replace_shorter_text [OF 2 nul(1), of "[]" "[]" slack] by auto
    have "replace h what rep s =
        Some ((obj t slack)\<lparr>buffer := Some (replace_all f r t @ NUL # slack'), len := length (replace_all f r t)\<rparr>)"
      unfolding unfold using 2 s(3) w(3) nul p(1) by simp
    then have "replace h what rep s = Some (obj (replace_all f r t) slack')"
      using obj_update [OF p(2)] by simp
    moreover have "obj_ok (replace_all f r t) slack'"
      using s(2) nul p(2) by (simp add: obj_ok_def)
    ultimately show ?thesis
      unfolding ft r_def [symmetric] using 2 p(2) r(2) s(1) by (simp add: text_replace_def)
  next
    case 3
    define n where "n = length (replace_all f r t)"
    have n: "length t \<le> n" "n + 1 < 4294967296"
      using replace_all_longer [OF 3 w(3), of t] assms(4) ft by (simp_all add: n_def r_def)
    have size: "grown_size f (length f) (length r - length f) (t @ NUL # slack) 0 (length t) = Some n"
      using grown_size_text [OF 3 w(3) nul(1), of "[]" slack "length t"] n(1) by (simp add: n_def)
    have eq: "u32n (n + 1) = n + 1" using n(2) by (simp add: u32n_def)
    have g: "grown f r t = grow_from f r (length t) t" using w(3) by (simp add: grown_def)
    have loop: "if length (grown f r t) \<le> length t + length slack'
        then \<exists>s'. replace_longer what r (length r) (int (length t) - 1) (obj t slack') = Some s' \<and>
          string_ok s' \<and> text_of s' = grown f r t \<and> capacity s' = length t + length slack'
        else replace_longer what r (length r) (int (length t) - 1) (obj t slack') = None"
      if ok: "obj_ok t slack'" for slack'
      using replace_longer_grow [OF assms(2) ft(1) w(3) 3 r(1) ok order_refl] ok
      unfolding g by (auto simp: obj_ok_def split: if_splits)
    show ?thesis
    proof (cases "n \<le> length t + length slack")
      case True
      have "replace h what rep s =
          (if n = length t then Some s else replace_longer what r (length r) (int (length t) - 1) s)"
        unfolding unfold using 3 s(3) w(3) nul size True by simp
      moreover have "replace_all f r t = t" if "n = length t"
        using replace_all_size_eq [OF 3 w(3)] that by (simp add: n_def)
      moreover from this have "grown f r t = t" if "n = length t"
        using that grown_absent [OF 3 w(3)] by simp
      ultimately show ?thesis
        using loop [OF s(2)] True 3 s(1) r(2) assms(1)
        unfolding ft r_def [symmetric] by (auto simp: text_replace_def n_def max_absorb1 Let_def)
    next
      case short: False
      then have ne: "n \<noteq> length t" by simp
      show ?thesis
      proof (cases "realloc h (Some (t @ NUL # slack)) (n + 1)")
        case None
        then have "replace h what rep s = Some s"
          unfolding unfold using 3 s(3) w(3) nul size short ne eq
          by (simp add: changeBuffer_def)
        with None short 3 r(2) s(1) ft show ?thesis unfolding r_def [symmetric] by (simp add: n_def)
      next
        case (Some b)
        then obtain slack' where b: "b = t @ NUL # slack'" "length t + length slack' = n"
          using realloc_obj [OF Some] short by auto
        have cb: "changeBuffer h n (obj t slack) = (True, obj t slack')"
          using Some eq b by (simp add: changeBuffer_def obj_def)
        have ok: "obj_ok t slack'" using nul b(2) n(2) by (simp add: obj_ok_def)
        have "replace h what rep s = replace_longer what r (length r) (int (length t) - 1) (obj t slack')"
          unfolding unfold using 3 s(3) w nul size short ne cb by simp
        then show ?thesis
          using loop [OF ok] b(2) short 3 s(1) r(2) Some
          unfolding ft r_def [symmetric] by (auto simp: text_replace_def n_def max_absorb2 Let_def)
      qed
    qed
  qed
qed

lemma text_replace_no_overlap:
  assumes "string_ok s" "string_ok what" "string_ok rep"
    and "len rep \<le> len what \<or> no_overlap (text_of what) (text_of s)"
  shows "\<exists>room. text_replace (text_of what) (text_of rep) (text_of s, capacity s) =
    Some (replace_all (text_of what) (text_of rep) (text_of s), room)"
proof (cases "len rep \<le> len what \<or> text_of what = []")
  case True
  moreover have "length (text_of s) \<le> capacity s" using assms(1) by (auto elim!: string_ok_cases)
  ultimately show ?thesis
    using string_ok_length [OF assms(2)] string_ok_length [OF assms(3)]
    by (auto simp: text_replace_def grown_def replace_all.simps [of "[]"] Let_def)
next
  case False
  then have "grown (text_of what) (text_of rep) (text_of s) =
      replace_all (text_of what) (text_of rep) (text_of s)"
    using assms(4) by (intro grown_stable no_overlap_stable) simp_all
  then show ?thesis
    using string_ok_length [OF assms(2)] string_ok_length [OF assms(3)] False
    by (simp add: text_replace_def Let_def)
qed

section \<open>Properties\<close>

text \<open>Concatenation implements list append. For well-formed objects whose joint text is
  within 32 bits, \<open>concat\<close> always answers, keeps the object well formed, and leaves either
  the appended text, or, when it reports failure, the old one.\<close>

theorem concat_appends:
  assumes "string_ok s" and "string_ok t" and "len s + len t + 1 < 4294967296"
  shows "\<exists>ok s'. concat_string h t s = Some (ok, s') \<and> string_ok s' \<and>
    text_of s' = (if ok then text_of s @ text_of t else text_of s)"
  using assms by (rule concat_string_ok)

lemma small_objects: "string_ok (obj ''ab'' [])" "string_ok (obj ''a'' [])" "string_ok (obj ''xyz'' [])"
  "string_ok (obj ''xaya'' [])" "string_ok (obj ''c'' ''d'')"
  by (simp_all add: obj_ok_def NUL_def)

theorem concat_appends_witness:
  "\<exists>ok s'. concat_string (\<lambda>n. Some (\<lambda>i. NUL)) (obj ''c'' ''d'') (obj ''ab'' []) = Some (ok, s') \<and>
     string_ok s' \<and> text_of s' = (if ok then ''ab'' @ ''c'' else ''ab'')"
  using concat_appends [OF small_objects(1) small_objects(5), of "\<lambda>n. Some (\<lambda>i. NUL)"]
  unfolding obj_sel by simp

text \<open>C39: \<open>replace\<close> implements left-to-right replacement of every occurrence. When the
  replacement is no longer than the pattern this holds for every text; when it is longer, for
  every text in which no occurrence of the pattern is directly preceded by a proper prefix of
  it. The one exception is a replacement that needs more room than the buffer has and that the
  allocator refuses to give: then, and only then, the object is left as it was.\<close>

theorem replace_refines:
  assumes "string_ok s" and "string_ok what" and "string_ok rep"
    and "n = length (replace_all (text_of what) (text_of rep) (text_of s))" and "n + 1 < 4294967296"
    and "len rep \<le> len what \<or> no_overlap (text_of what) (text_of s)"
  shows "if len what < len rep \<and> capacity s < n \<and> realloc h (buffer s) (n + 1) = None
    then replace h what rep s = Some s
    else \<exists>s'. replace h what rep s = Some s' \<and> string_ok s' \<and>
      text_of s' = replace_all (text_of what) (text_of rep) (text_of s)"
  using replace_exact [OF assms(1-3), of h] text_replace_no_overlap [of s what rep] assms
  by (auto split: if_splits)

lemma sample_replace: "replace_all ''a'' ''xyz'' ''xaya'' = ''xxyzyxyz''"
  by (simp add: replace_all.simps starts_at_def)

theorem replace_refines_witness:
  "\<exists>s'. replace (\<lambda>n. Some (\<lambda>i. NUL)) (obj ''a'' []) (obj ''xyz'' []) (obj ''xaya'' []) = Some s' \<and>
     string_ok s' \<and> text_of s' = ''xxyzyxyz''"
proof -
  have "no_overlap ''a'' ''xaya''" by (simp add: no_overlap_def)
  then show ?thesis
    using replace_refines [OF small_objects(4,2,3) refl, of "\<lambda>n. Some (\<lambda>i. NUL)"]
    by (simp add: sample_replace realloc_def)
qed

text \<open>C18: A growing \<open>replace\<close> for any text. Room is made for the occurrences counted from the left; the replacements
  are made from the right, at every occurrence that is there when its position comes (\<open>grown\<close>), also one that
  overlaps another or that a replacement has just completed. When the result fits into the room, that is what the
  object holds in the end; when it does not, and exactly then, \<open>replace\<close> writes past the end of its block.\<close>

theorem replace_overruns:
  assumes "string_ok s" "string_ok what" "string_ok rep" "len what < len rep"
    and "n = length (replace_all (text_of what) (text_of rep) (text_of s))" "n + 1 < 4294967296" "h (n + 1) \<noteq> None"
  shows "case replace h what rep s of
      None \<Rightarrow> max (capacity s) n < length (grown (text_of what) (text_of rep) (text_of s))
    | Some s' \<Rightarrow> string_ok s' \<and> text_of s' = grown (text_of what) (text_of rep) (text_of s) \<and>
        capacity s' = max (capacity s) n \<and> length (text_of s') \<le> max (capacity s) n"
proof -
  have "realloc h (buffer s) (n + 1) \<noteq> None" using assms(7) by (simp add: realloc_def Let_def)
  moreover have "length (text_of what) < length (text_of rep)"
    using assms(2-4) by (simp add: string_ok_length)
  ultimately show ?thesis
    using replace_exact [OF assms(1-3), of h] assms(4-6)
    by (auto simp: text_replace_def Let_def split: if_splits)
qed

text \<open>One \<open>aa\<close> is counted in \<open>aaa\<close>, and two are replaced.\<close>

theorem replace_overruns_witness:
  "replace (\<lambda>n. Some (\<lambda>i. NUL)) (obj ''aa'' []) (obj ''aab'' []) (obj ''aaa'' []) = None"
proof -
  have all: "replace_all ''aa'' ''aab'' ''aaa'' = ''aaba''"
    by (simp add: replace_all.simps starts_at_def)
  have g: "grown ''aa'' ''aab'' ''aaa'' = ''aabab''" by code_simp
  have ok: "string_ok (obj ''aaa'' [])" "string_ok (obj ''aa'' [])" "string_ok (obj ''aab'' [])"
    by (simp_all add: obj_ok_def NUL_def)
  from replace_overruns [OF ok, of 4 "\<lambda>n. Some (\<lambda>i. NUL)"] show ?thesis
    by (auto simp: all g split: option.splits)
qed

end
