(* ===== verification/EspServer.thy ===== *)
theory EspServer
  imports StringOps SimpleWebServer LibB64
begin

text \<open>
  The web server class of the firmware, \<^verbatim>\<open>esp8266_sim/ESP8266WebServer.cpp\<close> with
  \<^verbatim>\<open>ESP8266WebServer.h\<close> and \<^verbatim>\<open>detail/RequestHandlersImpl.h\<close>: the chain of request handlers,
  the dispatch of a request, the arguments and headers of the current request, the response.
  It answers the requests of the desktop server (\<^verbatim>\<open>SimpleWebServer\<close>), whose request object is
  the current request. A callback (\<open>std::function\<close> or method pointer) is a name \<open>'h\<close>; what it
  does is the argument \<open>run_fn\<close> of the definitions, on the server and the application's own
  state. The file system below a static handler is the argument \<open>file_text\<close>. \<open>None\<close> is an
  \<open>assert\<close> that fails or a null request.
\<close>

section \<open>Types\<close>

datatype HTTPMethod = HTTP_ANY | HTTP_GET | HTTP_POST | HTTP_PUT | HTTP_PATCH | HTTP_DELETE
  | HTTP_OPTIONS

datatype HTTPUploadStatus = UPLOAD_FILE_START | UPLOAD_FILE_WRITE | UPLOAD_FILE_END
  | UPLOAD_FILE_ABORTED

definition HTTP_DOWNLOAD_UNIT_SIZE :: nat where "HTTP_DOWNLOAD_UNIT_SIZE = 1460"
definition HTTP_UPLOAD_BUFLEN :: nat where "HTTP_UPLOAD_BUFLEN = 2048"

text \<open>\<open>size_t\<close> has 32 bits: \<open>(size_t) -1\<close> and \<open>(size_t) -2\<close>.\<close>

definition CONTENT_LENGTH_UNKNOWN :: nat where "CONTENT_LENGTH_UNKNOWN = 4294967295"
definition CONTENT_LENGTH_NOT_SET :: nat where "CONTENT_LENGTH_NOT_SET = 4294967294"

text \<open>\<open>up_buf\<close> holds the first \<open>currentSize\<close> bytes of the buffer.\<close>

record HTTPUpload =
  up_status :: HTTPUploadStatus
  up_filename :: string
  up_name :: string
  up_type :: string
  up_totalSize :: nat
  up_buf :: "u8 list"

record RequestArgument =
  arg_key :: string
  arg_value :: string

text \<open>The handler classes; \<open>MethodRequestHandler\<close> is the one of \<^verbatim>\<open>shared/OOWebServer.h\<close>.\<close>

datatype 'h RequestHandler =
    FunctionRequestHandler (fn: 'h) (ufn: "'h option") (handler_uri: string) (handler_method: HTTPMethod)
  | MethodRequestHandler (fn: 'h) (ufn: "'h option") (handler_uri: string) (handler_method: HTTPMethod)
  | StaticRequestHandler (handler_uri: string) (handler_path: string) (cache_header: string)
      (is_file: bool)

text \<open>The linked list of handlers is a list; the arrays of arguments and headers are lists, their
  counts the lengths.\<close>

record 'h WebServer =
  sv_port :: nat
  sv_started :: bool
  sv_request :: "http_request option"
  sv_method :: HTTPMethod
  sv_uri :: string
  sv_handler :: "'h RequestHandler option"
  sv_handlers :: "'h RequestHandler list"
  sv_notFound :: "'h option"
  sv_fileUpload :: "'h option"
  sv_args :: "RequestArgument list"
  sv_upload :: HTTPUpload
  sv_headers :: "RequestArgument list"
  sv_contentLength :: nat
  sv_responseHeaders :: string
  sv_hostHeader :: string

definition no_upload :: HTTPUpload where
  "no_upload = \<lparr>up_status = UPLOAD_FILE_START, up_filename = [], up_name = [], up_type = [],
     up_totalSize = 0, up_buf = []\<rparr>"

text \<open>The constructor; \<open>_notFoundHandler\<close>, \<open>_fileUploadHandler\<close> and the strings are empty.\<close>

definition new_WebServer :: "nat \<Rightarrow> 'h WebServer" where
  "new_WebServer port = \<lparr>sv_port = port, sv_started = False, sv_request = None, sv_method = HTTP_ANY,
     sv_uri = [], sv_handler = None, sv_handlers = [], sv_notFound = None, sv_fileUpload = None,
     sv_args = [], sv_upload = no_upload, sv_headers = [], sv_contentLength = 0,
     sv_responseHeaders = [], sv_hostHeader = []\<rparr>"

section \<open>The response\<close>

definition responseCodeToString :: "int \<Rightarrow> string" where
  "responseCodeToString code =
     (if code = 100 then ''Continue'' else if code = 101 then ''Switching Protocols''
      else if code = 200 then ''OK'' else if code = 201 then ''Created''
      else if code = 202 then ''Accepted'' else if code = 203 then ''Non-Authoritative Information''
      else if code = 204 then ''No Content'' else if code = 205 then ''Reset Content''
      else if code = 206 then ''Partial Content'' else if code = 300 then ''Multiple Choices''
      else if code = 301 then ''Moved Permanently'' else if code = 302 then ''Found''
      else if code = 303 then ''See Other'' else if code = 304 then ''Not Modified''
      else if code = 305 then ''Use Proxy'' else if code = 307 then ''Temporary Redirect''
      else if code = 400 then ''Bad Request'' else if code = 401 then ''Unauthorized''
      else if code = 402 then ''Payment Required'' else if code = 403 then ''Forbidden''
      else if code = 404 then ''Not Found'' else if code = 405 then ''Method Not Allowed''
      else if code = 406 then ''Not Acceptable'' else if code = 407 then ''Proxy Authentication Required''
      else if code = 408 then ''Request Time-out'' else if code = 409 then ''Conflict''
      else if code = 410 then ''Gone'' else if code = 411 then ''Length Required''
      else if code = 412 then ''Precondition Failed'' else if code = 413 then ''Request Entity Too Large''
      else if code = 414 then ''Request-URI Too Large'' else if code = 415 then ''Unsupported Media Type''
      else if code = 416 then ''Requested range not satisfiable''
      else if code = 417 then ''Expectation Failed'' else if code = 500 then ''Internal Server Error''
      else if code = 501 then ''Not Implemented'' else if code = 502 then ''Bad Gateway''
      else if code = 503 then ''Service Unavailable'' else if code = 504 then ''Gateway Time-out''
      else if code = 505 then ''HTTP Version not supported'' else [])"

definition crlf :: string where "crlf = [CHR 0x0D, CHR 0x0A]"

definition sendHeader :: "string \<Rightarrow> string \<Rightarrow> bool \<Rightarrow> 'h WebServer \<Rightarrow> 'h WebServer" where
  "sendHeader name val first sv =
     (let headerLine = name @ '': '' @ val @ crlf
      in if first then sv\<lparr>sv_responseHeaders := headerLine @ sv_responseHeaders sv\<rparr>
         else sv\<lparr>sv_responseHeaders := sv_responseHeaders sv @ headerLine\<rparr>)"

text \<open>\<open>_prepareHeader\<close> gives the header text; \<open>content_type\<close> may be null.\<close>

definition prepareHeader :: "int \<Rightarrow> string option \<Rightarrow> nat \<Rightarrow> 'h WebServer \<Rightarrow> string \<times> 'h WebServer" where
  "prepareHeader code content_type contentLength sv =
     (let response = ''HTTP/1.1 '' @ dec_of_int code @ '' '' @ responseCodeToString code @ crlf;
          content_type = (case content_type of None \<Rightarrow> ''text/html'' | Some t \<Rightarrow> t);
          sv = sendHeader ''Content-Type'' content_type True sv;
          sv = (if sv_contentLength sv = CONTENT_LENGTH_NOT_SET
                then sendHeader ''Content-Length'' (dec_of_nat contentLength) False sv
                else if sv_contentLength sv \<noteq> CONTENT_LENGTH_UNKNOWN
                then sendHeader ''Content-Length'' (dec_of_nat (sv_contentLength sv)) False sv
                else sv);
          sv = sendHeader ''Connection'' ''close'' False sv;
          sv = sendHeader ''Access-Control-Allow-Origin'' ''*'' False sv
      in (response @ sv_responseHeaders sv @ crlf, sv\<lparr>sv_responseHeaders := []\<rparr>))"

definition sendContent :: "string \<Rightarrow> 'h WebServer \<Rightarrow> 'h WebServer option" where
  "sendContent content sv =
     map_option (\<lambda>r. sv\<lparr>sv_request := Some (r\<lparr>req_answer := c_text content\<rparr>)\<rparr>) (sv_request sv)"

text \<open>\<open>send(code, content_type, content)\<close>: the content type is not used.\<close>

definition send :: "int \<Rightarrow> string option \<Rightarrow> string \<Rightarrow> 'h WebServer \<Rightarrow> 'h WebServer option" where
  "send code content_type content sv =
     (case sv_request sv of
        None \<Rightarrow> None
      | Some r \<Rightarrow>
          (let r = r\<lparr>req_status := dec_of_int code @ '' '' @ responseCodeToString code\<rparr>;
               r = r\<lparr>req_responseHeaders := c_text (sv_responseHeaders sv)\<rparr>
           in sendContent content (sv\<lparr>sv_request := Some r, sv_responseHeaders := []\<rparr>)))"

text \<open>\<open>sendContent_P\<close>: the text goes out in units of 1460 bytes, each one into \<open>answer_\<close>. Without a
  \<open>NUL\<close> in the text, \<open>memccpy\<close> finds the terminator in the last unit.\<close>

function sendContent_P :: "string \<Rightarrow> 'h WebServer \<Rightarrow> 'h WebServer option" where
  "sendContent_P content sv =
     (let unit = take HTTP_DOWNLOAD_UNIT_SIZE content
      in case sv_request sv of
           None \<Rightarrow> None
         | Some r \<Rightarrow>
             (let sv = sv\<lparr>sv_request := Some (r\<lparr>req_answer := unit\<rparr>)\<rparr>
              in if length content < HTTP_DOWNLOAD_UNIT_SIZE then Some sv
                 else sendContent_P (drop HTTP_DOWNLOAD_UNIT_SIZE content) sv))"
  by pat_completeness auto
termination
  by (relation "measure (\<lambda>(content, sv). length content)") (auto simp: HTTP_DOWNLOAD_UNIT_SIZE_def)

declare sendContent_P.simps [simp del]

text \<open>The same with an explicit size; \<open>content\<close> has at least that many bytes.\<close>

function sendContent_P_size :: "string \<Rightarrow> nat \<Rightarrow> 'h WebServer \<Rightarrow> 'h WebServer option" where
  "sendContent_P_size content remaining sv =
     (if 0 < remaining
      then (let n = (if remaining < HTTP_DOWNLOAD_UNIT_SIZE then remaining else HTTP_DOWNLOAD_UNIT_SIZE)
            in if length content < n then None
               else case sv_request sv of
                      None \<Rightarrow> None
                    | Some r \<Rightarrow>
                        sendContent_P_size (drop n content) (remaining - n)
                          (sv\<lparr>sv_request := Some (r\<lparr>req_answer := take n content\<rparr>)\<rparr>))
      else Some sv)"
  by pat_completeness auto
termination
  by (relation "measure (\<lambda>(content, remaining, sv). remaining)") (auto simp: HTTP_DOWNLOAD_UNIT_SIZE_def)

declare sendContent_P_size.simps [simp del]

text \<open>The content type is copied to a buffer of 64 characters, \<open>NUL\<close> included; a longer one
  leaves it without a terminator.\<close>

definition send_P :: "int \<Rightarrow> string \<Rightarrow> string option \<Rightarrow> 'h WebServer \<Rightarrow> 'h WebServer option" where
  "send_P code content_type content sv =
     (if length content_type \<ge> 64 then None
      else (let contentLength = (case content of None \<Rightarrow> 0 | Some c \<Rightarrow> length c);
                (header, sv) = prepareHeader code (Some content_type) contentLength sv
            in do { sv \<leftarrow> sendContent header sv;
                    case content of None \<Rightarrow> Some sv | Some c \<Rightarrow> sendContent_P c sv }))"

definition send_P_size ::
    "int \<Rightarrow> string \<Rightarrow> string \<Rightarrow> nat \<Rightarrow> 'h WebServer \<Rightarrow> 'h WebServer option" where
  "send_P_size code content_type content contentLength sv =
     (if length content_type \<ge> 64 then None
      else (let (header, sv) = prepareHeader code (Some content_type) contentLength sv
            in do { sv \<leftarrow> sendContent header sv; sendContent_P_size content contentLength sv }))"

definition setContentLength :: "nat \<Rightarrow> 'h WebServer \<Rightarrow> 'h WebServer" where
  "setContentLength n sv = sv\<lparr>sv_contentLength := n\<rparr>"

definition streamFile :: "string \<Rightarrow> nat \<Rightarrow> string \<Rightarrow> 'h WebServer \<Rightarrow> 'h WebServer option" where
  "streamFile file_name file_size contentType sv =
     (let sv = setContentLength file_size sv;
          sv = (if ends_with ''.gz'' file_name \<and> contentType \<noteq> ''application/x-gzip'' \<and>
                   contentType \<noteq> ''application/octet-stream''
                then sendHeader ''Content-Encoding'' ''gzip'' False sv else sv)
      in do { sv \<leftarrow> send 200 (Some contentType) [] sv;
              map_option (\<lambda>r. sv\<lparr>sv_request := Some (r\<lparr>req_answer := ''Sorry file download is not yet supported.''\<rparr>)\<rparr>)
                (sv_request sv) })"

definition requestAuthentication :: "'h WebServer \<Rightarrow> 'h WebServer option" where
  "requestAuthentication sv =
     send 401 None [] (sendHeader ''WWW-Authenticate''
       (''Basic realm='' @ [CHR 0x22] @ ''Login Required'' @ [CHR 0x22]) False sv)"

section \<open>Arguments and headers\<close>

definition find_argument :: "string \<Rightarrow> RequestArgument list \<Rightarrow> RequestArgument option" where
  "find_argument name as = find (\<lambda>a. arg_key a = name) as"

definition arg :: "string \<Rightarrow> 'h WebServer \<Rightarrow> string" where
  "arg name sv = (case find_argument name (sv_args sv) of None \<Rightarrow> [] | Some a \<Rightarrow> arg_value a)"

text \<open>The index is an \<open>int\<close>: a negative one reads before the array.\<close>

definition arg_at :: "int \<Rightarrow> 'h WebServer \<Rightarrow> string option" where
  "arg_at i sv =
     (if i < int (length (sv_args sv))
      then (if i < 0 then None else Some (arg_value (sv_args sv ! nat i))) else Some [])"

definition argName :: "int \<Rightarrow> 'h WebServer \<Rightarrow> string option" where
  "argName i sv =
     (if i < int (length (sv_args sv))
      then (if i < 0 then None else Some (arg_key (sv_args sv ! nat i))) else Some [])"

definition args :: "'h WebServer \<Rightarrow> nat" where
  "args sv = length (sv_args sv)"

definition hasArg :: "string \<Rightarrow> 'h WebServer \<Rightarrow> bool" where
  "hasArg name sv \<longleftrightarrow> find_argument name (sv_args sv) \<noteq> None"

definition header :: "string \<Rightarrow> 'h WebServer \<Rightarrow> string" where
  "header name sv = (case find_argument name (sv_headers sv) of None \<Rightarrow> [] | Some a \<Rightarrow> arg_value a)"

definition AUTHORIZATION_HEADER :: string where "AUTHORIZATION_HEADER = ''Authorization''"

definition collectHeaders :: "string list \<Rightarrow> 'h WebServer \<Rightarrow> 'h WebServer" where
  "collectHeaders headerKeys sv =
     sv\<lparr>sv_headers := map (\<lambda>k. \<lparr>arg_key = k, arg_value = []\<rparr>) (AUTHORIZATION_HEADER # headerKeys)\<rparr>"

definition header_at :: "int \<Rightarrow> 'h WebServer \<Rightarrow> string option" where
  "header_at i sv =
     (if i < int (length (sv_headers sv))
      then (if i < 0 then None else Some (arg_value (sv_headers sv ! nat i))) else Some [])"

definition headerName :: "int \<Rightarrow> 'h WebServer \<Rightarrow> string option" where
  "headerName i sv =
     (if i < int (length (sv_headers sv))
      then (if i < 0 then None else Some (arg_key (sv_headers sv ! nat i))) else Some [])"

definition headers :: "'h WebServer \<Rightarrow> nat" where
  "headers sv = length (sv_headers sv)"

definition hasHeader :: "string \<Rightarrow> 'h WebServer \<Rightarrow> bool" where
  "hasHeader name sv \<longleftrightarrow> (\<exists>a \<in> set (sv_headers sv). arg_key a = name \<and> arg_value a \<noteq> [])"

definition hostHeader :: "'h WebServer \<Rightarrow> string" where
  "hostHeader sv = sv_hostHeader sv"

text \<open>
  \<open>authenticate\<close>. The two lengths are added in a \<open>char\<close> and the credentials are printed into
  a buffer of that size: past 126 characters the size is wrong and the result is \<open>None\<close>. The
  encoder writes its text and a final newline into a buffer of \<open>base64_encode_expected_len\<close>
  plus one characters.
\<close>

definition authenticate :: "string \<Rightarrow> string \<Rightarrow> 'h WebServer \<Rightarrow> bool option" where
  "authenticate username password sv =
     (if hasHeader AUTHORIZATION_HEADER sv
      then (let authReq = header AUTHORIZATION_HEADER sv
            in if starts_with ''Basic'' authReq
               then (let authReq = trim_space (substr_from 6 authReq);
                         toencodeLen = length username + length password + 1
                     in if toencodeLen > 127 then None
                        else (let toencode = map (\<lambda>c. of_nat (char_code c)) (username @ '':'' @ password);
                                  encoded = base64_encode_chars toencode
                              in if length encoded > base64_encode_expected_len toencodeLen then None
                                 else Some (length encoded > 0 \<and> authReq = encoded)))
               else Some False)
      else Some False)"

section \<open>Handlers\<close>

definition method_uri_matches :: "HTTPMethod \<Rightarrow> string \<Rightarrow> HTTPMethod \<Rightarrow> string \<Rightarrow> bool" where
  "method_uri_matches meth uri requestMethod requestUri =
     (if meth \<noteq> HTTP_ANY \<and> meth \<noteq> requestMethod then False
      else if requestUri \<noteq> uri then False
      else True)"

definition FunctionRequestHandler_canHandle ::
    "HTTPMethod \<Rightarrow> string \<Rightarrow> HTTPMethod \<Rightarrow> string \<Rightarrow> bool" where
  "FunctionRequestHandler_canHandle meth uri requestMethod requestUri =
     method_uri_matches meth uri requestMethod requestUri"

definition MethodRequestHandler_canHandle ::
    "HTTPMethod \<Rightarrow> string \<Rightarrow> HTTPMethod \<Rightarrow> string \<Rightarrow> bool" where
  "MethodRequestHandler_canHandle meth uri requestMethod requestUri =
     method_uri_matches meth uri requestMethod requestUri"

definition StaticRequestHandler_canHandle ::
    "string \<Rightarrow> bool \<Rightarrow> HTTPMethod \<Rightarrow> string \<Rightarrow> bool" where
  "StaticRequestHandler_canHandle uri isFile requestMethod requestUri =
     (if requestMethod \<noteq> HTTP_GET then False
      else if (isFile \<and> requestUri \<noteq> uri) \<or> \<not> starts_with uri requestUri then False
      else True)"

fun canHandle :: "'h RequestHandler \<Rightarrow> HTTPMethod \<Rightarrow> string \<Rightarrow> bool" where
  "canHandle (FunctionRequestHandler f u uri meth) m r = FunctionRequestHandler_canHandle meth uri m r"
| "canHandle (MethodRequestHandler f u uri meth) m r = MethodRequestHandler_canHandle meth uri m r"
| "canHandle (StaticRequestHandler uri path cache isFile) m r =
     StaticRequestHandler_canHandle uri isFile m r"

fun canUpload :: "'h RequestHandler \<Rightarrow> string \<Rightarrow> bool" where
  "canUpload (FunctionRequestHandler f u uri meth) r =
     (if u = None \<or> \<not> FunctionRequestHandler_canHandle meth uri HTTP_POST r then False else True)"
| "canUpload (MethodRequestHandler f u uri meth) r =
     (if u = None \<or> \<not> MethodRequestHandler_canHandle meth uri HTTP_POST r then False else True)"
| "canUpload (StaticRequestHandler uri path cache isFile) r = False"

definition getContentType :: "string \<Rightarrow> string" where
  "getContentType path =
     (if ends_with ''.html'' path then ''text/html''
      else if ends_with ''.htm'' path then ''text/html''
      else if ends_with ''.css'' path then ''text/css''
      else if ends_with ''.txt'' path then ''text/plain''
      else if ends_with ''.js'' path then ''application/javascript''
      else if ends_with ''.png'' path then ''image/png''
      else if ends_with ''.gif'' path then ''image/gif''
      else if ends_with ''.jpg'' path then ''image/jpeg''
      else if ends_with ''.ico'' path then ''image/x-icon''
      else if ends_with ''.svg'' path then ''image/svg+xml''
      else if ends_with ''.ttf'' path then ''application/x-font-ttf''
      else if ends_with ''.otf'' path then ''application/x-font-opentype''
      else if ends_with ''.woff'' path then ''application/font-woff''
      else if ends_with ''.woff2'' path then ''application/font-woff2''
      else if ends_with ''.eot'' path then ''application/vnd.ms-fontobject''
      else if ends_with ''.sfnt'' path then ''application/font-sfnt''
      else if ends_with ''.xml'' path then ''text/xml''
      else if ends_with ''.pdf'' path then ''application/pdf''
      else if ends_with ''.zip'' path then ''application/zip''
      else if ends_with ''.gz'' path then ''application/x-gzip''
      else if ends_with ''.appcache'' path then ''text/cache-manifest''
      else ''application/octet-stream'')"

text \<open>What the callbacks and the file system do, on the server and the application state.\<close>

record ('h, 'a) environment =
  run_fn :: "'h \<Rightarrow> 'h WebServer \<times> 'a \<Rightarrow> ('h WebServer \<times> 'a) option"
  file_text :: "'a \<Rightarrow> string \<Rightarrow> string option"

definition new_StaticRequestHandler ::
    "(string \<Rightarrow> string option) \<Rightarrow> string \<Rightarrow> string \<Rightarrow> string option \<Rightarrow> 'h RequestHandler" where
  "new_StaticRequestHandler fs path uri cache =
     StaticRequestHandler uri path (case cache of None \<Rightarrow> [] | Some c \<Rightarrow> c) (fs path \<noteq> None)"

text \<open>\<open>StaticRequestHandler::handle\<close>: the path of the file for a request, and its answer.\<close>

definition static_path :: "(string \<Rightarrow> string option) \<Rightarrow> string \<Rightarrow> string \<Rightarrow> bool \<Rightarrow> string \<Rightarrow> string" where
  "static_path fs uri path isFile requestUri =
     (let path = (if \<not> isFile
                  then (let requestUri = (if ends_with ''/'' requestUri then requestUri @ ''index.htm''
                                          else requestUri)
                        in path @ substr_from (length uri) requestUri)
                  else path)
      in if \<not> ends_with ''.gz'' path \<and> fs path = None
         then (let pathWithGz = path @ ''.gz'' in if fs pathWithGz \<noteq> None then pathWithGz else path)
         else path)"

definition static_type :: "string \<Rightarrow> string \<Rightarrow> bool \<Rightarrow> string \<Rightarrow> string" where
  "static_type uri path isFile requestUri =
     getContentType
       (if \<not> isFile
        then path @ substr_from (length uri)
               (if ends_with ''/'' requestUri then requestUri @ ''index.htm'' else requestUri)
        else path)"

definition StaticRequestHandler_handle ::
    "(string \<Rightarrow> string option) \<Rightarrow> string \<Rightarrow> string \<Rightarrow> string \<Rightarrow> bool \<Rightarrow> HTTPMethod \<Rightarrow> string
     \<Rightarrow> 'h WebServer \<Rightarrow> (bool \<times> 'h WebServer) option" where
  "StaticRequestHandler_handle fs uri path cache isFile requestMethod requestUri sv =
     (if \<not> StaticRequestHandler_canHandle uri isFile requestMethod requestUri then Some (False, sv)
      else (let contentType = static_type uri path isFile requestUri;
                path = static_path fs uri path isFile requestUri
            in case fs path of
                 None \<Rightarrow> Some (False, sv)
               | Some f \<Rightarrow>
                   (let sv = (if length cache \<noteq> 0 then sendHeader ''Cache-Control'' cache False sv else sv)
                    in map_option (Pair True) (streamFile path (length f) contentType sv))))"

fun handle :: "('h, 'a) environment \<Rightarrow> 'h RequestHandler \<Rightarrow> HTTPMethod \<Rightarrow> string
    \<Rightarrow> 'h WebServer \<times> 'a \<Rightarrow> (bool \<times> 'h WebServer \<times> 'a) option" where
  "handle env (FunctionRequestHandler f u uri meth) m r st =
     (if \<not> FunctionRequestHandler_canHandle meth uri m r then Some (False, st)
      else map_option (Pair True) (run_fn env f st))"
| "handle env (MethodRequestHandler f u uri meth) m r st =
     (if \<not> MethodRequestHandler_canHandle meth uri m r then Some (False, st)
      else map_option (Pair True) (run_fn env f st))"
| "handle env (StaticRequestHandler uri path cache isFile) m r (sv, a) =
     map_option (\<lambda>(ok, sv). (ok, sv, a))
       (StaticRequestHandler_handle (file_text env a) uri path cache isFile m r sv)"

fun handler_upload :: "('h, 'a) environment \<Rightarrow> 'h RequestHandler \<Rightarrow> string
    \<Rightarrow> 'h WebServer \<times> 'a \<Rightarrow> ('h WebServer \<times> 'a) option" where
  "handler_upload env (FunctionRequestHandler f u uri meth) r st =
     (if canUpload (FunctionRequestHandler f u uri meth) r
      then (case u of Some g \<Rightarrow> run_fn env g st | None \<Rightarrow> Some st) else Some st)"
| "handler_upload env (MethodRequestHandler f u uri meth) r st =
     (if canUpload (MethodRequestHandler f u uri meth) r
      then (case u of Some g \<Rightarrow> run_fn env g st | None \<Rightarrow> Some st) else Some st)"
| "handler_upload env (StaticRequestHandler uri path cache isFile) r st = Some st"

section \<open>Registration and dispatch\<close>

definition addRequestHandler :: "'h RequestHandler \<Rightarrow> 'h WebServer \<Rightarrow> 'h WebServer" where
  "addRequestHandler h sv = sv\<lparr>sv_handlers := sv_handlers sv @ [h]\<rparr>"

definition addHandler :: "'h RequestHandler \<Rightarrow> 'h WebServer \<Rightarrow> 'h WebServer" where
  "addHandler h sv = addRequestHandler h sv"

definition on_upload :: "string \<Rightarrow> HTTPMethod \<Rightarrow> 'h \<Rightarrow> 'h option \<Rightarrow> 'h WebServer \<Rightarrow> 'h WebServer" where
  "on_upload uri meth f u sv = addRequestHandler (FunctionRequestHandler f u uri meth) sv"

definition on_method :: "string \<Rightarrow> HTTPMethod \<Rightarrow> 'h \<Rightarrow> 'h WebServer \<Rightarrow> 'h WebServer" where
  "on_method uri meth f sv = on_upload uri meth f (sv_fileUpload sv) sv"

definition on_any :: "string \<Rightarrow> 'h \<Rightarrow> 'h WebServer \<Rightarrow> 'h WebServer" where
  "on_any uri f sv = on_method uri HTTP_ANY f sv"

definition serveStatic ::
    "(string \<Rightarrow> string option) \<Rightarrow> string \<Rightarrow> string \<Rightarrow> string option \<Rightarrow> 'h WebServer \<Rightarrow> 'h WebServer" where
  "serveStatic fs uri path cache sv =
     addRequestHandler (new_StaticRequestHandler fs path uri cache) sv"

definition onFileUpload :: "'h \<Rightarrow> 'h WebServer \<Rightarrow> 'h WebServer" where
  "onFileUpload f sv = sv\<lparr>sv_fileUpload := Some f\<rparr>"

definition onNotFound :: "'h \<Rightarrow> 'h WebServer \<Rightarrow> 'h WebServer" where
  "onNotFound f sv = sv\<lparr>sv_notFound := Some f\<rparr>"

definition server_begin :: "'h WebServer \<Rightarrow> 'h WebServer" where
  "server_begin sv =
     (let sv = sv\<lparr>sv_started := True\<rparr>
      in if sv_headers sv = [] then collectHeaders [] sv else sv)"

definition stricmp_eq :: "string \<Rightarrow> string \<Rightarrow> bool" where
  "stricmp_eq a b \<longleftrightarrow> map to_lower a = map to_lower b"

definition request_method :: "string \<Rightarrow> HTTPMethod option" where
  "request_method m =
     (if stricmp_eq m ''GET'' then Some HTTP_GET
      else if stricmp_eq m ''POST'' then Some HTTP_POST
      else if stricmp_eq m ''PUT'' then Some HTTP_PUT
      else if stricmp_eq m ''OPTIONS'' then Some HTTP_OPTIONS
      else None)"

definition error_page :: "string \<Rightarrow> string \<Rightarrow> string" where
  "error_page title path =
     (let body = ''<h1>'' @ title @ ''</h1>'' @ ''Path is : &gt;'' @ path @ ''&lt;''
      in ''<html><head><title>'' @ title @ ''</title></head><body>'' @ body @ ''</body></html>'')"

definition request_args :: "(string \<times> string) list \<Rightarrow> RequestArgument list" where
  "request_args params = map (\<lambda>(k, v). \<lparr>arg_key = c_text k, arg_value = c_text v\<rparr>) params"

text \<open>The first handler that can handle the request, and the handlers it was looked for in.\<close>

definition first_handler :: "'h WebServer \<Rightarrow> 'h RequestHandler option" where
  "first_handler sv = find (\<lambda>h. canHandle h (sv_method sv) (sv_uri sv)) (sv_handlers sv)"

definition answer_error :: "string \<Rightarrow> 'h WebServer \<Rightarrow> 'h WebServer" where
  "answer_error title sv =
     sv\<lparr>sv_request := map_option (\<lambda>r. r\<lparr>req_status := title, req_answer := error_page title (req_path r)\<rparr>)
                       (sv_request sv)\<rparr>"

text \<open>What \<open>handle_get\<close> sets before it looks for a handler: the arguments of the request, and no
  headers.\<close>

definition begin_request :: "http_request \<Rightarrow> HTTPMethod \<Rightarrow> 'h WebServer \<Rightarrow> 'h WebServer" where
  "begin_request r meth sv =
     sv\<lparr>sv_request := Some r, sv_method := meth, sv_uri := c_text (req_path r),
        sv_args := request_args (req_params r), sv_headers := []\<rparr>"

text \<open>\<open>handle_get\<close>: the request as it leaves the handler, and the server after it.\<close>

definition handle_get :: "('h, 'a) environment \<Rightarrow> http_request \<Rightarrow> 'h WebServer \<times> 'a
    \<Rightarrow> (http_request \<times> 'h WebServer \<times> 'a) option" where
  "handle_get env r = (\<lambda>(sv, a).
     do { meth \<leftarrow> request_method (req_method r);
          let sv = begin_request r meth sv;
              sv = sv\<lparr>sv_handler := first_handler sv\<rparr>
          in do { (sv, a) \<leftarrow>
                    (case sv_handler sv of
                       None \<Rightarrow> Some (answer_error ''404 Not Found'' sv, a)
                     | Some h \<Rightarrow>
                         do { (ok, sv, a) \<leftarrow> handle env h (sv_method sv) (sv_uri sv) (sv, a);
                              Some (if ok then sv else answer_error ''500 Internal Server Error'' sv, a) });
                  r \<leftarrow> sv_request sv;
                  Some (r, sv\<lparr>sv_request := None\<rparr>, a) } })"

text \<open>\<open>_handleRequest\<close>, the dispatch of the board's own connection handling.\<close>

definition handleRequest :: "('h, 'a) environment \<Rightarrow> 'h WebServer \<times> 'a \<Rightarrow> ('h WebServer \<times> 'a) option" where
  "handleRequest env = (\<lambda>(sv, a).
     do { (handled, sv, a) \<leftarrow>
            (case sv_handler sv of
               None \<Rightarrow> Some (False, sv, a)
             | Some h \<Rightarrow> handle env h (sv_method sv) (sv_uri sv) (sv, a));
          (sv, a) \<leftarrow>
            (if \<not> handled
             then (case sv_notFound sv of
                     Some f \<Rightarrow> run_fn env f (sv, a)
                   | None \<Rightarrow>
                       map_option (\<lambda>sv. (sv, a))
                         (send 404 (Some ''text/plain'') (''Not found: '' @ sv_uri sv) sv))
             else Some (sv, a));
          Some (sv\<lparr>sv_uri := []\<rparr>, a) })"

text \<open>One connection: the request is read, dispatched and answered. The source does this on a
  thread of its own; here it is done when the client is handled.\<close>

definition handleClient :: "('h, 'a) environment \<Rightarrow> string \<Rightarrow> connection \<Rightarrow> 'h WebServer \<times> 'a
    \<Rightarrow> (nat \<times> connection \<times> 'h WebServer \<times> 'a) option" where
  "handleClient env asctime s st = Request (handle_get env) asctime s st"

section \<open>Lemmas\<close>

lemma begin_request_sel [simp]:
  "sv_request (begin_request r m sv) = Some r" "sv_method (begin_request r m sv) = m"
  "sv_uri (begin_request r m sv) = c_text (req_path r)" "sv_headers (begin_request r m sv) = []"
  "sv_handlers (begin_request r m sv) = sv_handlers sv"
  "sv_args (begin_request r m sv) = request_args (req_params r)"
  by (simp_all add: begin_request_def)

lemma find_argument_request:
  assumes "\<And>k v. (k, v) \<in> set params \<Longrightarrow> NUL \<notin> set k \<and> NUL \<notin> set v"
  shows "find_argument name (request_args params) =
    map_option (\<lambda>v. \<lparr>arg_key = name, arg_value = v\<rparr>) (map_of params name)"
  using assms
proof (induction params)
  case (Cons p params)
  obtain k v where p: "p = (k, v)" by (cases p)
  then have "NUL \<notin> set k" "NUL \<notin> set v" using Cons(2) by auto
  moreover have "find_argument name (request_args params) =
      map_option (\<lambda>v. \<lparr>arg_key = name, arg_value = v\<rparr>) (map_of params name)"
    by (rule Cons(1)) (use Cons(2) in auto)
  ultimately show ?case
    using p by (auto simp: find_argument_def request_args_def)
qed (simp add: find_argument_def request_args_def)

lemma no_headers: "sv_headers sv = [] \<Longrightarrow> \<not> hasHeader name sv"
  by (simp add: hasHeader_def)

lemma authenticate_no_headers: "sv_headers sv = [] \<Longrightarrow> authenticate user pass sv = Some False"
  by (simp add: authenticate_def no_headers)

lemma find_snoc: "find P (xs @ [x]) = (case find P xs of Some y \<Rightarrow> Some y | None \<Rightarrow> if P x then Some x else None)"
  by (induction xs) simp_all

lemma first_handler_append:
  "first_handler (addRequestHandler h sv) =
     (case first_handler sv of
        Some g \<Rightarrow> Some g
      | None \<Rightarrow> if canHandle h (sv_method sv) (sv_uri sv) then Some h else None)"
  by (simp add: first_handler_def addRequestHandler_def find_snoc split: option.split)

lemma sendContent_P_last:
  "sv_request sv = Some r \<Longrightarrow>
     sendContent_P content sv =
       Some (sv\<lparr>sv_request := Some (r\<lparr>req_answer :=
         drop (HTTP_DOWNLOAD_UNIT_SIZE * (length content div HTTP_DOWNLOAD_UNIT_SIZE)) content\<rparr>)\<rparr>)"
proof (induction content sv arbitrary: r rule: sendContent_P.induct)
  case (1 content sv)
  let ?n = HTTP_DOWNLOAD_UNIT_SIZE
  have pos: "0 < ?n" by (simp add: HTTP_DOWNLOAD_UNIT_SIZE_def)
  show ?case
  proof (cases "length content < ?n")
    case True
    then show ?thesis using 1(2) by (subst sendContent_P.simps) simp
  next
    case False
    then have div: "length content div ?n = Suc ((length content - ?n) div ?n)"
      using pos by (simp add: le_div_geq)
    have "sendContent_P content sv = sendContent_P (drop ?n content)
        (sv\<lparr>sv_request := Some (r\<lparr>req_answer := take ?n content\<rparr>)\<rparr>)"
      using False 1(2) by (subst sendContent_P.simps) simp
    also have "\<dots> = Some (sv\<lparr>sv_request := Some (r\<lparr>req_answer :=
        drop (?n * ((length content - ?n) div ?n)) (drop ?n content)\<rparr>)\<rparr>)"
      using 1(1) [OF refl 1(2) refl False, of "r\<lparr>req_answer := take ?n content\<rparr>"] by simp
    finally show ?thesis by (simp add: div add.commute)
  qed
qed

text \<open>\<open>handle_get\<close> by its cases.\<close>

lemma handle_get_none:
  assumes "request_method (req_method r) = Some m"
    and "find (\<lambda>h. canHandle h m (c_text (req_path r))) (sv_handlers sv) = None"
  shows "handle_get env r (sv, a) =
    Some (r\<lparr>req_status := ''404 Not Found'', req_answer := error_page ''404 Not Found'' (req_path r)\<rparr>,
      (begin_request r m sv)\<lparr>sv_handler := None, sv_request := None\<rparr>, a)"
  using assms by (simp add: handle_get_def first_handler_def answer_error_def)

lemma handle_get_method:
  assumes "request_method (req_method r) = Some m"
    and "find (\<lambda>h. canHandle h m (c_text (req_path r))) (sv_handlers sv) = Some h"
    and "h = MethodRequestHandler f u uri meth \<or> h = FunctionRequestHandler f u uri meth"
  shows "handle_get env r (sv, a) =
    do { (sv', a') \<leftarrow> run_fn env f ((begin_request r m sv)\<lparr>sv_handler := Some h\<rparr>, a);
         r' \<leftarrow> sv_request sv'; Some (r', sv'\<lparr>sv_request := None\<rparr>, a') }"
proof -
  have "canHandle h m (c_text (req_path r))"
    using assms(2) by (auto simp: find_Some_iff)
  then show ?thesis using assms
    by (auto simp: handle_get_def first_handler_def Option.bind_assoc map_conv_bind_option case_prod_beta
        split: Option.bind_splits)
qed

section \<open>Properties\<close>

text \<open>What a client of the server registers: an address, a method and a function. The specification of the
  dispatch is the first entry with the request's address and its method, or with any method.\<close>

type_synonym 'h route = "string \<times> HTTPMethod \<times> 'h"

definition register_routes :: "'h route list \<Rightarrow> 'h WebServer \<Rightarrow> 'h WebServer" where
  "register_routes routes sv = fold (\<lambda>(uri, meth, f). on_method uri meth f) routes sv"

definition the_route :: "'h route list \<Rightarrow> HTTPMethod \<Rightarrow> string \<Rightarrow> 'h option" where
  "the_route routes m path =
     map_option (\<lambda>(uri, meth, f). f) (find (\<lambda>(uri, meth, f). uri = path \<and> (meth = HTTP_ANY \<or> meth = m)) routes)"

lemma register_handlers_map:
  "sv_handlers (register_routes routes sv) =
     sv_handlers sv @ map (\<lambda>(uri, meth, f). FunctionRequestHandler f (sv_fileUpload sv) uri meth) routes"
proof -
  have "sv_handlers (register_routes routes sv) =
      sv_handlers sv @ map (\<lambda>(uri, meth, f). FunctionRequestHandler f (sv_fileUpload sv) uri meth) routes \<and>
      sv_fileUpload (register_routes routes sv) = sv_fileUpload sv"
    unfolding register_routes_def
    by (induction routes arbitrary: sv) (auto simp: on_method_def on_upload_def addRequestHandler_def)
  then show ?thesis by simp
qed

lemma find_route:
  "find (\<lambda>h. canHandle h m path) (map (\<lambda>(uri, meth, f). FunctionRequestHandler f u uri meth) routes) =
     map_option (\<lambda>(uri, meth, f). FunctionRequestHandler f u uri meth)
       (find (\<lambda>(uri, meth, f). uri = path \<and> (meth = HTTP_ANY \<or> meth = m)) routes)"
proof (induction routes)
  case (Cons t routes)
  obtain uri meth f where t: "t = (uri, meth, f)" by (cases t)
  have "FunctionRequestHandler_canHandle meth uri m path \<longleftrightarrow> uri = path \<and> (meth = HTTP_ANY \<or> meth = m)"
    by (auto simp: FunctionRequestHandler_canHandle_def method_uri_matches_def)
  with Cons show ?case by (auto simp: t)
qed simp

lemma request_args_at:
  "i < length params \<Longrightarrow> request_args params ! i = \<lparr>arg_key = c_text (fst (params ! i)), arg_value = c_text (snd (params ! i))\<rparr>"
  by (simp add: request_args_def case_prod_beta)

text \<open>C27: Dispatch. On a server with functions registered for addresses and methods, a request of a
  supported method runs the function that was registered first for its address and method. It finds
  the server with the request's method and path and with all of its arguments, in their order and by
  their names, and its outcome is the outcome of the request. When no function is registered for it, the
  answer is the 404 page, no function runs and the state of the application is untouched.\<close>

theorem dispatch_first_handler:
  assumes "request_method (req_method r) = Some m"
    and "sv_handlers sv = sv_handlers (register_routes routes (new_WebServer port))"
  shows "case the_route routes m (c_text (req_path r)) of
      None \<Rightarrow> \<exists>sv'. handle_get env r (sv, a) =
        Some (r\<lparr>req_status := ''404 Not Found'', req_answer := error_page ''404 Not Found'' (req_path r)\<rparr>, sv', a) \<and>
        sv_handlers sv' = sv_handlers sv \<and> sv_request sv' = None
    | Some f \<Rightarrow> \<exists>sv0. handle_get env r (sv, a) =
        do { (sv', a') \<leftarrow> run_fn env f (sv0, a); r' \<leftarrow> sv_request sv'; Some (r', sv'\<lparr>sv_request := None\<rparr>, a') } \<and>
        sv_request sv0 = Some r \<and> sv_method sv0 = m \<and> sv_uri sv0 = c_text (req_path r) \<and>
        sv_handlers sv0 = sv_handlers sv \<and> args sv0 = length (req_params r) \<and>
        \<not> (\<exists>i < length (req_params r). argName (int i) sv0 \<noteq> Some (c_text (fst (req_params r ! i))) \<or>
             arg_at (int i) sv0 \<noteq> Some (c_text (snd (req_params r ! i)))) \<and>
        \<not> (\<exists>name. arg name sv0 \<noteq> (case find (\<lambda>(k, v). c_text k = name) (req_params r) of
             None \<Rightarrow> [] | Some (k, v) \<Rightarrow> c_text v))"
proof -
  let ?path = "c_text (req_path r)" and ?u = "sv_fileUpload (new_WebServer port :: 'a WebServer)"
  have found: "find (\<lambda>h. canHandle h m ?path) (sv_handlers sv) =
      map_option (\<lambda>(uri, meth, f). FunctionRequestHandler f ?u uri meth)
        (find (\<lambda>(uri, meth, f). uri = ?path \<and> (meth = HTTP_ANY \<or> meth = m)) routes)"
    using assms(2) find_route [of m ?path ?u routes] by (simp add: register_handlers_map new_WebServer_def)
  show ?thesis
  proof (cases "find (\<lambda>(uri, meth, f). uri = ?path \<and> (meth = HTTP_ANY \<or> meth = m)) routes")
    case None
    then have "find (\<lambda>h. canHandle h m ?path) (sv_handlers sv) = None" using found by simp
    from handle_get_none [OF assms(1) this, of env a] None show ?thesis by (auto simp: the_route_def)
  next
    case (Some t)
    obtain uri meth f where t: "t = (uri, meth, f)" by (cases t)
    let ?h = "FunctionRequestHandler f ?u uri meth"
    let ?sv0 = "(begin_request r m sv)\<lparr>sv_handler := Some ?h\<rparr>"
    have "find (\<lambda>h. canHandle h m ?path) (sv_handlers sv) = Some ?h" using found Some t by simp
    note get = handle_get_method [OF assms(1) this disjI2 [OF refl], of env a]
    have "arg name ?sv0 = (case find (\<lambda>(k, v). c_text k = name) (req_params r) of None \<Rightarrow> [] | Some (k, v) \<Rightarrow> c_text v)" for name
    proof -
      have "find_argument name (request_args ps) =
          map_option (\<lambda>(k, v). \<lparr>arg_key = c_text k, arg_value = c_text v\<rparr>) (find (\<lambda>(k, v). c_text k = name) ps)" for ps
        by (induction ps) (auto simp: find_argument_def request_args_def)
      then show ?thesis by (simp add: arg_def split: option.split)
    qed
    moreover have "argName (int i) ?sv0 = Some (c_text (fst (req_params r ! i)))"
      "arg_at (int i) ?sv0 = Some (c_text (snd (req_params r ! i)))" if "i < length (req_params r)" for i
      using that request_args_at [OF that] by (simp_all add: argName_def arg_at_def) (simp_all add: request_args_def)
    moreover have "args ?sv0 = length (req_params r)" by (simp add: args_def) (simp add: request_args_def)
    ultimately show ?thesis using get Some t
      by (simp add: the_route_def) (intro exI [of _ ?sv0], simp)
  qed
qed

definition sample_request :: http_request where
  "sample_request = new_http_request\<lparr>req_method := ''get'', req_path := ''/x''\<rparr>"

definition sample_env :: "(nat, nat) environment" where
  "sample_env = \<lparr>run_fn = (\<lambda>f (sv, a). map_option (\<lambda>sv. (sv, a + f)) (send 200 None ''ok'' sv)),
     file_text = (\<lambda>a p. None)\<rparr>"

definition sample_server :: "nat WebServer" where
  "sample_server = register_routes [(''/y'', HTTP_ANY, 5), (''/x'', HTTP_POST, 6), (''/x'', HTTP_ANY, 7)] (new_WebServer 80)"

lemma sample_method: "request_method (req_method sample_request) = Some HTTP_GET"
  by code_simp

lemma sample_route:
  "the_route [(''/y'', HTTP_ANY, 5), (''/x'', HTTP_POST, 6), (''/x'', HTTP_ANY, 7 :: nat)] HTTP_GET
     (c_text (req_path sample_request)) = Some 7"
  by code_simp

theorem dispatch_first_handler_witness:
  "map_option (\<lambda>(r, sv, a). (req_status r, req_answer r, a)) (handle_get sample_env sample_request (sample_server, 1))
     = Some (''200 OK'', ''ok'', 8)"
proof -
  have "\<exists>sv0. handle_get sample_env sample_request (sample_server, 1) =
      do { (sv', a') \<leftarrow> run_fn sample_env 7 (sv0, 1);
           r' \<leftarrow> sv_request sv'; Some (r', sv'\<lparr>sv_request := None\<rparr>, a') } \<and> sv_request sv0 = Some sample_request"
    using dispatch_first_handler [OF sample_method, where sv = sample_server and env = sample_env and a = 1 and port = 80,
        OF sample_server_def [THEN arg_cong [where f = sv_handlers]]] sample_route by auto
  moreover have "dec_of_int 200 = ''200''" by code_simp
  ultimately show ?thesis
    by (auto simp: sample_env_def send_def sendContent_def responseCodeToString_def c_text_def NUL_def)
qed

text \<open>While a request is handled, \<open>authenticate\<close> refuses every user name and password, whatever
  headers the client sent and whatever headers were asked for with \<open>collectHeaders\<close>:
  \<open>handle_get\<close> drops the header table.\<close>

theorem authenticate_always_refuses:
  "authenticate user pass (begin_request r m (collectHeaders keys sv)) = Some False \<and>
   header name (begin_request r m (collectHeaders keys sv)) = []"
  by (simp add: authenticate_no_headers header_def find_argument_def)

text \<open>A long text sent with \<open>send_P\<close> loses everything but its last unit: each unit of 1460
  bytes overwrites the answer, so do the status line and headers, and a text whose length is
  a multiple of 1460 is answered with nothing.\<close>

theorem send_P_keeps_last_unit:
  assumes "sv_request sv = Some r" and "length content_type < 64"
  shows "map_option (\<lambda>sv. map_option req_answer (sv_request sv)) (send_P code content_type (Some content) sv) =
    Some (Some (drop (1460 * (length content div 1460)) content))"
  using assms
  by (simp add: send_P_def case_prod_beta Let_def sendContent_def prepareHeader_def sendHeader_def
      sendContent_P_last HTTP_DOWNLOAD_UNIT_SIZE_def)

theorem send_P_keeps_last_unit_witness:
  "map_option (\<lambda>sv. map_option req_answer (sv_request sv))
     (send_P 200 ''text/html'' (Some (replicate 1460 CHR ''x'')) (begin_request sample_request HTTP_GET sample_server))
   = Some (Some [])"
  using send_P_keeps_last_unit [of "begin_request sample_request HTTP_GET sample_server" sample_request
      "''text/html''" 200 "replicate 1460 CHR ''x''"] by simp

end
