(* ===== verification/Streams.thy ===== *)
theory Streams
  imports StringOps "HOL-Library.Sublist"
begin

text \<open>
  The Arduino \<open>Stream\<close> class, \<^verbatim>\<open>esp8266_sim/Stream.cpp\<close>: reading with a timeout, searching for
  a text, parsing an integer. A stream is what its next timed reads will see: \<open>Some c\<close> is a
  character that arrives before the timeout, \<open>None\<close> a pause that outlasts it, and after the
  last element every read times out. A character and the \<open>int\<close> that \<open>read\<close> returns for it are
  compared by value. \<open>parseFloat\<close> is not modelled: it is float arithmetic.
\<close>

section \<open>Timed reads\<close>

type_synonym stream = "char option list"

definition timedRead :: "stream \<Rightarrow> char option \<times> stream" where
  "timedRead s = (case s of [] \<Rightarrow> (None, []) | None # s \<Rightarrow> (None, s) | Some c # s \<Rightarrow> (Some c, s))"

definition timedPeek :: "stream \<Rightarrow> char option \<times> stream" where
  "timedPeek s = (case s of [] \<Rightarrow> (None, []) | None # s \<Rightarrow> (None, s) | Some c # _ \<Rightarrow> (Some c, s))"

fun readBytes :: "stream \<Rightarrow> nat \<Rightarrow> string \<times> stream" where
  "readBytes s 0 = ([], s)"
| "readBytes s (Suc n) =
     (case timedRead s of
        (None, s) \<Rightarrow> ([], s)
      | (Some c, s) \<Rightarrow> (let (cs, s) = readBytes s n in (c # cs, s)))"

fun readBytesUntil :: "char \<Rightarrow> stream \<Rightarrow> nat \<Rightarrow> string \<times> stream" where
  "readBytesUntil terminator s 0 = ([], s)"
| "readBytesUntil terminator s (Suc n) =
     (case timedRead s of
        (None, s) \<Rightarrow> ([], s)
      | (Some c, s) \<Rightarrow>
          if c = terminator then ([], s)
          else (let (cs, s) = readBytesUntil terminator s n in (c # cs, s)))"

text \<open>The loops of \<open>readString\<close> and \<open>readStringUntil\<close>, which add to \<open>ret\<close>.\<close>

fun readString_loop :: "string \<Rightarrow> stream \<Rightarrow> string \<times> stream" where
  "readString_loop ret [] = (ret, [])"
| "readString_loop ret (None # s) = (ret, s)"
| "readString_loop ret (Some c # s) = readString_loop (ret @ [c]) s"

definition readString :: "stream \<Rightarrow> string \<times> stream" where
  "readString s = readString_loop [] s"

fun readStringUntil_loop :: "char \<Rightarrow> string \<Rightarrow> stream \<Rightarrow> string \<times> stream" where
  "readStringUntil_loop terminator ret [] = (ret, [])"
| "readStringUntil_loop terminator ret (None # s) = (ret, s)"
| "readStringUntil_loop terminator ret (Some c # s) =
     (if c = terminator then (ret, s) else readStringUntil_loop terminator (ret @ [c]) s)"

definition readStringUntil :: "char \<Rightarrow> stream \<Rightarrow> string \<times> stream" where
  "readStringUntil terminator s = readStringUntil_loop terminator [] s"

section \<open>Searching\<close>

record MultiTarget =
  str :: string
  index :: nat

text \<open>
  The \<open>do\<close> loop after a mismatch at \<open>origIndex\<close>: the largest smaller index whose character is
  \<open>c\<close> and whose prefix ends the matched part.
\<close>

fun walk_back :: "string \<Rightarrow> char \<Rightarrow> nat \<Rightarrow> nat \<Rightarrow> nat" where
  "walk_back p c origIndex 0 = 0"
| "walk_back p c origIndex (Suc i) =
     (if c \<noteq> p ! i then walk_back p c origIndex i
      else if i = 0 then 1
      else if take i p = take i (drop (origIndex - i) p) then Suc i
      else walk_back p c origIndex i)"

text \<open>One character against one target: matched completely, or the target with its new index.\<close>

definition advance :: "char \<Rightarrow> MultiTarget \<Rightarrow> bool \<times> MultiTarget" where
  "advance c t =
     (if c = str t ! index t
      then (let t = t\<lparr>index := index t + 1\<rparr> in (index t = length (str t), t))
      else if index t = 0 then (False, t)
      else (False, t\<lparr>index := walk_back (str t) c (index t) (index t)\<rparr>))"

text \<open>One character against all targets: the position of the first one it completes.\<close>

fun advance_all :: "char \<Rightarrow> nat \<Rightarrow> MultiTarget list \<Rightarrow> nat option \<times> MultiTarget list" where
  "advance_all c n [] = (None, [])"
| "advance_all c n (t # ts) =
     (case advance c t of
        (True, t) \<Rightarrow> (Some n, t # ts)
      | (False, t) \<Rightarrow> (let (r, ts) = advance_all c (n + 1) ts in (r, t # ts)))"

fun findMulti_loop :: "MultiTarget list \<Rightarrow> stream \<Rightarrow> int \<times> stream" where
  "findMulti_loop ts [] = (- 1, [])"
| "findMulti_loop ts (None # s) = (- 1, s)"
| "findMulti_loop ts (Some c # s) =
     (case advance_all c 0 ts of
        (Some n, _) \<Rightarrow> (int n, s)
      | (None, ts) \<Rightarrow> findMulti_loop ts s)"

fun empty_target :: "nat \<Rightarrow> MultiTarget list \<Rightarrow> nat option" where
  "empty_target n [] = None"
| "empty_target n (t # ts) = (if str t = [] then Some n else empty_target (n + 1) ts)"

definition findMulti :: "MultiTarget list \<Rightarrow> stream \<Rightarrow> int \<times> stream" where
  "findMulti ts s = (case empty_target 0 ts of Some n \<Rightarrow> (int n, s) | None \<Rightarrow> findMulti_loop ts s)"

definition new_target :: "string \<Rightarrow> MultiTarget" where
  "new_target p = \<lparr>str = p, index = 0\<rparr>"

definition findUntil_len :: "string \<Rightarrow> string option \<Rightarrow> stream \<Rightarrow> bool \<times> stream" where
  "findUntil_len target terminator s =
     (case terminator of
        None \<Rightarrow> (let (r, s) = findMulti [new_target target] s in (r = 0, s))
      | Some t \<Rightarrow> (let (r, s) = findMulti [new_target target, new_target t] s in (r = 0, s)))"

definition find_target :: "string \<Rightarrow> stream \<Rightarrow> bool \<times> stream" where
  "find_target target s = findUntil_len target None s"

definition find_target_len :: "string \<Rightarrow> stream \<Rightarrow> bool \<times> stream" where
  "find_target_len target s = findUntil_len target None s"

definition findUntil :: "string \<Rightarrow> string \<Rightarrow> stream \<Rightarrow> bool \<times> stream" where
  "findUntil target terminator s = findUntil_len target (Some terminator) s"

section \<open>Integers\<close>

datatype LookaheadMode = SKIP_ALL | SKIP_NONE | SKIP_WHITESPACE

definition skipped_space :: "char \<Rightarrow> bool" where
  "skipped_space c \<longleftrightarrow> c = CHR '' '' \<or> c = CHR 0x09 \<or> c = CHR 0x0D \<or> c = CHR 0x0A"

fun peekNextDigit :: "LookaheadMode \<Rightarrow> bool \<Rightarrow> stream \<Rightarrow> char option \<times> stream" where
  "peekNextDigit lookahead detectDecimal [] = (None, [])"
| "peekNextDigit lookahead detectDecimal (None # s) = (None, s)"
| "peekNextDigit lookahead detectDecimal (Some c # s) =
     (if c = CHR ''-'' \<or> is_digit c \<or> (detectDecimal \<and> c = CHR ''.'') then (Some c, Some c # s)
      else (case lookahead of
              SKIP_NONE \<Rightarrow> (None, Some c # s)
            | SKIP_WHITESPACE \<Rightarrow>
                if skipped_space c then peekNextDigit lookahead detectDecimal s
                else (None, Some c # s)
            | SKIP_ALL \<Rightarrow> peekNextDigit lookahead detectDecimal s))"

text \<open>
  \<open>value = value * 10 + c - '0'\<close> on a 32-bit \<open>long\<close>; \<open>None\<close> is its overflow, which the C
  standard leaves undefined.
\<close>

definition next_value :: "int \<Rightarrow> char \<Rightarrow> int option" where
  "next_value v c =
     (if v * 10 + int (char_code c) \<le> 2147483647 then Some (v * 10 + int (char_code c) - 48) else None)"

text \<open>The \<open>do\<close> loop of \<open>parseInt\<close>; its current character is the head of the stream.\<close>

fun parseInt_loop :: "char \<Rightarrow> bool \<Rightarrow> int \<Rightarrow> stream \<Rightarrow> (bool \<times> int \<times> stream) option" where
  "parseInt_loop ignore neg v (Some c # s) =
     (case (if c = ignore then Some (neg, v)
            else if c = CHR ''-'' then Some (True, v)
            else if is_digit c then map_option (Pair neg) (next_value v c)
            else Some (neg, v)) of
        None \<Rightarrow> None
      | Some (neg, v) \<Rightarrow>
          (case s of
             Some d # _ \<Rightarrow>
               if is_digit d \<or> d = ignore then parseInt_loop ignore neg v s else Some (neg, v, s)
           | None # s \<Rightarrow> Some (neg, v, s)
           | [] \<Rightarrow> Some (neg, v, [])))"
| "parseInt_loop ignore neg v s = Some (neg, v, s)"

definition parseInt :: "LookaheadMode \<Rightarrow> char \<Rightarrow> stream \<Rightarrow> (int \<times> stream) option" where
  "parseInt lookahead ignore s =
     (case peekNextDigit lookahead False s of
        (None, s) \<Rightarrow> Some (0, s)
      | (Some c, s) \<Rightarrow>
          map_option (\<lambda>(neg, v, s). (if neg then - v else v, s)) (parseInt_loop ignore False 0 s))"

definition NO_IGNORE_CHAR :: char where "NO_IGNORE_CHAR = CHR 0x01"

section \<open>Lemmas\<close>

text \<open>The characters that arrive before the next pause.\<close>

fun arriving :: "stream \<Rightarrow> string" where
  "arriving [] = []"
| "arriving (None # s) = []"
| "arriving (Some c # s) = c # arriving s"

definition after_pause :: "stream \<Rightarrow> stream" where
  "after_pause s = drop (length (arriving s) + 1) s"

lemma after_pause_simps [simp]:
  "after_pause [] = []" "after_pause (None # s) = s" "after_pause (Some c # s) = after_pause s"
  by (simp_all add: after_pause_def)

lemma arriving_append [simp]: "arriving (map Some w @ s) = w @ arriving s"
  by (induction w) simp_all

lemma readString_text: "readString s = (arriving s, after_pause s)"
proof -
  have "readString_loop ret s = (ret @ arriving s, after_pause s)" for ret
    by (induction ret s rule: readString_loop.induct) simp_all
  then show ?thesis by (simp add: readString_def)
qed

lemma readStringUntil_found:
  "c \<notin> set w \<Longrightarrow> readStringUntil c (map Some w @ Some c # s) = (w, s)"
proof -
  have "c \<notin> set w \<Longrightarrow> readStringUntil_loop c ret (map Some w @ Some c # s) = (ret @ w, s)" for ret
    by (induction w arbitrary: ret) auto
  then show "c \<notin> set w \<Longrightarrow> ?thesis" by (simp add: readStringUntil_def)
qed

lemma readStringUntil_pause:
  "c \<notin> set (arriving s) \<Longrightarrow> readStringUntil c s = (arriving s, after_pause s)"
proof -
  have "c \<notin> set (arriving s) \<Longrightarrow> readStringUntil_loop c ret s = (ret @ arriving s, after_pause s)" for ret
    by (induction c ret s rule: readStringUntil_loop.induct) auto
  then show "c \<notin> set (arriving s) \<Longrightarrow> ?thesis" by (simp add: readStringUntil_def)
qed

lemma readBytes_found: "length w = n \<Longrightarrow> readBytes (map Some w @ s) n = (w, s)"
  by (induction w arbitrary: n) (auto simp: timedRead_def)

subsection \<open>The search\<close>

text \<open>The walk back finds the longest prefix of the target that the new character extends.\<close>

definition extends :: "string \<Rightarrow> char \<Rightarrow> nat \<Rightarrow> nat \<Rightarrow> bool" where
  "extends p c k j \<longleftrightarrow> 0 < j \<and> p ! (j - 1) = c \<and> suffix (take (j - 1) p) (take k p)"

lemma suffix_take_iff:
  assumes "i \<le> k" and "k \<le> length p"
  shows "suffix (take i p) (take k p) \<longleftrightarrow> take i p = take i (drop (k - i) p)"
proof -
  have "drop (k - i) (take k p) = take i (drop (k - i) p)" using assms by (simp add: drop_take)
  moreover have "suffix (take i p) (take k p) \<longleftrightarrow> take i p = drop (k - i) (take k p)"
  proof
    assume "suffix (take i p) (take k p)"
    then obtain zs where zs: "take k p = zs @ take i p" by (auto simp: suffix_def)
    have "length (take k p) = length zs + length (take i p)" by (simp only: zs length_append)
    then have "length zs = k - i" using assms by simp
    then show "take i p = drop (k - i) (take k p)" unfolding zs by simp
  qed (metis suffix_drop)
  ultimately show ?thesis by simp
qed

lemma walk_back_longest:
  assumes "i \<le> k" and "k \<le> length p"
  shows "walk_back p c k i \<le> i \<and> (walk_back p c k i = 0 \<or> extends p c k (walk_back p c k i)) \<and>
    (\<forall>j. walk_back p c k i < j \<and> j \<le> i \<longrightarrow> \<not> extends p c k j)"
  using assms(1)
proof (induction i)
  case (Suc i)
  have iff: "extends p c k (Suc i) \<longleftrightarrow> p ! i = c \<and> (i = 0 \<or> take i p = take i (drop (k - i) p))"
    using Suc(2) assms(2) suffix_take_iff [of i k p] by (auto simp: extends_def)
  show ?case
  proof (cases "extends p c k (Suc i)")
    case True
    then have "walk_back p c k (Suc i) = Suc i" using iff by auto
    with True show ?thesis by auto
  next
    case False
    then have "walk_back p c k (Suc i) = walk_back p c k i" using iff by auto
    with Suc False show ?thesis by (auto simp: le_Suc_eq)
  qed
qed simp

text \<open>\<open>matched p w k\<close>: after the text \<open>w\<close>, in which \<open>p\<close> has not occurred, \<open>k\<close> characters of \<open>p\<close>
  are matched, and no more.\<close>

definition matched :: "string \<Rightarrow> string \<Rightarrow> nat \<Rightarrow> bool" where
  "matched p w k \<longleftrightarrow> k < length p \<and> suffix (take k p) w \<and>
     (\<forall>j \<le> length p. suffix (take j p) w \<longrightarrow> j \<le> k) \<and> find_sub p w = None"

lemma suffix_take_snoc:
  assumes "j \<le> length p" and "0 < j"
  shows "suffix (take j p) (w @ [c]) \<longleftrightarrow> p ! (j - 1) = c \<and> suffix (take (j - 1) p) w"
proof -
  have "take j p = take (j - 1) p @ [p ! (j - 1)]"
    using assms by (metis One_nat_def Suc_pred less_eq_Suc_le take_Suc_conv_app_nth)
  then show ?thesis by (auto simp: suffix_def)
qed

lemma occurrence_at_end:
  assumes "starts_at p (drop m (w @ [c]))" and "find_sub p w = None" and "p \<noteq> []"
  shows "suffix p (w @ [c])"
proof -
  have le: "m + length p \<le> length w + 1" using starts_at_length [OF assms(1,3)] by simp
  have "\<not> m + length p \<le> length w"
  proof
    assume "m + length p \<le> length w"
    then have "starts_at p (drop m w)" using assms(1) by (simp add: starts_at_def)
    with find_sub_None [OF assms(2)] show False by blast
  qed
  with le have "m + length p = length (w @ [c])" by simp
  then have "drop m (w @ [c]) = p"
    using assms(1) by (auto simp: starts_at_def)
  then show ?thesis by (metis suffix_drop)
qed

lemma matched_step:
  assumes "matched p w k" and "p \<noteq> []" and "(False, t') = advance c \<lparr>str = p, index = k\<rparr>"
  shows "str t' = p \<and> matched p (w @ [c]) (index t')"
proof -
  have k: "k < length p" "suffix (take k p) w" "\<And>j. j \<le> length p \<Longrightarrow> suffix (take j p) w \<Longrightarrow> j \<le> k"
    "find_sub p w = None" using assms(1) by (auto simp: matched_def)
  have key: "matched p (w @ [c]) k'"
    if "k' < length p" "k' = 0 \<or> suffix (take k' p) (w @ [c])"
      "\<And>j. k' < j \<Longrightarrow> j \<le> length p \<Longrightarrow> \<not> suffix (take j p) (w @ [c])" for k'
  proof -
    have "\<not> suffix p (w @ [c])" using that(3) [of "length p"] that(1) by simp
    then have "find_sub p (w @ [c]) = None"
      using occurrence_at_end [OF _ k(4) assms(2)] by (intro find_sub_NoneI) blast
    with that show ?thesis by (auto simp: matched_def not_le [symmetric])
  qed
  show ?thesis
  proof (cases "c = p ! k")
    case True
    with assms(3) k(1) have t': "t' = \<lparr>str = p, index = k + 1\<rparr>" "k + 1 < length p"
      by (auto simp: advance_def)
    have "matched p (w @ [c]) (k + 1)"
    proof (rule key)
      show "\<not> suffix (take j p) (w @ [c])" if "k + 1 < j" "j \<le> length p" for j
      proof
        assume "suffix (take j p) (w @ [c])"
        then have "suffix (take (j - 1) p) w" using suffix_take_snoc [of j p w c] that by simp
        moreover have "j - 1 \<le> length p" using that by simp
        ultimately show False using k(3) [of "j - 1"] that by linarith
      qed
    qed (use t' k True suffix_take_snoc [of "k + 1" p w c] in auto)
    then show ?thesis using t' by simp
  next
    case False
    define j where "j = walk_back p c k k"
    have t': "t' = \<lparr>str = p, index = j\<rparr>"
      using assms(3) False by (auto simp: advance_def j_def split: if_splits)
    have wb: "j \<le> k" "j = 0 \<or> extends p c k j" "\<And>i. j < i \<Longrightarrow> i \<le> k \<Longrightarrow> \<not> extends p c k i"
      using walk_back_longest [of k k p c] k(1) by (auto simp: j_def)
    have "matched p (w @ [c]) j"
    proof (rule key)
      show "j = 0 \<or> suffix (take j p) (w @ [c])"
        using wb(1,2) k(1,2) suffix_take_snoc [of j p w c] suffix_order.trans
        by (auto simp: extends_def)
      show "\<not> suffix (take i p) (w @ [c])" if "j < i" "i \<le> length p" for i
      proof
        assume "suffix (take i p) (w @ [c])"
        then have i: "p ! (i - 1) = c" "suffix (take (i - 1) p) w"
          using suffix_take_snoc [of i p w c] that by simp_all
        then have "i - 1 \<le> k" using k(3) [of "i - 1"] that by simp
        moreover have "i - 1 \<noteq> k" using i(1) False by auto
        ultimately have "i \<le> k" by simp
        moreover have "suffix (take (i - 1) p) (take k p)"
          using suffix_length_suffix [OF i(2) k(2)] \<open>i - 1 \<le> k\<close> k(1) that by simp
        ultimately show False using wb(3) [of i] i(1) that by (auto simp: extends_def)
      qed
    qed (use wb(1) k(1) in simp)
    then show ?thesis using t' by simp
  qed
qed

lemma matched_done:
  assumes "matched p w k" and "p \<noteq> []" and "(True, t') = advance c \<lparr>str = p, index = k\<rparr>"
  shows "length p \<le> length w + 1 \<and> find_sub p (w @ c # rest) = Some (length w + 1 - length p)"
proof -
  have k: "k < length p" "suffix (take k p) w" "find_sub p w = None"
    using assms(1) by (auto simp: matched_def)
  have c: "c = p ! k" "length p - 1 = k"
    using assms(3) k(1) by (auto simp: advance_def split: if_splits)
  then have "suffix p (w @ [c])"
    using suffix_take_snoc [of "length p" p w c] k(2) assms(2) by simp
  then obtain zs where zs: "w @ [c] = zs @ p" by (auto simp: suffix_def)
  then have len: "length zs + length p = length w + 1" by (metis length_append length_append_singleton Suc_eq_plus1)
  have "find_sub p (w @ c # rest) = Some (length zs)"
  proof (rule find_sub_unique)
    have eq: "w @ c # rest = zs @ p @ rest" using zs by (metis append.assoc append_Cons append_Nil)
    show "starts_at p (drop (length zs) (w @ c # rest))" unfolding eq by (simp add: starts_at_append)
    show "\<not> starts_at p (drop m (w @ c # rest))" if "m < length zs" for m
    proof
      assume "starts_at p (drop m (w @ c # rest))"
      moreover have "m + length p \<le> length w" using that len by simp
      ultimately have "starts_at p (drop m w)" by (simp add: starts_at_def)
      with find_sub_None [OF k(3)] show False by blast
    qed
  qed (use len in simp)
  then show ?thesis using len by (auto simp: diff_eq_eq [symmetric])
qed

lemma findMulti_loop_one:
  assumes "p \<noteq> []" and "matched p w k"
  shows "findMulti_loop [\<lparr>str = p, index = k\<rparr>] s =
    (case find_sub p (w @ arriving s) of
       Some n \<Rightarrow> (0, drop (n + length p - length w) s)
     | None \<Rightarrow> (- 1, after_pause s))"
  using assms(2)
proof (induction s arbitrary: w k rule: arriving.induct)
  case 1
  then show ?case by (simp add: matched_def)
next
  case (2 s)
  then show ?case by (simp add: matched_def)
next
  case (3 c s)
  obtain ok t' where a: "advance c \<lparr>str = p, index = k\<rparr> = (ok, t')" by (cases "advance c \<lparr>str = p, index = k\<rparr>")
  show ?case
  proof (cases ok)
    case True
    with a matched_done [OF 3(2) assms(1), of t' c "arriving s"] show ?thesis by simp
  next
    case False
    with a matched_step [OF 3(2) assms(1), of t' c] have t': "str t' = p" "matched p (w @ [c]) (index t')"
      by simp_all
    then have "t' = \<lparr>str = p, index = index t'\<rparr>" by simp
    moreover have "drop (n + length p - Suc (length w)) s = drop (n + length p - length w) (Some c # s)"
      if "find_sub p (w @ c # arriving s) = Some n" for n
    proof -
      have "\<not> n + length p \<le> length w"
        using find_sub_Some [OF that] find_sub_None [of p w n] 3(2)
        by (auto simp: matched_def starts_at_def)
      then have "n + length p - length w = Suc (n + length p - Suc (length w))" by simp
      then show ?thesis by simp
    qed
    ultimately show ?thesis using a False 3(1) [OF t'(2)] by (auto split: option.split)
  qed
qed

lemma matched_start: "p \<noteq> [] \<Longrightarrow> matched p [] 0"
  by (auto simp: matched_def take_eq_Nil)

subsection \<open>Numbers\<close>

text \<open>What \<open>parseInt\<close> leaves after the last digit: the peek that ends it swallows a pause.\<close>

definition after_peek :: "stream \<Rightarrow> stream" where
  "after_peek s = (case s of None # s \<Rightarrow> s | s \<Rightarrow> s)"

definition number_ends :: "char \<Rightarrow> stream \<Rightarrow> bool" where
  "number_ends ignore s \<longleftrightarrow> (case s of Some d # _ \<Rightarrow> \<not> is_digit d \<and> d \<noteq> ignore | _ \<Rightarrow> True)"

lemma digits_value_mono: "acc \<le> digits_value acc ds"
proof (induction acc ds rule: digits_value.induct)
  case (2 acc c cs)
  then show ?case by (cases "is_digit c") (auto intro: le_trans [rotated])
qed simp

lemma next_value_digit:
  assumes "is_digit c" and "acc * 10 + digit_val c + 48 \<le> 2147483647"
  shows "next_value (int acc) c = Some (int (acc * 10 + digit_val c))"
  using assms by (auto simp: next_value_def is_digit_def digit_val_def)

lemma parseInt_loop_digits:
  assumes "ds \<noteq> []" and "\<forall>c \<in> set ds. is_digit c \<and> c \<noteq> ignore" and "number_ends ignore s"
    and "digits_value acc ds + 48 \<le> 2147483647"
  shows "parseInt_loop ignore neg (int acc) (map Some ds @ s) =
    Some (neg, int (digits_value acc ds), after_peek s)"
  using assms(1,2,4)
proof (induction ds arbitrary: acc)
  case (Cons c ds)
  have c: "is_digit c" "c \<noteq> ignore" "c \<noteq> CHR ''-''" using Cons(3) digit_not_sign by auto
  let ?acc = "acc * 10 + digit_val c"
  have "?acc + 48 \<le> 2147483647" using Cons(4) digits_value_mono [of ?acc ds] c by simp
  then have v: "next_value (int acc) c = Some (int ?acc)" by (rule next_value_digit [OF c(1)])
  show ?case
  proof (cases ds)
    case Nil
    have "parseInt_loop ignore neg (int acc) (Some c # s) = Some (neg, int ?acc, after_peek s)"
    proof (cases s)
      case (Cons x xs)
      then show ?thesis using c v assms(3)
        by (cases x) (simp_all add: number_ends_def after_peek_def)
    qed (use c v in \<open>simp add: after_peek_def\<close>)
    then show ?thesis using Nil c(1) by simp
  next
    case (Cons d ds')
    then have "parseInt_loop ignore neg (int ?acc) (map Some ds @ s) =
        Some (neg, int (digits_value ?acc ds), after_peek s)"
      using Cons.IH [of ?acc] Cons.prems c by simp
    then show ?thesis using Cons c v Cons.prems(2) by simp
  qed
qed simp

lemma dec_of_nat_plain: "c \<in> set (dec_of_nat n) \<Longrightarrow> is_digit c \<and> c \<noteq> NO_IGNORE_CHAR"
  using dec_of_nat_digits [of n] by (auto simp: NO_IGNORE_CHAR_def is_digit_def char_code_def)

lemma peekNextDigit_skip:
  assumes "\<forall>c \<in> set junk. \<not> is_digit c \<and> c \<noteq> CHR ''-''" and "is_digit c \<or> c = CHR ''-''"
  shows "peekNextDigit SKIP_ALL False (map Some junk @ Some c # s) = (Some c, Some c # s)"
  using assms by (induction junk) auto

text \<open>The largest absolute value \<open>parseInt\<close> reads without overflow: 48 is added before \<open>'0'\<close> is
  subtracted.\<close>

definition parse_range :: "int \<Rightarrow> bool" where
  "parse_range n \<longleftrightarrow> \<bar>n\<bar> + 48 \<le> 2147483647"

lemma parseInt_dec:
  assumes "\<forall>c \<in> set junk. \<not> is_digit c \<and> c \<noteq> CHR ''-''" and "parse_range n"
    and "number_ends NO_IGNORE_CHAR s"
  shows "parseInt SKIP_ALL NO_IGNORE_CHAR (map Some (junk @ dec_of_int n) @ s) = Some (n, after_peek s)"
proof -
  obtain d ds where d: "dec_of_nat (nat \<bar>n\<bar>) = d # ds" "is_digit d" using dec_of_nat_hd by blast
  have digits: "parseInt_loop NO_IGNORE_CHAR neg 0 (map Some (d # ds) @ s) = Some (neg, \<bar>n\<bar>, after_peek s)" for neg
    using parseInt_loop_digits [of "d # ds" NO_IGNORE_CHAR s 0 neg] dec_of_nat_plain [of _ "nat \<bar>n\<bar>"]
      digits_value_dec [of "nat \<bar>n\<bar>"] assms(2,3) d(1) by (simp add: parse_range_def)
  show ?thesis
  proof (cases "n < 0")
    case True
    then have n: "dec_of_int n = CHR ''-'' # d # ds" using d by (simp add: dec_of_int_def)
    have ni: "CHR ''-'' \<noteq> NO_IGNORE_CHAR" by (simp add: NO_IGNORE_CHAR_def)
    show ?thesis
      using peekNextDigit_skip [OF assms(1), of "CHR ''-''" "map Some (d # ds) @ s"] True n ni d(2) digits [of True]
      by (simp add: parseInt_def)
  next
    case False
    then have n: "dec_of_int n = d # ds" using d by (simp add: dec_of_int_def)
    show ?thesis
      using peekNextDigit_skip [OF assms(1), of d "map Some ds @ s"] False n d(2) digits [of False]
      by (simp add: parseInt_def)
  qed
qed

section \<open>Properties\<close>

text \<open>C40: The search of \<open>find\<close> is right. It reads exactly up to the end of the first occurrence of
  the target among the characters that arrive before the next pause and reports it; without
  one it reads up to the pause and reports none. The walk back after a mismatch never misses
  an occurrence and never invents one.\<close>

theorem find_target_first:
  assumes "target \<noteq> []"
  shows "find_target target s =
    (case find_sub target (arriving s) of
       Some n \<Rightarrow> (True, drop (n + length target) s)
     | None \<Rightarrow> (False, after_pause s))"
  using findMulti_loop_one [OF assms matched_start [OF assms], of s] assms
  by (simp add: find_target_def findUntil_len_def findMulti_def new_target_def split: option.split)

theorem find_target_first_witness:
  "find_target ''1112'' (map Some ''11112x'') = (True, [Some CHR ''x''])"
proof -
  have "find_sub ''1112'' (arriving (map Some ''11112x'')) = Some 1" by (simp add: starts_at_def)
  then show ?thesis using find_target_first [of "''1112''" "map Some ''11112x''"] by simp
qed

text \<open>\<open>parseInt\<close> reads a printed integer back, whatever non-numeric text stands before it, for
  every value up to 2147483599 in absolute value.\<close>

theorem parseInt_reads_back:
  assumes "\<forall>c \<in> set junk. \<not> is_digit c \<and> c \<noteq> CHR ''-''" and "parse_range n"
    and "number_ends NO_IGNORE_CHAR s"
  shows "parseInt SKIP_ALL NO_IGNORE_CHAR (map Some (junk @ dec_of_int n) @ s) = Some (n, after_peek s)"
  using assms by (rule parseInt_dec)

theorem parseInt_reads_back_witness:
  "parseInt SKIP_ALL NO_IGNORE_CHAR (map Some (''t='' @ dec_of_int (- 42)) @ [Some CHR '';'']) =
     Some (- 42, [Some CHR '';''])"
  using parseInt_reads_back [of "''t=''" "- 42" "[Some CHR '';'']"]
  by (simp add: is_digit_def char_code_def parse_range_def number_ends_def NO_IGNORE_CHAR_def after_peek_def)

text \<open>The bound is sharp: the last numbers of a 32-bit \<open>long\<close> overflow on the way.\<close>

lemma parseInt_overflow:
  "parseInt SKIP_ALL NO_IGNORE_CHAR (map Some ''2147483647'') = None"
  "parseInt SKIP_ALL NO_IGNORE_CHAR (map Some ''2147483600'') = None"
  by code_simp+

end
