(* ===== verification/Parsing.thy ===== *)
theory Parsing
  imports Streams EspServer
begin

text \<open>
  The request parser of the firmware's web server, \<^verbatim>\<open>esp8266_sim/Parsing.cpp\<close>: request line and
  headers, arguments, URL decoding, multipart forms and file uploads. The client is a stream
  with timed reads (theory \<^verbatim>\<open>Streams\<close>). A partial function is \<open>None\<close> where the code never
  returns, and \<open>None\<close> is also a read or write outside a buffer. Allocation is taken to
  succeed.
\<close>

section \<open>The client\<close>

text \<open>\<open>cl_chunks\<close> bounds what successive calls of \<open>available\<close> report of the characters that arrive
  before the next pause; \<open>cl_open\<close> is whether the peer keeps the connection open after what it
  sent.\<close>

record client =
  cl_in :: stream
  cl_chunks :: "nat list"
  cl_open :: bool

definition connected :: "client \<Rightarrow> bool" where
  "connected c \<longleftrightarrow> cl_open c \<or> (\<exists>x \<in> set (cl_in c). x \<noteq> None)"

definition available :: "client \<Rightarrow> nat" where
  "available c =
     (let n = length (arriving (cl_in c))
      in case cl_chunks c of [] \<Rightarrow> n | k # _ \<Rightarrow> min (max k 1) n)"

text \<open>\<open>req = readStringUntil('\r'); readStringUntil('\n');\<close>\<close>

definition read_line :: "client \<Rightarrow> string \<times> client" where
  "read_line c =
     (let (line, s) = readStringUntil (CHR 0x0D) (cl_in c);
          (_, s) = readStringUntil (CHR 0x0A) s
      in (line, c\<lparr>cl_in := s\<rparr>))"

lemma readBytes_arriving:
  "n \<le> length (arriving s) \<Longrightarrow> readBytes s n = (take n (arriving s), drop n s)"
proof (induction n arbitrary: s)
  case (Suc n)
  then show ?case by (cases s rule: arriving.cases) (simp_all add: timedRead_def)
qed simp

text \<open>\<open>readBytesWithTimeout\<close>: the data read, and what is left. A poll takes all that is available,
  even past \<open>maxLength\<close>.\<close>

function read_chunks :: "nat \<Rightarrow> string \<Rightarrow> client \<Rightarrow> string \<times> client" where
  "read_chunks maxLength data c =
     (if length data < maxLength
      then (let newLength = available c
            in if newLength = 0 then (data, c\<lparr>cl_in := after_pause (cl_in c)\<rparr>)
               else (let (bytes, s) = readBytes (cl_in c) newLength
                     in read_chunks maxLength (data @ bytes)
                          (c\<lparr>cl_in := s, cl_chunks := tl (cl_chunks c)\<rparr>)))
      else (data, c))"
  by pat_completeness auto
termination
proof (relation "measure (\<lambda>(maxLength, data, c). maxLength - length data)", goal_cases)
  case (2 maxLength data c newLength p bytes s)
  then have "newLength \<le> length (arriving (cl_in c))"
    by (auto simp: available_def Let_def split: list.splits)
  then have "length bytes = newLength"
    using readBytes_arriving [of newLength "cl_in c"] 2(4,5) by auto
  then show ?case using 2 by simp
qed simp

declare read_chunks.simps [simp del]

definition readBytesWithTimeout :: "client \<Rightarrow> nat \<Rightarrow> string option \<times> nat \<times> client" where
  "readBytesWithTimeout c maxLength =
     (let (data, c) = read_chunks maxLength [] c
      in (if data = [] then None else Some data, length data, c))"

section \<open>Arguments\<close>

text \<open>\<open>strtol("0xab", NULL, 16)\<close> as a \<open>char\<close>; \<open>strtol\<close> stops at the first other character.\<close>

definition hex_val :: "char \<Rightarrow> nat option" where
  "hex_val c =
     (if is_digit c then Some (char_code c - 48)
      else if 97 \<le> char_code c \<and> char_code c \<le> 102 then Some (char_code c - 87)
      else if 65 \<le> char_code c \<and> char_code c \<le> 70 then Some (char_code c - 55)
      else None)"

definition hex_pair :: "char \<Rightarrow> char \<Rightarrow> char" where
  "hex_pair a b =
     (case hex_val a of
        None \<Rightarrow> char_of (0 :: nat)
      | Some x \<Rightarrow> (case hex_val b of None \<Rightarrow> char_of x | Some y \<Rightarrow> char_of (16 * x + y)))"

fun urlDecode :: "string \<Rightarrow> string" where
  "urlDecode [] = []"
| "urlDecode (e # rest) =
     (if e = CHR 0x25 then
        (case rest of a # b # rest' \<Rightarrow> hex_pair a b # urlDecode rest' | _ \<Rightarrow> e # urlDecode rest)
      else if e = CHR ''+'' then CHR '' '' # urlDecode rest
      else e # urlDecode rest)"

definition count_args :: "string \<Rightarrow> nat" where
  "count_args data = length (filter (\<lambda>c. c = CHR ''&'') data) + 1"

text \<open>The loop over the arguments; \<open>-1\<close> converted to \<open>unsigned int\<close> is past every end.\<close>

function parse_args_loop :: "string \<Rightarrow> nat \<Rightarrow> nat \<Rightarrow> RequestArgument list \<Rightarrow> RequestArgument list" where
  "parse_args_loop data n pos done =
     (if length done < n
      then (case (index_from (CHR ''='') pos data, index_from (CHR ''&'') pos data) of
              (None, None) \<Rightarrow> done
            | (None, Some amp) \<Rightarrow> parse_args_loop data n (amp + 1) done
            | (Some eq, None) \<Rightarrow>
                done @ [\<lparr>arg_key = substr pos eq data, arg_value = urlDecode (substr (eq + 1) 4294967295 data)\<rparr>]
            | (Some eq, Some amp) \<Rightarrow>
                if eq > amp then parse_args_loop data n (amp + 1) done
                else parse_args_loop data n (amp + 1)
                       (done @ [\<lparr>arg_key = substr pos eq data, arg_value = urlDecode (substr (eq + 1) amp data)\<rparr>]))
      else done)"
  by pat_completeness auto
termination
  by (relation "measure (\<lambda>(data, n, pos, done). length data - pos)")
     (auto dest!: index_from_range [OF sym])

declare parse_args_loop.simps [simp del]

definition parseArguments :: "string \<Rightarrow> 'h WebServer \<Rightarrow> 'h WebServer" where
  "parseArguments data sv =
     (if length data = 0 then sv\<lparr>sv_args := []\<rparr>
      else sv\<lparr>sv_args := parse_args_loop data (count_args data) 0 []\<rparr>)"

fun set_header :: "string \<Rightarrow> string \<Rightarrow> RequestArgument list \<Rightarrow> bool \<times> RequestArgument list" where
  "set_header name v [] = (False, [])"
| "set_header name v (h # hs) =
     (if arg_key h = name then (True, h\<lparr>arg_value := v\<rparr> # hs)
      else (let (ok, hs) = set_header name v hs in (ok, h # hs)))"

definition collectHeader :: "string \<Rightarrow> string \<Rightarrow> 'h WebServer \<Rightarrow> bool \<times> 'h WebServer" where
  "collectHeader name v sv =
     (let (ok, hs) = set_header name v (sv_headers sv) in (ok, sv\<lparr>sv_headers := hs\<rparr>))"

section \<open>The request\<close>

text \<open>The header lines end at an empty line and at one without a colon.\<close>

lemma readStringUntil_consumes:
  "fst (readStringUntil c s) \<noteq> [] \<Longrightarrow> length (snd (readStringUntil c s)) < length s"
proof -
  have le: "length (snd (readStringUntil_loop c ret s)) \<le> length s" for ret s
    by (induction c ret s rule: readStringUntil_loop.induct) auto
  show "fst (readStringUntil c s) \<noteq> [] \<Longrightarrow> ?thesis"
    using le [of "[the (hd s)]" "tl s"] le [of _ "tl s"]
    by (cases s rule: arriving.cases) (auto simp: readStringUntil_def less_Suc_eq_le split: if_splits)
qed

lemma readStringUntil_le: "length (snd (readStringUntil c s)) \<le> length s"
proof -
  have "length (snd (readStringUntil_loop c ret s)) \<le> length s" for ret
    by (induction c ret s rule: readStringUntil_loop.induct) auto
  then show ?thesis by (simp add: readStringUntil_def)
qed

lemma read_line_consumes:
  "fst (read_line c) \<noteq> [] \<Longrightarrow> length (cl_in (snd (read_line c))) < length (cl_in c)"
  using readStringUntil_consumes [of "CHR 0x0D" "cl_in c"]
    readStringUntil_le [of "CHR 0x0A" "snd (readStringUntil (CHR 0x0D) (cl_in c))"]
  by (auto simp: read_line_def case_prod_beta Let_def)

text \<open>What the two loops gather: the form's boundary, whether the body is a form, the length.\<close>

record body_info =
  bi_boundary :: string
  bi_isForm :: bool
  bi_contentLength :: nat

definition post_header ::
    "string \<Rightarrow> nat \<Rightarrow> body_info \<times> 'h WebServer \<Rightarrow> body_info \<times> 'h WebServer" where
  "post_header req headerDiv = (\<lambda>(bi, sv).
     (let headerName = substr 0 headerDiv req;
          headerValue = trim_space (substr_from (headerDiv + 1) req);
          sv = snd (collectHeader headerName headerValue sv)
      in if headerName = ''Content-Type''
         then (if starts_with ''text/plain'' headerValue then (bi\<lparr>bi_isForm := False\<rparr>, sv)
               else if starts_with ''multipart/form-data'' headerValue
               then (bi\<lparr>bi_boundary :=
                        (case index_from (CHR ''='') 0 headerValue of
                           None \<Rightarrow> headerValue | Some n \<Rightarrow> substr_from (n + 1) headerValue),
                        bi_isForm := True\<rparr>, sv)
               else (bi, sv))
         else if headerName = ''Content-Length''
         then (bi\<lparr>bi_contentLength := nat (atol headerValue mod 4294967296)\<rparr>, sv)
         else if headerName = ''Host'' then (bi, sv\<lparr>sv_hostHeader := headerValue\<rparr>)
         else (bi, sv)))"

text \<open>Without a body the value starts two characters after the colon and is not trimmed.\<close>

definition get_header ::
    "string \<Rightarrow> nat \<Rightarrow> body_info \<times> 'h WebServer \<Rightarrow> body_info \<times> 'h WebServer" where
  "get_header req headerDiv = (\<lambda>(bi, sv).
     (let headerName = substr 0 headerDiv req;
          headerValue = substr_from (headerDiv + 2) req;
          sv = snd (collectHeader headerName headerValue sv)
      in (bi, if headerName = ''Host'' then sv\<lparr>sv_hostHeader := headerValue\<rparr> else sv)))"

function parse_headers ::
    "(string \<Rightarrow> nat \<Rightarrow> 's \<Rightarrow> 's) \<Rightarrow> client \<Rightarrow> 's \<Rightarrow> client \<times> 's" where
  "parse_headers step c st =
     (let (req, c') = read_line c
      in if req = [] then (c', st)
         else (case index_from (CHR '':'') 0 req of
                 None \<Rightarrow> (c', st)
               | Some headerDiv \<Rightarrow> parse_headers step c' (step req headerDiv st)))"
  by pat_completeness auto
termination
proof (relation "measure (\<lambda>(step, c, st). length (cl_in c))", goal_cases)
  case (2 step c st x req c' n)
  then have "fst (read_line c) = req" "snd (read_line c) = c'"
    by (metis fst_conv, metis snd_conv)
  then show ?case using 2 read_line_consumes [of c] by auto
qed simp

declare parse_headers.simps [simp del]

definition request_kind :: "string \<Rightarrow> HTTPMethod" where
  "request_kind methodStr =
     (if methodStr = ''POST'' then HTTP_POST
      else if methodStr = ''DELETE'' then HTTP_DELETE
      else if methodStr = ''OPTIONS'' then HTTP_OPTIONS
      else if methodStr = ''PUT'' then HTTP_PUT
      else if methodStr = ''PATCH'' then HTTP_PATCH
      else HTTP_GET)"

text \<open>The request line: method, path and query, or nothing for an invalid one. With no blank at
  all the second search starts at 0.\<close>

definition parse_request_line :: "string \<Rightarrow> (string \<times> string \<times> string) option" where
  "parse_request_line req =
     (case index_from (CHR '' '') 0 req of
        None \<Rightarrow> None
      | Some addr_start \<Rightarrow>
          (case index_from (CHR '' '') (addr_start + 1) req of
             None \<Rightarrow> None
           | Some addr_end \<Rightarrow>
               (let methodStr = substr 0 addr_start req;
                    url = substr (addr_start + 1) addr_end req
                in case index_from (CHR ''?'') 0 url of
                     None \<Rightarrow> Some (methodStr, url, [])
                   | Some hasSearch \<Rightarrow>
                       Some (methodStr, substr 0 hasSearch url, substr_from (hasSearch + 1) url))))"

text \<open>The query with the plain body added to it.\<close>

definition add_plain :: "string \<Rightarrow> string \<Rightarrow> string" where
  "add_plain searchStr body =
     (let searchStr = (if searchStr \<noteq> [] then searchStr @ ''&'' else searchStr);
          plainBuf = c_text body
      in if hd body = CHR ''{'' \<or> hd body = CHR ''['' \<or> CHR ''='' \<notin> set plainBuf
         then searchStr @ ''plain='' @ plainBuf
         else searchStr @ plainBuf)"

section \<open>File uploads\<close>

text \<open>The current handler is told of the upload, if it takes uploads for this path.\<close>

definition notify_upload :: "('h, 'a) environment \<Rightarrow> 'h WebServer \<times> 'a \<Rightarrow> ('h WebServer \<times> 'a) option" where
  "notify_upload env = (\<lambda>(sv, a).
     (case sv_handler sv of
        Some h \<Rightarrow> if canUpload h (sv_uri sv) then handler_upload env h (sv_uri sv) (sv, a) else Some (sv, a)
      | None \<Rightarrow> Some (sv, a)))"

definition upd_upload :: "(HTTPUpload \<Rightarrow> HTTPUpload) \<Rightarrow> 'h WebServer \<Rightarrow> 'h WebServer" where
  "upd_upload f sv = sv\<lparr>sv_upload := f (sv_upload sv)\<rparr>"

definition uploadWriteByte ::
    "('h, 'a) environment \<Rightarrow> u8 \<Rightarrow> 'h WebServer \<times> 'a \<Rightarrow> ('h WebServer \<times> 'a) option" where
  "uploadWriteByte env b = (\<lambda>(sv, a).
     do { (sv, a) \<leftarrow>
            (if length (up_buf (sv_upload sv)) = HTTP_UPLOAD_BUFLEN
             then do { (sv, a) \<leftarrow> notify_upload env (sv, a);
                       Some (upd_upload (\<lambda>u. u\<lparr>up_totalSize := up_totalSize u + length (up_buf u),
                                              up_buf := []\<rparr>) sv, a) }
             else Some (sv, a));
          if length (up_buf (sv_upload sv)) < HTTP_UPLOAD_BUFLEN
          then Some (upd_upload (\<lambda>u. u\<lparr>up_buf := up_buf u @ [b]\<rparr>) sv, a) else None })"

text \<open>\<open>_uploadReadByte\<close> waits while the peer is connected; at the end it gives the byte of \<open>-1\<close>.\<close>

definition uploadReadByte :: "client \<Rightarrow> (u8 \<times> client) option" where
  "uploadReadByte c =
     (case dropWhile (\<lambda>x. x = None) (cl_in c) of
        Some ch # s \<Rightarrow> Some (of_nat (char_code ch), c\<lparr>cl_in := s\<rparr>)
      | _ \<Rightarrow> if cl_open c then None else Some (0xFF, c\<lparr>cl_in := []\<rparr>))"

definition parseFormUploadAborted ::
    "('h, 'a) environment \<Rightarrow> 'h WebServer \<times> 'a \<Rightarrow> ('h WebServer \<times> 'a) option" where
  "parseFormUploadAborted env = (\<lambda>(sv, a).
     notify_upload env (upd_upload (\<lambda>u. u\<lparr>up_status := UPLOAD_FILE_ABORTED\<rparr>) sv, a))"

fun write_bytes :: "('h, 'a) environment \<Rightarrow> u8 list \<Rightarrow> 'h WebServer \<times> 'a \<Rightarrow> ('h WebServer \<times> 'a) option" where
  "write_bytes env [] st = Some st"
| "write_bytes env (b # bs) st = do { st \<leftarrow> uploadWriteByte env b st; write_bytes env bs st }"

definition bytes_of :: "string \<Rightarrow> u8 list" where
  "bytes_of cs = map (\<lambda>c. of_nat (char_code c)) cs"

datatype upload_end = Aborted | LastPart | MoreParts

text \<open>
  The part of \<open>_parseForm\<close> from the label \<open>readfile\<close>, entered with the byte just read. A line end
  followed by two dashes and the boundary ends the file; \<open>strstr\<close> on the unterminated \<open>endBuf\<close>
  is taken as equality with the boundary, and bytes of \<open>endBuf\<close> that were not read are not used.
\<close>

partial_function (option) read_file ::
    "('h, 'a) environment \<Rightarrow> string \<Rightarrow> u8 \<Rightarrow> client \<Rightarrow> 'h WebServer \<times> 'a
     \<Rightarrow> (upload_end \<times> client \<times> 'h WebServer \<times> 'a) option" where
  "read_file env boundary b c st =
     (if b \<noteq> 0x0D
      then (if \<not> connected c then map_option (\<lambda>st. (Aborted, c, st)) (parseFormUploadAborted env st)
            else do { st \<leftarrow> uploadWriteByte env b st;
                      (b, c) \<leftarrow> uploadReadByte c;
                      read_file env boundary b c st })
      else do { (b, c) \<leftarrow> uploadReadByte c;
        if \<not> connected c then map_option (\<lambda>st. (Aborted, c, st)) (parseFormUploadAborted env st)
        else if b = 0x0A
        then do { (b, c) \<leftarrow> uploadReadByte c;
          if \<not> connected c then map_option (\<lambda>st. (Aborted, c, st)) (parseFormUploadAborted env st)
          else if b \<noteq> 0x2D
          then do { st \<leftarrow> write_bytes env [0x0D, 0x0A] st; read_file env boundary b c st }
          else do { (b, c) \<leftarrow> uploadReadByte c;
            if \<not> connected c then map_option (\<lambda>st. (Aborted, c, st)) (parseFormUploadAborted env st)
            else if b \<noteq> 0x2D
            then do { st \<leftarrow> write_bytes env [0x0D, 0x0A, 0x2D] st; read_file env boundary b c st }
            else (let (endBuf, s) = readBytes (cl_in c) (length boundary); c = c\<lparr>cl_in := s\<rparr>
                  in if endBuf = boundary
                     then do { (sv, a) \<leftarrow> notify_upload env st;
                               let sv = upd_upload (\<lambda>u. u\<lparr>up_totalSize := up_totalSize u + length (up_buf u),
                                                          up_status := UPLOAD_FILE_END\<rparr>) sv
                               in do { st \<leftarrow> notify_upload env (sv, a);
                                       let (line, c) = read_line c
                                       in Some (if line = ''--'' then LastPart else MoreParts, c, st) } }
                     else if length endBuf < length boundary then None
                     else do { st \<leftarrow> write_bytes env ([0x0D, 0x0A, 0x2D, 0x2D] @ bytes_of endBuf) st;
                               (b, c) \<leftarrow> uploadReadByte c;
                               read_file env boundary b c st }) } }
        else do { st \<leftarrow> uploadWriteByte env 0x0D st; read_file env boundary b c st } })"

section \<open>Forms\<close>

text \<open>The lines of a value, up to the one that starts with the boundary.\<close>

partial_function (option) read_value ::
    "string \<Rightarrow> string \<Rightarrow> client \<Rightarrow> (string \<times> string \<times> client) option" where
  "read_value boundary argValue c =
     (let (line, c) = read_line c
      in if starts_with (''--'' @ boundary) line then Some (argValue, line, c)
         else read_value boundary
                ((if length argValue > 0 then argValue @ [CHR 0x0A] else argValue) @ line) c)"

text \<open>Name, file name and kind of a part from what follows \<open>name=\<close> and its quote.\<close>

definition part_name :: "string \<Rightarrow> string \<times> string \<times> bool" where
  "part_name nm =
     (case index_from (CHR ''='') 0 nm of
        None \<Rightarrow> (substr 0 (length nm - 1) nm, [], False)
      | Some nameStart \<Rightarrow>
          (substr 0 (case index_from (CHR 0x22) 0 nm of None \<Rightarrow> 4294967295 | Some q \<Rightarrow> q) nm,
           substr (nameStart + 2) (length nm - 1) nm, True))"

definition begin_upload :: "string \<Rightarrow> string \<Rightarrow> string \<Rightarrow> 'h WebServer \<Rightarrow> 'h WebServer" where
  "begin_upload name filename type sv =
     sv\<lparr>sv_upload := \<lparr>up_status = UPLOAD_FILE_START, up_filename = filename, up_name = name,
                      up_type = type, up_totalSize = 0, up_buf = []\<rparr>\<rparr>"

text \<open>The loop over the parts: the arguments of the form, or nothing when an upload is aborted.
  There is room for 32 arguments.\<close>

partial_function (option) form_parts ::
    "('h, 'a) environment \<Rightarrow> string \<Rightarrow> RequestArgument list \<Rightarrow> client \<Rightarrow> 'h WebServer \<times> 'a
     \<Rightarrow> (RequestArgument list option \<times> client \<times> 'h WebServer \<times> 'a) option" where
  "form_parts env boundary postArgs c st =
     (let (line, c) = read_line c
      in if \<not> starts_with ''Content-Disposition'' line then form_parts env boundary postArgs c st
         else (case index_from (CHR ''='') 0 line of
           None \<Rightarrow> form_parts env boundary postArgs c st
         | Some nameStart \<Rightarrow>
            (let (nm, argFilename, argIsFile) = part_name (substr_from (nameStart + 2) line);
                 argFilename = (if argIsFile \<and> argFilename = ''blob'' \<and> hasArg ''filename'' (fst st)
                                then arg ''filename'' (fst st) else argFilename);
                 (line, c) = read_line c;
                 (argType, c) =
                   (if starts_with ''Content-Type'' line
                    then (substr_from (case index_from (CHR '':'') 0 line of None \<Rightarrow> 1 | Some n \<Rightarrow> n + 2) line,
                          snd (read_line c))
                    else (''text/plain'', c))
             in if \<not> argIsFile
                then do { (argValue, line, c) \<leftarrow> read_value boundary [] c;
                          if length postArgs \<ge> 32 then None
                          else (let postArgs = postArgs @ [\<lparr>arg_key = nm, arg_value = argValue\<rparr>]
                                in if line = ''--'' @ boundary @ ''--'' then Some (Some postArgs, c, st)
                                   else form_parts env boundary postArgs c st) }
                else (let (sv, a) = st
                      in do { (sv, a) \<leftarrow> notify_upload env (begin_upload nm argFilename argType sv, a);
                              let sv = upd_upload (\<lambda>u. u\<lparr>up_status := UPLOAD_FILE_WRITE\<rparr>) sv
                              in do { (b, c) \<leftarrow> uploadReadByte c;
                                      (r, c, st) \<leftarrow> read_file env boundary b c (sv, a);
                                      case r of
                                        Aborted \<Rightarrow> Some (None, c, st)
                                      | LastPart \<Rightarrow> Some (Some postArgs, c, st)
                                      | MoreParts \<Rightarrow> form_parts env boundary postArgs c st } }))))"

text \<open>\<open>do { line = ...; ++retry; } while (line.length() == 0 && retry < 3);\<close>\<close>

definition form_first_line :: "client \<Rightarrow> string \<times> client" where
  "form_first_line c =
     (let until_cr = (\<lambda>c. let (l, s) = readStringUntil (CHR 0x0D) (cl_in c) in (l, c\<lparr>cl_in := s\<rparr>));
          (line, c) = until_cr c;
          (line, c) = (if line = [] then until_cr c else (line, c));
          (line, c) = (if line = [] then until_cr c else (line, c))
      in (line, c\<lparr>cl_in := snd (readStringUntil (CHR 0x0A) (cl_in c))\<rparr>))"

definition parseForm ::
    "('h, 'a) environment \<Rightarrow> string \<Rightarrow> client \<Rightarrow> 'h WebServer \<times> 'a
     \<Rightarrow> (bool \<times> client \<times> 'h WebServer \<times> 'a) option" where
  "parseForm env boundary c st =
     (let (line, c) = form_first_line c
      in if line = ''--'' @ boundary
         then do { (r, c, sv, a) \<leftarrow> form_parts env boundary [] c st;
                   case r of
                     None \<Rightarrow> Some (False, c, sv, a)
                   | Some postArgs \<Rightarrow>
                       Some (True, c, sv\<lparr>sv_args := postArgs @ take (32 - length postArgs) (sv_args sv)\<rparr>, a) }
         else Some (False, c, st))"

section \<open>The whole request\<close>

text \<open>\<open>flush\<close> drops what has arrived.\<close>

definition client_flush :: "client \<Rightarrow> client" where
  "client_flush c = c\<lparr>cl_in := drop (length (arriving (cl_in c))) (cl_in c)\<rparr>"

definition parseRequest ::
    "('h, 'a) environment \<Rightarrow> client \<Rightarrow> 'h WebServer \<times> 'a \<Rightarrow> (bool \<times> client \<times> 'h WebServer \<times> 'a) option" where
  "parseRequest env c = (\<lambda>(sv, a).
     (let (req, c) = read_line c;
          sv = sv\<lparr>sv_headers := map (\<lambda>h. h\<lparr>arg_value := []\<rparr>) (sv_headers sv)\<rparr>
      in case parse_request_line req of
           None \<Rightarrow> Some (False, c, sv, a)
         | Some (methodStr, url, searchStr) \<Rightarrow>
             (let meth = request_kind methodStr;
                  sv = sv\<lparr>sv_uri := url, sv_method := meth\<rparr>;
                  sv = sv\<lparr>sv_handler := first_handler sv\<rparr>;
                  start = (\<lparr>bi_boundary = [], bi_isForm = False, bi_contentLength = 0\<rparr>, sv)
              in if meth \<in> {HTTP_POST, HTTP_PUT, HTTP_PATCH, HTTP_DELETE}
                 then (let (c, bi, sv) = parse_headers post_header c start
                       in if \<not> bi_isForm bi
                          then (let (plainBuf, plainLength, c) = readBytesWithTimeout c (bi_contentLength bi)
                                in if plainLength < bi_contentLength bi then Some (False, c, sv, a)
                                   else (let searchStr =
                                               (case plainBuf of
                                                  Some body \<Rightarrow> if bi_contentLength bi > 0 then add_plain searchStr body
                                                               else searchStr
                                                | None \<Rightarrow> searchStr)
                                         in Some (True, client_flush c, parseArguments searchStr sv, a)))
                          else do { (ok, c, st) \<leftarrow> parseForm env (bi_boundary bi) c (parseArguments searchStr sv, a);
                                    Some (if ok then (True, client_flush c, st) else (False, c, st)) })
                 else (let (c, bi, sv) = parse_headers get_header c start
                       in Some (True, client_flush c, parseArguments searchStr sv, a)))))"

section \<open>Lemmas\<close>

subsection \<open>Arguments\<close>

lemma hex_val_hex_char: "d < 16 \<Longrightarrow> hex_val (hex_char d) = Some d"
proof -
  have "list_all (\<lambda>d. hex_val (hex_char d) = Some d) [0..<16]" by code_simp
  then show "d < 16 \<Longrightarrow> ?thesis" by (auto simp: list_all_iff)
qed

lemma urlDecode_encode_char: "urlDecode (encode_char c @ rest) = c # urlDecode rest"
proof -
  have d: "char_code c div 16 < 16" "char_code c mod 16 < 16" using char_code_less [of c] by simp_all
  have "char_of (16 * (char_code c div 16) + char_code c mod 16) = c"
    by (simp add: char_code_def)
  then show ?thesis
    using unreserved_chars [of c]
    by (auto simp: encode_char_def hex_pair_def hex_val_hex_char [OF d(1)] hex_val_hex_char [OF d(2)])
qed

lemma urlDecode_encode: "urlDecode (url_encode v) = v"
  by (induction v) (simp_all add: url_encode_def urlDecode_encode_char)

lemma index_from_skip:
  assumes "c \<notin> set w"
  shows "index_from c (length pre) (pre @ w @ c # rest) = Some (length pre + length w)"
  using find_sub_singleton_append [OF assms, of rest] by (simp add: index_from_def)

lemma index_from_skip_absent: "c \<notin> set w \<Longrightarrow> index_from c (length pre) (pre @ w) = None"
  by (simp add: index_from_def find_sub_singleton_None)

definition key_ok :: "string \<times> string \<Rightarrow> bool" where
  "key_ok = (\<lambda>(k, v). CHR ''&'' \<notin> set k \<and> CHR ''='' \<notin> set k)"

definition argument_of :: "string \<times> string \<Rightarrow> RequestArgument" where
  "argument_of = (\<lambda>(k, v). \<lparr>arg_key = k, arg_value = v\<rparr>)"

lemma parse_args_loop_print:
  assumes "qs \<noteq> []" "list_all key_ok qs" "length (pre @ print_params qs) < 4294967296"
    and "n = length ds + length qs"
  shows "parse_args_loop (pre @ print_params qs) n (length pre) ds = ds @ map argument_of qs"
  using assms
proof (induction qs arbitrary: pre ds rule: print_params.induct)
  case 1
  then show ?case by simp
next
  case (2 p)
  obtain k v where p: "p = (k, v)" by (cases p)
  have amp: "CHR ''&'' \<notin> set (k @ ''='' @ url_encode v)" and eq: "CHR ''='' \<notin> set k"
    using 2(2) url_encode_chars [of _ v] by (auto simp: p key_ok_def)
  have "index_from CHR ''='' (length pre) (pre @ k @ CHR ''='' # url_encode v) = Some (length pre + length k)"
    using index_from_skip [OF eq, of pre] by simp
  moreover have "index_from CHR ''&'' (length pre) (pre @ k @ CHR ''='' # url_encode v) = None"
    using index_from_skip_absent [OF amp, of pre] by simp
  ultimately show ?case using 2(3,4)
    by (subst parse_args_loop.simps) (simp add: p print_pair_def argument_of_def substr_def urlDecode_encode)
next
  case (3 p q qs)
  obtain k v where p: "p = (k, v)" by (cases p)
  let ?rest = "print_params (q # qs)"
  let ?data = "pre @ k @ CHR ''='' # url_encode v @ CHR ''&'' # ?rest"
  let ?pre = "pre @ print_pair p @ ''&''"
  have amp: "CHR ''&'' \<notin> set (k @ ''='' @ url_encode v)" and eq: "CHR ''='' \<notin> set k"
    using 3(3) url_encode_chars [of _ v] by (auto simp: p key_ok_def)
  have "index_from CHR ''='' (length pre) ?data = Some (length pre + length k)"
    using index_from_skip [OF eq, of pre "url_encode v @ CHR ''&'' # ?rest"] by simp
  moreover have "index_from CHR ''&'' (length pre) ?data = Some (length pre + (length k + Suc (length (url_encode v))))"
    using index_from_skip [OF amp, of pre ?rest] by simp
  ultimately have "parse_args_loop (pre @ print_params (p # q # qs)) n (length pre) ds =
      parse_args_loop (?pre @ ?rest) n (length ?pre) (ds @ [argument_of p])"
    using 3(5)
    by (subst parse_args_loop.simps) (simp add: p print_pair_def argument_of_def substr_def urlDecode_encode)
  also have "\<dots> = ds @ [argument_of p] @ map argument_of (q # qs)"
    using 3(3,4,5) by (subst 3(1)) (simp_all add: p print_pair_def)
  finally show ?case by simp
qed

lemma count_args_print: "ps \<noteq> [] \<Longrightarrow> list_all key_ok ps \<Longrightarrow> count_args (print_params ps) = length ps"
proof (induction ps rule: print_params.induct)
  case (2 p)
  then show ?case using url_encode_chars
    by (cases p) (auto simp: count_args_def print_pair_def key_ok_def filter_empty_conv)
next
  case (3 p q qs)
  then have "filter (\<lambda>c. c = CHR ''&'') (print_pair p) = []"
    using url_encode_chars by (cases p) (auto simp: print_pair_def key_ok_def filter_empty_conv)
  then show ?case using 3 by (simp add: count_args_def)
qed simp

subsection \<open>Reading a value\<close>

lemma readStringUntil_set:
  "Some ` set (fst (readStringUntil c s)) \<subseteq> set s \<and> set (snd (readStringUntil c s)) \<subseteq> set s"
proof -
  have "Some ` set (fst (readStringUntil_loop c ret s)) \<subseteq> Some ` set ret \<union> set s \<and>
      set (snd (readStringUntil_loop c ret s)) \<subseteq> set s" for ret
    by (induction c ret s rule: readStringUntil_loop.induct) auto
  from this [of "[]"] show ?thesis by (simp add: readStringUntil_def)
qed

lemma read_line_set:
  "Some ` set (fst (read_line c)) \<subseteq> set (cl_in c) \<and> set (cl_in (snd (read_line c))) \<subseteq> set (cl_in c)"
  using readStringUntil_set [of "CHR 0x0D" "cl_in c"]
    readStringUntil_set [of "CHR 0x0A" "snd (readStringUntil (CHR 0x0D) (cl_in c))"]
  by (auto simp: read_line_def case_prod_beta Let_def)

lemma read_value_dash: "read_value boundary v c = Some r \<Longrightarrow> Some CHR ''-'' \<in> set (cl_in c)"
proof (induction rule: read_value.raw_induct [rotated, consumes 1, case_names step])
  case (step f boundary v c r)
  obtain l c' where lc: "read_line c = (l, c')" by (cases "read_line c")
  have sub: "Some ` set l \<subseteq> set (cl_in c)" "set (cl_in c') \<subseteq> set (cl_in c)"
    using read_line_set [of c] lc by auto
  show ?case
  proof (cases "starts_with (''--'' @ boundary) l")
    case True
    then have "CHR ''-'' \<in> set l" by (auto simp: starts_with_iff)
    then show ?thesis using sub(1) by blast
  next
    case False
    with step(2) lc have "Some CHR ''-'' \<in> set (cl_in c')" by (auto intro: step(1))
    then show ?thesis using sub(2) by blast
  qed
qed

subsection \<open>Uploading a file\<close>

text \<open>A handler that appends the bytes of every write to the application state.\<close>

definition collects :: "('h, u8 list) environment \<Rightarrow> 'h WebServer \<Rightarrow> bool" where
  "collects env sv \<longleftrightarrow>
     (\<forall>u a. notify_upload env (sv\<lparr>sv_upload := u\<rparr>, a) =
        Some (sv\<lparr>sv_upload := u\<rparr>, if up_status u = UPLOAD_FILE_WRITE then a @ up_buf u else a))"

text \<open>The state while the bytes \<open>d\<close> of a file have been taken: what the handler has, followed by
  the buffer.\<close>

definition uploading :: "'h WebServer \<Rightarrow> u8 list \<Rightarrow> u8 list \<Rightarrow> 'h WebServer \<times> u8 list \<Rightarrow> bool" where
  "uploading sv a0 d st \<longleftrightarrow>
     (\<exists>t b a. st = (upd_upload (\<lambda>u. u\<lparr>up_totalSize := t, up_buf := b\<rparr>) sv, a) \<and>
        length b \<le> HTTP_UPLOAD_BUFLEN \<and> a @ b = a0 @ d \<and> t + length b = length d)"

lemma collects_upd:
  "collects env sv \<Longrightarrow> notify_upload env (upd_upload f sv, a) =
     Some (upd_upload f sv, if up_status (f (sv_upload sv)) = UPLOAD_FILE_WRITE
                            then a @ up_buf (f (sv_upload sv)) else a)"
  by (simp add: collects_def upd_upload_def)

lemma upd_upload_twice [simp]: "upd_upload f (upd_upload g sv) = upd_upload (\<lambda>u. f (g u)) sv"
  by (simp add: upd_upload_def)

lemma sv_upload_upd [simp]: "sv_upload (upd_upload f sv) = f (sv_upload sv)"
  by (simp add: upd_upload_def)

lemma uploadWriteByte_takes:
  assumes "collects env sv" "up_status (sv_upload sv) = UPLOAD_FILE_WRITE" "uploading sv a0 d st"
  shows "\<exists>st'. uploadWriteByte env x st = Some st' \<and> uploading sv a0 (d @ [x]) st'"
proof -
  obtain t b a where st: "st = (upd_upload (\<lambda>u. u\<lparr>up_totalSize := t, up_buf := b\<rparr>) sv, a)"
    and b: "length b \<le> HTTP_UPLOAD_BUFLEN" "a @ b = a0 @ d" "t + length b = length d"
    using assms(3) by (auto simp: uploading_def)
  show ?thesis
  proof (cases "length b = HTTP_UPLOAD_BUFLEN")
    case True
    then have "uploadWriteByte env x st =
        Some (upd_upload (\<lambda>u. u\<lparr>up_totalSize := t + length b, up_buf := [x]\<rparr>) sv, a @ b)"
      using assms(2) by (simp add: st uploadWriteByte_def collects_upd [OF assms(1)] HTTP_UPLOAD_BUFLEN_def)
    moreover have "uploading sv a0 (d @ [x])
        (upd_upload (\<lambda>u. u\<lparr>up_totalSize := t + length b, up_buf := [x]\<rparr>) sv, a @ b)"
      unfolding uploading_def using b
      by (intro exI [of _ "t + length b"] exI [of _ "[x]"] exI [of _ "a @ b"]) (simp add: HTTP_UPLOAD_BUFLEN_def)
    ultimately show ?thesis by blast
  next
    case False
    with b have "uploadWriteByte env x st =
        Some (upd_upload (\<lambda>u. u\<lparr>up_totalSize := t, up_buf := b @ [x]\<rparr>) sv, a)"
      by (simp add: st uploadWriteByte_def)
    moreover have "uploading sv a0 (d @ [x]) (upd_upload (\<lambda>u. u\<lparr>up_totalSize := t, up_buf := b @ [x]\<rparr>) sv, a)"
      unfolding uploading_def using b False
      by (intro exI [of _ t] exI [of _ "b @ [x]"] exI [of _ a]) (simp flip: append_assoc)
    ultimately show ?thesis by blast
  qed
qed

lemma write_bytes_takes:
  assumes "collects env sv" "up_status (sv_upload sv) = UPLOAD_FILE_WRITE" "uploading sv a0 d st"
  shows "\<exists>st'. write_bytes env bs st = Some st' \<and> uploading sv a0 (d @ bs) st'"
  using assms(3)
proof (induction bs arbitrary: d st)
  case (Cons x bs)
  obtain st1 where "uploadWriteByte env x st = Some st1" "uploading sv a0 (d @ [x]) st1"
    using uploadWriteByte_takes [OF assms(1,2) Cons.prems] by blast
  with Cons.IH [of "d @ [x]" st1] show ?case by simp
qed simp

definition byte :: "char \<Rightarrow> u8" where
  "byte ch = of_nat (char_code ch)"

lemma byte_eq_iff: "byte x = byte y \<longleftrightarrow> x = y"
proof
  assume "byte x = byte y"
  then have "unat (byte x) = unat (byte y)" by simp
  then have "char_code x = char_code y"
    using char_code_less [of x] char_code_less [of y] by (simp add: byte_def unat_of_nat)
  then show "x = y" by (simp add: char_code_def)
qed simp

lemma byte_consts:
  "byte x = 0x0D \<longleftrightarrow> x = CHR 0x0D" "byte x = 0x0A \<longleftrightarrow> x = CHR 0x0A" "byte x = 0x2D \<longleftrightarrow> x = CHR ''-''"
  using byte_eq_iff [of x "CHR 0x0D"] byte_eq_iff [of x "CHR 0x0A"] byte_eq_iff [of x "CHR ''-''"]
  by (simp_all add: byte_def char_code_def)

lemma bytes_of_simps [simp]: "bytes_of [] = []" "bytes_of (x # xs) = byte x # bytes_of xs"
  by (simp_all add: bytes_of_def byte_def)

lemma uploadReadByte_some [simp]:
  "uploadReadByte (c\<lparr>cl_in := Some x # s\<rparr>) = Some (byte x, c\<lparr>cl_in := s\<rparr>)"
  by (simp add: uploadReadByte_def byte_def)

lemma connected_open [simp]: "cl_open c \<Longrightarrow> connected (c\<lparr>cl_in := s\<rparr>)"
  by (simp add: connected_def)

definition delimiter :: "string \<Rightarrow> string" where
  "delimiter boundary = CHR 0x0D # CHR 0x0A # CHR ''-'' # CHR ''-'' # boundary"

definition delimiter_start :: string where
  "delimiter_start = [CHR 0x0D, CHR 0x0A, CHR ''-'', CHR ''-'']"

text \<open>One round of \<open>readfile\<close> on a connection that stays open.\<close>

lemma read_file_byte:
  "b \<noteq> 0x0D \<Longrightarrow> cl_open c \<Longrightarrow> read_file env boundary b (c\<lparr>cl_in := Some x # s\<rparr>) st =
     do { st \<leftarrow> write_bytes env [b] st; read_file env boundary (byte x) (c\<lparr>cl_in := s\<rparr>) st }"
  by (subst read_file.simps) (simp add: Option.bind_assoc)

lemma read_file_cr:
  "x \<noteq> CHR 0x0A \<Longrightarrow> cl_open c \<Longrightarrow> read_file env boundary 0x0D (c\<lparr>cl_in := Some x # s\<rparr>) st =
     do { st \<leftarrow> write_bytes env [0x0D] st; read_file env boundary (byte x) (c\<lparr>cl_in := s\<rparr>) st }"
  by (subst read_file.simps) (simp add: byte_consts Option.bind_assoc)

lemma read_file_crlf:
  "x \<noteq> CHR ''-'' \<Longrightarrow> cl_open c \<Longrightarrow>
   read_file env boundary 0x0D (c\<lparr>cl_in := Some CHR 0x0A # Some x # s\<rparr>) st =
     do { st \<leftarrow> write_bytes env [0x0D, 0x0A] st; read_file env boundary (byte x) (c\<lparr>cl_in := s\<rparr>) st }"
  by (subst read_file.simps) (simp add: byte_consts)

lemma read_file_crlf_dash:
  "x \<noteq> CHR ''-'' \<Longrightarrow> cl_open c \<Longrightarrow>
   read_file env boundary 0x0D (c\<lparr>cl_in := Some CHR 0x0A # Some CHR ''-'' # Some x # s\<rparr>) st =
     do { st \<leftarrow> write_bytes env [0x0D, 0x0A, 0x2D] st; read_file env boundary (byte x) (c\<lparr>cl_in := s\<rparr>) st }"
proof -
  have "byte CHR ''-'' = 0x2D" "byte CHR 0x0A = 0x0A" by (simp_all add: byte_consts)
  then show "x \<noteq> CHR ''-'' \<Longrightarrow> cl_open c \<Longrightarrow> ?thesis"
    by (subst read_file.simps) (simp add: byte_consts)
qed

lemma read_file_upto_delimiter:
  assumes "collects env sv" "up_status (sv_upload sv) = UPLOAD_FILE_WRITE" "cl_open c"
    and "find_sub delimiter_start w = None" "uploading sv a0 d st"
  shows "\<exists>st'. uploading sv a0 (d @ bytes_of w) st' \<and>
    read_file env boundary (byte (hd (w @ delimiter boundary)))
        (c\<lparr>cl_in := map Some (tl (w @ delimiter boundary)) @ rest\<rparr>) st =
      read_file env boundary 0x0D (c\<lparr>cl_in := map Some (tl (delimiter boundary)) @ rest\<rparr>) st'"
  using assms(4,5)
proof (induction w arbitrary: d st rule: measure_induct_rule [where f = length])
  case (less w)
  let ?goes = "\<lambda>w st'. read_file env boundary (byte (hd (w @ delimiter boundary)))
        (c\<lparr>cl_in := map Some (tl (w @ delimiter boundary)) @ rest\<rparr>) st'"
  have cr: "byte CHR 0x0D = 0x0D" "byte CHR 0x0A = 0x0A" "byte CHR ''-'' = 0x2D"
    by (simp_all add: byte_consts)
  have next_part: ?case
    if w: "w = p @ w'" "p \<noteq> []" and bytes: "\<exists>st'. write_bytes env (bytes_of p) st = Some st'"
      and go: "\<And>st'. write_bytes env (bytes_of p) st = Some st' \<Longrightarrow> ?goes w st = ?goes w' st'" for p w'
  proof -
    obtain st1 where st1: "write_bytes env (bytes_of p) st = Some st1" "uploading sv a0 (d @ bytes_of p) st1"
      using write_bytes_takes [OF assms(1,2) less.prems(2), of "bytes_of p"] by blast
    have "find_sub delimiter_start w' = None"
      using find_sub_None [OF less.prems(1)] w(1)
      by (intro find_sub_NoneI) (metis append_eq_conv_conj drop_drop)
    then obtain st' where "uploading sv a0 ((d @ bytes_of p) @ bytes_of w') st'"
      "?goes w' st1 = read_file env boundary 0x0D (c\<lparr>cl_in := map Some (tl (delimiter boundary)) @ rest\<rparr>) st'"
      using less.IH [of w' "d @ bytes_of p" st1] w st1(2) by auto
    then show ?thesis using go [OF st1(1)] w(1) by (intro exI [of _ st']) (simp add: bytes_of_def)
  qed
  have total: "\<exists>st'. write_bytes env bs st = Some st'" for bs
    using write_bytes_takes [OF assms(1,2) less.prems(2), of bs] by blast
  show ?case
  proof (cases w)
    case Nil
    then show ?thesis using less.prems(2) by (intro exI [of _ st]) (simp add: delimiter_def cr)
  next
    case (Cons x w1)
    obtain y s where y: "w1 @ delimiter boundary = y # s" by (cases w1) (auto simp: delimiter_def)
    show ?thesis
    proof (cases "x = CHR 0x0D")
      case False
      then have "byte x \<noteq> 0x0D" by (simp add: byte_consts)
      then show ?thesis
        using read_file_byte [of "byte x" c env boundary y "map Some s @ rest" st] Cons y assms(3)
        by (intro next_part [of "[x]" w1, OF _ _ total]) (simp_all del: write_bytes.simps)
    next
      case True
      show ?thesis
      proof (cases "y = CHR 0x0A")
        case False
        then show ?thesis
          using read_file_cr [of y c env boundary "map Some s @ rest" st] True Cons y assms(3) cr
          by (intro next_part [of "[x]" w1, OF _ _ total]) (simp_all del: write_bytes.simps)
      next
        case lf: True
        then obtain w2 where w2: "w1 = CHR 0x0A # w2" using y by (cases w1) (auto simp: delimiter_def)
        obtain z s2 where z: "w2 @ delimiter boundary = z # s2" by (cases w2) (auto simp: delimiter_def)
        show ?thesis
        proof (cases "z = CHR ''-''")
          case False
          then show ?thesis
            using read_file_crlf [of z c env boundary "map Some s2 @ rest" st] True Cons w2 z assms(3) cr
            by (intro next_part [of "[x, CHR 0x0A]" w2, OF _ _ total]) (simp_all del: write_bytes.simps)
        next
          case dash: True
          then obtain w3 where w3: "w2 = CHR ''-'' # w3" using z by (cases w2) (auto simp: delimiter_def)
          obtain v s3 where v: "w3 @ delimiter boundary = v # s3" by (cases w3) (auto simp: delimiter_def)
          have "v \<noteq> CHR ''-''"
          proof
            assume "v = CHR ''-''"
            then have "starts_at delimiter_start (drop 0 w)"
              using v by (cases w3) (auto simp: Cons w2 w3 True delimiter_start_def delimiter_def starts_at_def)
            then show False using find_sub_None [OF less.prems(1)] by blast
          qed
          then show ?thesis
            using read_file_crlf_dash [of v c env boundary "map Some s3 @ rest" st] True Cons w2 w3 v assms(3) cr
            by (intro next_part [of "[x, CHR 0x0A, CHR ''-'']" w3, OF _ _ total]) (simp_all del: write_bytes.simps)
        qed
      qed
    qed
  qed
qed

lemma read_line_text:
  assumes "CHR 0x0D \<notin> set l"
  shows "read_line (c\<lparr>cl_in := map Some (l @ CHR 0x0D # CHR 0x0A # after) @ rest\<rparr>) =
    (l, c\<lparr>cl_in := map Some after @ rest\<rparr>)"
  using readStringUntil_found [OF assms, of "Some CHR 0x0A # map Some after @ rest"]
    readStringUntil_found [of "CHR 0x0A" "[]" "map Some after @ rest"]
  by (simp add: read_line_def)

lemma read_file_delimiter:
  assumes "collects env sv" "up_status (sv_upload sv) = UPLOAD_FILE_WRITE" "cl_open c"
    and "CHR 0x0D \<notin> set l" "uploading sv a0 d st"
  shows "\<exists>b. read_file env boundary 0x0D
      (c\<lparr>cl_in := map Some (tl (delimiter boundary) @ l @ CHR 0x0D # CHR 0x0A # after) @ rest\<rparr>) st =
    Some (if l = ''--'' then LastPart else MoreParts, c\<lparr>cl_in := map Some after @ rest\<rparr>,
      upd_upload (\<lambda>u. u\<lparr>up_buf := b, up_totalSize := length d, up_status := UPLOAD_FILE_END\<rparr>) sv, a0 @ d)"
proof -
  obtain t b a where st: "st = (upd_upload (\<lambda>u. u\<lparr>up_totalSize := t, up_buf := b\<rparr>) sv, a)"
    and b: "a @ b = a0 @ d" "t + length b = length d"
    using assms(5) by (auto simp: uploading_def)
  have rb: "readBytes (map Some boundary @ s) (length boundary) = (boundary, s)" for s
    by (rule readBytes_found) simp
  have rl: "read_line (c\<lparr>cl_in := map Some l @ Some CHR 0x0D # Some CHR 0x0A # map Some after @ rest\<rparr>) =
      (l, c\<lparr>cl_in := map Some after @ rest\<rparr>)"
    using read_line_text [OF assms(4), where c = c] by simp
  have bytes: "byte CHR 0x0A = 0x0A" "byte CHR ''-'' = 0x2D" by (simp_all add: byte_consts)
  show ?thesis
    using assms(2,3) b
    by (intro exI [of _ b], subst read_file.simps)
       (simp add: st delimiter_def bytes rb rl collects_upd [OF assms(1)])
qed

text \<open>A form with one file.\<close>

definition file_part :: "string \<Rightarrow> string \<Rightarrow> string \<Rightarrow> string" where
  "file_part name filename type =
     ''Content-Disposition: form-data; name='' @ CHR 0x22 # name @ CHR 0x22 # ''; filename='' @
       CHR 0x22 # filename @ CHR 0x22 # crlf @ ''Content-Type: '' @ type @ crlf @ crlf"

definition file_form :: "string \<Rightarrow> string \<Rightarrow> string \<Rightarrow> string \<Rightarrow> string \<Rightarrow> string" where
  "file_form boundary name filename type w =
     ''--'' @ boundary @ crlf @ file_part name filename type @ w @ delimiter boundary @ ''--'' @ crlf"

lemma part_name_file:
  assumes "CHR ''='' \<notin> set name" "CHR 0x22 \<notin> set name"
  shows "part_name (name @ CHR 0x22 # ''; filename='' @ CHR 0x22 # filename @ [CHR 0x22]) = (name, filename, True)"
proof -
  let ?nm = "name @ CHR 0x22 # ''; filename='' @ CHR 0x22 # filename @ [CHR 0x22]"
  have "index_from CHR ''='' 0 ((name @ CHR 0x22 # ''; filename'') @ CHR ''='' # CHR 0x22 # filename @ [CHR 0x22]) =
      Some (length name + 11)"
    using assms(1) by (subst index_from_append) auto
  then have eq: "index_from CHR ''='' 0 ?nm = Some (length name + 11)" by simp
  have "index_from CHR 0x22 0 ?nm = Some (length name)"
    using index_from_append [OF assms(2)] by simp
  with eq show ?thesis by (simp add: part_name_def substr_def)
qed

lemma form_parts_file:
  assumes "read_line c = (l1, c1)" "starts_with ''Content-Disposition'' l1" "index_from CHR ''='' 0 l1 = Some n"
    and "part_name (substr_from (n + 2) l1) = (nm, fname, True)" "fname \<noteq> ''blob''"
    and "read_line c1 = (l2, c2)" "starts_with ''Content-Type'' l2" "index_from CHR '':'' 0 l2 = Some m"
    and "snd (read_line c2) = c3"
    and "notify_upload env (begin_upload nm fname (substr_from (m + 2) l2) sv, a) = Some (sv1, a1)"
    and "do { (b, c) \<leftarrow> uploadReadByte c3;
              read_file env boundary b c (upd_upload (\<lambda>u. u\<lparr>up_status := UPLOAD_FILE_WRITE\<rparr>) sv1, a1) } =
         Some (LastPart, c4, st4)"
  shows "form_parts env boundary ps c (sv, a) = Some (Some ps, c4, st4)"
  using assms(11)
  by (subst form_parts.simps, cases st4)
     (auto simp: assms(1-3,5-9) assms(4,10) [simplified] bind_eq_Some_conv)

text \<open>C28: An uploaded file reaches its handler byte for byte: whatever the file holds, line ends and
  dashes included, short of a line end followed by two dashes, the handler has been given
  exactly its bytes, in order and in pieces of at most 2048, when the upload is reported as
  ended, and the reported size is its length.\<close>

theorem upload_delivers_file:
  assumes "collects env sv" "cl_open c" "find_sub delimiter_start w = None"
    and "CHR 0x0D \<notin> set (boundary @ name @ filename @ type)"
    and "CHR ''='' \<notin> set name" "CHR 0x22 \<notin> set name" "filename \<noteq> ''blob''"
  shows "\<exists>b. parseForm env boundary
      (c\<lparr>cl_in := map Some (file_form boundary name filename type w) @ rest\<rparr>) (sv, a) =
    Some (True, c\<lparr>cl_in := rest\<rparr>,
      sv\<lparr>sv_upload := \<lparr>up_status = UPLOAD_FILE_END, up_filename = filename, up_name = name, up_type = type,
                      up_totalSize = length w, up_buf = b\<rparr>, sv_args := take 32 (sv_args sv)\<rparr>,
      a @ bytes_of w)"
proof -
  let ?line = "''Content-Disposition: form-data; name='' @ CHR 0x22 # name @ CHR 0x22 # ''; filename='' @
       CHR 0x22 # filename @ [CHR 0x22]"
  let ?content = "w @ delimiter boundary @ ''--'' @ crlf"
  let ?sv = "upd_upload (\<lambda>u. u\<lparr>up_status := UPLOAD_FILE_WRITE\<rparr>) (begin_upload name filename type sv)"
  have cr: "CHR 0x0D \<notin> set (''--'' @ boundary)" "CHR 0x0D \<notin> set ?line" "CHR 0x0D \<notin> set (''Content-Type: '' @ type)"
    using assms(4) by auto
  have first: "form_first_line (c\<lparr>cl_in := map Some (file_form boundary name filename type w) @ rest\<rparr>) =
      (''--'' @ boundary, c\<lparr>cl_in := map Some (file_part name filename type @ ?content) @ rest\<rparr>)"
    using readStringUntil_found [OF cr(1), of "Some CHR 0x0A # map Some (file_part name filename type @ ?content) @ rest"]
      readStringUntil_found [of "CHR 0x0A" "[]" "map Some (file_part name filename type @ ?content) @ rest"]
    by (simp add: form_first_line_def file_form_def crlf_def)
  have l1: "read_line (c\<lparr>cl_in := map Some (file_part name filename type @ ?content) @ rest\<rparr>) =
      (?line, c\<lparr>cl_in := map Some (''Content-Type: '' @ type @ crlf @ crlf @ ?content) @ rest\<rparr>)"
    using read_line_text [OF cr(2), where c = c and after = "''Content-Type: '' @ type @ crlf @ crlf @ ?content" and rest = rest]
    by (simp add: file_part_def crlf_def)
  have l2: "read_line (c\<lparr>cl_in := map Some (''Content-Type: '' @ type @ crlf @ crlf @ ?content) @ rest\<rparr>) =
      (''Content-Type: '' @ type, c\<lparr>cl_in := map Some (crlf @ ?content) @ rest\<rparr>)"
    using read_line_text [OF cr(3), where c = c and after = "crlf @ ?content" and rest = rest] by (simp add: crlf_def)
  have l3: "read_line (c\<lparr>cl_in := map Some (crlf @ ?content) @ rest\<rparr>) = ([], c\<lparr>cl_in := map Some ?content @ rest\<rparr>)"
    using read_line_text [of "[]", where c = c and after = ?content and rest = rest] by (simp add: crlf_def)
  have coll: "collects env (begin_upload name filename type sv)" "collects env ?sv"
    using assms(1) by (auto simp: collects_def begin_upload_def upd_upload_def notify_upload_def split: option.splits)
  have wr: "up_status (sv_upload ?sv) = UPLOAD_FILE_WRITE" by simp
  have "uploading ?sv a [] (?sv, a)"
    unfolding uploading_def
    by (intro exI [of _ 0] exI [of _ "[]"] exI [of _ a]) (simp add: begin_upload_def upd_upload_def)
  then obtain st' where st': "uploading ?sv a (bytes_of w) st'"
    "read_file env boundary (byte (hd (w @ delimiter boundary)))
        (c\<lparr>cl_in := map Some (tl (w @ delimiter boundary)) @ map Some (''--'' @ crlf) @ rest\<rparr>) (?sv, a) =
      read_file env boundary 0x0D (c\<lparr>cl_in := map Some (tl (delimiter boundary)) @ map Some (''--'' @ crlf) @ rest\<rparr>) st'"
    using read_file_upto_delimiter [OF coll(2) wr assms(2,3), of a "[]" "(?sv, a)" boundary "map Some (''--'' @ crlf) @ rest"]
    by auto
  obtain b where b: "read_file env boundary 0x0D
      (c\<lparr>cl_in := map Some (tl (delimiter boundary) @ ''--'' @ crlf) @ rest\<rparr>) st' =
    Some (LastPart, c\<lparr>cl_in := rest\<rparr>,
      upd_upload (\<lambda>u. u\<lparr>up_buf := b, up_totalSize := length (bytes_of w), up_status := UPLOAD_FILE_END\<rparr>) ?sv,
      a @ bytes_of w)"
    using read_file_delimiter [OF coll(2) wr assms(2) _ st'(1), of "''--''" boundary "[]" rest] by (auto simp: crlf_def)
  have start: "uploadReadByte (c\<lparr>cl_in := map Some ?content @ rest\<rparr>) =
      Some (byte (hd (w @ delimiter boundary)),
        c\<lparr>cl_in := map Some (tl (w @ delimiter boundary)) @ map Some (''--'' @ crlf) @ rest\<rparr>)"
    by (cases w) (simp_all add: delimiter_def)
  have whole_file: "do { (b, c) \<leftarrow> uploadReadByte (c\<lparr>cl_in := map Some ?content @ rest\<rparr>);
      read_file env boundary b c (?sv, a) } = Some (LastPart, c\<lparr>cl_in := rest\<rparr>,
      upd_upload (\<lambda>u. u\<lparr>up_buf := b, up_totalSize := length (bytes_of w), up_status := UPLOAD_FILE_END\<rparr>) ?sv,
      a @ bytes_of w)"
    unfolding start using st'(2) b by simp
  have name: "index_from CHR ''='' 0 ?line = Some 36"
    using index_from_append [of "CHR ''=''" "''Content-Disposition: form-data; name''"] by simp
  have type: "index_from CHR '':'' 0 (''Content-Type: '' @ type) = Some 12"
    using index_from_append [of "CHR '':''" "''Content-Type''"] by simp
  have part: "part_name (substr_from 38 ?line) = (name, filename, True)"
    using part_name_file [OF assms(5,6)] by (simp add: substr_from_def)
  have begin_up: "notify_upload env (begin_upload name filename type sv, a) =
      Some (begin_upload name filename type sv, a)"
    using coll(1) collects_upd [of env "begin_upload name filename type sv" "\<lambda>u. u" a]
    by (simp add: upd_upload_def begin_upload_def)
  have "form_parts env boundary [] (c\<lparr>cl_in := map Some (file_part name filename type @ ?content) @ rest\<rparr>) (sv, a) =
      Some (Some [], c\<lparr>cl_in := rest\<rparr>,
        upd_upload (\<lambda>u. u\<lparr>up_buf := b, up_totalSize := length (bytes_of w), up_status := UPLOAD_FILE_END\<rparr>) ?sv,
        a @ bytes_of w)"
  proof (rule form_parts_file [OF l1 _ name _ assms(7) l2 _ type _ _ whole_file])
    show "starts_with ''Content-Disposition'' ?line" "starts_with ''Content-Type'' (''Content-Type: '' @ type)"
      by (simp_all add: starts_with_def)
    show "part_name (substr_from (36 + 2) ?line) = (name, filename, True)" using part by simp
    show "snd (read_line (c\<lparr>cl_in := map Some (crlf @ ?content) @ rest\<rparr>)) = c\<lparr>cl_in := map Some ?content @ rest\<rparr>"
      using l3 by simp
    show "notify_upload env (begin_upload name filename (substr_from (12 + 2) (''Content-Type: '' @ type)) sv, a) =
        Some (begin_upload name filename type sv, a)"
      using begin_up by (simp add: substr_from_def)
  qed
  then show ?thesis
    by (intro exI [of _ b]) (simp add: parseForm_def first begin_upload_def upd_upload_def bytes_of_def)
qed

definition sample_upload_env :: "(nat, u8 list) environment" where
  "sample_upload_env = \<lparr>run_fn = (\<lambda>f (sv, a). Some (sv,
       if up_status (sv_upload sv) = UPLOAD_FILE_WRITE then a @ up_buf (sv_upload sv) else a)),
     file_text = (\<lambda>a p. None)\<rparr>"

definition sample_upload_server :: "nat WebServer" where
  "sample_upload_server = (new_WebServer 80)\<lparr>sv_uri := ''/up'',
     sv_handler := Some (FunctionRequestHandler 0 (Some 1) ''/up'' HTTP_POST)\<rparr>"

lemma sample_collects: "collects sample_upload_env sample_upload_server"
  by (simp add: collects_def sample_upload_server_def notify_upload_def sample_upload_env_def
      FunctionRequestHandler_canHandle_def method_uri_matches_def)

theorem upload_delivers_file_witness:
  "\<exists>b. parseForm sample_upload_env ''BB''
      (\<lparr>cl_in = map Some (file_form ''BB'' ''f'' ''a.txt'' ''text/plain'' (''x'' @ crlf @ ''-'' @ crlf)) @ [],
        cl_chunks = [], cl_open = True\<rparr>) (sample_upload_server, []) =
    Some (True, \<lparr>cl_in = [], cl_chunks = [], cl_open = True\<rparr>,
      sample_upload_server\<lparr>sv_upload := \<lparr>up_status = UPLOAD_FILE_END, up_filename = ''a.txt'', up_name = ''f'',
        up_type = ''text/plain'', up_totalSize = 6, up_buf = b\<rparr>, sv_args := []\<rparr>,
      [0x78, 0x0D, 0x0A, 0x2D, 0x0D, 0x0A])"
proof -
  have none: "find_sub delimiter_start (''x'' @ crlf @ ''-'' @ crlf) = None" by code_simp
  have bytes: "bytes_of (''x'' @ crlf @ ''-'' @ crlf) = [0x78, 0x0D, 0x0A, 0x2D, 0x0D, 0x0A]" by code_simp
  have args: "take 32 (sv_args sample_upload_server) = []"
    by (simp add: sample_upload_server_def new_WebServer_def)
  show ?thesis
    using upload_delivers_file [OF sample_collects _ none, of "\<lparr>cl_in = [], cl_chunks = [], cl_open = True\<rparr>"
        "''BB''" "''f''" "''a.txt''" "''text/plain''" "[]" "[]"]
    unfolding bytes args by (simp add: crlf_def numeral_eq_Suc)
qed

subsection \<open>A request without a body\<close>

lemma url_encode_no_space: "c \<in> set (url_encode s) \<Longrightarrow> \<not> is_space c"
proof -
  assume "c \<in> set (url_encode s)"
  then obtain d where "c \<in> set (encode_char d)" by (auto simp: url_encode_def)
  moreover have "char_code d div 16 < 16" "char_code d mod 16 < 16" using char_code_less [of d] by simp_all
  ultimately show "\<not> is_space c"
    using hex_char_chars
    by (auto simp: encode_char_def unreserved_def is_space_def char_code_def is_alnum_def is_digit_def
        is_upper_def is_lower_def split: if_splits)
qed

lemma print_params_chars:
  assumes "\<And>k v. (k, v) \<in> set ps \<Longrightarrow> x \<notin> set k" and "is_space x"
  shows "x \<notin> set (print_params ps)"
proof -
  have x: "x \<noteq> CHR ''&''" "x \<noteq> CHR ''=''" using assms(2) by (auto simp: is_space_def char_code_def)
  show ?thesis using assms(1)
    by (induction ps rule: print_params.induct)
       (use x url_encode_no_space assms(2) in \<open>auto simp: print_pair_def\<close>)
qed

definition get_text :: "string \<Rightarrow> (string \<times> string) list \<Rightarrow> string \<Rightarrow> string" where
  "get_text path ps host =
     ''GET '' @ path @ ''?'' @ print_params ps @ '' HTTP/1.1'' @ crlf @ ''Host: '' @ host @ crlf @ crlf"

lemma parse_request_line_get:
  assumes "CHR '' '' \<notin> set path" "CHR ''?'' \<notin> set path" "CHR '' '' \<notin> set q"
  shows "parse_request_line (''GET '' @ path @ ''?'' @ q @ '' HTTP/1.1'') = Some (''GET'', path, q)"
proof -
  have 1: "index_from CHR '' '' 0 (''GET '' @ path @ ''?'' @ q @ '' HTTP/1.1'') = Some 3"
    using index_from_append [of "CHR '' ''" "''GET''"] by simp
  have 2: "index_from CHR '' '' 4 (''GET '' @ path @ ''?'' @ q @ '' HTTP/1.1'') = Some (4 + length (path @ ''?'' @ q))"
    using index_from_skip [of "CHR '' ''" "path @ ''?'' @ q" "''GET ''" "''HTTP/1.1''"] assms
    by (simp add: numeral_eq_Suc)
  have 3: "index_from CHR ''?'' 0 (path @ ''?'' @ q) = Some (length path)"
    using index_from_append [OF assms(2)] by simp
  show ?thesis
    unfolding parse_request_line_def 1 2 option.case
    using 2 3 by (simp add: substr_def substr_from_def)
qed

lemma parse_headers_step:
  assumes "read_line c = (req, c')" "req \<noteq> []" "index_from CHR '':'' 0 req = Some n"
  shows "parse_headers step c st = parse_headers step c' (step req n st)"
  by (subst parse_headers.simps) (simp add: assms)

lemma parse_headers_end: "read_line c = ([], c') \<Longrightarrow> parse_headers step c st = (c', st)"
  by (subst parse_headers.simps) simp

lemma arriving_map [simp]: "arriving (map Some w) = w"
  using arriving_append [of w "[]"] by simp

text \<open>C29: A GET request as a browser prints it is read back: path, method, host, the arguments with
  their values decoded whatever characters they hold, and the handler that takes the path.\<close>

theorem get_request_parsed:
  assumes "CHR '' '' \<notin> set path" "CHR ''?'' \<notin> set path" "CHR 0x0D \<notin> set (path @ host)"
    and "ps \<noteq> []" "list_all key_ok ps" "length (print_params ps) < 4294967296"
    and "\<And>k v. (k, v) \<in> set ps \<Longrightarrow> CHR '' '' \<notin> set k \<and> CHR 0x0D \<notin> set k"
  shows "\<exists>sv' c'. parseRequest env (c\<lparr>cl_in := map Some (get_text path ps host)\<rparr>) (sv, a) =
      Some (True, c', sv', a) \<and> cl_in c' = [] \<and>
      sv_uri sv' = path \<and> sv_method sv' = HTTP_GET \<and> sv_hostHeader sv' = host \<and>
      sv_args sv' = map argument_of ps \<and>
      sv_handler sv' = find (\<lambda>h. canHandle h HTTP_GET path) (sv_handlers sv)"
proof -
  let ?q = "print_params ps"
  let ?line = "''GET '' @ path @ ''?'' @ ?q @ '' HTTP/1.1''"
  have q: "CHR '' '' \<notin> set ?q" "CHR 0x0D \<notin> set ?q"
    using assms(7) by (intro print_params_chars; fastforce simp: is_space_def char_code_def)+
  have cr: "CHR 0x0D \<notin> set ?line" "CHR 0x0D \<notin> set (''Host: '' @ host)" using q assms(3) by auto
  have l1: "read_line (c\<lparr>cl_in := map Some (get_text path ps host)\<rparr>) =
      (?line, c\<lparr>cl_in := map Some (''Host: '' @ host @ crlf @ crlf)\<rparr>)"
    using read_line_text [OF cr(1), where c = c and after = "''Host: '' @ host @ crlf @ crlf" and rest = "[]"]
    by (simp add: get_text_def crlf_def)
  have l2: "read_line (c\<lparr>cl_in := map Some (''Host: '' @ host @ crlf @ crlf)\<rparr>) =
      (''Host: '' @ host, c\<lparr>cl_in := map Some crlf\<rparr>)"
    using read_line_text [OF cr(2), where c = c and after = crlf and rest = "[]"] by (simp add: crlf_def)
  have l3: "read_line (c\<lparr>cl_in := map Some crlf\<rparr>) = ([], c\<lparr>cl_in := []\<rparr>)"
    using read_line_text [of "[]", where c = c and after = "[]" and rest = "[]"] by (simp add: crlf_def)
  have host: "index_from CHR '':'' 0 (''Host: '' @ host) = Some 4"
    using index_from_append [of "CHR '':''" "''Host''"] by simp
  have headers: "parse_headers get_header (c\<lparr>cl_in := map Some (''Host: '' @ host @ crlf @ crlf)\<rparr>) st =
      (c\<lparr>cl_in := []\<rparr>, get_header (''Host: '' @ host) 4 st)" for st :: "body_info \<times> 'a WebServer"
    by (subst parse_headers_step [OF l2 _ host], simp) (rule parse_headers_end [OF l3])
  have pargs: "parse_args_loop ?q (count_args ?q) 0 [] = map argument_of ps"
    using parse_args_loop_print [OF assms(4,5), of "[]" _ "[]"] assms(6)
    by (simp add: count_args_print [OF assms(4,5)])
  have ne: "?q \<noteq> []" using assms(4) by (cases ps rule: print_params.cases) (auto simp: print_pair_def)
  show ?thesis
    unfolding parseRequest_def l1 prod.case Let_def parse_request_line_get [OF assms(1,2) q(1)] option.case
    by (simp add: headers [simplified] request_kind_def get_header_def collectHeader_def case_prod_beta parseArguments_def
        pargs ne substr_def substr_from_def first_handler_def client_flush_def Let_def)
qed

theorem get_request_parsed_witness:
  "\<exists>sv' c'. parseRequest sample_upload_env
      (\<lparr>cl_in = map Some (get_text ''/up'' [(''a'', ''1 & 2''), (''b'', ''%'')] ''base''),
        cl_chunks = [], cl_open = True\<rparr>) (sample_upload_server, []) =
      Some (True, c', sv', []) \<and> cl_in c' = [] \<and>
      sv_uri sv' = ''/up'' \<and> sv_method sv' = HTTP_GET \<and> sv_hostHeader sv' = ''base'' \<and>
      sv_args sv' = [\<lparr>arg_key = ''a'', arg_value = ''1 & 2''\<rparr>, \<lparr>arg_key = ''b'', arg_value = ''%''\<rparr>] \<and>
      sv_handler sv' = None"
proof -
  let ?ps = "[(''a'', ''1 & 2''), (''b'', ''%'')]"
  have ok: "list_all key_ok ?ps" by (simp add: key_ok_def)
  have "length (print_params ?ps) = 15" by code_simp
  then have len: "length (print_params ?ps) < 4294967296" by simp
  have keys: "CHR '' '' \<notin> set k \<and> CHR 0x0D \<notin> set k" if "(k, v) \<in> set ?ps" for k v using that by auto
  have uri: "CHR '' '' \<notin> set ''/up''" "CHR ''?'' \<notin> set ''/up''" "CHR 0x0D \<notin> set (''/up'' @ ''base'')" "?ps \<noteq> []"
    by simp_all
  have args: "map argument_of ?ps = [\<lparr>arg_key = ''a'', arg_value = ''1 & 2''\<rparr>, \<lparr>arg_key = ''b'', arg_value = ''%''\<rparr>]"
    by (simp add: argument_of_def)
  have none: "find (\<lambda>h. canHandle h HTTP_GET ''/up'') (sv_handlers sample_upload_server) = None"
    by (simp add: sample_upload_server_def new_WebServer_def)
  have eq: "\<lparr>cl_in = [], cl_chunks = [], cl_open = True\<rparr>\<lparr>cl_in := s\<rparr> = \<lparr>cl_in = s, cl_chunks = [], cl_open = True\<rparr>" for s
    by simp
  show ?thesis
    using get_request_parsed [OF uri(1,2,3,4) ok len, of sample_upload_env
        "\<lparr>cl_in = [], cl_chunks = [], cl_open = True\<rparr>" sample_upload_server "[]"] keys
    unfolding args none eq by blast
qed

text \<open>C30: A form that stops before its boundary is never given up: once no dash is left to come, the
  loop that reads a value never returns, although every read times out.\<close>

theorem cut_form_never_returns:
  assumes "Some CHR ''-'' \<notin> set (cl_in c)"
  shows "read_value boundary v c = None"
  using read_value_dash [of boundary v c] assms by (cases "read_value boundary v c") auto

theorem cut_form_never_returns_witness:
  "read_value ''BB'' [] \<lparr>cl_in = map Some (''hello'' @ crlf), cl_chunks = [], cl_open = False\<rparr> = None"
  by (rule cut_form_never_returns) (simp add: crlf_def)

end
