(* ===== verification/Json.thy ===== *)
theory Json
  imports StringOps
begin

text \<open>
  The JSON library the firmware keeps its configuration with, \<^verbatim>\<open>esp8266_sim/ArduinoJson\<close>: variants,
  objects and arrays in a buffer of fixed capacity (\<^verbatim>\<open>JsonVariant\<close>, \<^verbatim>\<open>JsonObject\<close>, \<^verbatim>\<open>JsonArray\<close>,
  \<^verbatim>\<open>StaticJsonBuffer\<close>), the printer (\<^verbatim>\<open>Internals/JsonSerializer.ipp\<close>, \<^verbatim>\<open>JsonWriter.hpp\<close>) and the
  recursive-descent parser (\<^verbatim>\<open>Internals/JsonParser.ipp\<close>), with the proof that an object of
  strings is read back as it was printed. Floating-point values are not modelled. The parser
  unquotes in place, behind its read pointer; a text is the characters up to the first \<open>NUL\<close>.
\<close>

section \<open>Variants\<close>

datatype JsonVariant =
    JSON_UNDEFINED
  | JSON_UNPARSED string
  | JSON_STRING "string option"
  | JSON_BOOLEAN bool
  | JSON_POSITIVE_INTEGER nat
  | JSON_NEGATIVE_INTEGER nat
  | JSON_ARRAY "JsonVariant list"
  | JSON_OBJECT "(string \<times> JsonVariant) list"

definition asString :: "JsonVariant \<Rightarrow> string option" where
  "asString v =
     (case v of
        JSON_UNPARSED s \<Rightarrow> if s = ''null'' then None else Some s
      | JSON_STRING s \<Rightarrow> s
      | _ \<Rightarrow> None)"

definition asInteger :: "JsonVariant \<Rightarrow> int" where
  "asInteger v =
     (case v of
        JSON_POSITIVE_INTEGER n \<Rightarrow> int n
      | JSON_BOOLEAN b \<Rightarrow> of_bool b
      | JSON_NEGATIVE_INTEGER n \<Rightarrow> - int n
      | JSON_STRING None \<Rightarrow> 0
      | JSON_STRING (Some s) \<Rightarrow> if s = ''true'' then 1 else atol s
      | JSON_UNPARSED s \<Rightarrow> if s = ''true'' then 1 else atol s
      | _ \<Rightarrow> 0)"

definition isBoolean :: "JsonVariant \<Rightarrow> bool" where
  "isBoolean v =
     (case v of
        JSON_BOOLEAN b \<Rightarrow> True
      | JSON_UNPARSED s \<Rightarrow> s = ''true'' \<or> s = ''false''
      | _ \<Rightarrow> False)"

definition isString :: "JsonVariant \<Rightarrow> bool" where
  "isString v = (case v of JSON_STRING s \<Rightarrow> True | JSON_UNPARSED s \<Rightarrow> s = ''null'' | _ \<Rightarrow> False)"

definition asObject :: "JsonVariant \<Rightarrow> (string \<times> JsonVariant) list option" where
  "asObject v = (case v of JSON_OBJECT kvs \<Rightarrow> Some kvs | _ \<Rightarrow> None)"

definition asArray :: "JsonVariant \<Rightarrow> JsonVariant list option" where
  "asArray v = (case v of JSON_ARRAY vs \<Rightarrow> Some vs | _ \<Rightarrow> None)"

section \<open>The buffer\<close>

text \<open>The sizes of the target: of the buffer, of a pointer, and of an object, an array and their
  nodes. \<open>alloc\<close> gives the new fill level.\<close>

record json_target =
  capacity :: nat
  pointer_size :: nat
  object_size :: nat
  array_size :: nat
  pair_node_size :: nat
  value_node_size :: nat

definition round_size_up :: "json_target \<Rightarrow> nat \<Rightarrow> nat" where
  "round_size_up t bytes = (bytes + (pointer_size t - 1)) div pointer_size t * pointer_size t"

definition alloc :: "json_target \<Rightarrow> nat \<Rightarrow> nat \<Rightarrow> nat option" where
  "alloc t bytes sz = (if sz + bytes > capacity t then None else Some (sz + round_size_up t bytes))"

section \<open>Objects and arrays\<close>

definition getNodeAt :: "string \<Rightarrow> (string \<times> JsonVariant) list \<Rightarrow> JsonVariant option" where
  "getNodeAt key obj = map_of obj key"

definition get :: "string \<Rightarrow> (string \<times> JsonVariant) list \<Rightarrow> JsonVariant" where
  "get key obj = (case getNodeAt key obj of Some v \<Rightarrow> v | None \<Rightarrow> JSON_UNDEFINED)"

definition containsKey :: "string \<Rightarrow> (string \<times> JsonVariant) list \<Rightarrow> bool" where
  "containsKey key obj \<longleftrightarrow> getNodeAt key obj \<noteq> None"

fun set_node :: "string \<Rightarrow> JsonVariant \<Rightarrow> (string \<times> JsonVariant) list \<Rightarrow> (string \<times> JsonVariant) list" where
  "set_node key v [] = []"
| "set_node key v ((k, w) # obj) = (if k = key then (k, v) # obj else (k, w) # set_node key v obj)"

text \<open>\<open>set\<close>: a new node goes to the end of the list, if there is room for it.\<close>

definition setNodeAt ::
    "json_target \<Rightarrow> string \<Rightarrow> JsonVariant \<Rightarrow> (string \<times> JsonVariant) list \<times> nat
     \<Rightarrow> ((string \<times> JsonVariant) list \<times> nat) option" where
  "setNodeAt t key v = (\<lambda>(obj, sz).
     (if containsKey key obj then Some (set_node key v obj, sz)
      else (case alloc t (pair_node_size t) sz of
              None \<Rightarrow> None
            | Some sz \<Rightarrow> Some (obj @ [(key, v)], sz))))"

fun remove_node :: "string \<Rightarrow> (string \<times> JsonVariant) list \<Rightarrow> (string \<times> JsonVariant) list" where
  "remove_node key [] = []"
| "remove_node key ((k, w) # obj) = (if k = key then obj else (k, w) # remove_node key obj)"

definition addNode ::
    "json_target \<Rightarrow> JsonVariant \<Rightarrow> JsonVariant list \<times> nat \<Rightarrow> (JsonVariant list \<times> nat) option" where
  "addNode t v = (\<lambda>(arr, sz).
     (case alloc t (value_node_size t) sz of None \<Rightarrow> None | Some sz \<Rightarrow> Some (arr @ [v], sz)))"

definition get_at :: "nat \<Rightarrow> JsonVariant list \<Rightarrow> JsonVariant" where
  "get_at i arr = (if i < length arr then arr ! i else JSON_UNDEFINED)"

section \<open>Printing\<close>

definition escape_table :: "(char \<times> char) list" where
  "escape_table =
     [(CHR 0x22, CHR 0x22), (CHR 0x5C, CHR 0x5C), (CHR ''b'', CHR 0x08), (CHR ''f'', CHR 0x0C),
      (CHR ''n'', CHR 0x0A), (CHR ''r'', CHR 0x0D), (CHR ''t'', CHR 0x09)]"

text \<open>The tables are pairs of a letter and the character it stands for; \<open>NUL\<close> ends them.\<close>

fun escape_search :: "(char \<times> char) list \<Rightarrow> char \<Rightarrow> char" where
  "escape_search [] c = NUL"
| "escape_search ((l, x) # p) c = (if x \<noteq> c then escape_search p c else l)"

definition escapeChar :: "char \<Rightarrow> char" where
  "escapeChar c = escape_search escape_table c"

fun unescape_search :: "(char \<times> char) list \<Rightarrow> char \<Rightarrow> char" where
  "unescape_search [] c = c"
| "unescape_search ((l, x) # p) c = (if l = c then x else unescape_search p c)"

definition unescapeChar :: "char \<Rightarrow> char" where
  "unescapeChar c = unescape_search (drop 2 escape_table) c"

definition writeChar :: "char \<Rightarrow> string" where
  "writeChar c =
     (let specialChar = escapeChar c in if specialChar \<noteq> NUL then [CHR 0x5C, specialChar] else [c])"

definition writeString :: "string option \<Rightarrow> string" where
  "writeString v =
     (case v of
        None \<Rightarrow> ''null''
      | Some s \<Rightarrow> CHR 0x22 # concat (map writeChar (c_text s)) @ [CHR 0x22])"

definition writeBoolean :: "bool \<Rightarrow> string" where
  "writeBoolean b = (if b then ''true'' else ''false'')"

definition writeInteger :: "nat \<Rightarrow> string" where
  "writeInteger n = dec_of_nat n"

fun with_commas :: "string list \<Rightarrow> string" where
  "with_commas [] = []"
| "with_commas [s] = s"
| "with_commas (s # ss) = s @ '','' @ with_commas ss"

fun serialize :: "JsonVariant \<Rightarrow> string" where
  "serialize JSON_UNDEFINED = []"
| "serialize (JSON_ARRAY vs) = ''['' @ with_commas (map serialize vs) @ '']''"
| "serialize (JSON_OBJECT kvs) =
     ''{'' @ with_commas (map (\<lambda>(k, v). writeString (Some k) @ '':'' @ serialize v) kvs) @ ''}''"
| "serialize (JSON_STRING s) = writeString s"
| "serialize (JSON_UNPARSED s) = s"
| "serialize (JSON_NEGATIVE_INTEGER n) = ''-'' @ writeInteger n"
| "serialize (JSON_POSITIVE_INTEGER n) = writeInteger n"
| "serialize (JSON_BOOLEAN b) = writeBoolean b"

definition printTo :: "JsonVariant \<Rightarrow> string \<Rightarrow> string" where
  "printTo v str = str @ serialize v"

section \<open>Parsing\<close>

fun skipCStyleComment :: "string \<Rightarrow> string" where
  "skipCStyleComment [] = []"
| "skipCStyleComment (c # s) =
     (if c = CHR ''*'' \<and> s \<noteq> [] \<and> hd s = CHR ''/'' then tl s else skipCStyleComment s)"

fun skipCppStyleComment :: "string \<Rightarrow> string" where
  "skipCppStyleComment [] = []"
| "skipCppStyleComment (c # s) = (if c = CHR 0x0A then c # s else skipCppStyleComment s)"

lemma skipCStyleComment_le: "length (skipCStyleComment s) \<le> length s"
  by (induction s) auto

lemma skipCppStyleComment_le: "length (skipCppStyleComment s) \<le> length s"
  by (induction s) auto

definition is_blank :: "char \<Rightarrow> bool" where
  "is_blank c \<longleftrightarrow> c \<in> {CHR '' '', CHR 0x09, CHR 0x0D, CHR 0x0A}"

text \<open>One round of the loop of \<open>skipSpacesAndComments\<close>, or nothing when it returns.\<close>

definition skip_one :: "string \<Rightarrow> string option" where
  "skip_one s =
     (case s of
        [] \<Rightarrow> None
      | c # r \<Rightarrow>
          if is_blank c then Some r
          else if c = CHR ''/''
          then (case r of
                  [] \<Rightarrow> None
                | d # r' \<Rightarrow> if d = CHR ''*'' then Some (skipCStyleComment r')
                           else if d = CHR ''/'' then Some (skipCppStyleComment r')
                           else None)
          else None)"

lemma skip_one_less: "skip_one s = Some r \<Longrightarrow> length r < length s"
  using skipCStyleComment_le [of "tl (tl s)"] skipCppStyleComment_le [of "tl (tl s)"]
  by (cases s; cases "tl s") (auto simp: skip_one_def split: if_splits)

function skipSpacesAndComments :: "string \<Rightarrow> string" where
  "skipSpacesAndComments s = (case skip_one s of None \<Rightarrow> s | Some r \<Rightarrow> skipSpacesAndComments r)"
  by pat_completeness auto
termination
  by (relation "measure length") (auto dest: skip_one_less)

declare skipSpacesAndComments.simps [simp del]

text \<open>\<open>skip\<close>: what is left after the character and the blanks around it.\<close>

definition skip :: "char \<Rightarrow> string \<Rightarrow> string option" where
  "skip charToSkip s =
     (case skipSpacesAndComments s of
        [] \<Rightarrow> None
      | c # r \<Rightarrow> if c \<noteq> charToSkip then None else Some (skipSpacesAndComments r))"

definition isLetterOrNumber :: "char \<Rightarrow> bool" where
  "isLetterOrNumber c \<longleftrightarrow> is_alnum c \<or> c = CHR ''+'' \<or> c = CHR ''-'' \<or> c = CHR ''.''"

definition isQuote :: "char \<Rightarrow> bool" where
  "isQuote c \<longleftrightarrow> c = CHR 0x27 \<or> c = CHR 0x22"

fun quoted_loop :: "char \<Rightarrow> string \<Rightarrow> string \<times> string" where
  "quoted_loop stopChar [] = ([], [])"
| "quoted_loop stopChar (c # s) =
     (if c = stopChar then ([], s)
      else if c = CHR 0x5C
      then (case s of
              [] \<Rightarrow> ([], [])
            | d # s' \<Rightarrow> (let (w, r) = quoted_loop stopChar s' in (unescapeChar d # w, r)))
      else (let (w, r) = quoted_loop stopChar s in (c # w, r)))"

definition parseString :: "string \<Rightarrow> string \<times> string" where
  "parseString s =
     (case s of
        [] \<Rightarrow> ([], [])
      | c # r \<Rightarrow> if isQuote c then quoted_loop c r
                 else (takeWhile isLetterOrNumber s, dropWhile isLetterOrNumber s))"

definition parseStringTo :: "string \<Rightarrow> JsonVariant \<times> string" where
  "parseStringTo s =
     (let hasQuotes = (s \<noteq> [] \<and> isQuote (hd s)); (v, r) = parseString s
      in (if hasQuotes then JSON_STRING (Some v) else JSON_UNPARSED v, r))"

lemma skipSpacesAndComments_le: "length (skipSpacesAndComments s) \<le> length s"
proof (induction s rule: skipSpacesAndComments.induct)
  case (1 s)
  show ?case
  proof (cases "skip_one s")
    case (Some r)
    then show ?thesis using 1 [OF Some] skip_one_less [OF Some]
      by (subst skipSpacesAndComments.simps) simp
  qed (simp add: skipSpacesAndComments.simps)
qed

lemma skip_less:
  assumes "skip c s = Some r"
  shows "length r < length s"
proof -
  obtain r' where "skipSpacesAndComments s = c # r'" "r = skipSpacesAndComments r'"
    using assms by (auto simp: skip_def split: list.splits if_splits)
  then show ?thesis using skipSpacesAndComments_le [of s] skipSpacesAndComments_le [of r'] by simp
qed

lemma quoted_loop_le: "length (snd (quoted_loop q s)) \<le> length s"
  by (induction q s rule: quoted_loop.induct)
     (simp_all add: case_prod_beta Let_def le_SucI split: list.split)

lemma parseString_le: "length (snd (parseString s)) \<le> length s"
proof (cases s)
  case (Cons c r)
  have "length (dropWhile isLetterOrNumber s) \<le> length s" by (rule length_dropWhile_le)
  then show ?thesis using quoted_loop_le [of c r] Cons by (simp add: parseString_def)
qed (simp add: parseString_def)

lemma parseString_shortens: "(w, r) = parseString s \<Longrightarrow> length r \<le> length s"
  using parseString_le [of s] by (metis snd_conv)

text \<open>The parser. \<open>None\<close> is the invalid object or array; the last number is the fill level of the
  buffer.\<close>

function parseAnything ::
      "json_target \<Rightarrow> nat \<Rightarrow> string \<Rightarrow> nat \<Rightarrow> (JsonVariant \<times> string \<times> nat) option"
  and parseArray ::
      "json_target \<Rightarrow> nat \<Rightarrow> string \<Rightarrow> nat \<Rightarrow> (JsonVariant list \<times> string \<times> nat) option"
  and array_loop ::
      "json_target \<Rightarrow> nat \<Rightarrow> JsonVariant list \<Rightarrow> string \<Rightarrow> nat \<Rightarrow> (JsonVariant list \<times> string \<times> nat) option"
  and parseObject ::
      "json_target \<Rightarrow> nat \<Rightarrow> string \<Rightarrow> nat \<Rightarrow> ((string \<times> JsonVariant) list \<times> string \<times> nat) option"
  and object_loop ::
      "json_target \<Rightarrow> nat \<Rightarrow> (string \<times> JsonVariant) list \<Rightarrow> string \<Rightarrow> nat
       \<Rightarrow> ((string \<times> JsonVariant) list \<times> string \<times> nat) option" where
  "parseAnything t nestingLimit s sz =
     (case nestingLimit of
        0 \<Rightarrow> None
      | Suc limit \<Rightarrow>
          (let s = skipSpacesAndComments s
           in if s \<noteq> [] \<and> hd s = CHR ''[''
              then map_option (\<lambda>(vs, r, sz). (JSON_ARRAY vs, r, sz)) (parseArray t limit s sz)
              else if s \<noteq> [] \<and> hd s = CHR ''{''
              then map_option (\<lambda>(kvs, r, sz). (JSON_OBJECT kvs, r, sz)) (parseObject t limit s sz)
              else (let (v, r) = parseStringTo s in Some (v, r, sz))))"
| "parseArray t limit s sz =
     (case alloc t (array_size t) sz of None \<Rightarrow> None | Some sz \<Rightarrow>
      (case skip CHR ''['' s of None \<Rightarrow> None | Some s \<Rightarrow>
       (case skip CHR '']'' s of Some r \<Rightarrow> Some ([], r, sz) | None \<Rightarrow> array_loop t limit [] s sz)))"
| "array_loop t limit arr s sz =
     (case parseAnything t limit s sz of None \<Rightarrow> None | Some (v, s, sz) \<Rightarrow>
      (case addNode t v (arr, sz) of None \<Rightarrow> None | Some (arr, sz) \<Rightarrow>
       (case skip CHR '']'' s of Some r \<Rightarrow> Some (arr, r, sz) | None \<Rightarrow>
        (case skip CHR '','' s of None \<Rightarrow> None | Some s \<Rightarrow> array_loop t limit arr s sz))))"
| "parseObject t limit s sz =
     (case alloc t (object_size t) sz of None \<Rightarrow> None | Some sz \<Rightarrow>
      (case skip CHR ''{'' s of None \<Rightarrow> None | Some s \<Rightarrow>
       (case skip CHR ''}'' s of Some r \<Rightarrow> Some ([], r, sz) | None \<Rightarrow> object_loop t limit [] s sz)))"
| "object_loop t limit obj s sz =
     (let (key, s) = parseString s
      in case skip CHR '':'' s of None \<Rightarrow> None | Some s \<Rightarrow>
         (case parseAnything t limit s sz of None \<Rightarrow> None | Some (v, s, sz) \<Rightarrow>
          (case setNodeAt t key v (obj, sz) of None \<Rightarrow> None | Some (obj, sz) \<Rightarrow>
           (case skip CHR ''}'' s of Some r \<Rightarrow> Some (obj, r, sz) | None \<Rightarrow>
            (case skip CHR '','' s of None \<Rightarrow> None | Some s \<Rightarrow> object_loop t limit obj s sz)))))"
  by pat_completeness auto

lemma parse_consumes:
  fixes t :: json_target
  shows "parseAnything_parseArray_array_loop_parseObject_object_loop_dom (Inl (Inl (t, lim, s, sz))) \<Longrightarrow>
     parseAnything t lim s sz = Some (v, r, sz') \<Longrightarrow> length r \<le> length s"
  and "parseAnything_parseArray_array_loop_parseObject_object_loop_dom (Inl (Inr (t, lim, s, sz))) \<Longrightarrow>
     parseArray t lim s sz = Some (vs, r, sz') \<Longrightarrow> length r \<le> length s"
  and "parseAnything_parseArray_array_loop_parseObject_object_loop_dom (Inr (Inl (t, lim, vs0, s, sz))) \<Longrightarrow>
     array_loop t lim vs0 s sz = Some (vs, r, sz') \<Longrightarrow> length r \<le> length s"
  and "parseAnything_parseArray_array_loop_parseObject_object_loop_dom (Inr (Inr (Inl (t, lim, s, sz)))) \<Longrightarrow>
     parseObject t lim s sz = Some (kvs, r, sz') \<Longrightarrow> length r \<le> length s"
  and "parseAnything_parseArray_array_loop_parseObject_object_loop_dom (Inr (Inr (Inr (t, lim, kvs0, s, sz)))) \<Longrightarrow>
     object_loop t lim kvs0 s sz = Some (kvs, r, sz') \<Longrightarrow> length r \<le> length s"
proof (induction t lim s sz and t lim s sz and t lim vs0 s sz and t lim s sz and t lim kvs0 s sz
    arbitrary: v r sz' and vs r sz' and vs r sz' and kvs r sz' and kvs r sz'
    rule: parseAnything_parseArray_array_loop_parseObject_object_loop.pinduct)
  case (1 t lim s sz)
  let ?s = "skipSpacesAndComments s"
  have le: "length ?s \<le> length s" "length (snd (parseString ?s)) \<le> length ?s"
    by (rule skipSpacesAndComments_le, rule parseString_le)
  show ?case
  proof (cases lim)
    case 0
    then show ?thesis using 1(4) [unfolded parseAnything.psimps [OF 1(1)], unfolded 0] by simp
  next
    case (Suc limit)
    note run = 1(4) [unfolded parseAnything.psimps [OF 1(1)], unfolded Suc nat.case Let_def]
    consider "?s \<noteq> [] \<and> hd ?s = CHR ''[''" | "\<not> (?s \<noteq> [] \<and> hd ?s = CHR ''['')" "?s \<noteq> [] \<and> hd ?s = CHR ''{''"
      | "\<not> (?s \<noteq> [] \<and> hd ?s = CHR ''['')" "\<not> (?s \<noteq> [] \<and> hd ?s = CHR ''{'')" by blast
    then show ?thesis
    proof cases
      case 1
      then obtain vs where "parseArray t limit ?s sz = Some (vs, r, sz')" using run by auto
      then show ?thesis using "1.IH"(1) [OF Suc refl 1] le by fastforce
    next
      case 2
      then obtain kvs where "parseObject t limit ?s sz = Some (kvs, r, sz')"
        using run by (simp only: if_False if_True) auto
      then show ?thesis using "1.IH"(2) [OF Suc refl 2] le by fastforce
    next
      case 3
      then have "r = snd (parseString ?s)"
        using run by (simp only: if_False if_True) (auto simp: parseStringTo_def case_prod_beta Let_def)
      then show ?thesis using le by simp
    qed
  qed
next
  case (2 t limit s sz)
  obtain sz1 s1 where s1: "alloc t (array_size t) sz = Some sz1" "skip CHR ''['' s = Some s1"
    using 2(3) [unfolded parseArray.psimps [OF 2(1)]] by (auto split: option.splits)
  note run = 2(3) [unfolded parseArray.psimps [OF 2(1)] s1 option.case]
  show ?case
  proof (cases "skip CHR '']'' s1")
    case None
    then show ?thesis using 2(2) [OF s1 None] run skip_less [OF s1(2)] by fastforce
  next
    case (Some r1)
    then show ?thesis using run skip_less [OF s1(2)] skip_less [OF Some] by simp
  qed
next
  case (3 t limit arr s sz)
  obtain v1 s1 sz1 where v1: "parseAnything t limit s sz = Some (v1, s1, sz1)"
    using 3(4) [unfolded array_loop.psimps [OF 3(1)]] by (auto split: option.splits)
  obtain arr1 sz2 where a1: "addNode t v1 (arr, sz1) = Some (arr1, sz2)"
    using 3(4) [unfolded array_loop.psimps [OF 3(1)] v1] by (auto split: option.splits)
  note run = 3(4) [unfolded array_loop.psimps [OF 3(1)] v1 option.case prod.case a1]
  have le: "length s1 \<le> length s" by (rule 3(2) [OF v1])
  show ?case
  proof (cases "skip CHR '']'' s1")
    case None
    then obtain s2 where s2: "skip CHR '','' s1 = Some s2" using run by (auto split: option.splits)
    then show ?thesis using 3(3) [OF v1 refl refl a1 refl None s2] run None skip_less [OF s2] le by fastforce
  next
    case (Some r1)
    then show ?thesis using run skip_less [OF Some] le by simp
  qed
next
  case (4 t limit s sz)
  obtain sz1 s1 where s1: "alloc t (object_size t) sz = Some sz1" "skip CHR ''{'' s = Some s1"
    using 4(3) [unfolded parseObject.psimps [OF 4(1)]] by (auto split: option.splits)
  note run = 4(3) [unfolded parseObject.psimps [OF 4(1)] s1 option.case]
  show ?case
  proof (cases "skip CHR ''}'' s1")
    case None
    then show ?thesis using 4(2) [OF s1 None] run skip_less [OF s1(2)] by fastforce
  next
    case (Some r1)
    then show ?thesis using run skip_less [OF s1(2)] skip_less [OF Some] by simp
  qed
next
  case (5 t limit obj s sz)
  obtain key s1 where k: "parseString s = (key, s1)" by fastforce
  obtain s2 where s2: "skip CHR '':'' s1 = Some s2"
    using 5(4) [unfolded object_loop.psimps [OF 5(1)] k Let_def prod.case] by (auto split: option.splits)
  obtain v1 s3 sz1 where v1: "parseAnything t limit s2 sz = Some (v1, s3, sz1)"
    using 5(4) [unfolded object_loop.psimps [OF 5(1)] k Let_def prod.case s2 option.case] by (auto split: option.splits)
  obtain obj1 sz2 where a1: "setNodeAt t key v1 (obj, sz1) = Some (obj1, sz2)"
    using 5(4) [unfolded object_loop.psimps [OF 5(1)] k Let_def prod.case s2 option.case v1] by (auto split: option.splits)
  note run = 5(4) [unfolded object_loop.psimps [OF 5(1)] k Let_def prod.case s2 option.case v1 a1]
  have le: "length s1 \<le> length s" "length s3 \<le> length s2" "length s2 < length s1"
    using parseString_le [of s] k 5(2) [OF k [symmetric] refl s2 v1] skip_less [OF s2] by auto
  show ?case
  proof (cases "skip CHR ''}'' s3")
    case None
    then obtain s4 where s4: "skip CHR '','' s3 = Some s4" using run by (auto split: option.splits)
    then show ?thesis
      using 5(3) [OF k [symmetric] refl s2 v1 refl refl a1 refl None s4] run None skip_less [OF s4] le by fastforce
  next
    case (Some r1)
    then show ?thesis using run skip_less [OF Some] le by simp
  qed
qed

termination parseAnything
proof (relation "measures
    [case_sum (case_sum (\<lambda>(t, l, s, z). l) (\<lambda>(t, l, s, z). l))
       (case_sum (\<lambda>(t, l, vs, s, z). l) (case_sum (\<lambda>(t, l, s, z). l) (\<lambda>(t, l, kvs, s, z). l))),
     case_sum (case_sum (\<lambda>(t, l, s, z). length s) (\<lambda>(t, l, s, z). length s))
       (case_sum (\<lambda>(t, l, vs, s, z). length s) (case_sum (\<lambda>(t, l, s, z). length s) (\<lambda>(t, l, kvs, s, z). length s))),
     case_sum (case_sum (\<lambda>_. 0) (\<lambda>_. 2)) (case_sum (\<lambda>_. 1) (case_sum (\<lambda>_. 2) (\<lambda>_. 1)))]", goal_cases)
  case (6 t limit arr s sz x y xa ya x' y' xb)
  then show ?case using parse_consumes(1) skip_less by (force simp: dest!: skip_less)
next
  case (9 t limit obj s sz)
  then show ?case by (fastforce dest!: skip_less parseString_shortens dest: parse_consumes(1))
qed (auto dest!: skip_less parseString_shortens)

declare parseAnything.simps [simp del] parseArray.simps [simp del] array_loop.simps [simp del]
  parseObject.simps [simp del] object_loop.simps [simp del]

section \<open>Reading back what was printed\<close>

lemma escape_cases:
  "escapeChar c = NUL \<and> c \<noteq> CHR 0x22 \<and> c \<noteq> CHR 0x5C \<or> escapeChar c \<noteq> NUL \<and> unescapeChar (escapeChar c) = c"
  by (auto simp: escapeChar_def unescapeChar_def escape_table_def NUL_def)

lemma quoted_loop_print:
  "quoted_loop (CHR 0x22) (concat (map writeChar s) @ CHR 0x22 # r) = (s, r)"
proof (induction s)
  case (Cons c s)
  then show ?case using escape_cases [of c] by (auto simp: writeChar_def Let_def)
qed simp

lemma parseString_print:
  "NUL \<notin> set s \<Longrightarrow> parseString (writeString (Some s) @ r) = (s, r)"
  by (simp add: parseString_def writeString_def isQuote_def quoted_loop_print)

lemma writeString_hd: "\<exists>w. writeString (Some s) = CHR 0x22 # w"
  by (simp add: writeString_def)

lemma skip_one_quote: "skip_one (CHR 0x22 # r) = None"
  by (simp add: skip_one_def is_blank_def)

lemma skipSpaces_stop: "skip_one s = None \<Longrightarrow> skipSpacesAndComments s = s"
  by (subst skipSpacesAndComments.simps) simp

lemma skip_char:
  "\<not> is_blank c \<Longrightarrow> c \<noteq> CHR ''/'' \<Longrightarrow> skip c (c # r) = Some (skipSpacesAndComments r)"
  "\<not> is_blank d \<Longrightarrow> d \<noteq> CHR ''/'' \<Longrightarrow> d \<noteq> c \<Longrightarrow> skip c (d # r) = None"
  by (simp_all add: skip_def skipSpaces_stop skip_one_def)

text \<open>An object of strings: pairs of names and values, and the printed form of one.\<close>

definition string_pairs :: "(string \<times> string) list \<Rightarrow> (string \<times> JsonVariant) list" where
  "string_pairs kvs = map (\<lambda>(k, v). (k, JSON_STRING (Some v))) kvs"

definition print_member :: "string \<times> string \<Rightarrow> string" where
  "print_member = (\<lambda>(k, v). writeString (Some k) @ '':'' @ writeString (Some v))"

definition text_pair :: "string \<times> string \<Rightarrow> bool" where
  "text_pair = (\<lambda>(k, v). NUL \<notin> set k \<and> NUL \<notin> set v)"

lemma serialize_pairs:
  "serialize (JSON_OBJECT (string_pairs kvs)) = ''{'' @ with_commas (map print_member kvs) @ ''}''"
  by (simp add: string_pairs_def print_member_def o_def split_def)

lemma blank_marks [simp]:
  "\<not> is_blank CHR '':''" "\<not> is_blank CHR '',''" "\<not> is_blank CHR ''{''" "\<not> is_blank CHR ''}''" "\<not> is_blank CHR 0x22"
  by (simp_all add: is_blank_def)

lemma skipSpaces_quote: "skipSpacesAndComments (writeString (Some s) @ r) = writeString (Some s) @ r"
  using writeString_hd [of s] by (auto simp: skipSpaces_stop skip_one_quote)

lemma parseAnything_string:
  assumes "NUL \<notin> set v"
  shows "parseAnything t (Suc limit) (writeString (Some v) @ r) sz = Some (JSON_STRING (Some v), r, sz)"
proof -
  obtain w where w: "writeString (Some v) = CHR 0x22 # w" using writeString_hd by blast
  then show ?thesis
    using parseString_print [OF assms, of r] skipSpaces_quote [of v r]
    by (subst parseAnything.simps) (simp add: parseStringTo_def isQuote_def case_prod_beta Let_def)
qed

lemma map_of_snoc_None:
  "map_of obj key = None \<Longrightarrow> setNodeAt t key v (obj, sz) =
     map_option (Pair (obj @ [(key, v)])) (alloc t (pair_node_size t) sz)"
  by (simp add: setNodeAt_def containsKey_def getNodeAt_def split: option.split)

definition node_room :: "json_target \<Rightarrow> nat \<Rightarrow> nat \<Rightarrow> bool" where
  "node_room t n sz \<longleftrightarrow> sz + n * round_size_up t (pair_node_size t) \<le> capacity t"

lemma alloc_node:
  assumes "node_room t (Suc n) sz" "0 < pointer_size t"
  shows "alloc t (pair_node_size t) sz = Some (sz + round_size_up t (pair_node_size t))"
    "node_room t n (sz + round_size_up t (pair_node_size t))"
proof -
  have "pair_node_size t \<le> round_size_up t (pair_node_size t)"
  proof -
    let ?p = "pointer_size t" and ?b = "pair_node_size t"
    have "?b + (?p - 1) = (?b + (?p - 1)) div ?p * ?p + (?b + (?p - 1)) mod ?p" by simp
    moreover have "(?b + (?p - 1)) mod ?p \<le> ?p - 1" using assms(2) mod_less_divisor [OF assms(2), of "?b + (?p - 1)"] by linarith
    ultimately show ?thesis unfolding round_size_up_def by linarith
  qed
  then show "alloc t (pair_node_size t) sz = Some (sz + round_size_up t (pair_node_size t))"
    "node_room t n (sz + round_size_up t (pair_node_size t))"
    using assms(1) by (simp_all add: node_room_def alloc_def)
qed

text \<open>Blanks that a printer may put behind a colon, behind a comma and before the closing brace.\<close>

lemma skipSpaces_blanks: "list_all is_blank g \<Longrightarrow> skipSpacesAndComments (g @ s) = skipSpacesAndComments s"
  by (induction g) (simp, subst skipSpacesAndComments.simps, simp add: skip_one_def)

lemma skip_blanks: "list_all is_blank g \<Longrightarrow> skip c (g @ s) = skip c s"
  by (simp add: skip_def skipSpaces_blanks)

fun joined :: "string \<Rightarrow> string list \<Rightarrow> string" where
  "joined g [] = []"
| "joined g [s] = s"
| "joined g (s # ss) = s @ '','' @ g @ joined g ss"

definition spaced_member :: "string \<Rightarrow> string \<times> string \<Rightarrow> string" where
  "spaced_member g = (\<lambda>(k, v). writeString (Some k) @ '':'' @ g @ writeString (Some v))"

lemma joined_compact: "with_commas ss = joined [] ss"
  by (induction ss rule: with_commas.induct) simp_all

lemma member_compact: "print_member = spaced_member []"
  by (simp add: print_member_def spaced_member_def fun_eq_iff)

lemma joined_quote:
  "kvs \<noteq> [] \<Longrightarrow> \<exists>k x. joined g (map (spaced_member h) kvs) @ rest = writeString (Some k) @ x"
  by (cases kvs rule: list.exhaust [case_product list.exhaust]; cases "tl kvs"; cases "hd kvs")
     (auto simp: spaced_member_def)

lemma object_loop_blanks:
  assumes "list_all is_blank g" "list_all is_blank h" "list_all is_blank e"
    and "kvs \<noteq> []" "list_all text_pair kvs" "distinct (map fst (obj @ string_pairs kvs))"
    and "node_room t (length kvs) sz" "0 < pointer_size t"
  shows "\<exists>sz'. object_loop t (Suc limit) obj (joined g (map (spaced_member h) kvs) @ e @ ''}'' @ rest) sz =
    Some (obj @ string_pairs kvs, skipSpacesAndComments rest, sz')"
  using assms(4-)
proof (induction kvs arbitrary: obj sz)
  case (Cons kv kvs)
  obtain k v where kv: "kv = (k, v)" by (cases kv)
  have nul: "NUL \<notin> set k" "NUL \<notin> set v" using Cons.prems(2) by (simp_all add: kv text_pair_def)
  have new: "map_of obj k = None" using Cons.prems(3) by (simp add: kv string_pairs_def map_of_eq_None_iff)
  define after where "after =
    (if kvs = [] then e @ ''}'' @ rest else '','' @ g @ joined g (map (spaced_member h) kvs) @ e @ ''}'' @ rest)"
  have printed: "joined g (map (spaced_member h) (kv # kvs)) @ e @ ''}'' @ rest =
      writeString (Some k) @ CHR '':'' # h @ writeString (Some v) @ after"
    by (cases kvs) (simp_all add: kv spaced_member_def after_def)
  let ?sz = "sz + round_size_up t (pair_node_size t)"
  note room = alloc_node [OF Cons.prems(4) [simplified] Cons.prems(5)]
  have step: "object_loop t (Suc limit) obj (joined g (map (spaced_member h) (kv # kvs)) @ e @ ''}'' @ rest) sz =
      (case skip CHR ''}'' after of Some r \<Rightarrow> Some (obj @ [(k, JSON_STRING (Some v))], r, ?sz) | None \<Rightarrow>
        (case skip CHR '','' after of None \<Rightarrow> None
         | Some s \<Rightarrow> object_loop t (Suc limit) (obj @ [(k, JSON_STRING (Some v))]) s ?sz))"
    unfolding printed
    by (subst object_loop.simps)
       (simp add: parseString_print [OF nul(1)] skip_char(1) skipSpaces_blanks [OF assms(2)] skipSpaces_quote
         parseAnything_string [OF nul(2)] map_of_snoc_None [OF new] room(1))
  show ?case
  proof (cases "kvs = []")
    case True
    then show ?thesis unfolding step by (simp add: after_def skip_blanks [OF assms(3)] skip_char kv string_pairs_def)
  next
    case False
    then obtain k' x where "joined g (map (spaced_member h) kvs) @ e @ ''}'' @ rest = writeString (Some k') @ x"
      using joined_quote by blast
    then have more: "skip CHR '','' after = Some (joined g (map (spaced_member h) kvs) @ e @ ''}'' @ rest)"
      "skip CHR ''}'' after = None"
      using False by (simp_all add: after_def skip_char skipSpaces_blanks [OF assms(1)] skipSpaces_quote)
    have "distinct (map fst ((obj @ [(k, JSON_STRING (Some v))]) @ string_pairs kvs))"
      using Cons.prems(3) by (simp add: kv string_pairs_def)
    then obtain sz' where "object_loop t (Suc limit) (obj @ [(k, JSON_STRING (Some v))])
        (joined g (map (spaced_member h) kvs) @ e @ ''}'' @ rest) ?sz =
      Some ((obj @ [(k, JSON_STRING (Some v))]) @ string_pairs kvs, skipSpacesAndComments rest, sz')"
      using Cons.IH [OF False, of "obj @ [(k, JSON_STRING (Some v))]" ?sz] Cons.prems room(2) by auto
    then show ?thesis unfolding step more by (simp add: kv string_pairs_def)
  qed
qed simp

text \<open>The buffer holds an object of \<open>n\<close> nodes.\<close>

definition fits :: "json_target \<Rightarrow> nat \<Rightarrow> bool" where
  "fits t n \<longleftrightarrow> 0 < pointer_size t \<and> object_size t \<le> capacity t \<and>
     node_room t n (round_size_up t (object_size t))"

lemma parseObject_blanks:
  assumes "list_all is_blank g" "list_all is_blank h" "list_all is_blank e" "list_all is_blank a"
    and "list_all text_pair kvs" "distinct (map fst kvs)" "fits t (length kvs)"
  shows "\<exists>sz'. parseObject t (Suc limit) (''{'' @ a @ joined g (map (spaced_member h) kvs) @ e @ ''}'' @ rest) 0 =
    Some (string_pairs kvs, skipSpacesAndComments rest, sz')"
proof -
  have room: "alloc t (object_size t) 0 = Some (round_size_up t (object_size t))" "0 < pointer_size t"
    "node_room t (length kvs) (round_size_up t (object_size t))"
    using assms(7) by (simp_all add: fits_def alloc_def)
  show ?thesis
  proof (cases "kvs = []")
    case True
    then show ?thesis
      by (subst parseObject.simps)
         (simp add: room(1) skip_char string_pairs_def skipSpaces_blanks [OF assms(4)] skipSpaces_blanks [OF assms(3)]
           skipSpaces_stop skip_one_def)
  next
    case False
    let ?members = "joined g (map (spaced_member h) kvs) @ e @ ''}'' @ rest"
    obtain k x where x: "?members = writeString (Some k) @ x" using joined_quote [OF False] by blast
    have "map fst (string_pairs kvs) = map fst kvs" by (simp add: string_pairs_def split_def o_def)
    then obtain sz' where "object_loop t (Suc limit) [] ?members (round_size_up t (object_size t)) =
        Some (string_pairs kvs, skipSpacesAndComments rest, sz')"
      using object_loop_blanks [OF assms(1-3) False assms(5) _ room(3,2), of "[]" limit rest] assms(6) by auto
    moreover have "skip CHR ''{'' (''{'' @ a @ ?members) = Some ?members"
      using x by (simp add: skip_char skipSpaces_blanks [OF assms(4)] skipSpaces_quote)
    moreover have "skip CHR ''}'' ?members = None"
      unfolding x using writeString_hd [of k] by (auto simp: skip_char)
    ultimately show ?thesis by (subst parseObject.simps) (simp add: room(1))
  qed
qed

lemma parseObject_print:
  assumes "list_all text_pair kvs" "distinct (map fst kvs)" "fits t (length kvs)"
  shows "\<exists>sz'. parseObject t (Suc limit) (serialize (JSON_OBJECT (string_pairs kvs)) @ rest) 0 =
    Some (string_pairs kvs, skipSpacesAndComments rest, sz')"
  unfolding serialize_pairs joined_compact member_compact
  using parseObject_blanks [of "[]" "[]" "[]" "[]", OF _ _ _ _ assms, of limit rest] by simp

lemma json_round_trip_aux:
  assumes "list_all text_pair kvs" "distinct (map fst kvs)" "fits t (length kvs)"
  shows "map_option fst (parseObject t (Suc limit) (serialize (JSON_OBJECT (string_pairs kvs)) @ rest) 0) =
    Some (string_pairs kvs)"
  using parseObject_print [OF assms, of limit rest] by auto

section \<open>Properties\<close>

text \<open>C33: An object of strings is parsed back exactly as it was printed, whatever characters the names
  and values hold, quotes, backslashes and control characters included, and whatever follows it
  in memory, as long as the names differ and the buffer has room for a node each.\<close>

theorem json_round_trip:
  assumes "list_all text_pair kvs" "distinct (map fst kvs)" "fits t (length kvs)"
  shows "map_option fst (parseObject t (Suc limit) (printTo (JSON_OBJECT (string_pairs kvs)) [] @ rest) 0) =
    Some (string_pairs kvs)"
  using parseObject_print [OF assms, of limit rest] by (auto simp: printTo_def)

definition esp8266 :: json_target where
  "esp8266 = \<lparr>capacity = 400, pointer_size = 4, object_size = 8, array_size = 8,
     pair_node_size = 16, value_node_size = 12\<rparr>"

theorem json_round_trip_witness:
  "map_option fst (parseObject esp8266 10 (printTo (JSON_OBJECT (string_pairs
       [(''a'', [CHR 0x22, CHR 0x5C, CHR 0x0A]), (''b'', [])])) [] @ ''/* x'') 0) =
     Some (string_pairs [(''a'', [CHR 0x22, CHR 0x5C, CHR 0x0A]), (''b'', [])])"
proof -
  have "fits esp8266 2"
    by (simp add: fits_def esp8266_def node_room_def round_size_up_def)
  then show ?thesis
    using json_round_trip [of "[(''a'', [CHR 0x22, CHR 0x5C, CHR 0x0A]), (''b'', [])]" esp8266 9 "''/* x''"]
    by (simp add: text_pair_def NUL_def numeral_2_eq_2 numeral_eq_Suc)
qed

section \<open>What the parser makes of any text\<close>

text \<open>Keys of an object are distinct, and nothing is nested deeper than the limit.\<close>

fun well_formed :: "nat \<Rightarrow> JsonVariant \<Rightarrow> bool" where
  "well_formed 0 v = False"
| "well_formed (Suc n) (JSON_ARRAY vs) \<longleftrightarrow> (\<forall>v \<in> set vs. well_formed n v)"
| "well_formed (Suc n) (JSON_OBJECT kvs) \<longleftrightarrow>
     distinct (map fst kvs) \<and> (\<forall>v \<in> snd ` set kvs. well_formed n v)"
| "well_formed (Suc n) v = True"

lemma set_node_keys: "map fst (set_node k v obj) = map fst obj"
  by (induction k v obj rule: set_node.induct) auto

lemma set_node_values: "snd ` set (set_node k v obj) \<subseteq> insert v (snd ` set obj)"
  by (induction k v obj rule: set_node.induct) auto

lemma containsKey_iff: "containsKey k obj \<longleftrightarrow> k \<in> fst ` set obj"
  by (simp add: containsKey_def getNodeAt_def map_of_eq_None_iff)

lemma setNodeAt_object:
  assumes "setNodeAt t k v (obj, sz) = Some (obj', sz')" "distinct (map fst obj)"
  shows "distinct (map fst obj') \<and> snd ` set obj' \<subseteq> insert v (snd ` set obj)"
  using assms set_node_keys [of k v obj] set_node_values [of k v obj]
  by (auto simp: setNodeAt_def containsKey_iff split: if_splits option.splits)

lemma parse_well_formed:
  fixes t :: json_target
  shows "parseAnything t lim s sz = Some (v, r, sz') \<Longrightarrow> well_formed lim v"
  and "parseArray t lim s sz = Some (vs, r, sz') \<Longrightarrow> \<forall>v \<in> set vs. well_formed lim v"
  and "array_loop t lim vs0 s sz = Some (vs, r, sz') \<Longrightarrow> \<forall>v \<in> set vs0. well_formed lim v \<Longrightarrow>
     \<forall>v \<in> set vs. well_formed lim v"
  and "parseObject t lim s sz = Some (kvs, r, sz') \<Longrightarrow>
     distinct (map fst kvs) \<and> (\<forall>v \<in> snd ` set kvs. well_formed lim v)"
  and "object_loop t lim kvs0 s sz = Some (kvs, r, sz') \<Longrightarrow>
     distinct (map fst kvs0) \<and> (\<forall>v \<in> snd ` set kvs0. well_formed lim v) \<Longrightarrow>
     distinct (map fst kvs) \<and> (\<forall>v \<in> snd ` set kvs. well_formed lim v)"
proof (induction t lim s sz and t lim s sz and t lim vs0 s sz and t lim s sz and t lim kvs0 s sz
    arbitrary: v r sz' and vs r sz' and vs r sz' and kvs r sz' and kvs r sz'
    rule: parseAnything_parseArray_array_loop_parseObject_object_loop.induct)
  case (1 t lim s sz)
  let ?s = "skipSpacesAndComments s"
  show ?case
  proof (cases lim)
    case 0
    then show ?thesis using 1(3) [unfolded parseAnything.simps [of t lim], unfolded 0] by simp
  next
    case (Suc limit)
    note run = 1(3) [unfolded parseAnything.simps [of t lim], unfolded Suc nat.case Let_def]
    consider "?s \<noteq> [] \<and> hd ?s = CHR ''[''" | "\<not> (?s \<noteq> [] \<and> hd ?s = CHR ''['')" "?s \<noteq> [] \<and> hd ?s = CHR ''{''"
      | "\<not> (?s \<noteq> [] \<and> hd ?s = CHR ''['')" "\<not> (?s \<noteq> [] \<and> hd ?s = CHR ''{'')" by blast
    then show ?thesis
    proof cases
      case 1
      then obtain vs where vs: "parseArray t limit ?s sz = Some (vs, r, sz')" "v = JSON_ARRAY vs" using run by auto
      then show ?thesis using "1.IH"(1) [OF Suc refl 1 vs(1)] Suc by simp
    next
      case 2
      then obtain kvs where kvs: "parseObject t limit ?s sz = Some (kvs, r, sz')" "v = JSON_OBJECT kvs"
        using run by (simp only: if_False if_True) auto
      then show ?thesis using "1.IH"(2) [OF Suc refl 2 kvs(1)] Suc by simp
    next
      case 3
      then have "well_formed (Suc limit) v"
        using run by (simp only: if_False if_True)
          (auto simp: parseStringTo_def case_prod_beta Let_def split: if_splits)
      then show ?thesis using Suc by simp
    qed
  qed
next
  case (2 t limit s sz)
  obtain sz1 s1 where s1: "alloc t (array_size t) sz = Some sz1" "skip CHR ''['' s = Some s1"
    using 2(2) [unfolded parseArray.simps [of t limit s]] by (auto split: option.splits)
  note run = 2(2) [unfolded parseArray.simps [of t limit s] s1 option.case]
  show ?case
  proof (cases "skip CHR '']'' s1")
    case None
    then show ?thesis using 2(1) [OF s1 None, of vs r sz'] run by simp
  next
    case (Some r1)
    then show ?thesis using run by simp
  qed
next
  case (3 t limit arr s sz)
  note run0 = 3(3) [unfolded array_loop.simps [of t limit arr s]]
  obtain v1 s1 sz1 where v1: "parseAnything t limit s sz = Some (v1, s1, sz1)"
    using run0 by (auto split: option.splits)
  obtain arr1 sz2 where a1: "addNode t v1 (arr, sz1) = Some (arr1, sz2)"
    using run0 [unfolded v1] by (auto split: option.splits)
  note run = run0 [unfolded v1 option.case prod.case a1]
  have ok: "\<forall>v \<in> set arr1. well_formed limit v"
    using 3(1) [OF v1] 3(4) a1 by (auto simp: addNode_def split: option.splits)
  show ?case
  proof (cases "skip CHR '']'' s1")
    case None
    then obtain s2 where s2: "skip CHR '','' s1 = Some s2" using run by (auto split: option.splits)
    then show ?thesis using 3(2) [OF v1 refl refl a1 refl None s2 _ ok] run None by simp
  next
    case (Some r1)
    then show ?thesis using run ok by simp
  qed
next
  case (4 t limit s sz)
  obtain sz1 s1 where s1: "alloc t (object_size t) sz = Some sz1" "skip CHR ''{'' s = Some s1"
    using 4(2) [unfolded parseObject.simps [of t limit s]] by (auto split: option.splits)
  note run = 4(2) [unfolded parseObject.simps [of t limit s] s1 option.case]
  show ?case
  proof (cases "skip CHR ''}'' s1")
    case None
    then show ?thesis using 4(1) [OF s1 None, of kvs r sz'] run by simp
  next
    case (Some r1)
    then show ?thesis using run by simp
  qed
next
  case (5 t limit obj s sz)
  obtain key s1 where k: "parseString s = (key, s1)" by fastforce
  note run0 = 5(3) [unfolded object_loop.simps [of t limit obj s] k Let_def prod.case]
  obtain s2 where s2: "skip CHR '':'' s1 = Some s2" using run0 by (auto split: option.splits)
  obtain v1 s3 sz1 where v1: "parseAnything t limit s2 sz = Some (v1, s3, sz1)"
    using run0 [unfolded s2 option.case] by (auto split: option.splits)
  obtain obj1 sz2 where a1: "setNodeAt t key v1 (obj, sz1) = Some (obj1, sz2)"
    using run0 [unfolded s2 option.case v1] by (auto split: option.splits)
  note run = run0 [unfolded s2 option.case v1 prod.case a1]
  have ok: "distinct (map fst obj1) \<and> (\<forall>v \<in> snd ` set obj1. well_formed limit v)"
    using setNodeAt_object [OF a1] 5(1) [OF k [symmetric] refl s2 v1] 5(4) by blast
  show ?case
  proof (cases "skip CHR ''}'' s3")
    case None
    then obtain s4 where s4: "skip CHR '','' s3 = Some s4" using run by (auto split: option.splits)
    then show ?thesis
      using 5(2) [OF k [symmetric] refl s2 v1 refl refl a1 refl None s4 _ ok] run None by simp
  next
    case (Some r1)
    then show ?thesis using run ok by simp
  qed
qed

text \<open>C36: Type safety of the JSON parser: whatever text is read, a value that the parser returns
  is nested no deeper than the nesting limit it was called with, and every object in it has
  pairwise distinct keys.\<close>

theorem parsed_value_well_formed:
  assumes "parseAnything t limit s sz = Some (v, rest, sz')"
  shows "well_formed limit v"
  using assms by (rule parse_well_formed(1))

lemma sample_nested:
  "map_option fst (parseAnything esp8266 10 ''{a:{b:1,b:2}}'' 0) =
     Some (JSON_OBJECT [(''a'', JSON_OBJECT [(''b'', JSON_UNPARSED ''2'')])])"
  by code_simp

theorem parsed_value_well_formed_witness:
  "well_formed 10 (JSON_OBJECT [(''a'', JSON_OBJECT [(''b'', JSON_UNPARSED ''2'')])])"
proof -
  obtain r sz where "parseAnything esp8266 10 ''{a:{b:1,b:2}}'' 0 =
      Some (JSON_OBJECT [(''a'', JSON_OBJECT [(''b'', JSON_UNPARSED ''2'')])], r, sz)"
    using sample_nested by fastforce
  then show ?thesis by (rule parsed_value_well_formed)
qed

end
