(* ===== verification/ConfigFile.thy ===== *)
theory ConfigFile
  imports Json Platform
begin

text \<open>
  The configuration file, \<^verbatim>\<open>shared/config_file.cpp\<close>: the network and time zone settings as a JSON
  object of strings. \<open>Load\<close> reads the file into a buffer of exactly its size and parses it as a C
  string, so the parser also sees the memory behind the buffer: \<open>beyond\<close>.
\<close>

section \<open>The class\<close>

record ConfigFile =
  cfg_file_name :: string
  host_ap :: string
  host_ap_passwd :: string
  std_string :: string
  dst_string :: string
  std_offset :: int
  dst_offset :: int

text \<open>The constructor leaves the two offsets as the memory has them.\<close>

definition new_ConfigFile :: "int \<times> int \<Rightarrow> string \<Rightarrow> ConfigFile" where
  "new_ConfigFile memory file_name = \<lparr>cfg_file_name = file_name, host_ap = [], host_ap_passwd = [],
     std_string = [], dst_string = [], std_offset = fst memory, dst_offset = snd memory\<rparr>"

text \<open>The default limit of nested values of \<open>parseObject\<close>.\<close>

definition DEFAULT_LIMIT :: nat where "DEFAULT_LIMIT = 10"

text \<open>A \<open>String\<close> built from a null pointer is empty.\<close>

definition string_of :: "string option \<Rightarrow> string" where
  "string_of s = (case s of None \<Rightarrow> [] | Some s \<Rightarrow> s)"

definition Load ::
    "'w platform \<Rightarrow> json_target \<Rightarrow> string \<Rightarrow> ConfigFile \<Rightarrow> 'w \<Rightarrow> bool \<times> ConfigFile \<times> 'w" where
  "Load p t beyond c w =
     (let (config_file, w) = fs_read p (cfg_file_name c) w
      in case config_file of
           None \<Rightarrow> (False, c, w)
         | Some contents \<Rightarrow>
             if length contents > 1024 then (False, c, w)
             else (case parseObject t DEFAULT_LIMIT (c_text (contents @ beyond)) 0 of
                     None \<Rightarrow> (False, c, w)
                   | Some (json, _) \<Rightarrow>
                       (let c = c\<lparr>host_ap := string_of (asString (get ''host_ap'' json))\<rparr>;
                            c = c\<lparr>host_ap_passwd := string_of (asString (get ''host_ap_passwd'' json))\<rparr>;
                            c = c\<lparr>std_string := string_of (asString (get ''std_string'' json))\<rparr>;
                            c = c\<lparr>dst_string := string_of (asString (get ''dst_string'' json))\<rparr>;
                            c = c\<lparr>std_offset := atol (string_of (asString (get ''std_offset'' json)))\<rparr>;
                            c = c\<lparr>dst_offset := atol (string_of (asString (get ''dst_offset'' json)))\<rparr>
                        in (True, c, w))))"

text \<open>\<open>json[key] = value\<close> ignores whether there was room for the node.\<close>

definition assign_member ::
    "json_target \<Rightarrow> string \<Rightarrow> string \<Rightarrow> (string \<times> JsonVariant) list \<times> nat
     \<Rightarrow> (string \<times> JsonVariant) list \<times> nat" where
  "assign_member t key v st =
     (case setNodeAt t key (JSON_STRING (Some v)) st of None \<Rightarrow> st | Some st \<Rightarrow> st)"

definition config_members :: "ConfigFile \<Rightarrow> (string \<times> string) list" where
  "config_members c =
     [(''host_ap'', host_ap c), (''host_ap_passwd'', host_ap_passwd c), (''std_string'', std_string c),
      (''dst_string'', dst_string c), (''std_offset'', dec_of_int (std_offset c)),
      (''dst_offset'', dec_of_int (dst_offset c))]"

definition config_text :: "json_target \<Rightarrow> ConfigFile \<Rightarrow> string" where
  "config_text t c =
     (let json = (case alloc t (object_size t) 0 of
                    None \<Rightarrow> []
                  | Some sz \<Rightarrow> fst (fold (\<lambda>(k, v). assign_member t k v) (config_members c) ([], sz)))
      in printTo (JSON_OBJECT json) [])"

definition Save :: "'w platform \<Rightarrow> json_target \<Rightarrow> ConfigFile \<Rightarrow> 'w \<Rightarrow> bool \<times> 'w" where
  "Save p t c w =
     (let str = config_text t c;
          (written, w) = fs_write p (cfg_file_name c) str w
      in (case written of None \<Rightarrow> False | Some n \<Rightarrow> n = length str, w))"

section \<open>Saving and loading\<close>

text \<open>What the file system promises: a file written in full is read back.\<close>

definition keeps_files :: "'w platform \<Rightarrow> bool" where
  "keeps_files p \<longleftrightarrow>
     (\<forall>name s w. fst (fs_write p name s w) = Some (length s) \<longrightarrow>
        fst (fs_read p name (snd (fs_write p name s w))) = Some s)"

definition config_ok :: "ConfigFile \<Rightarrow> bool" where
  "config_ok c \<longleftrightarrow> NUL \<notin> set (host_ap c @ host_ap_passwd c @ std_string c @ dst_string c) \<and>
     int32_range (std_offset c) \<and> int32_range (dst_offset c)"

lemma fold_assign:
  assumes "node_room t (length kvs) sz" "0 < pointer_size t" "distinct (map fst (obj @ string_pairs kvs))"
  shows "fst (fold (\<lambda>(k, v). assign_member t k v) kvs (obj, sz)) = obj @ string_pairs kvs"
  using assms
proof (induction kvs arbitrary: obj sz)
  case (Cons kv kvs)
  obtain k v where kv: "kv = (k, v)" by (cases kv)
  have new: "map_of obj k = None" using Cons.prems(3) by (simp add: kv string_pairs_def map_of_eq_None_iff)
  note room = alloc_node [OF Cons.prems(1) [simplified] Cons.prems(2)]
  have "assign_member t k v (obj, sz) =
      (obj @ [(k, JSON_STRING (Some v))], sz + round_size_up t (pair_node_size t))"
    by (simp add: assign_member_def map_of_snoc_None [OF new] room(1))
  then show ?case
    using Cons.IH [OF room(2) Cons.prems(2), of "obj @ [(k, JSON_STRING (Some v))]"] Cons.prems(3)
    by (simp add: kv string_pairs_def)
qed (simp add: string_pairs_def)

lemma config_length: "length (config_members c) = 6"
  by (simp add: config_members_def)

lemma config_distinct: "distinct (map fst (config_members c))"
  by (simp add: config_members_def)

lemma map_fst_string_pairs: "map fst (string_pairs kvs) = map fst kvs"
  by (simp add: string_pairs_def split_def o_def)

lemma config_text_members:
  assumes "fits t 6"
  shows "config_text t c = serialize (JSON_OBJECT (string_pairs (config_members c)))"
proof -
  have room: "alloc t (object_size t) 0 = Some (round_size_up t (object_size t))" "0 < pointer_size t"
    "node_room t (length (config_members c)) (round_size_up t (object_size t))"
    using assms by (simp_all add: fits_def alloc_def config_length)
  have "distinct (map fst ([] @ string_pairs (config_members c)))"
    using config_distinct [of c] by (simp add: map_fst_string_pairs)
  then show ?thesis
    using fold_assign [OF room(3,2), of "[]"] by (simp add: config_text_def room(1) printTo_def)
qed

lemma writeString_no_NUL: "NUL \<notin> set (writeString s)"
proof -
  have "NUL \<notin> set (writeChar c)" if "c \<noteq> NUL" for c
    using that by (auto simp: writeChar_def escapeChar_def escape_table_def NUL_def Let_def)
  then show ?thesis
    by (cases s) (auto simp: writeString_def c_text_def NUL_def dest: set_takeWhileD)
qed

lemma with_commas_set: "set (with_commas ss) \<subseteq> \<Union> (set ` set ss) \<union> {CHR '',''}"
  by (induction ss rule: with_commas.induct) auto

lemma serialize_pairs_no_NUL: "NUL \<notin> set (serialize (JSON_OBJECT (string_pairs kvs)))"
proof -
  have "NUL \<notin> set (print_member kv)" for kv
    using writeString_no_NUL by (cases kv) (auto simp: print_member_def NUL_def)
  then have "NUL \<notin> set (with_commas (map print_member kvs))"
    using with_commas_set [of "map print_member kvs"] by (auto simp: NUL_def)
  then show ?thesis unfolding serialize_pairs by (auto simp: NUL_def)
qed

lemma c_text_append: "NUL \<notin> set s \<Longrightarrow> c_text (s @ r) = s @ c_text r"
  by (induction s) (auto simp: c_text_def)

lemma dec_of_int_no_NUL: "NUL \<notin> set (dec_of_int i)"
  using dec_of_int_chars [of NUL i] by (auto simp: NUL_def is_digit_def char_code_def)

lemma get_string_pairs:
  "get k (string_pairs kvs) = (case map_of kvs k of Some v \<Rightarrow> JSON_STRING (Some v) | None \<Rightarrow> JSON_UNDEFINED)"
  by (induction kvs) (auto simp: get_def getNodeAt_def string_pairs_def split: option.splits)

text \<open>What \<open>Load\<close> makes of a file that \<open>Save\<close> wrote.\<close>

lemma Load_Save:
  assumes "keeps_files p" "fits t 6" "config_ok c" "Save p t c w = (True, w')"
  shows "if length (config_text t c) \<le> 1024
    then fst (Load p t beyond (new_ConfigFile memory (cfg_file_name c)) w') = True \<and>
      fst (snd (Load p t beyond (new_ConfigFile memory (cfg_file_name c)) w')) = c
    else fst (Load p t beyond (new_ConfigFile memory (cfg_file_name c)) w') = False"
proof -
  have "fst (fs_write p (cfg_file_name c) (config_text t c) w) = Some (length (config_text t c))"
    "w' = snd (fs_write p (cfg_file_name c) (config_text t c) w)"
    using assms(4) by (auto simp: Save_def Let_def case_prod_beta split: option.splits)
  then have "fst (fs_read p (cfg_file_name c) w') = Some (config_text t c)"
    using assms(1) by (simp add: keeps_files_def)
  then obtain w'' where read: "fs_read p (cfg_file_name c) w' = (Some (config_text t c), w'')"
    by (cases "fs_read p (cfg_file_name c) w'") auto
  have "list_all text_pair (config_members c)"
    using assms(3) by (auto simp: config_ok_def config_members_def text_pair_def dec_of_int_no_NUL)
       (simp_all add: NUL_def)
  moreover have "fits t (length (config_members c))" using assms(2) by (simp add: config_length)
  moreover have "c_text (config_text t c @ beyond) = config_text t c @ c_text beyond"
    unfolding config_text_members [OF assms(2)] by (rule c_text_append [OF serialize_pairs_no_NUL])
  ultimately obtain r sz where parsed:
    "parseObject t DEFAULT_LIMIT (c_text (config_text t c @ beyond)) 0 = Some (string_pairs (config_members c), r, sz)"
    using parseObject_print [OF _ config_distinct, of c t 9 "c_text beyond"]
    by (auto simp: config_text_members [OF assms(2)] DEFAULT_LIMIT_def)
  have "atol (dec_of_int (std_offset c)) = std_offset c" "atol (dec_of_int (dst_offset c)) = dst_offset c"
    using assms(3) by (simp_all add: config_ok_def atol_dec)
  then show ?thesis
    by (simp add: Load_def new_ConfigFile_def read parsed get_string_pairs)
       (simp add: config_members_def asString_def string_of_def)
qed

section \<open>Property\<close>

text \<open>Settings that were saved are loaded back as they were, whatever characters they hold and
  whatever lies in memory behind the load buffer, when the file has at most 1024 characters:
  a longer one is written but refused by every later load.\<close>

theorem config_round_trip:
  assumes "keeps_files p" "fits t 6" "config_ok c" "Save p t c w = (True, w')"
  shows "if length (config_text t c) \<le> 1024
    then fst (Load p t beyond (new_ConfigFile memory (cfg_file_name c)) w') = True \<and>
      fst (snd (Load p t beyond (new_ConfigFile memory (cfg_file_name c)) w')) = c
    else fst (Load p t beyond (new_ConfigFile memory (cfg_file_name c)) w') = False"
  using assms by (rule Load_Save)

text \<open>A board with files and nothing else.\<close>

definition file_board :: "(string \<Rightarrow> string option) platform" where
  "file_board = \<lparr>get_millis = (\<lambda>w. (0, w)), do_delay = (\<lambda>n w. w), wifi_begin = (\<lambda>a b w. w),
     wifi_status = (\<lambda>w. (WL_DISCONNECTED, w)), wifi_disconnect = (\<lambda>w. (True, w)),
     wifi_isConnected = (\<lambda>w. (False, w)), wifi_localIP = (\<lambda>w. ((0, 0, 0, 0), w)),
     wifi_mode_ap_sta = (\<lambda>w. (True, w)), wifi_softAP = (\<lambda>a b w. (True, w)),
     wifi_hostByName = (\<lambda>n w. ((0, 0, 0, 0), w)), udp_begin = (\<lambda>n w. w),
     udp_parsePacket = (\<lambda>w. (0, w)), udp_read = (\<lambda>n w. ([], w)), udp_send = (\<lambda>a n b w. w),
     dht_begin = (\<lambda>w. w), dht_readHumidity = (\<lambda>w. (None, w)), dht_readTemperature = (\<lambda>f w. (None, w)),
     rtc_setup = (\<lambda>w. w), rtc_isValid = (\<lambda>w. (False, w)), rtc_get = (\<lambda>w. (0, w)), rtc_set = (\<lambda>t w. w),
     analog_read = (\<lambda>n w. (0, w)), analog_write = (\<lambda>n v w. w), digital_read = (\<lambda>n w. (True, w)),
     pin_mode = (\<lambda>n m w. w), fs_read = (\<lambda>n w. (w n, w)),
     fs_write = (\<lambda>n s w. (Some (length s), w(n \<mapsto> s))), unfit_to_int = (\<lambda>_. 0)\<rparr>"

definition sample_config :: ConfigFile where
  "sample_config = \<lparr>cfg_file_name = ''/c'', host_ap = [CHR 0x22, CHR 0x0A], host_ap_passwd = ''pw'',
     std_string = ''MST'', dst_string = ''MDT'', std_offset = - 420, dst_offset = - 360\<rparr>"

theorem config_round_trip_witness:
  "fst (Load file_board esp8266 ''zz'' (new_ConfigFile (7, 8) ''/c'')
      (snd (Save file_board esp8266 sample_config (\<lambda>_. None)))) = True \<and>
   fst (snd (Load file_board esp8266 ''zz'' (new_ConfigFile (7, 8) ''/c'')
      (snd (Save file_board esp8266 sample_config (\<lambda>_. None))))) = sample_config"
proof -
  have files: "keeps_files file_board" by (simp add: keeps_files_def file_board_def)
  have room: "fits esp8266 6" by (simp add: fits_def esp8266_def node_room_def round_size_up_def)
  have ok: "config_ok sample_config" by (simp add: config_ok_def sample_config_def int32_range_def NUL_def)
  obtain w' where w': "Save file_board esp8266 sample_config (\<lambda>_. None) = (True, w')"
    by (simp add: Save_def file_board_def Let_def)
  have "length (config_text esp8266 sample_config) < 200"
    unfolding config_text_members [OF room] by code_simp
  moreover have "cfg_file_name sample_config = ''/c''" by (simp add: sample_config_def)
  ultimately show ?thesis
    using config_round_trip [OF files room ok w', of "''zz''"] by (simp add: w')
qed

end
