(* ===== verification/OOWebServer.thy ===== *)
theory OOWebServer
  imports EspServer Platform
begin

text \<open>
  The layer between the weather station and the web server, \<^verbatim>\<open>shared/OOWebServer.h\<close>: handlers that
  are methods of the station, the list of pages with their templates, loaded from the file
  system when the server begins, and the two answers the handlers give. The list is kept in the
  state of the application, beside the server.
\<close>

section \<open>Pages\<close>

record html_page_info =
  page_uri :: string
  template_data :: string

record OOWebServer =
  templates_base_dir :: string
  page_info_list :: "html_page_info list"

definition new_OOWebServer :: "string \<Rightarrow> OOWebServer" where
  "new_OOWebServer dir = \<lparr>templates_base_dir = dir, page_info_list = []\<rparr>"

definition get_page_info :: "string \<Rightarrow> OOWebServer \<Rightarrow> html_page_info option" where
  "get_page_info uri o' = find (\<lambda>i. page_uri i = uri) (page_info_list o')"

definition add_page_info :: "string \<Rightarrow> OOWebServer \<Rightarrow> OOWebServer" where
  "add_page_info uri o' =
     (if get_page_info uri o' \<noteq> None then o'
      else o'\<lparr>page_info_list := \<lparr>page_uri = uri, template_data = []\<rparr> # page_info_list o'\<rparr>)"

definition get_page_template :: "string \<Rightarrow> OOWebServer \<Rightarrow> string" where
  "get_page_template uri o' = (case get_page_info uri o' of Some i \<Rightarrow> template_data i | None \<Rightarrow> [])"

definition get_current_page_template :: "'h WebServer \<Rightarrow> OOWebServer \<Rightarrow> string" where
  "get_current_page_template sv o' = get_page_template (sv_uri sv) o'"

text \<open>\<open>load_page_templates\<close> sets every entry of the address, \<open>LoadTemplate\<close> the first one.\<close>

definition load_page_templates :: "string \<Rightarrow> string \<Rightarrow> OOWebServer \<Rightarrow> OOWebServer" where
  "load_page_templates uri page o' =
     o'\<lparr>page_info_list := map (\<lambda>i. if page_uri i = uri then i\<lparr>template_data := page\<rparr> else i) (page_info_list o')\<rparr>"

fun set_template :: "string \<Rightarrow> string \<Rightarrow> html_page_info list \<Rightarrow> html_page_info list" where
  "set_template uri page [] = []"
| "set_template uri page (i # is) =
     (if page_uri i = uri then i\<lparr>template_data := page\<rparr> # is else i # set_template uri page is)"

definition LoadTemplate ::
    "'w platform \<Rightarrow> string \<Rightarrow> string \<Rightarrow> OOWebServer \<times> 'w \<Rightarrow> OOWebServer \<times> 'w" where
  "LoadTemplate p uri templateName = (\<lambda>(o', w).
     (case get_page_info uri o' of
        None \<Rightarrow> (o', w)
      | Some _ \<Rightarrow>
          (let template_fil_name = templates_base_dir o' @ templateName;
               (contents, w) = fs_read p template_fil_name w
           in case contents of
                None \<Rightarrow> (o', w)
              | Some s \<Rightarrow> (o'\<lparr>page_info_list := set_template uri (c_text s) (page_info_list o')\<rparr>, w))))"

definition template_name :: "string \<Rightarrow> string" where
  "template_name uri = (if uri = ''/'' then ''/index'' else uri) @ ''.html''"

fun load_each :: "'w platform \<Rightarrow> string list \<Rightarrow> OOWebServer \<times> 'w \<Rightarrow> OOWebServer \<times> 'w" where
  "load_each p [] st = st"
| "load_each p (uri # uris) st = load_each p uris (LoadTemplate p uri (template_name uri) st)"

definition loadPageTemplates :: "'w platform \<Rightarrow> OOWebServer \<times> 'w \<Rightarrow> OOWebServer \<times> 'w" where
  "loadPageTemplates p = (\<lambda>(o', w). load_each p (map page_uri (page_info_list o')) (o', w))"

section \<open>Handlers and answers\<close>

definition oo_on_upload ::
    "string \<Rightarrow> HTTPMethod \<Rightarrow> 'h \<Rightarrow> 'h option \<Rightarrow> 'h WebServer \<times> OOWebServer \<Rightarrow> 'h WebServer \<times> OOWebServer" where
  "oo_on_upload uri meth f uf = (\<lambda>(sv, o').
     (addHandler (MethodRequestHandler f uf uri meth) sv, add_page_info uri o'))"

definition oo_on_method ::
    "string \<Rightarrow> HTTPMethod \<Rightarrow> 'h \<Rightarrow> 'h WebServer \<times> OOWebServer \<Rightarrow> 'h WebServer \<times> OOWebServer" where
  "oo_on_method uri meth f = oo_on_upload uri meth f None"

definition oo_on ::
    "string \<Rightarrow> 'h \<Rightarrow> 'h WebServer \<times> OOWebServer \<Rightarrow> 'h WebServer \<times> OOWebServer" where
  "oo_on uri f = oo_on_method uri HTTP_ANY f"

definition redirect_to :: "string \<Rightarrow> 'h WebServer \<Rightarrow> 'h WebServer option" where
  "redirect_to uri sv = send 302 (Some []) uri (sendHeader ''Location'' uri False sv)"

definition render_page :: "string \<Rightarrow> 'h WebServer \<Rightarrow> 'h WebServer option" where
  "render_page content sv = send 200 (Some ''text/html'') content sv"

section \<open>Lemmas\<close>

lemma get_page_info_add:
  "get_page_info uri' (add_page_info uri o') =
     (if uri' = uri \<and> get_page_info uri o' = None then Some \<lparr>page_uri = uri, template_data = []\<rparr>
      else get_page_info uri' o')"
  by (auto simp: add_page_info_def get_page_info_def)

lemma find_set_template:
  "find (\<lambda>i. page_uri i = u) (set_template uri page is) =
     (if u = uri then map_option (\<lambda>i. i\<lparr>template_data := page\<rparr>) (find (\<lambda>i. page_uri i = u) is)
      else find (\<lambda>i. page_uri i = u) is)"
  by (induction uri page "is" rule: set_template.induct) auto

lemma get_page_template_set:
  "get_page_template u (o'\<lparr>page_info_list := set_template uri page (page_info_list o')\<rparr>) =
     (if u = uri \<and> get_page_info uri o' \<noteq> None then page else get_page_template u o')"
  by (auto simp: get_page_template_def get_page_info_def find_set_template split: option.splits)

lemma dec_200: "dec_of_int 200 = ''200''"
  by code_simp

lemma render_page_answer:
  "sv_request sv = Some r \<Longrightarrow> NUL \<notin> set content \<Longrightarrow>
     \<exists>sv'. render_page content sv = Some sv' \<and>
       sv_request sv' = Some (r\<lparr>req_status := ''200 OK'', req_responseHeaders := c_text (sv_responseHeaders sv), req_answer := content\<rparr>)"
  by (simp add: render_page_def send_def sendContent_def responseCodeToString_def dec_200)

end
