(* ===== verification/Common.thy ===== *)
theory Common
  imports Platform
begin

text \<open>
  What the two boards share: the names and defaults of \<^verbatim>\<open>include/ws_common.h\<close>, and the
  conversion of a sensor's reading.
\<close>

definition ap_ssid :: string where "ap_ssid = ''JRL_WS_0''"
definition ap_password :: string where "ap_password = ''MyWeather1234''"
definition TEMP_REPORT_SERVER_LISTEN_PORT :: nat where "TEMP_REPORT_SERVER_LISTEN_PORT = 8080"
definition report_url :: string where "report_url = ''/report_sensor_data''"
definition temp_var_name :: string where "temp_var_name = ''temp''"
definition humidity_var_name :: string where "humidity_var_name = ''humidity''"
definition k_default_tz_std_name :: string where "k_default_tz_std_name = ''MST''"
definition k_default_tz_dst_name :: string where "k_default_tz_dst_name = ''MDT''"
definition k_default_std_tz_offset :: int where "k_default_std_tz_offset = - 7 * 60"
definition k_default_dst_tz_offset :: int where "k_default_dst_tz_offset = - 6 * 60"

text \<open>
  A \<open>float\<close> assigned to an \<open>int\<close>. The fraction is cut off; what becomes of no number, and of a number that does
  not fit, is up to the platform.
\<close>

definition int_of_float :: "'w platform \<Rightarrow> rat option \<Rightarrow> int" where
  "int_of_float p x =
     (case x of None \<Rightarrow> unfit_to_int p x
      | Some r \<Rightarrow> (let n = if 0 \<le> r then \<lfloor>r\<rfloor> else \<lceil>r\<rceil> in if int32_range n then n else unfit_to_int p x))"

end
