(* ===== verification/WeatherStation.thy ===== *)
theory WeatherStation
  imports Common OOWebServer ConfigFile Wifi NtpClient TimeZone DateStrings Display
begin

text \<open>
  The base station, \<^verbatim>\<open>weather_station_base/weather_station_base_class.cpp\<close>: its start, its loop,
  the timer that redraws the display, the pages it serves and the settings it keeps. The state is
  the class's members with the Time library's state, the NTP packet buffer and the world of the
  board; the web server is threaded beside it, as the handlers run inside it. \<open>None\<close> is a run
  that is undefined or does not return. What only goes to the serial port is left out.
\<close>

section \<open>State\<close>

definition k_default_host_ssid :: string where "k_default_host_ssid = ''ACESS_POINT''"
definition k_default_host_password :: string where "k_default_host_password = ''Password123''"
definition CONFIG_FILE_NAME :: string where "CONFIG_FILE_NAME = ''/ws_config.json''"
definition LOCAL_SENSOR_UPDATE_INTERVAL_MS :: time_t where "LOCAL_SENSOR_UPDATE_INTERVAL_MS = 1 * 60 * 1000"
definition UPDATE_TIME_UPDATE_INTERVAL_MS :: time_t where "UPDATE_TIME_UPDATE_INTERVAL_MS = 15 * 60 * 1000"
definition UDP_LISTEN_PORT :: nat where "UDP_LISTEN_PORT = 8888"
definition A0 :: nat where "A0 = 17"

text \<open>What the model takes from outside: the board, the sizes of the JSON library's types on it, the
  memory behind a load buffer, the uninitialised members of a new \<open>ConfigFile\<close> and of a new time zone, and
  \<open>(int)(s.toFloat() * SECS_PER_MIN)\<close> of a string.\<close>

record 'w setting =
  hw :: "'w platform"
  json_sizes :: json_target
  beyond_buffer :: string
  offset_memory :: "int \<times> int"
  tz_memory :: "time_t \<times> time_t \<times> time_t \<times> time_t"
  float_times_60 :: "string \<Rightarrow> int"

record 'w station =
  pages :: OOWebServer
  world :: 'w
  lib :: timelib
  ntp_buffer :: packet
  m_wifi_connected :: bool
  m_last_time_update :: time_t
  m_last_local_sensor_update :: time_t
  m_host_ssid :: string
  m_host_password :: string
  m_ntp_client :: NtpClient
  m_display_timer :: bool
  m_current_local_sensor_data :: sensor_data
  m_current_remote_sensor_data :: sensor_data
  m_last_display_data :: display_data
  m_std_string :: string
  m_dst_string :: string
  m_std_offset :: int
  m_dst_offset :: int
  m_tz :: "Timezone option"
  m_display :: Display
  m_backlight_level :: int
  m_last_light_level :: int
  m_boost_backlight :: bool

text \<open>The methods registered as handlers.\<close>

datatype handler_method = Handle_sensor_data_post | Handle_root | HandleTime | SetTime | SetTimeZone
  | HandleWiFiConfig | SetWiFiConfig

type_synonym 'w run = "handler_method WebServer \<times> 'w station"

definition millis :: "'w setting \<Rightarrow> 'w station \<Rightarrow> u32 \<times> 'w station" where
  "millis b st = (let (m, w) = get_millis (hw b) (world st) in (m, st\<lparr>world := w\<rparr>))"

text \<open>The constructor; \<open>shown0\<close> is the uninitialised time of the display data.\<close>

definition new_WeatherStationBase :: "'w setting \<Rightarrow> time_t \<Rightarrow> timelib \<Rightarrow> 'w \<Rightarrow> 'w run" where
  "new_WeatherStationBase b shown0 l w =
     (let (m1, w) = get_millis (hw b) w; (m2, w) = get_millis (hw b) w
      in (new_WebServer TEMP_REPORT_SERVER_LISTEN_PORT,
          \<lparr>pages = new_OOWebServer ''/web_templates'', world = w, lib = l, ntp_buffer = packet_init,
           m_wifi_connected = False, m_last_time_update = m1, m_last_local_sensor_update = m2,
           m_host_ssid = k_default_host_ssid, m_host_password = k_default_host_password,
           m_ntp_client = new_NtpClient, m_display_timer = False,
           m_current_local_sensor_data = new_sensor_data, m_current_remote_sensor_data = new_sensor_data,
           m_last_display_data = \<lparr>local_data = new_sensor_data, remote_data = new_sensor_data, shown_time = shown0\<rparr>,
           m_std_string = k_default_tz_std_name, m_dst_string = k_default_tz_dst_name,
           m_std_offset = k_default_std_tz_offset, m_dst_offset = k_default_dst_tz_offset,
           m_tz = None, m_display = new_Display, m_backlight_level = 511, m_last_light_level = 0,
           m_boost_backlight = False\<rparr>))"

section \<open>Clock\<close>

definition station_now :: "'w setting \<Rightarrow> 'w station \<Rightarrow> time_t \<times> 'w station" where
  "station_now b st = (let (m, st) = millis b st; (t, l) = now m (lib st) in (t, st\<lparr>lib := l\<rparr>))"

definition set_clock :: "'w setting \<Rightarrow> time_t \<Rightarrow> 'w station \<Rightarrow> 'w station" where
  "set_clock b t st = (let (m, st) = millis b st in st\<lparr>lib := TimeLib.setTime t m (lib st)\<rparr>)"

text \<open>\<open>m_tz->toLocal(t)\<close> and \<open>m_tz->toUTC(t)\<close>.\<close>

definition tz_toLocal :: "time_t \<Rightarrow> 'w station \<Rightarrow> (time_t \<times> 'w station) option" where
  "tz_toLocal t st =
     do { z \<leftarrow> m_tz st; (l, z, s) \<leftarrow> toLocal t z (lib st); Some (l, st\<lparr>m_tz := Some z, lib := s\<rparr>) }"

definition tz_toUTC :: "time_t \<Rightarrow> 'w station \<Rightarrow> (time_t \<times> 'w station) option" where
  "tz_toUTC t st =
     do { z \<leftarrow> m_tz st; (u, z, s) \<leftarrow> toUTC t z (lib st); Some (u, st\<lparr>m_tz := Some z, lib := s\<rparr>) }"

text \<open>\<open>strncpy\<close> into the six characters of \<open>abbrev\<close>.\<close>

definition make_tz :: "'w setting \<Rightarrow> 'w station \<Rightarrow> 'w station" where
  "make_tz b st =
     (let myDST = usDST (m_dst_offset st);
          mySTD = usSTD (m_std_offset st);
          myDST = myDST\<lparr>abbrev := take 6 (m_dst_string st)\<rparr>;
          mySTD = mySTD\<lparr>abbrev := take 6 (m_std_string st)\<rparr>
      in st\<lparr>m_tz := Some (new_Timezone (tz_memory b) myDST mySTD)\<rparr>)"

definition set_rtc :: "'w setting \<Rightarrow> time_t \<Rightarrow> 'w station \<Rightarrow> 'w station" where
  "set_rtc b t st = st\<lparr>world := rtc_set (hw b) t (world st)\<rparr>"

section \<open>Settings\<close>

definition load_config :: "'w setting \<Rightarrow> 'w station \<Rightarrow> bool \<times> 'w station" where
  "load_config b st =
     (let (ok, c, w) = Load (hw b) (json_sizes b) (beyond_buffer b) (new_ConfigFile (offset_memory b) CONFIG_FILE_NAME) (world st);
          st = st\<lparr>world := w\<rparr>
      in if \<not> ok then (False, st)
         else (let st = st\<lparr>m_host_ssid := host_ap c, m_host_password := host_ap_passwd c\<rparr>
               in (True, if length (std_string c) > 0 \<and> length (dst_string c) > 0
                         then st\<lparr>m_dst_string := dst_string c, m_dst_offset := dst_offset c,
                                m_std_string := std_string c, m_std_offset := std_offset c\<rparr>
                         else st)))"

definition save_config ::
    "'w setting \<Rightarrow> string \<Rightarrow> string \<Rightarrow> string \<Rightarrow> int \<Rightarrow> string \<Rightarrow> int \<Rightarrow> 'w station \<Rightarrow> bool \<times> 'w station" where
  "save_config b ap ap_passwd std_str std_off dst_str dst_off st =
     (let c = (new_ConfigFile (offset_memory b) CONFIG_FILE_NAME)\<lparr>host_ap := ap, host_ap_passwd := ap_passwd,
                 std_string := std_str, std_offset := std_off, dst_string := dst_str, dst_offset := dst_off\<rparr>;
          (ok, w) = Save (hw b) (json_sizes b) c (world st);
          st = st\<lparr>world := w\<rparr>
      in if \<not> ok then (False, st)
         else (True, st\<lparr>m_host_ssid := ap, m_host_password := ap_passwd, m_std_string := std_str,
                       m_std_offset := std_off, m_dst_string := dst_str, m_dst_offset := dst_off\<rparr>))"

definition save_wifi_config :: "'w setting \<Rightarrow> string \<Rightarrow> string \<Rightarrow> 'w station \<Rightarrow> bool \<times> 'w station" where
  "save_wifi_config b ap ap_passwd st =
     save_config b ap ap_passwd (m_std_string st) (m_std_offset st) (m_dst_string st) (m_dst_offset st) st"

definition save_tz_config :: "'w setting \<Rightarrow> string \<Rightarrow> int \<Rightarrow> string \<Rightarrow> int \<Rightarrow> 'w station \<Rightarrow> bool \<times> 'w station" where
  "save_tz_config b std_str std_off dst_str dst_off st =
     save_config b (m_host_ssid st) (m_host_password st) std_str std_off dst_str dst_off st"

section \<open>Backlight\<close>

definition set_backlight_level :: "'w setting \<Rightarrow> int \<Rightarrow> 'w station \<Rightarrow> 'w station" where
  "set_backlight_level b level st =
     (let level = (if level > 1023 then 1023 else level);
          level = (if level < 0 then 0 else level);
          st = st\<lparr>m_backlight_level := level\<rparr>
      in st\<lparr>world := analog_write (hw b) 12 (1023 - m_backlight_level st) (world st)\<rparr>)"

text \<open>\<open>map\<close> of \<^verbatim>\<open>Arduino.cpp\<close>, on 32-bit \<open>long\<close>s.\<close>

definition map_long :: "int \<Rightarrow> int \<Rightarrow> int \<Rightarrow> int \<Rightarrow> int \<Rightarrow> int" where
  "map_long x in_min in_max out_min out_max =
     s32 (s32 (s32 (x - in_min) * s32 (out_max - out_min)) sdiv s32 (in_max - in_min) + out_min)"

definition adjust_back_light :: "'w setting \<Rightarrow> bool \<Rightarrow> 'w station \<Rightarrow> 'w station" where
  "adjust_back_light b force st =
     (let (light_level, w) = analog_read (hw b) A0 (world st); st = st\<lparr>world := w\<rparr>
      in if \<bar>light_level - m_last_light_level st\<bar> > 10 \<or> force
         then (let new_backlight_level = map_long light_level 10 900 25 200;
                   new_backlight_level = (if m_boost_backlight st then new_backlight_level + 128
                                          else new_backlight_level);
                   st = set_backlight_level b new_backlight_level st
               in st\<lparr>m_last_light_level := light_level\<rparr>)
         else st)"

definition handle_backlight_button :: "'w setting \<Rightarrow> 'w station \<Rightarrow> 'w station" where
  "handle_backlight_button b st =
     (let (high, w) = digital_read (hw b) 10 (world st); st = st\<lparr>world := w\<rparr>
      in if \<not> high
         then (if \<not> m_boost_backlight st
               then adjust_back_light b True (st\<lparr>m_boost_backlight := True\<rparr>) else st)
         else (if m_boost_backlight st
               then adjust_back_light b True (st\<lparr>m_boost_backlight := False\<rparr>) else st))"

section \<open>Readings and time\<close>

fun sensor_loop ::
    "'w platform \<Rightarrow> nat \<Rightarrow> rat option \<Rightarrow> rat option \<Rightarrow> 'w \<Rightarrow> rat option \<times> rat option \<times> 'w" where
  "sensor_loop p 0 hum temp w = (hum, temp, w)"
| "sensor_loop p (Suc n) hum temp w =
     (if hum = None \<or> temp = None
      then (let (hum, w) = dht_readHumidity p w;
                (temp, w) = dht_readTemperature p True w
            in sensor_loop p n hum temp (do_delay p 1000 w))
      else (hum, temp, w))"

definition update_local_sensor_data :: "'w setting \<Rightarrow> bool \<Rightarrow> 'w station \<Rightarrow> 'w station" where
  "update_local_sensor_data b update_now st =
     (let (current_time, st) = millis b st
      in if \<not> update_now \<and> current_time - m_last_local_sensor_update st <s LOCAL_SENSOR_UPDATE_INTERVAL_MS
         then st
         else (let st = st\<lparr>m_last_local_sensor_update := current_time\<rparr>;
                   (hum, temp, w) = sensor_loop (hw b) 5 None None (world st)
               in st\<lparr>world := w, m_current_local_sensor_data :=
                     \<lparr>temperature = int_of_float (hw b) temp, humidity = int_of_float (hw b) hum\<rparr>\<rparr>))"

definition update_time :: "'w setting \<Rightarrow> bool \<Rightarrow> 'w station \<Rightarrow> 'w station option" where
  "update_time b update_now st =
     (let (current_time, st) = millis b st
      in if \<not> update_now \<and> current_time - m_last_time_update st <s UPDATE_TIME_UPDATE_INTERVAL_MS
         then Some st
         else (let st = st\<lparr>m_last_time_update := current_time\<rparr>;
                   st = (if \<not> m_wifi_connected st
                         then (let (ok, w) = connect_wifi (hw b) (m_host_ssid st) (m_host_password st) 20 (world st)
                               in st\<lparr>m_wifi_connected := ok, world := w\<rparr>)
                         else st)
               in if \<not> m_wifi_connected st then Some st
                  else do { (new_time, buffer, w) \<leftarrow> get_time (hw b) (m_ntp_client st) (ntp_buffer st, world st);
                            let st = st\<lparr>ntp_buffer := buffer, world := w\<rparr>
                            in Some (if new_time = 0 then st else set_clock b new_time (set_rtc b new_time st)) }))"

section \<open>Display\<close>

fun prepend :: "nat \<Rightarrow> char \<Rightarrow> string \<Rightarrow> string" where
  "prepend 0 fill_char str = str"
| "prepend (Suc n) fill_char str = prepend n fill_char (fill_char # str)"

definition pad_string :: "string \<Rightarrow> nat \<Rightarrow> char \<Rightarrow> string" where
  "pad_string str width fill_char =
     (if length str < width then prepend (width - length str) fill_char str else str)"

definition draw_display :: "'w station \<Rightarrow> 'w station option" where
  "draw_display st =
     (let t = shown_time (m_last_display_data st);
          tm = breakTime t;
          (h12, l) = hourFormat12 t (lib st);
          time_string = dec_of_int h12 @ '':'' @ pad_string (dec_of_int (uint (tm_Minute tm))) 2 (CHR ''0'');
          (am, l) = isAM t l;
          time_meridian = (if am then ''am'' else ''pm'')
      in do { dow \<leftarrow> dayShortStr (tm_Wday tm);
              mon \<leftarrow> monthShortStr (tm_Month tm);
              let date_string = dow @ '', '' @ mon @ '' '' @ dec_of_int (uint (tm_Day tm)) @ '', '' @
                                  dec_of_int (tmYearToCalendar (tm_Year tm));
                  d = update_time_string time_string (m_display st);
                  d = update_time_meridian time_meridian d;
                  d = update_date_string date_string d;
                  d = update_inside_temp_string (get_local_sensor_string (m_last_display_data st)) d;
                  d = update_outside_temp_string (get_remote_sensor_string (m_last_display_data st)) d
              in Some (st\<lparr>lib := l, m_display := d\<rparr>) })"

definition update_display :: "'w setting \<Rightarrow> bool \<Rightarrow> 'w station \<Rightarrow> 'w station option" where
  "update_display b update_now st =
     (let st = adjust_back_light b False st; (t, st) = station_now b st
      in do { (current_time, st) \<leftarrow> tz_toLocal t st;
              let current_local = m_current_local_sensor_data st;
                  current_remote = m_current_remote_sensor_data st;
                  (ch, l) = (if update_now then (True, lib st)
                             else changed (m_last_display_data st) current_local current_remote current_time (lib st));
                  st = st\<lparr>lib := l\<rparr>
              in if ch
                 then draw_display (st\<lparr>m_last_display_data :=
                        update (m_last_display_data st) current_local current_remote current_time\<rparr>)
                 else Some st })"

section \<open>Pages\<close>

definition IPAddressToString :: "ip \<Rightarrow> string" where
  "IPAddressToString = (\<lambda>(a, b, c, d).
     dec_of_int (uint a) @ ''.'' @ dec_of_int (uint b) @ ''.'' @ dec_of_int (uint c) @ ''.'' @ dec_of_int (uint d))"

definition reading :: "int \<Rightarrow> string" where
  "reading v = (if 0xffff = v then ''--'' else dec_of_int v)"

text \<open>
  The pages are \<open>String\<close>s: a copy of the template, in a buffer of its length, whose tags are replaced
  one after the other. A replacement that outgrows its buffer (\<open>text_replace\<close>) is undefined; the
  allocator is taken to give what it is asked for.
\<close>

definition page_template :: "'h WebServer \<Rightarrow> OOWebServer \<Rightarrow> string \<times> nat" where
  "page_template sv o' = (let t = get_current_page_template sv o' in (t, length t))"

definition handle_root :: "'w setting \<Rightarrow> 'w run \<Rightarrow> 'w run option" where
  "handle_root b = (\<lambda>(sv, st).
     (let page = page_template sv (pages st);
          d = m_last_display_data st; t = shown_time d; tm = breakTime t;
          (h12, l) = hourFormat12 t (lib st);
          (am, l) = isAM t l
      in do { page \<leftarrow> text_replace ''<%hour%>'' (dec_of_int h12) page;
              page \<leftarrow> text_replace ''<%minute%>'' (pad_string (dec_of_int (uint (tm_Minute tm))) 2 (CHR ''0'')) page;
              page \<leftarrow> text_replace ''<%meridian%>'' (if am then ''am'' else ''pm'') page;
              dow \<leftarrow> dayShortStr (tm_Wday tm);
              page \<leftarrow> text_replace ''<%day_of_week%>'' dow page;
              page \<leftarrow> text_replace ''<%day%>'' (dec_of_int (uint (tm_Day tm))) page;
              mon \<leftarrow> monthShortStr (tm_Month tm);
              page \<leftarrow> text_replace ''<%month%>'' mon page;
              page \<leftarrow> text_replace ''<%year%>'' (dec_of_int (tmYearToCalendar (tm_Year tm))) page;
              page \<leftarrow> text_replace ''<%inside_temperature%>'' (dec_of_int (temperature (local_data d))) page;
              page \<leftarrow> text_replace ''<%inside_humidity%>'' (dec_of_int (humidity (local_data d))) page;
              page \<leftarrow> text_replace ''<%outside_temperature%>'' (reading (temperature (remote_data d))) page;
              page \<leftarrow> text_replace ''<%outside_humidity%>'' (reading (humidity (remote_data d))) page;
              page \<leftarrow> text_replace ''<%backlight_level%>'' (dec_of_int (m_backlight_level st)) page;
              let (light, w) = analog_read (hw b) A0 (world st)
              in do { page \<leftarrow> text_replace ''<%light_sensor%>'' (dec_of_int light) page;
                      let (connected, w) = is_wifi_connected (hw b) w;
                          (local_ip_string, w) =
                            (if connected then (let (a, w) = get_local_ip (hw b) w in (IPAddressToString a, w))
                             else (''Not connected'', w))
                      in do { (page, room) \<leftarrow> text_replace ''<%host_ip%>'' local_ip_string page;
                              sv \<leftarrow> render_page page sv;
                              Some (sv, st\<lparr>lib := l, world := w\<rparr>) } } }))"

definition handle_sensor_data_post :: "'w run \<Rightarrow> 'w run option" where
  "handle_sensor_data_post = (\<lambda>(sv, st).
     (let st = st\<lparr>m_current_remote_sensor_data :=
                 \<lparr>temperature = atol (arg temp_var_name sv), humidity = atol (arg humidity_var_name sv)\<rparr>\<rparr>
      in do { sv \<leftarrow> send 200 (Some ''text/plain'') ''OK'' sv; Some (sv, st) }))"

definition handleTime :: "'w setting \<Rightarrow> 'w run \<Rightarrow> 'w run option" where
  "handleTime b = (\<lambda>(sv, st).
     (let (t, st) = station_now b st
      in do { (tNow, st) \<leftarrow> tz_toLocal t st;
              let tm = breakTime tNow
              in do { page \<leftarrow> text_replace ''<%hour%>'' (dec_of_int (uint (tm_Hour tm))) (page_template sv (pages st));
                      page \<leftarrow> text_replace ''<%minute%>'' (dec_of_int (uint (tm_Minute tm))) page;
                      page \<leftarrow> text_replace ''<%day%>'' (dec_of_int (uint (tm_Day tm))) page;
                      page \<leftarrow> text_replace ''<%month%>'' (dec_of_int (uint (tm_Month tm))) page;
                      (page, room) \<leftarrow> text_replace ''<%year%>'' (dec_of_int (tmYearToCalendar (tm_Year tm))) page;
                      sv \<leftarrow> render_page page sv;
                      Some (sv, st) } }))"

text \<open>The fields of a time set by hand, as the eight-bit members they are stored in; the weekday is
  not set, and not read by \<open>makeTime\<close>.\<close>

definition posted_time :: "handler_method WebServer \<Rightarrow> tmElements_t" where
  "posted_time sv =
     (let year = atol (arg ''year'' sv); year = (if year < 100 then year + 2000 else year)
      in \<lparr>tm_Second = 0, tm_Minute = of_int (atol (arg ''minute'' sv)), tm_Hour = of_int (atol (arg ''hour'' sv)),
          tm_Wday = 0, tm_Day = of_int (atol (arg ''day'' sv)), tm_Month = of_int (atol (arg ''month'' sv)),
          tm_Year = of_int (year - 1970)\<rparr>)"

definition ws_setTime :: "'w setting \<Rightarrow> 'w run \<Rightarrow> 'w run option" where
  "ws_setTime b = (\<lambda>(sv, st).
     do { st \<leftarrow> (if hasArg ''hour'' sv \<and> hasArg ''minute'' sv \<and> hasArg ''month'' sv \<and> hasArg ''day'' sv \<and>
                  hasArg ''year'' sv
               then do { new_time \<leftarrow> makeTime (posted_time sv);
                         (utc_time, st) \<leftarrow> tz_toUTC new_time st;
                         (local_t, st) \<leftarrow> tz_toLocal new_time (set_clock b utc_time (set_rtc b utc_time st));
                         Some (st\<lparr>m_last_display_data := (m_last_display_data st)\<lparr>shown_time := local_t\<rparr>\<rparr>) }
               else Some st);
          sv \<leftarrow> redirect_to ''/'' sv;
          Some (sv, st) })"

definition ws_setTimeZone :: "'w setting \<Rightarrow> 'w run \<Rightarrow> 'w run option" where
  "ws_setTimeZone b = (\<lambda>(sv, st).
     do { st \<leftarrow> (if hasArg ''time_zone'' sv
               then (let tz_string = arg ''time_zone'' sv;
                         use_dst = ends_with ''d'' tz_string;
                         tz_string = (if use_dst then substr 0 (length tz_string - 1) tz_string else tz_string);
                         offs = float_times_60 b tz_string;
                         dst_off = (if use_dst then s32 (offs + 60) else offs);
                         dst_str = (if use_dst then ''?DT'' else ''?ST'');
                         (ok, st) = save_tz_config b ''?ST'' offs dst_str dst_off st;
                         (t, st) = station_now b (make_tz b st)
                     in do { (local_t, st) \<leftarrow> tz_toLocal t st;
                             Some (st\<lparr>m_last_display_data := (m_last_display_data st)\<lparr>shown_time := local_t\<rparr>\<rparr>) })
               else Some st);
          sv \<leftarrow> redirect_to ''/'' sv;
          Some (sv, st) })"

definition wifi_page :: "string \<Rightarrow> string \<Rightarrow> string \<times> nat \<Rightarrow> (string \<times> nat) option" where
  "wifi_page ssid password page = do {
     page \<leftarrow> text_replace ''<%ap%>'' ssid page;
     text_replace ''<%ap_passwd%>'' password page }"

definition handleWiFiConfig :: "'w run \<Rightarrow> 'w run option" where
  "handleWiFiConfig = (\<lambda>(sv, st).
     do { (page, room) \<leftarrow> wifi_page (m_host_ssid st) (m_host_password st) (page_template sv (pages st));
          sv \<leftarrow> render_page page sv;
          Some (sv, st) })"

definition ws_setWiFiConfig :: "'w setting \<Rightarrow> 'w run \<Rightarrow> 'w run option" where
  "ws_setWiFiConfig b = (\<lambda>(sv, st).
     do { st \<leftarrow> (if \<not> hasArg ''ap'' sv \<or> \<not> hasArg ''ap_passwd'' sv then Some st
               else (let (ok, st) = save_wifi_config b (arg ''ap'' sv) (arg ''ap_passwd'' sv) st;
                         st = (if m_wifi_connected st
                               then (let (_, w) = disconnect_wifi (hw b) (world st)
                                     in st\<lparr>world := w, m_wifi_connected := False\<rparr>)
                               else st);
                         (_, w) = connect_wifi (hw b) (m_host_ssid st) (m_host_password st) 20 (world st)
                     in update_time b True (st\<lparr>world := w\<rparr>)));
          sv \<leftarrow> redirect_to ''/'' sv;
          Some (sv, st) })"

section \<open>Start and loop\<close>

definition run_handler :: "'w setting \<Rightarrow> handler_method \<Rightarrow> 'w run \<Rightarrow> 'w run option" where
  "run_handler b f =
     (case f of
        Handle_sensor_data_post \<Rightarrow> handle_sensor_data_post
      | Handle_root \<Rightarrow> handle_root b
      | HandleTime \<Rightarrow> handleTime b
      | SetTime \<Rightarrow> ws_setTime b
      | SetTimeZone \<Rightarrow> ws_setTimeZone b
      | HandleWiFiConfig \<Rightarrow> handleWiFiConfig
      | SetWiFiConfig \<Rightarrow> ws_setWiFiConfig b)"

definition station_env :: "'w setting \<Rightarrow> (handler_method, 'w station) environment" where
  "station_env b = \<lparr>run_fn = run_handler b, file_text = (\<lambda>st name. fst (fs_read (hw b) name (world st)))\<rparr>"

definition register_handlers :: "'w run \<Rightarrow> 'w run" where
  "register_handlers = (\<lambda>(sv, st).
     (let s = (sv, pages st);
          s = oo_on_method report_url HTTP_POST Handle_sensor_data_post s;
          s = oo_on ''/'' Handle_root s;
          s = oo_on_method ''/time'' HTTP_GET HandleTime s;
          s = oo_on_method ''/time'' HTTP_POST SetTime s;
          s = oo_on_method ''/time_zone'' HTTP_POST SetTimeZone s;
          s = oo_on_method ''/wifi_config'' HTTP_GET HandleWiFiConfig s;
          (sv, o') = oo_on_method ''/wifi_config'' HTTP_POST SetWiFiConfig s
      in (sv, st\<lparr>pages := o'\<rparr>)))"

text \<open>The set-up of the clock chip is one call of the board; \<open>reset()\<close> does nothing.\<close>

definition ws_server_begin :: "'w setting \<Rightarrow> 'w run \<Rightarrow> 'w run option" where
  "ws_server_begin b = (\<lambda>(sv, st).
     (let st = st\<lparr>m_display := display_begin (m_display st)\<rparr>;
          w = pin_mode (hw b) 12 True (world st);
          w = pin_mode (hw b) 10 False w;
          st = set_backlight_level b (m_backlight_level st) (st\<lparr>world := w\<rparr>);
          w = rtc_setup (hw b) (world st);
          (valid, w) = rtc_isValid (hw b) w;
          st = st\<lparr>world := w\<rparr>;
          st = (if valid
                then (let (t, w) = rtc_get (hw b) (world st) in set_clock b t (st\<lparr>world := w\<rparr>))
                else st);
          (_, st) = load_config b st;
          st = make_tz b st;
          w = dht_begin (hw b) (world st);
          (_, w) = start_access_point (hw b) ap_ssid ap_password w;
          (ok, w) = connect_wifi (hw b) (m_host_ssid st) (m_host_password st) 20 w;
          st = st\<lparr>world := w, m_wifi_connected := ok\<rparr>;
          (sv, st) = register_handlers (sv, st);
          (ntp, w) = ntp_begin (hw b) UDP_LISTEN_PORT (m_ntp_client st) (world st);
          st = st\<lparr>m_ntp_client := ntp, world := do_delay (hw b) 1000 w\<rparr>
      in do { st \<leftarrow> update_time b True st;
              st \<leftarrow> update_display b True (update_local_sensor_data b True st);
              Some (sv, st\<lparr>m_display_timer := True\<rparr>) }))"

definition ws_begin :: "'w setting \<Rightarrow> 'w run \<Rightarrow> 'w run option" where
  "ws_begin b = (\<lambda>(sv, st).
     do { (sv, st) \<leftarrow> ws_server_begin b (server_begin sv, st);
          let (o', w) = loadPageTemplates (hw b) (pages st, world st)
          in Some (sv, st\<lparr>pages := o', world := w\<rparr>) })"

text \<open>
  One round of the loop, with the request that is answered in it, if any, and its answer. The web server of
  \<^verbatim>\<open>esp8266_sim\<close> waits in \<open>handleClient\<close> for a client (\<open>Accept\<close> blocks) and leaves its request to a thread of
  its own; the library of the device returns at once when there is no client, and answers the request before it
  returns. \<open>Some r\<close> is the second with a client. \<open>None\<close> is the second without one, and the first once a client
  has come: its request is then a step of its own, at any time between rounds (\<open>served\<close> in StationRuns).
\<close>

definition on_loop :: "'w setting \<Rightarrow> http_request option \<Rightarrow> 'w run \<Rightarrow> (http_request option \<times> 'w run) option" where
  "on_loop b req = (\<lambda>(sv, st).
     do { st \<leftarrow> update_time b False (update_local_sensor_data b False st);
          (answer, sv, st) \<leftarrow>
            (case req of
               None \<Rightarrow> Some (None, sv, st)
             | Some r \<Rightarrow> map_option (\<lambda>(r, sv, st). (Some r, sv, st)) (handle_get (station_env b) r (sv, st)));
          Some (answer, sv, handle_backlight_button b st) })"

end
