(* ===== verification/StationRuns.thy ===== *)
theory StationRuns
  imports WeatherStation
begin

text \<open>
  The base station in operation: the states it reaches from its start by rounds of its loop and
  ticks of its display timer, and what holds in all of them.
\<close>

section \<open>The time zone is always defined\<close>

definition us_zone :: "Timezone \<Rightarrow> bool" where
  "us_zone z \<longleftrightarrow> week (dst z) = Second \<and> rmonth (dst z) = Mar \<and> week (std z) = First \<and> rmonth (std z) = Nov"

lemma toTime_t_defined:
  assumes "week r \<noteq> 0" "unat (rmonth r) \<le> 12"
  shows "\<exists>t s'. toTime_t r yr s = Some (t, s')"
proof -
  have "makeTime_months y [1..<unat (rmonth r)] x \<noteq> None" for y x
    using assms(2) makeTime_months_correct [of "unat (rmonth r) - 1"]
    by (cases "unat (rmonth r)") auto
  then show ?thesis
    using assms(1) by (auto simp: toTime_t_def makeTime_def case_prod_beta Let_def split: option.splits)
qed


lemma calcTimeChanges_defined:
  assumes "us_zone z"
  shows "\<exists>z' s'. calcTimeChanges yr z s = Some (z', s') \<and> us_zone z'"
proof -
  have r: "week (dst z) \<noteq> 0" "unat (rmonth (dst z)) \<le> 12" "week (std z) \<noteq> 0" "unat (rmonth (std z)) \<le> 12"
    using assms by (simp_all add: us_zone_def rule_constants)
  obtain t1 s1 where 1: "toTime_t (dst z) yr s = Some (t1, s1)"
    using toTime_t_defined [OF r(1,2)] by blast
  obtain t2 s2 where "toTime_t (std z) yr s1 = Some (t2, s2)"
    using toTime_t_defined [OF r(3,4)] by blast
  with 1 assms show ?thesis by (simp add: calcTimeChanges_def us_zone_def)
qed

lemma recalc_defined:
  "us_zone z \<Longrightarrow> \<exists>z' s'. recalc p t z s = Some (z', s') \<and> us_zone z'"
  using calcTimeChanges_defined by (simp add: recalc_def case_prod_beta Let_def)

lemma utcIsDST_defined:
  "us_zone z \<Longrightarrow> \<exists>d z' s'. utcIsDST t z s = Some (d, z', s') \<and> us_zone z'"
  using recalc_defined [of z dstUTC t s] by (auto simp: utcIsDST_def)

lemma locIsDST_defined:
  "us_zone z \<Longrightarrow> \<exists>d z' s'. locIsDST t z s = Some (d, z', s') \<and> us_zone z'"
  using recalc_defined [of z dstLoc t s] by (auto simp: locIsDST_def)

lemma toLocal_defined:
  assumes "us_zone z"
  shows "\<exists>l z' s'. toLocal t z s = Some (l, z', s') \<and> us_zone z'"
proof -
  obtain z1 s1 where "recalc dstUTC t z s = Some (z1, s1)" "us_zone z1"
    using recalc_defined [OF assms] by blast
  then show ?thesis using utcIsDST_defined [of z1 t s1] by (auto simp: toLocal_def)
qed

lemma toUTC_defined:
  assumes "us_zone z"
  shows "\<exists>u z' s'. toUTC t z s = Some (u, z', s') \<and> us_zone z'"
proof -
  obtain z1 s1 where "recalc dstLoc t z s = Some (z1, s1)" "us_zone z1"
    using recalc_defined [OF assms] by blast
  then show ?thesis using locIsDST_defined [of z1 t s1] by (auto simp: toUTC_def)
qed

section \<open>The invariant of the station\<close>

text \<open>The display stands on the readings last drawn: the two sensor regions show them.\<close>

definition shows_readings :: "'w station \<Rightarrow> bool" where
  "shows_readings st \<longleftrightarrow> display_ok (m_display st) \<and>
     m_last_inside_temp_string (m_display st) = get_local_sensor_string (m_last_display_data st) \<and>
     m_last_outside_temp_string (m_display st) = get_remote_sensor_string (m_last_display_data st)"

definition level_ok :: "'w station \<Rightarrow> bool" where
  "level_ok st \<longleftrightarrow> 0 \<le> m_backlight_level st \<and> m_backlight_level st \<le> 1023"

definition zone_ready :: "'w station \<Rightarrow> bool" where
  "zone_ready st \<longleftrightarrow> (\<exists>z. m_tz st = Some z \<and> us_zone z)"

definition ready :: "'w station \<Rightarrow> bool" where
  "ready st \<longleftrightarrow> level_ok st \<and> zone_ready st \<and> m_udp (m_ntp_client st)"

definition running :: "'w station \<Rightarrow> bool" where
  "running st \<longleftrightarrow> ready st \<and> shows_readings st"

lemmas running_defs = running_def ready_def shows_readings_def level_ok_def zone_ready_def

text \<open>The parts of the state that the invariant does not look at.\<close>

lemma running_frame [simp]:
  "running (st\<lparr>world := w\<rparr>) = running st" "running (st\<lparr>lib := l\<rparr>) = running st"
  "running (st\<lparr>ntp_buffer := b\<rparr>) = running st" "running (st\<lparr>pages := o'\<rparr>) = running st"
  "running (st\<lparr>m_wifi_connected := c\<rparr>) = running st" "running (st\<lparr>m_last_time_update := t\<rparr>) = running st"
  "running (st\<lparr>m_last_local_sensor_update := t\<rparr>) = running st"
  "running (st\<lparr>m_current_local_sensor_data := d\<rparr>) = running st"
  "running (st\<lparr>m_current_remote_sensor_data := d\<rparr>) = running st"
  "running (st\<lparr>m_host_ssid := s\<rparr>) = running st" "running (st\<lparr>m_host_password := s\<rparr>) = running st"
  "running (st\<lparr>m_std_string := s\<rparr>) = running st" "running (st\<lparr>m_dst_string := s\<rparr>) = running st"
  "running (st\<lparr>m_std_offset := i\<rparr>) = running st" "running (st\<lparr>m_dst_offset := i\<rparr>) = running st"
  "running (st\<lparr>m_last_light_level := i\<rparr>) = running st" "running (st\<lparr>m_boost_backlight := c\<rparr>) = running st"
  "running (st\<lparr>m_last_display_data := (m_last_display_data st)\<lparr>shown_time := t\<rparr>\<rparr>) = running st"
  by (simp_all add: running_defs get_local_sensor_string_def get_remote_sensor_string_def)

lemma ready_frame [simp]:
  "ready (st\<lparr>world := w\<rparr>) = ready st" "ready (st\<lparr>lib := l\<rparr>) = ready st"
  "ready (st\<lparr>ntp_buffer := b\<rparr>) = ready st" "ready (st\<lparr>pages := o'\<rparr>) = ready st"
  "ready (st\<lparr>m_wifi_connected := c\<rparr>) = ready st" "ready (st\<lparr>m_last_time_update := t\<rparr>) = ready st"
  "ready (st\<lparr>m_last_local_sensor_update := t\<rparr>) = ready st"
  "ready (st\<lparr>m_current_local_sensor_data := d\<rparr>) = ready st"
  "ready (st\<lparr>m_last_light_level := i\<rparr>) = ready st"
  "ready (st\<lparr>m_last_display_data := dd\<rparr>) = ready st" "ready (st\<lparr>m_display := x\<rparr>) = ready st"
  "ready (st\<lparr>m_display_timer := c\<rparr>) = ready st"
  by (simp_all add: running_defs)

section \<open>Operations keep the invariant\<close>

named_theorems keeps

lemma millis_keeps [keeps]:
  "millis b st = (m, st') \<Longrightarrow> ready st \<Longrightarrow> ready st'" "millis b st = (m, st') \<Longrightarrow> running st \<Longrightarrow> running st'"
  by (auto simp: millis_def case_prod_beta)

lemma station_now_keeps [keeps]:
  "station_now b st = (t, st') \<Longrightarrow> ready st \<Longrightarrow> ready st'" "station_now b st = (t, st') \<Longrightarrow> running st \<Longrightarrow> running st'"
  by (auto simp: station_now_def millis_def case_prod_beta Let_def)

lemma set_clock_keeps [keeps, simp]:
  "ready (set_clock b t st) = ready st" "running (set_clock b t st) = running st"
  by (simp_all add: set_clock_def millis_def case_prod_beta Let_def)

lemma set_rtc_keeps [simp]:
  "ready (set_rtc b t st) = ready st" "running (set_rtc b t st) = running st"
  by (simp_all add: set_rtc_def)

lemma set_zone_keeps:
  "us_zone z \<Longrightarrow> ready (st\<lparr>m_tz := Some z, lib := l\<rparr>) = (level_ok st \<and> m_udp (m_ntp_client st))"
  "us_zone z \<Longrightarrow> running st \<Longrightarrow> running (st\<lparr>m_tz := Some z, lib := l\<rparr>)"
  by (auto simp: running_defs)

lemma tz_toLocal_returns:
  assumes "zone_ready st"
  shows "\<exists>t' z l. tz_toLocal t st = Some (t', st\<lparr>m_tz := Some z, lib := l\<rparr>) \<and> us_zone z"
proof -
  obtain z where z: "m_tz st = Some z" "us_zone z" using assms by (auto simp: zone_ready_def)
  from toLocal_defined [OF z(2), of t "lib st"] show ?thesis
    by (force simp: tz_toLocal_def z(1))
qed

lemma tz_toUTC_returns:
  assumes "zone_ready st"
  shows "\<exists>t' z l. tz_toUTC t st = Some (t', st\<lparr>m_tz := Some z, lib := l\<rparr>) \<and> us_zone z"
proof -
  obtain z where z: "m_tz st = Some z" "us_zone z" using assms by (auto simp: zone_ready_def)
  from toUTC_defined [OF z(2), of t "lib st"] show ?thesis
    by (force simp: tz_toUTC_def z(1))
qed

lemma running_ready: "running st \<Longrightarrow> ready st" "ready st \<Longrightarrow> zone_ready st"
  by (simp_all add: running_def ready_def)

lemma tz_toLocal_keeps [keeps]:
  assumes "tz_toLocal t st = Some (t', st')"
  shows "ready st \<Longrightarrow> ready st'" "running st \<Longrightarrow> running st'"
  using assms tz_toLocal_returns [of st t] running_ready [of st] set_zone_keeps
  by (fastforce simp: ready_def)+

lemma tz_toUTC_keeps [keeps]:
  assumes "tz_toUTC t st = Some (t', st')"
  shows "ready st \<Longrightarrow> ready st'" "running st \<Longrightarrow> running st'"
  using assms tz_toUTC_returns [of st t] running_ready [of st] set_zone_keeps
  by (fastforce simp: ready_def)+

lemma make_tz_keeps [simp]:
  "zone_ready (make_tz b st)" "level_ok (make_tz b st) = level_ok st"
  "m_ntp_client (make_tz b st) = m_ntp_client st" "shows_readings (make_tz b st) = shows_readings st"
  by (auto simp: make_tz_def Let_def running_defs us_zone_def new_Timezone_def usDST_def usSTD_def
      split: prod.split)

lemma set_backlight_level_keeps [simp]:
  "level_ok (set_backlight_level b l st)"
  "zone_ready (set_backlight_level b l st) = zone_ready st"
  "m_ntp_client (set_backlight_level b l st) = m_ntp_client st"
  "shows_readings (set_backlight_level b l st) = shows_readings st"
  by (simp_all add: set_backlight_level_def Let_def running_defs)

lemma adjust_back_light_keeps [keeps, simp]:
  "ready st \<Longrightarrow> ready (adjust_back_light b force st)" "running st \<Longrightarrow> running (adjust_back_light b force st)"
  by (simp_all add: adjust_back_light_def case_prod_beta Let_def running_def ready_def)
     (simp_all add: running_defs set_backlight_level_def Let_def)

lemma handle_backlight_button_keeps [keeps]:
  "running st \<Longrightarrow> running (handle_backlight_button b st)"
  by (simp add: handle_backlight_button_def case_prod_beta Let_def)

lemma update_local_sensor_data_keeps [simp]:
  "ready (update_local_sensor_data b u st) = ready st"
  "running (update_local_sensor_data b u st) = running st"
  by (simp_all add: update_local_sensor_data_def millis_def case_prod_beta Let_def)

lemma update_time_keeps [keeps]:
  assumes "update_time b update_now st = Some st'"
  shows "ready st \<Longrightarrow> ready st'" "running st \<Longrightarrow> running st'"
  using assms
  by (auto simp: update_time_def millis_def case_prod_beta Let_def bind_eq_Some_conv split: if_splits)

text \<open>Drawing: the date strings are always there, so it always ends, and leaves the screen with
  the readings it was given.\<close>

lemma draw_display_returns:
  "\<exists>l d. draw_display st = Some (st\<lparr>lib := l, m_display := d\<rparr>) \<and>
     (display_ok (m_display st) \<longrightarrow> shows_readings (st\<lparr>lib := l, m_display := d\<rparr>))"
proof -
  let ?t = "shown_time (m_last_display_data st)"
  obtain ms ds where names: "monthShortStr (tm_Month (breakTime ?t)) = Some ms"
    "dayShortStr (tm_Wday (breakTime ?t)) = Some ds"
    using date_names_defined [of ?t] by blast
  have "\<exists>l t m d. draw_display st = Some (st\<lparr>lib := l, m_display :=
      run_updates [(TimeSlot, t), (MeridianSlot, m), (DateSlot, d),
        (InsideSlot, get_local_sensor_string (m_last_display_data st)),
        (OutsideSlot, get_remote_sensor_string (m_last_display_data st))] (m_display st)\<rparr>)"
    unfolding draw_display_def names Let_def case_prod_beta Option.bind.simps run_updates_def
      fold.simps o_apply id_apply prod.sel update_slot.simps by (intro exI) (rule refl)
  then obtain l t m d where eq: "draw_display st = Some (st\<lparr>lib := l, m_display :=
      run_updates [(TimeSlot, t), (MeridianSlot, m), (DateSlot, d),
        (InsideSlot, get_local_sensor_string (m_last_display_data st)),
        (OutsideSlot, get_remote_sensor_string (m_last_display_data st))] (m_display st)\<rparr>)" by blast
  show ?thesis
    unfolding eq
  proof (intro exI conjI impI)
    assume "display_ok (m_display st)"
    note u = run_updates_ok [OF this]
    show "shows_readings (st\<lparr>lib := l, m_display :=
      run_updates [(TimeSlot, t), (MeridianSlot, m), (DateSlot, d),
        (InsideSlot, get_local_sensor_string (m_last_display_data st)),
        (OutsideSlot, get_remote_sensor_string (m_last_display_data st))] (m_display st)\<rparr>)"
      unfolding shows_readings_def using u [where k = InsideSlot] u [where k = OutsideSlot] by simp
  qed (rule refl)
qed

lemma update_display_returns:
  assumes "zone_ready st"
  shows "\<exists>st'. update_display b update_now st = Some st'"
proof -
  obtain t st1 where 1: "station_now b (adjust_back_light b False st) = (t, st1)" by fastforce
  have "zone_ready (adjust_back_light b False st)"
    using assms by (simp add: adjust_back_light_def case_prod_beta Let_def zone_ready_def set_backlight_level_def)
  then have "zone_ready st1"
    using 1 by (auto simp: station_now_def millis_def case_prod_beta Let_def zone_ready_def)
  from tz_toLocal_returns [OF this, of t] obtain t' st2 where 2: "tz_toLocal t st1 = Some (t', st2)" by blast
  have "\<exists>d. draw_display x = Some d" for x :: "'a station" using draw_display_returns [of x] by blast
  with 1 2 show ?thesis by (auto simp: update_display_def Let_def case_prod_beta)
qed

lemma update_display_draws:
  assumes "update_display b update_now st = Some st'" "ready st" "display_ok (m_display st)"
    and "update_now \<or> shows_readings st"
  shows "ready st'" "shows_readings st'"
    "local_data (m_last_display_data st') = m_current_local_sensor_data st"
    "remote_data (m_last_display_data st') = m_current_remote_sensor_data st"
    "m_current_local_sensor_data st' = m_current_local_sensor_data st"
    "m_current_remote_sensor_data st' = m_current_remote_sensor_data st"
proof -
  obtain t st1 where 1: "station_now b (adjust_back_light b False st) = (t, st1)" by fastforce
  let ?same = "\<lambda>x. m_display x = m_display st \<and> m_last_display_data x = m_last_display_data st \<and>
    m_current_local_sensor_data x = m_current_local_sensor_data st \<and>
    m_current_remote_sensor_data x = m_current_remote_sensor_data st"
  have "?same (adjust_back_light b False st)"
    by (simp add: adjust_back_light_def case_prod_beta Let_def set_backlight_level_def)
  then have s1: "?same st1" "ready st1"
    using 1 station_now_keeps(1) [OF 1] adjust_back_light_keeps(1) [OF assms(2), of b False]
    by (auto simp: station_now_def millis_def case_prod_beta Let_def)
  then obtain t' z l where 2: "tz_toLocal t st1 = Some (t', st1\<lparr>m_tz := Some z, lib := l\<rparr>)"
    using tz_toLocal_returns [of st1 t] running_ready by blast
  define st2 where "st2 = st1\<lparr>m_tz := Some z, lib := l\<rparr>"
  have s2: "?same st2" "ready st2"
    using s1(1) tz_toLocal_keeps(1) [OF 2 s1(2)] by (simp_all add: st2_def)
  let ?l = "m_current_local_sensor_data st" and ?r = "m_current_remote_sensor_data st"
  obtain ch l' where ch: "(if update_now then (True, lib st2)
      else changed (m_last_display_data st2) ?l ?r t' (lib st2)) = (ch, l')" by fastforce
  define st3 where "st3 = st2\<lparr>lib := l'\<rparr>"
  have st': "(if ch then draw_display (st3\<lparr>m_last_display_data := update (m_last_display_data st3) ?l ?r t'\<rparr>)
      else Some st3) = Some st'"
    using assms(1) ch [folded s2(1) [THEN conjunct2, THEN conjunct2, THEN conjunct1]
        s2(1) [THEN conjunct2, THEN conjunct2, THEN conjunct2]] s2(1)
    by (cases ch) (simp_all add: update_display_def Let_def st3_def 1 2 [folded st2_def])
  have s3: "?same st3" "ready st3" using s2 by (simp_all add: st3_def)
  have "ready st' \<and> shows_readings st' \<and> local_data (m_last_display_data st') = ?l \<and>
    remote_data (m_last_display_data st') = ?r \<and> m_current_local_sensor_data st' = ?l \<and>
    m_current_remote_sensor_data st' = ?r"
  proof (cases ch)
    case True
    then show ?thesis
      using st' s3 assms(3)
        draw_display_returns [of "st3\<lparr>m_last_display_data := update (m_last_display_data st3) ?l ?r t'\<rparr>"]
      by (auto simp: update_def)
  next
    case False
    then have "\<not> update_now" "?l = local_data (m_last_display_data st)" "?r = remote_data (m_last_display_data st)"
      using ch s2(1) by (auto simp: changed_def case_prod_beta Let_def sensor_neq_iff split: if_splits)
    then show ?thesis
      using False st' s3 assms(4) by (auto simp: shows_readings_def)
  qed
  then show "ready st'" "shows_readings st'" "local_data (m_last_display_data st') = ?l"
    "remote_data (m_last_display_data st') = ?r" "m_current_local_sensor_data st' = ?l"
    "m_current_remote_sensor_data st' = ?r" by blast+
qed

section \<open>The handlers keep the invariant\<close>

lemma send_frame: "send code t content sv = Some sv' \<Longrightarrow> sv_handlers sv' = sv_handlers sv"
  by (auto simp: send_def sendContent_def split: option.splits)

lemma render_page_frame [keeps]: "render_page content sv = Some sv' \<Longrightarrow> sv_handlers sv' = sv_handlers sv"
  by (auto simp: render_page_def dest: send_frame)

lemma redirect_to_frame [keeps]: "redirect_to uri sv = Some sv' \<Longrightarrow> sv_handlers sv' = sv_handlers sv"
  by (auto simp: redirect_to_def sendHeader_def dest: send_frame)

lemma save_config_keeps [simp]:
  "running (snd (save_config b ap pw ss so ds do' st)) = running st"
  by (simp add: save_config_def case_prod_beta Let_def)

lemma station_now_running [simp]: "running (snd (station_now b st)) = running st"
  by (simp add: station_now_def millis_def case_prod_beta Let_def)

lemma make_tz_running [simp]: "running st \<Longrightarrow> running (make_tz b st)"
  by (simp add: running_def ready_def)

lemma tz_toLocal_frame:
  "tz_toLocal t st = Some (t', st') \<Longrightarrow> running st \<longrightarrow> running st'"
  by (blast dest: tz_toLocal_keeps(2))

lemma tz_toUTC_frame:
  "tz_toUTC t st = Some (t', st') \<Longrightarrow> running st \<longrightarrow> running st'"
  by (blast dest: tz_toUTC_keeps(2))

lemma handle_root_keeps:
  assumes "handle_root b (sv, st) = Some (sv', st')"
  shows "running st' = running st \<and> sv_handlers sv' = sv_handlers sv"
  using assms unfolding handle_root_def prod.case case_prod_beta Let_def
  by (auto simp: bind_eq_Some_conv dest: render_page_frame)

lemma handle_sensor_data_post_keeps:
  assumes "handle_sensor_data_post (sv, st) = Some (sv', st')"
  shows "running st' = running st \<and> sv_handlers sv' = sv_handlers sv"
  using assms by (auto simp: handle_sensor_data_post_def bind_eq_Some_conv dest: send_frame)

lemma handleTime_keeps:
  assumes "handleTime b (sv, st) = Some (sv', st')" "running st"
  shows "running st' \<and> sv_handlers sv' = sv_handlers sv"
  using assms unfolding handleTime_def prod.case case_prod_beta Let_def
  by (auto simp: bind_eq_Some_conv dest!: render_page_frame tz_toLocal_frame)

lemma ws_setTime_keeps:
  assumes "ws_setTime b (sv, st) = Some (sv', st')" "running st"
  shows "running st' \<and> sv_handlers sv' = sv_handlers sv"
  using assms unfolding ws_setTime_def prod.case
  by (auto simp: bind_eq_Some_conv dest!: redirect_to_frame tz_toLocal_frame tz_toUTC_frame split: if_splits)

lemma ws_setTimeZone_keeps:
  assumes "ws_setTimeZone b (sv, st) = Some (sv', st')" "running st"
  shows "running st' \<and> sv_handlers sv' = sv_handlers sv"
  using assms unfolding ws_setTimeZone_def prod.case save_tz_config_def
  by (auto simp: bind_eq_Some_conv case_prod_beta Let_def dest!: redirect_to_frame tz_toLocal_frame
      split: if_splits)

lemma handleWiFiConfig_keeps:
  assumes "handleWiFiConfig (sv, st) = Some (sv', st')"
  shows "running st' = running st \<and> sv_handlers sv' = sv_handlers sv"
  using assms by (auto simp: handleWiFiConfig_def bind_eq_Some_conv dest: render_page_frame)

lemma ws_setWiFiConfig_keeps:
  assumes "ws_setWiFiConfig b (sv, st) = Some (sv', st')" "running st"
  shows "running st' \<and> sv_handlers sv' = sv_handlers sv"
  using assms unfolding ws_setWiFiConfig_def prod.case save_wifi_config_def
  by (auto simp: bind_eq_Some_conv case_prod_beta Let_def dest!: redirect_to_frame update_time_keeps(2)
      split: if_splits)

lemma run_handler_keeps:
  assumes "run_handler b f (sv, st) = Some (sv', st')" "running st"
  shows "running st' \<and> sv_handlers sv' = sv_handlers sv"
  using assms
  by (cases f) (simp_all add: run_handler_def handle_root_keeps handle_sensor_data_post_keeps
      handleTime_keeps ws_setTime_keeps ws_setTimeZone_keeps handleWiFiConfig_keeps ws_setWiFiConfig_keeps)

text \<open>The seven handlers, in the order they are registered.\<close>

definition station_handlers :: "handler_method RequestHandler list" where
  "station_handlers =
     [MethodRequestHandler Handle_sensor_data_post None report_url HTTP_POST,
      MethodRequestHandler Handle_root None ''/'' HTTP_ANY,
      MethodRequestHandler HandleTime None ''/time'' HTTP_GET,
      MethodRequestHandler SetTime None ''/time'' HTTP_POST,
      MethodRequestHandler SetTimeZone None ''/time_zone'' HTTP_POST,
      MethodRequestHandler HandleWiFiConfig None ''/wifi_config'' HTTP_GET,
      MethodRequestHandler SetWiFiConfig None ''/wifi_config'' HTTP_POST]"

definition station_ok :: "'w run \<Rightarrow> bool" where
  "station_ok = (\<lambda>(sv, st). running st \<and> sv_handlers sv = station_handlers)"

lemma register_handlers_handlers:
  "sv_handlers sv = [] \<Longrightarrow> sv_handlers (fst (register_handlers (sv, st))) = station_handlers"
  by (simp add: register_handlers_def oo_on_def oo_on_method_def oo_on_upload_def addHandler_def
      addRequestHandler_def station_handlers_def)

lemma register_handlers_fields:
  "running (snd (register_handlers s)) = running (snd s)" "ready (snd (register_handlers s)) = ready (snd s)"
  "level_ok (snd (register_handlers s)) = level_ok (snd s)"
  "zone_ready (snd (register_handlers s)) = zone_ready (snd s)"
  "m_ntp_client (snd (register_handlers s)) = m_ntp_client (snd s)"
  "m_display (snd (register_handlers s)) = m_display (snd s)"
  by (simp_all add: register_handlers_def case_prod_beta Let_def running_defs)

lemma register_handlers_station: "\<exists>o'. snd (register_handlers (sv, st)) = st\<lparr>pages := o'\<rparr>"
  by (auto simp: register_handlers_def case_prod_beta Let_def)

lemma handle_get_keeps:
  assumes "handle_get (station_env b) r (sv, st) = Some (r', sv', st')" "station_ok (sv, st)"
  shows "station_ok (sv', st')"
proof -
  obtain m where m: "request_method (req_method r) = Some m"
    using assms(1) by (auto simp: handle_get_def bind_eq_Some_conv)
  let ?h = "find (\<lambda>h. canHandle h m (c_text (req_path r))) (sv_handlers sv)"
  show ?thesis
  proof (cases ?h)
    case None
    then show ?thesis
      using assms by (auto simp: station_ok_def handle_get_none [OF m None])
  next
    case (Some h)
    then have "h \<in> set station_handlers"
      using assms(2) by (auto simp: station_ok_def find_Some_iff)
    then obtain f uri meth where h: "h = MethodRequestHandler f None uri meth"
      by (auto simp: station_handlers_def)
    obtain sv1 where "run_handler b f ((begin_request r m sv)\<lparr>sv_handler := Some h\<rparr>, st) = Some (sv1, st')"
      "sv' = sv1\<lparr>sv_request := None\<rparr>"
      using assms(1) unfolding handle_get_method [OF m Some disjI1 [OF h]]
      by (auto simp: bind_eq_Some_conv station_env_def)
    then show ?thesis
      using run_handler_keeps assms(2) by (fastforce simp: station_ok_def)
  qed
qed

section \<open>Reachable states\<close>

text \<open>What the station goes through after its start, in any order: rounds of the loop, each with at
  most one request, requests that the server's own threads answer between them, and ticks of the
  display timer.\<close>

inductive reachable :: "'w setting \<Rightarrow> 'w run \<Rightarrow> bool" for b where
  begun: "ws_begin b (new_WeatherStationBase b t l w) = Some s \<Longrightarrow> reachable b s"
| looped: "reachable b s \<Longrightarrow> on_loop b req s = Some (answer, s') \<Longrightarrow> reachable b s'"
| served: "reachable b s \<Longrightarrow> handle_get (station_env b) r s = Some (r', s') \<Longrightarrow> reachable b s'"
| ticked: "reachable b (sv, st) \<Longrightarrow> update_display b False st = Some st' \<Longrightarrow> reachable b (sv, st')"

lemma on_loop_keeps:
  assumes "on_loop b req s = Some (answer, s')" "station_ok s"
  shows "station_ok s'"
proof -
  obtain sv st where s: "s = (sv, st)" by (cases s)
  obtain st1 where 1: "update_time b False (update_local_sensor_data b False st) = Some st1"
    using assms(1) by (auto simp: on_loop_def s bind_eq_Some_conv)
  have ok1: "station_ok (sv, st1)"
    using update_time_keeps(2) [OF 1] assms(2) by (simp add: s station_ok_def)
  show ?thesis
  proof (cases req)
    case None
    then show ?thesis
      using assms(1) 1 ok1 handle_backlight_button_keeps [of st1 b]
      by (auto simp: on_loop_def s station_ok_def)
  next
    case (Some r)
    then obtain r' sv2 st2 where "handle_get (station_env b) r (sv, st1) = Some (r', sv2, st2)"
      "s' = (sv2, handle_backlight_button b st2)"
      using assms(1) 1 by (auto simp: on_loop_def s bind_eq_Some_conv)
    then show ?thesis
      using handle_get_keeps [OF _ ok1] handle_backlight_button_keeps [of st2 b]
      by (auto simp: station_ok_def)
  qed
qed

lemma tick_keeps:
  assumes "update_display b False st = Some st'" "station_ok (sv, st)"
  shows "station_ok (sv, st')"
  using update_display_draws(1,2) [OF assms(1)] assms(2)
  by (auto simp: station_ok_def running_def shows_readings_def)

lemma start_frame [simp]:
  "level_ok (st\<lparr>world := w\<rparr>) = level_ok st" "level_ok (st\<lparr>m_wifi_connected := c\<rparr>) = level_ok st"
  "level_ok (st\<lparr>m_ntp_client := n\<rparr>) = level_ok st" "level_ok (st\<lparr>m_display := x\<rparr>) = level_ok st"
  "zone_ready (st\<lparr>world := w\<rparr>) = zone_ready st" "zone_ready (st\<lparr>m_wifi_connected := c\<rparr>) = zone_ready st"
  "zone_ready (st\<lparr>m_ntp_client := n\<rparr>) = zone_ready st"
  "m_display (make_tz b st) = m_display st" "m_display (set_backlight_level b i st) = m_display st"
  by (simp_all add: level_ok_def zone_ready_def make_tz_def set_backlight_level_def Let_def)

lemma load_config_frame:
  "m_ntp_client (snd (load_config b st)) = m_ntp_client st" "m_display (snd (load_config b st)) = m_display st"
  "level_ok (snd (load_config b st)) = level_ok st"
  by (simp_all add: load_config_def case_prod_beta Let_def level_ok_def)

lemma set_clock_frame:
  "m_ntp_client (set_clock b t st) = m_ntp_client st" "m_display (set_clock b t st) = m_display st"
  "level_ok (set_clock b t st) = level_ok st"
  by (simp_all add: set_clock_def millis_def case_prod_beta Let_def level_ok_def)

lemma update_time_frame:
  "update_time b u st = Some st' \<Longrightarrow> m_display st' = m_display st"
  by (auto simp: update_time_def millis_def set_clock_def set_rtc_def case_prod_beta Let_def bind_eq_Some_conv
      split: if_splits)

lemma update_local_sensor_data_frame [simp]:
  "m_display (update_local_sensor_data b u st) = m_display st"
  by (simp add: update_local_sensor_data_def millis_def case_prod_beta Let_def)

text \<open>The last calls of the start-up, from a state that is ready.\<close>

lemma start_up_ok:
  assumes "ready st" "display_ok (m_display st)"
    and "do { st \<leftarrow> update_time b True st;
              st \<leftarrow> update_display b True (update_local_sensor_data b True st);
              Some (sv, st\<lparr>m_display_timer := True\<rparr>) } = Some (sv', st')"
  shows "running st' \<and> sv' = sv"
proof -
  obtain st1 where 1: "update_time b True st = Some st1"
    using assms(3) by (auto simp: bind_eq_Some_conv)
  obtain st2 where 2: "update_display b True (update_local_sensor_data b True st1) = Some st2"
    "st' = st2\<lparr>m_display_timer := True\<rparr>" "sv' = sv"
    using assms(3) 1 by (auto simp: bind_eq_Some_conv)
  have "ready (update_local_sensor_data b True st1)"
    using update_time_keeps(1) [OF 1 assms(1)] by simp
  moreover have "display_ok (m_display (update_local_sensor_data b True st1))"
    using assms(2) update_time_frame [OF 1] by simp
  ultimately have "running st2"
    unfolding running_def using update_display_draws(1,2) [OF 2(1)] by blast
  then show ?thesis using 2 by (simp add: running_defs)
qed

lemma server_begin_ok:
  assumes "ws_server_begin b (sv, st) = Some (sv', st')" "m_display st = new_Display" "sv_handlers sv = []"
  shows "station_ok (sv', st')"
proof -
  obtain sv1 st1 where run: "do { st \<leftarrow> update_time b True st1;
              st \<leftarrow> update_display b True (update_local_sensor_data b True st);
              Some (sv1, st\<lparr>m_display_timer := True\<rparr>) } = Some (sv', st')"
    "ready st1" "m_display st1 = display_begin new_Display" "sv_handlers sv1 = station_handlers"
  proof (rule that [OF assms(1) [unfolded ws_server_begin_def prod.case case_prod_beta Let_def]], goal_cases)
    case 1
    show ?case
      by (simp add: ready_def register_handlers_fields load_config_frame set_clock_frame ntp_begin_def)
  next
    case 2
    show ?case
      using assms(2) by (simp add: register_handlers_fields load_config_frame set_clock_frame)
  next
    case 3
    show ?case using assms(3) by (simp add: register_handlers_handlers)
  qed
  show ?thesis
    using start_up_ok [OF run(2) _ run(1)] run(3,4) display_begin_ok by (simp add: station_ok_def)
qed

section \<open>Start-up ends\<close>

text \<open>A board whose clock runs (\<open>live\<close> of NtpClient) and whose queue of received packets is finite.\<close>

definition alive :: "'w platform \<Rightarrow> bool" where
  "alive p \<longleftrightarrow> (\<exists>clock. live p clock) \<and> (\<forall>w. \<exists>n. packets_end p w n)"

lemma update_time_returns:
  assumes "alive (hw b)" "m_udp (m_ntp_client st)"
  shows "\<exists>st'. update_time b u st = Some st'"
proof -
  obtain clock where clock: "live (hw b) clock" using assms(1) by (auto simp: alive_def)
  have answers: "get_time (hw b) (m_ntp_client st) (bf, w) \<noteq> None" for bf w
    using assms clock get_time_answers [OF assms(2) _ clock, of w] by (fastforce simp: alive_def)
  have False if "update_time b u st = None"
    using that by (simp add: update_time_def millis_def case_prod_beta Let_def Option.bind_eq_None_conv
        answers split: if_splits)
  then show ?thesis by blast
qed

lemma begin_returns:
  assumes "alive (hw b)"
  shows "\<exists>s. ws_begin b (new_WeatherStationBase b t l w) = Some s"
proof -
  have end_up: "\<exists>x. do { st \<leftarrow> update_time b True st;
              st \<leftarrow> update_display b True (update_local_sensor_data b True st);
              Some (sv, st\<lparr>m_display_timer := True\<rparr>) } = Some x"
    if r: "ready st" for sv :: "handler_method WebServer" and st
  proof -
    obtain st1 where 1: "update_time b True st = Some st1"
      using update_time_returns [OF assms] r by (auto simp: ready_def)
    then have "zone_ready (update_local_sensor_data b True st1)"
      using running_ready(2) update_time_keeps(1) [OF 1 r] update_local_sensor_data_keeps(1) by blast
    from update_display_returns [OF this, of b True] obtain st2 where
      "update_display b True (update_local_sensor_data b True st1) = Some st2" by blast
    with 1 show ?thesis by simp
  qed
  obtain sv st where new: "(case new_WeatherStationBase b t l w of (sv, st) \<Rightarrow> (server_begin sv, st)) = (sv, st)"
    by fastforce
  obtain sv1 st1 where "ws_server_begin b (sv, st) = Some (sv1, st1)"
    unfolding ws_server_begin_def prod.case case_prod_beta Let_def
    using end_up by (fastforce simp: ready_def register_handlers_fields load_config_frame set_clock_frame ntp_begin_def)
  then show ?thesis
    using new by (auto simp: ws_begin_def case_prod_beta Let_def split: prod.splits)
qed

lemma reachable_ok: "reachable b s \<Longrightarrow> station_ok s"
proof (induction rule: reachable.induct)
  case (begun t l w s)
  let ?n = "new_WeatherStationBase b t l w"
  have new: "m_display (snd ?n) = new_Display" "sv_handlers (server_begin (fst ?n)) = []"
    by (simp_all add: new_WeatherStationBase_def new_WebServer_def server_begin_def collectHeaders_def
        case_prod_beta Let_def)
  obtain sv st where 1: "ws_server_begin b (server_begin (fst ?n), snd ?n) = Some (sv, st)"
    "fst s = sv" "running (snd s) = running st"
    using begun by (auto simp: ws_begin_def case_prod_beta Let_def bind_eq_Some_conv)
  from server_begin_ok [OF 1(1) new] 1(2,3) show ?case by (auto simp: station_ok_def)
next
  case (looped s req answer s')
  then show ?case by (blast intro: on_loop_keeps)
next
  case (served s r r' s')
  then show ?case by (cases s; cases s') (blast intro: handle_get_keeps)
next
  case (ticked sv st st')
  then show ?case by (blast intro: tick_keeps)
qed

lemma running_shows:
  assumes "running st"
  shows "text_in inside_temp_region (m_display st) = ''In: '' @ get_local_sensor_string (m_last_display_data st)"
    "text_in outside_temp_region (m_display st) = ''Out: '' @ get_remote_sensor_string (m_last_display_data st)"
proof -
  have "display_ok (m_display st)" and last:
    "last_of InsideSlot (m_display st) = get_local_sensor_string (m_last_display_data st)"
    "last_of OutsideSlot (m_display st) = get_remote_sensor_string (m_last_display_data st)"
    using assms by (simp_all add: running_def shows_readings_def)
  moreover have "sensor_to_string d \<noteq> []" for d by (simp add: sensor_to_string_def Let_def)
  ultimately show
    "text_in inside_temp_region (m_display st) = ''In: '' @ get_local_sensor_string (m_last_display_data st)"
    "text_in outside_temp_region (m_display st) = ''Out: '' @ get_remote_sensor_string (m_last_display_data st)"
    unfolding display_ok_def last_of.simps get_local_sensor_string_def get_remote_sensor_string_def
    by (metis label_of.simps region_of.simps last_of.simps)+
qed

text \<open>A tick ends and shows the current readings.\<close>

lemma tick_shows:
  assumes "station_ok (sv, st)"
  shows "\<exists>st'. update_display b False st = Some st' \<and>
    text_in inside_temp_region (m_display st') = ''In: '' @ sensor_to_string (m_current_local_sensor_data st) \<and>
    text_in outside_temp_region (m_display st') = ''Out: '' @ sensor_to_string (m_current_remote_sensor_data st)"
proof -
  have run: "running st" using assms by (simp add: station_ok_def)
  then have ok: "ready st" "display_ok (m_display st)" "shows_readings st" "zone_ready st"
    using running_ready by (auto simp: running_def shows_readings_def)
  obtain st' where tick: "update_display b False st = Some st'"
    using update_display_returns [OF ok(4)] by blast
  note d = update_display_draws [OF tick ok(1,2) disjI2 [OF ok(3)]]
  have "running st'" using d(1,2) by (simp add: running_def)
  from running_shows [OF this] tick d(3,4) show ?thesis
    by (simp add: get_local_sensor_string_def get_remote_sensor_string_def)
qed

section \<open>Properties\<close>

text \<open>C2: In every state the station reaches, whatever its sensors, network and clients did, the
  time zone and the NTP socket exist, the seven handlers are in place in their order, the
  backlight level is a PWM value, and the screen shows the two readings last drawn.\<close>

theorem station_invariant:
  assumes "reachable b (sv, st)"
  shows "0 \<le> m_backlight_level st \<and> m_backlight_level st \<le> 1023 \<and> m_udp (m_ntp_client st) \<and>
    (\<exists>z. m_tz st = Some z \<and> us_zone z) \<and> sv_handlers sv = station_handlers \<and>
    text_in inside_temp_region (m_display st) = ''In: '' @ get_local_sensor_string (m_last_display_data st) \<and>
    text_in outside_temp_region (m_display st) = ''Out: '' @ get_remote_sensor_string (m_last_display_data st)"
  using reachable_ok [OF assms] running_shows [of st]
  by (simp add: station_ok_def running_def ready_def level_ok_def zone_ready_def)

definition sample_setting :: "nat setting" where
  "sample_setting = \<lparr>hw = quiet_board, json_sizes = esp8266, beyond_buffer = [], offset_memory = (0, 0),
     tz_memory = (0, 0, 0, 0), float_times_60 = (\<lambda>_. 0)\<rparr>"

lemma sample_alive: "alive (hw sample_setting)"
  unfolding alive_def sample_setting_def
  using live_quiet by (auto simp: packets_end_def quiet_board_def)

lemma sample_reachable: "\<exists>sv st. reachable sample_setting (sv, st)"
  using begin_returns [OF sample_alive] reachable.begun by (metis surj_pair)

theorem station_invariant_witness:
  "\<exists>sv st. reachable sample_setting (sv, st) \<and> 0 \<le> m_backlight_level st \<and> m_backlight_level st \<le> 1023"
  using sample_reachable station_invariant by metis

text \<open>C4: The next tick of the display timer always ends, and after it the screen shows the
  current readings of both sensors, however many were taken or received since the last one.\<close>

theorem tick_shows_readings:
  assumes "reachable b (sv, st)"
  shows "\<exists>st'. update_display b False st = Some st' \<and>
    text_in inside_temp_region (m_display st') = ''In: '' @ sensor_to_string (m_current_local_sensor_data st) \<and>
    text_in outside_temp_region (m_display st') = ''Out: '' @ sensor_to_string (m_current_remote_sensor_data st)"
  using assms by (intro tick_shows reachable_ok)

theorem tick_shows_readings_witness:
  "\<exists>sv st st'. reachable sample_setting (sv, st) \<and> update_display sample_setting False st = Some st' \<and>
     text_in outside_temp_region (m_display st') = ''Out: '' @ sensor_to_string (m_current_remote_sensor_data st)"
  using sample_reachable tick_shows_readings by metis

end
