(* ===== verification/RemoteStation.thy ===== *)
theory RemoteStation
  imports Common Wifi SimpleWebServer
begin

text \<open>
  The remote sensor, \<^verbatim>\<open>esp8266_weather_station_remote/esp8266_weather_station_remote.ino\<close>: it wakes,
  reads its sensor, joins the access point of the base station, posts the reading and sleeps.
  Whether the TCP connection is made is an argument; \<open>loop\<close> does nothing, as the board restarts
  after its sleep. What is printed on the serial port is left out.
\<close>

definition report_server :: string where "report_server = ''192.168.4.1''"

definition report_interval_minutes :: nat where "report_interval_minutes = 5"

definition report_interval_ms :: nat where "report_interval_ms = report_interval_minutes * 60 * 1000"

definition post_data :: "int \<Rightarrow> int \<Rightarrow> string" where
  "post_data temperature humidity =
     ''station_id=2&'' @ temp_var_name @ ''='' @ dec_of_int temperature @ ''&'' @ humidity_var_name @ ''='' @
     dec_of_int humidity"

definition println :: "string \<Rightarrow> string" where "println s = s @ CRLF"

text \<open>What \<open>sendSensorData\<close> writes to the connection.\<close>

definition report_text :: "string \<Rightarrow> int \<Rightarrow> int \<Rightarrow> string" where
  "report_text server temperature humidity =
     (let postData = post_data temperature humidity
      in println (''POST '' @ report_url @ '' HTTP/1.1'') @
         println (''Host: '' @ server) @
         println ''User-Agent: Arduino/1.0'' @
         println ''Connection: close'' @
         println ''Content-Type: application/x-www-form-urlencoded;'' @
         ''Content-Length: '' @ println (dec_of_int (int (length postData))) @
         println [] @
         println postData)"

definition sendSensorData ::
    "'w platform \<Rightarrow> (string \<Rightarrow> nat \<Rightarrow> 'w \<Rightarrow> bool \<times> 'w) \<Rightarrow> string \<Rightarrow> rat option \<Rightarrow> rat option \<Rightarrow> 'w
     \<Rightarrow> string option \<times> 'w" where
  "sendSensorData p connect server temperature humidity w =
     (let (ok, w) = connect server TEMP_REPORT_SERVER_LISTEN_PORT w
      in (if ok then Some (report_text server (int_of_float p temperature) (int_of_float p humidity)) else None, w))"

text \<open>\<open>setup\<close>: the text sent, if any, and the microseconds of the sleep.\<close>

definition remote_setup ::
    "'w platform \<Rightarrow> (string \<Rightarrow> nat \<Rightarrow> 'w \<Rightarrow> bool \<times> 'w) \<Rightarrow> 'w \<Rightarrow> string option \<times> nat \<times> 'w" where
  "remote_setup p connect w =
     (let w = do_delay p 1000 (dht_begin p w);
          (humidity, w) = dht_readHumidity p w;
          (temp_f, w) = dht_readTemperature p True w;
          (ok, w) = connect_wifi p ap_ssid ap_password 40 w;
          (sent, w) = (if ok then sendSensorData p connect report_server temp_f humidity w else (None, w))
      in (sent, report_interval_ms * 1000, w))"

section \<open>The report as a form\<close>

definition report_fields :: "int \<Rightarrow> int \<Rightarrow> (string \<times> string) list" where
  "report_fields t h = [(''station_id'', ''2''), (temp_var_name, dec_of_int t), (humidity_var_name, dec_of_int h)]"

definition report_headers :: "string \<Rightarrow> int \<Rightarrow> int \<Rightarrow> string list" where
  "report_headers server t h =
     [''Host: '' @ server, ''User-Agent: Arduino/1.0'', ''Connection: close'',
      ''Content-Type: application/x-www-form-urlencoded;'',
      ''Content-Length: '' @ dec_of_int (int (length (post_data t h)))]"

lemma url_encode_dec: "url_encode (dec_of_int i) = dec_of_int i"
proof -
  have "encode_char c = [c]" if "c \<in> set (dec_of_int i)" for c
    using dec_of_int_chars [OF that] by (auto simp: encode_char_def unreserved_def is_alnum_def)
  moreover have "(\<And>c. c \<in> set xs \<Longrightarrow> encode_char c = [c]) \<Longrightarrow> concat (map encode_char xs) = xs" for xs
    by (induction xs) simp_all
  ultimately show ?thesis unfolding url_encode_def by blast
qed

lemma post_data_print: "post_data t h = print_params (report_fields t h)"
proof -
  have "url_encode ''2'' = ''2''"
    by (simp add: url_encode_def encode_char_def unreserved_def is_alnum_def is_digit_def char_code_def)
  then show ?thesis
    by (simp add: post_data_def report_fields_def print_pair_def url_encode_dec)
qed

lemma report_text_request:
  "report_text server t h = post_request report_url (report_headers server t h) (print_params (report_fields t h) @ CRLF)"
  by (simp add: report_text_def post_request_def request_line_def print_headers_def report_headers_def println_def
      post_data_print Let_def CRLF_def)

lemma dec_of_int_plain: "plain_text (dec_of_int i)" "no_newline (dec_of_int i)"
  using dec_of_int_chars [of _ i] digit_not_space
  by (fastforce simp: plain_text_def is_space_def char_code_def,
      force simp: no_newline_def is_digit_def char_code_def dest!: dec_of_int_chars)

lemma report_fields_ok: "\<forall>p \<in> set (report_fields t h). field_ok p"
  using dec_of_int_plain
  by (auto simp: report_fields_def field_ok_def param_ok_def temp_var_name_def humidity_var_name_def no_newline_def
      plain_text_def is_space_def char_code_def)

lemma report_headers_ok:
  "no_newline server \<Longrightarrow> \<forall>l \<in> set (report_headers server t h). l \<noteq> [] \<and> no_newline l"
  using dec_of_int_plain(2) by (auto simp: report_headers_def no_newline_def)

lemma post_data_short: "int32_range t \<Longrightarrow> int32_range h \<Longrightarrow> length (post_data t h) \<le> 64"
  using length_dec_of_int [of t] length_dec_of_int [of h]
  by (simp add: post_data_def temp_var_name_def humidity_var_name_def)

lemma report_length:
  assumes "int32_range t" "int32_range h"
  shows "snd (fold header_line (report_headers server t h) (req, 0)) = int (length (print_params (report_fields t h)))"
  using post_data_short [OF assms]
  by (simp add: report_headers_def header_line_def header_names starts_at_def atol_dec int32_range_def
      post_data_print)

end
