(* ===== verification/StationLoop.thy ===== *)
theory StationLoop
  imports StationRuns
begin

text \<open>
  One round of the station's loop: when it comes to an end, what a sensor report does to it, and
  how the settings survive a restart.
\<close>

section \<open>When a handler ends\<close>

lemma send_answers:
  "sv_request sv = Some r \<Longrightarrow> \<exists>sv' r'. send code t content sv = Some sv' \<and> sv_request sv' = Some r'"
  by (simp add: send_def sendContent_def)

lemma render_page_answers:
  "sv_request sv = Some r \<Longrightarrow> \<exists>sv' r'. render_page content sv = Some sv' \<and> sv_request sv' = Some r'"
  unfolding render_page_def by (rule send_answers)

lemma render_then:
  "sv_request sv = Some r \<Longrightarrow>
     \<exists>sv' st' r'. do { sv \<leftarrow> render_page content sv; Some (sv, st) } = Some (sv', st') \<and> sv_request sv' = Some r'"
  using render_page_answers [of sv r content] by auto

lemma redirect_to_answers:
  "sv_request sv = Some r \<Longrightarrow> \<exists>sv' r'. redirect_to uri sv = Some sv' \<and> sv_request sv' = Some r'"
  unfolding redirect_to_def by (rule send_answers [of _ r]) (simp add: sendHeader_def)

text \<open>Filling in a page. The tags keep apart and have no digit, minus sign or \<open>N\<close> inside; what is filled in is
  no longer than its tag or begins with one of these, so that it completes no tag on its left.\<close>

definition fill_starts :: "char set" where
  "fill_starts = {c. is_digit c} \<union> {CHR ''-'', CHR ''N''}"

definition fill :: "string \<Rightarrow> string \<Rightarrow> bool" where
  "fill f r \<longleftrightarrow> length r \<le> length f \<or> r \<noteq> [] \<and> hd r \<in> fill_starts"

definition page_tag :: "string \<Rightarrow> bool" where
  "page_tag f \<longleftrightarrow> borderless f \<and> list_all (\<lambda>c. \<not> is_digit c \<and> c \<noteq> CHR ''-'' \<and> c \<noteq> CHR ''N'') (tl f)"

lemma page_tags:
  "page_tag ''<%hour%>''" "page_tag ''<%minute%>''" "page_tag ''<%meridian%>''" "page_tag ''<%day_of_week%>''"
  "page_tag ''<%day%>''" "page_tag ''<%month%>''" "page_tag ''<%year%>''" "page_tag ''<%inside_temperature%>''"
  "page_tag ''<%inside_humidity%>''" "page_tag ''<%outside_temperature%>''" "page_tag ''<%outside_humidity%>''"
  "page_tag ''<%backlight_level%>''" "page_tag ''<%light_sensor%>''" "page_tag ''<%host_ip%>''"
  by code_simp+

lemma fill_defined:
  assumes "page_tag f" "fill f r"
  shows "\<exists>page'. text_replace f r page = Some page'"
proof -
  have "length r \<le> length f \<or> starts_outside f r"
    using assms by (auto simp: page_tag_def fill_def starts_outside_def fill_starts_def list_all_iff)
  then show ?thesis
    using assms(1) text_replace_safe [of f r "fst page" "snd page"] by (auto simp: page_tag_def)
qed

lemma dec_of_int_fill: "fill f (dec_of_int i)" "fill f (dec_of_int i @ xs)"
  using dec_of_int_nonempty [of i] dec_of_int_chars [of "hd (dec_of_int i)" i]
  by (auto simp: fill_def fill_starts_def)

lemma reading_fill: "fill f (reading v)"
  by (simp add: reading_def dec_of_int_fill) (simp add: fill_def fill_starts_def)

lemma ip_fill: "fill f (IPAddressToString a)"
  by (cases a) (simp add: IPAddressToString_def dec_of_int_fill)

lemma not_connected_fill: "fill f ''Not connected''"
  by (simp add: fill_def fill_starts_def)

lemma short_fill: "length r \<le> length f \<Longrightarrow> fill f r"
  by (simp add: fill_def)

lemma prepend_replicate: "prepend n c s = replicate n c @ s"
  by (induction n c s rule: prepend.induct) (simp_all add: replicate_app_Cons_same)

lemma pad_fill: "fill f (pad_string (dec_of_int i) n (CHR ''0''))"
proof (cases "n - length (dec_of_int i)")
  case 0
  then show ?thesis by (simp add: pad_string_def prepend_replicate dec_of_int_fill)
next
  case (Suc k)
  then have "length (dec_of_int i) < n" by simp
  with Suc show ?thesis
    by (simp add: pad_string_def prepend_replicate fill_def fill_starts_def is_digit_def char_code_def)
qed

lemmas fills = dec_of_int_fill(1) reading_fill ip_fill not_connected_fill pad_fill

definition answers :: "'w run option \<Rightarrow> bool" where
  "answers o' \<longleftrightarrow> (\<exists>sv' st' r'. o' = Some (sv', st') \<and> sv_request sv' = Some r')"

lemma fill_then:
  "page_tag f \<Longrightarrow> fill f r \<Longrightarrow> (\<And>page'. answers (F page')) \<Longrightarrow> answers (Option.bind (text_replace f r page) F)"
  using fill_defined [of f r page] by auto

lemma render_answers:
  "sv_request sv = Some r \<Longrightarrow> answers (do { sv \<leftarrow> render_page content sv; Some (sv, st) })"
  unfolding answers_def by (rule render_then)

lemma handle_root_ends:
  assumes "sv_request sv = Some r"
  shows "answers (handle_root b (sv, st))"
proof -
  let ?t = "shown_time (m_last_display_data st)"
  obtain ms ds where names: "monthShortStr (tm_Month (breakTime ?t)) = Some ms" "length ms = 3"
    "dayShortStr (tm_Wday (breakTime ?t)) = Some ds" "length ds = 3"
    using date_names_defined [of ?t] by blast
  have "answers (case x of (page, room) \<Rightarrow> do { sv \<leftarrow> render_page page sv; Some (sv, st') })" for x st'
    by (cases x) (simp add: render_answers [OF assms])
  then show ?thesis
    unfolding handle_root_def case_prod_beta Let_def prod.sel names Option.bind.simps
    by (intro fill_then page_tags fills) (auto intro: short_fill simp: names fills)
qed

text \<open>The time a form sets is undefined exactly for a month beyond 13.\<close>

definition time_args :: "'h WebServer \<Rightarrow> bool" where
  "time_args sv \<longleftrightarrow> hasArg ''hour'' sv \<and> hasArg ''minute'' sv \<and> hasArg ''month'' sv \<and> hasArg ''day'' sv \<and>
     hasArg ''year'' sv"

definition bad_month :: "handler_method WebServer \<Rightarrow> bool" where
  "bad_month sv \<longleftrightarrow> time_args sv \<and> 13 < unat (tm_Month (posted_time sv))"

lemma ws_setTime_ends:
  assumes "sv_request sv = Some r" "running st"
  shows "if bad_month sv then ws_setTime b (sv, st) = None
    else \<exists>sv' st' r'. ws_setTime b (sv, st) = Some (sv', st') \<and> sv_request sv' = Some r'"
proof -
  obtain sv1 r1 where r1: "redirect_to ''/'' sv = Some sv1" "sv_request sv1 = Some r1"
    using redirect_to_answers [OF assms(1)] by blast
  show ?thesis
  proof (cases "time_args sv")
    case False
    then show ?thesis
      using r1 unfolding ws_setTime_def prod.case bad_month_def time_args_def [symmetric] by simp
  next
    case args: True
    show ?thesis
    proof (cases "13 < unat (tm_Month (posted_time sv))")
      case True
      then have "makeTime (posted_time sv) = None" by (simp add: makeTime_undefined_iff_aux)
      then show ?thesis
        using args True unfolding ws_setTime_def prod.case bad_month_def time_args_def [symmetric] by simp
    next
      case False
      then obtain t where t: "makeTime (posted_time sv) = Some t"
        using makeTime_undefined_iff_aux [of "posted_time sv"] by auto
      obtain u st1 where u: "tz_toUTC t st = Some (u, st1)"
        using tz_toUTC_returns [of st t] assms(2) running_ready by blast
      have "zone_ready (set_clock b u (set_rtc b u st1))"
        using tz_toUTC_keeps(2) [OF u assms(2)] running_ready by (metis set_clock_keeps(2) set_rtc_keeps(2))
      then obtain l st2 where "tz_toLocal t (set_clock b u (set_rtc b u st1)) = Some (l, st2)"
        using tz_toLocal_returns by blast
      then show ?thesis
        using args False t u r1 unfolding ws_setTime_def prod.case bad_month_def time_args_def [symmetric]
        by simp
    qed
  qed
qed

lemma handleTime_ends:
  assumes "sv_request sv = Some r" "running st"
  shows "answers (handleTime b (sv, st))"
proof -
  obtain t st1 where 1: "station_now b st = (t, st1)" by fastforce
  then have "zone_ready st1"
    using assms(2) running_ready station_now_running [of b st] by (metis snd_conv)
  then obtain l st2 where 2: "tz_toLocal t st1 = Some (l, st2)" using tz_toLocal_returns by blast
  show ?thesis
    unfolding handleTime_def case_prod_beta Let_def prod.sel 1 2 Option.bind.simps
    by (intro fill_then page_tags fills render_answers [OF assms(1)])
qed

lemma redirect_then:
  assumes "sv_request sv = Some r" "\<exists>st'. X = Some st'"
  shows "\<exists>sv' st' r'. do { st \<leftarrow> X; sv \<leftarrow> redirect_to uri sv; Some (sv, st) } = Some (sv', st') \<and>
    sv_request sv' = Some r'"
  using redirect_to_answers [OF assms(1), of uri] assms(2) by auto

lemma zone_ready_now [simp]: "zone_ready (snd (station_now b st)) = zone_ready st"
  by (simp add: station_now_def millis_def case_prod_beta Let_def zone_ready_def)

lemma ws_setTimeZone_ends:
  assumes "sv_request sv = Some r"
  shows "\<exists>sv' st' r'. ws_setTimeZone b (sv, st) = Some (sv', st') \<and> sv_request sv' = Some r'"
proof -
  have "\<exists>l st'. tz_toLocal t (snd (station_now b (make_tz b x))) = Some (l, st')" for t x
    using tz_toLocal_returns [of "snd (station_now b (make_tz b x))" t] by auto
  then have local: "\<exists>st'. do { (l, st) \<leftarrow> tz_toLocal t (snd (station_now b (make_tz b x))); Some (f l st) } =
      Some st'" for t x and f :: "time_t \<Rightarrow> 'a station \<Rightarrow> 'a station"
    by (smt (verit) bind.bind_lunit prod.case)
  show ?thesis
    unfolding ws_setTimeZone_def prod.case
    by (rule redirect_then [OF assms]) (simp add: case_prod_beta Let_def local)
qed

lemma ws_setWiFiConfig_ends:
  assumes "sv_request sv = Some r" "running st" "alive (hw b)"
  shows "\<exists>sv' st' r'. ws_setWiFiConfig b (sv, st) = Some (sv', st') \<and> sv_request sv' = Some r'"
proof -
  have "m_udp (m_ntp_client (snd (save_wifi_config b ap pw st)))" for ap pw
    using assms(2) by (simp add: save_wifi_config_def save_config_def case_prod_beta Let_def running_defs)
  then show ?thesis
    unfolding ws_setWiFiConfig_def prod.case
    by (intro redirect_then [OF assms(1)])
       (auto simp: case_prod_beta Let_def intro!: update_time_returns [OF assms(3)])
qed

text \<open>The page of the network settings is filled in with whatever name and password are stored, and the
  second replacement may outgrow the page.\<close>

definition bad_page :: "handler_method WebServer \<Rightarrow> 'w station \<Rightarrow> bool" where
  "bad_page sv st \<longleftrightarrow> wifi_page (m_host_ssid st) (m_host_password st) (page_template sv (pages st)) = None"

lemma handleWiFiConfig_ends:
  assumes "sv_request sv = Some r"
  shows "if bad_page sv st then handleWiFiConfig (sv, st) = None else answers (handleWiFiConfig (sv, st))"
  using render_answers [OF assms, where st = st]
  by (auto simp: bad_page_def handleWiFiConfig_def)

text \<open>It does not where name and password are no longer than their tags, or begin with a character that is not in them.\<close>

lemma wifi_page_defined:
  assumes "length ssid \<le> 6 \<or> hd ssid \<notin> set ''%ap>''" "length password \<le> 13 \<or> hd password \<notin> set ''%ap_swd>''"
  shows "\<exists>page'. wifi_page ssid password page = Some page'"
proof -
  have tags: "borderless ''<%ap%>''" "borderless ''<%ap_passwd%>''" by code_simp+
  have "length ssid \<le> length ''<%ap%>'' \<or> starts_outside ''<%ap%>'' ssid"
    using assms(1) by (auto simp: starts_outside_def)
  moreover have "length password \<le> length ''<%ap_passwd%>'' \<or> starts_outside ''<%ap_passwd%>'' password"
    using assms(2) by (auto simp: starts_outside_def)
  ultimately show ?thesis
    using text_replace_safe [OF tags(1)] text_replace_safe [OF tags(2)] by (cases page) (simp add: wifi_page_def)
qed

text \<open>It does for a name that puts a tag behind the beginning of another one, and a password that completes it.\<close>

lemma wifi_page_overruns:
  "wifi_page ''<<%ap_passwd%>'' ''%ap_passwd%>!!'' (''<%ap%>'', 6) = None"
  by code_simp

lemma handle_sensor_data_post_ends:
  assumes "sv_request sv = Some r"
  shows "\<exists>sv' st' r'. handle_sensor_data_post (sv, st) = Some (sv', st') \<and> sv_request sv' = Some r'"
  using send_answers [OF assms, of 200 "Some ''text/plain''" "''OK''"]
  by (auto simp: handle_sensor_data_post_def)

lemma run_handler_ends:
  assumes "sv_request sv = Some r" "running st" "alive (hw b)"
  shows "if f = SetTime \<and> bad_month sv \<or> f = HandleWiFiConfig \<and> bad_page sv st
    then run_handler b f (sv, st) = None
    else \<exists>sv' st' r'. run_handler b f (sv, st) = Some (sv', st') \<and> sv_request sv' = Some r'"
proof (cases f)
  case SetTime
  then show ?thesis using ws_setTime_ends [OF assms(1,2), of b]
    by (auto simp: run_handler_def split: if_splits)
next
  case HandleWiFiConfig
  then show ?thesis using handleWiFiConfig_ends [OF assms(1), of st]
    by (simp add: run_handler_def answers_def split: if_splits)
qed (use handle_root_ends [OF assms(1)] handleTime_ends [OF assms(1,2)] ws_setTimeZone_ends [OF assms(1)]
      ws_setWiFiConfig_ends [OF assms] handle_sensor_data_post_ends [OF assms(1)]
    in \<open>simp_all add: run_handler_def answers_def\<close>)

section \<open>When a round of the loop ends\<close>

lemma bad_month_args:
  "sv_args sv = sv_args sv' \<Longrightarrow> bad_month sv = bad_month sv'"
  by (simp add: bad_month_def time_args_def posted_time_def hasArg_def arg_def)

text \<open>A request that sets the clock to a month beyond 13.\<close>

definition breaks_clock :: "http_request \<Rightarrow> bool" where
  "breaks_clock r \<longleftrightarrow> request_method (req_method r) = Some HTTP_POST \<and> c_text (req_path r) = ''/time'' \<and>
     bad_month (begin_request r HTTP_POST (new_WebServer 0))"

text \<open>A request for the page of the network settings, when name and password make it outgrow its buffer.\<close>

definition breaks_page :: "http_request \<Rightarrow> 'w station \<Rightarrow> bool" where
  "breaks_page r st \<longleftrightarrow> request_method (req_method r) = Some HTTP_GET \<and> c_text (req_path r) = ''/wifi_config'' \<and>
     bad_page (begin_request r HTTP_GET (new_WebServer 0)) st"

lemma bad_page_uri:
  "sv_uri sv = sv_uri sv' \<Longrightarrow> bad_page sv st = bad_page sv' st"
  by (simp add: bad_page_def page_template_def get_current_page_template_def)

lemma station_handler_cases:
  "find (\<lambda>h. canHandle h m uri) station_handlers = Some h \<Longrightarrow>
     \<exists>f u meth. h = MethodRequestHandler f None u meth \<and> (f = SetTime \<longleftrightarrow> m = HTTP_POST \<and> uri = ''/time'') \<and>
       (f = HandleWiFiConfig \<longleftrightarrow> m = HTTP_GET \<and> uri = ''/wifi_config'')"
  by (auto simp: station_handlers_def MethodRequestHandler_canHandle_def method_uri_matches_def report_url_def
      split: if_splits)

lemma no_handler_time: "find (\<lambda>h. canHandle h HTTP_POST ''/time'') station_handlers \<noteq> None"
  "find (\<lambda>h. canHandle h HTTP_GET ''/wifi_config'') station_handlers \<noteq> None"
  by (simp_all add: station_handlers_def MethodRequestHandler_canHandle_def method_uri_matches_def report_url_def)

lemma handle_get_ends:
  assumes "station_ok (sv, st)" "alive (hw b)"
  shows "handle_get (station_env b) r (sv, st) \<noteq> None \<longleftrightarrow>
    request_method (req_method r) \<noteq> None \<and> \<not> breaks_clock r \<and> \<not> breaks_page r st"
proof (cases "request_method (req_method r)")
  case None
  then show ?thesis by (simp add: handle_get_def)
next
  case m: (Some m)
  have hs: "sv_handlers sv = station_handlers" "running st"
    using assms(1) by (simp_all add: station_ok_def)
  let ?uri = "c_text (req_path r)"
  show ?thesis
  proof (cases "find (\<lambda>h. canHandle h m ?uri) station_handlers")
    case None
    then have "\<not> breaks_clock r" "\<not> breaks_page r st"
      using m no_handler_time by (auto simp: breaks_clock_def breaks_page_def)
    then show ?thesis
      using handle_get_none [OF m, of sv "station_env b" st] None m by (simp add: hs(1))
  next
    case (Some h)
    then obtain f u meth where h: "h = MethodRequestHandler f None u meth"
      "f = SetTime \<longleftrightarrow> m = HTTP_POST \<and> ?uri = ''/time''"
      "f = HandleWiFiConfig \<longleftrightarrow> m = HTTP_GET \<and> ?uri = ''/wifi_config''"
      using station_handler_cases by blast
    let ?sv = "(begin_request r m sv)\<lparr>sv_handler := Some h\<rparr>"
    have bad: "breaks_clock r \<longleftrightarrow> f = SetTime \<and> bad_month ?sv"
      using m h(2) bad_month_args [of ?sv "begin_request r HTTP_POST (new_WebServer 0)"]
      by (auto simp: breaks_clock_def)
    have page: "breaks_page r st \<longleftrightarrow> f = HandleWiFiConfig \<and> bad_page ?sv st"
      using m h(3) bad_page_uri [of ?sv "begin_request r HTTP_GET (new_WebServer 0)" st]
      by (auto simp: breaks_page_def)
    have "handle_get (station_env b) r (sv, st) =
        do { (sv', a') \<leftarrow> run_handler b f (?sv, st); r' \<leftarrow> sv_request sv'; Some (r', sv'\<lparr>sv_request := None\<rparr>, a') }"
      using handle_get_method [OF m, of sv h f None u meth "station_env b" st] Some h(1)
      by (simp add: hs(1) station_env_def)
    moreover have "sv_request ?sv = Some r" by simp
    ultimately show ?thesis
      using run_handler_ends [OF _ hs(2) assms(2), of ?sv r f] bad page m by (auto split: if_splits)
  qed
qed

section \<open>Properties\<close>

lemma page_frame:
  assumes "update_time b False (update_local_sensor_data b u st) = Some st'"
  shows "bad_page sv st' = bad_page sv st"
proof -
  have "m_host_ssid st' = m_host_ssid st \<and> m_host_password st' = m_host_password st \<and> pages st' = pages st"
    using assms
    by (auto simp: update_time_def update_local_sensor_data_def millis_def set_clock_def set_rtc_def case_prod_beta
        Let_def bind_eq_Some_conv split: if_splits)
  then show ?thesis by (simp add: bad_page_def)
qed

text \<open>C5: On a board whose clock runs and whose memory does not run out, every round of the loop of a
  started station that is given a request comes to its end and answers it, but for three requests, which are
  undefined: one of a method the server does not know, a form that sets the clock to a month beyond 13, and the
  page of the network settings when the stored name and password make its text outgrow the buffer it was given.\<close>

theorem on_loop_ends:
  assumes "reachable b (sv, st)" "alive (hw b)"
  shows "on_loop b (Some r) (sv, st) \<noteq> None \<longleftrightarrow>
    request_method (req_method r) \<noteq> None \<and> \<not> breaks_clock r \<and> \<not> breaks_page r st"
proof -
  have ok: "station_ok (sv, st)" using reachable_ok [OF assms(1)] .
  then have "m_udp (m_ntp_client (update_local_sensor_data b False st))"
    by (simp add: station_ok_def running_def ready_def update_local_sensor_data_def millis_def
        case_prod_beta Let_def)
  then obtain st1 where 1: "update_time b False (update_local_sensor_data b False st) = Some st1"
    using update_time_returns [OF assms(2)] by blast
  have "station_ok (sv, st1)"
    using update_time_keeps(2) [OF 1] ok by (simp add: station_ok_def)
  moreover have "breaks_page r st1 = breaks_page r st" by (simp add: breaks_page_def page_frame [OF 1])
  ultimately show ?thesis
    using handle_get_ends [of sv st1 b r] assms(2) 1
    by (cases "handle_get (station_env b) r (sv, st1)") (auto simp: on_loop_def)
qed

definition month_14 :: http_request where
  "month_14 = new_http_request\<lparr>req_method := ''POST'', req_path := ''/time'',
     req_params := [(''day'', ''1''), (''hour'', ''0''), (''minute'', ''0''), (''month'', ''14''), (''year'', ''17'')]\<rparr>"

lemma month_14_breaks: "breaks_clock month_14"
  by code_simp

lemma get_root_ends: "\<not> breaks_clock (new_http_request\<lparr>req_method := ''GET'', req_path := ''/''\<rparr>) \<and>
    c_text (req_path (new_http_request\<lparr>req_method := ''GET'', req_path := ''/''\<rparr>)) \<noteq> ''/wifi_config'' \<and>
    request_method (req_method (new_http_request\<lparr>req_method := ''GET'', req_path := ''/''\<rparr>)) = Some HTTP_GET"
  by code_simp

theorem on_loop_ends_witness:
  "\<exists>sv st. reachable sample_setting (sv, st) \<and> on_loop sample_setting (Some month_14) (sv, st) = None \<and>
     on_loop sample_setting (Some (new_http_request\<lparr>req_method := ''GET'', req_path := ''/''\<rparr>)) (sv, st) \<noteq> None"
proof -
  obtain sv st where s: "reachable sample_setting (sv, st)" using sample_reachable by blast
  let ?root = "new_http_request\<lparr>req_method := ''GET'', req_path := ''/''\<rparr>"
  have "\<not> breaks_page ?root st" using get_root_ends by (simp add: breaks_page_def)
  with on_loop_ends [OF s sample_alive, of month_14] on_loop_ends [OF s sample_alive, of ?root] show ?thesis
    using s month_14_breaks get_root_ends
    by (intro exI [of _ sv] exI [of _ st]) (simp del: not_None_eq split_paired_Ex)
qed

section \<open>Setting the clock by hand\<close>

lemma toTime_t_sysTime: "toTime_t r yr s = Some (t, s') \<Longrightarrow> sysTime s' = sysTime s"
  by (auto simp: toTime_t_def weekday_def case_prod_beta Let_def split: option.splits)

lemma recalc_sysTime: "recalc p t z s = Some (z', s') \<Longrightarrow> sysTime s' = sysTime s"
  by (auto simp: recalc_def year_def calcTimeChanges_def case_prod_beta Let_def dest!: toTime_t_sysTime
      split: if_splits option.splits)

lemma toLocal_sysTime: "toLocal t z s = Some (l, z', s') \<Longrightarrow> sysTime s' = sysTime s"
  by (auto simp: toLocal_def utcIsDST_def dest!: recalc_sysTime split: option.splits)

text \<open>C10: A time set by hand is taken as local time and the clock is set to the UTC time for it, but
  the time stored for display is converted to local time once more: until the next tick of the
  timer the station is an offset of the time zone away from the time that was entered.\<close>

theorem set_time_shows_shifted:
  assumes "time_args sv" "makeTime (posted_time sv) = Some t" "sv_request sv = Some r"
    and "m_tz st = Some z" "zone_ok z" "zone_synced z" "cache_ok (lib st)"
    and "year_of t = 1970 + int y" "y \<le> 67"
  shows "\<exists>sv' st'. ws_setTime b (sv, st) = Some (sv', st') \<and>
    sysTime (lib st') = t - of_int (60 * offset (if in_dst_loc z y (int (unat t)) then dst z else std z)) \<and>
    shown_time (m_last_display_data st') = t + of_int (60 * offset (if in_dst z y (int (unat t)) then dst z else std z))"
proof -
  define u where "u = t - of_int (60 * offset (if in_dst_loc z y (int (unat t)) then dst z else std z))"
  obtain s1 where 1: "toUTC t z (lib st) = Some (u, synced z y, s1)" "cache_ok s1"
    using toUTC_synced [OF assms(5,8,9,7)] assms(6) unfolding u_def by blast
  define st1 where "st1 = set_clock b u (set_rtc b u (st\<lparr>m_tz := Some (synced z y), lib := s1\<rparr>))"
  have st1: "m_tz st1 = Some (synced z y)" "sysTime (lib st1) = u" "cache_ok (lib st1)"
    using 1(2) by (simp_all add: st1_def set_clock_def set_rtc_def millis_def case_prod_beta Let_def
        TimeLib.setTime_def cache_ok_def)
  have z: "zone_ok (synced z y)" "zone_synced (synced z y)"
    using assms(5,9) by (simp_all add: zone_synced_synced)
  obtain s2 where 2: "toLocal t (synced z y) (lib st1) = Some (t + of_int (utc_offset z y (int (unat t))), synced z y, s2)"
    using toLocal_synced [OF z(1) assms(8,9) st1(3)] z(2) by (auto simp: utc_offset_def)
  obtain sv' where "redirect_to ''/'' sv = Some sv'" using redirect_to_answers [OF assms(3)] by blast
  moreover have "tz_toUTC t st = Some (u, st\<lparr>m_tz := Some (synced z y), lib := s1\<rparr>)"
    using 1(1) assms(4) by (simp add: tz_toUTC_def)
  moreover have "tz_toLocal t st1 = Some (t + of_int (utc_offset z y (int (unat t))),
      st1\<lparr>m_tz := Some (synced z y), lib := s2\<rparr>)"
    using 2 st1(1) by (simp add: tz_toLocal_def)
  ultimately have "ws_setTime b (sv, st) = Some (sv', st1\<lparr>m_tz := Some (synced z y), lib := s2,
      m_last_display_data := (m_last_display_data st1)\<lparr>shown_time := t + of_int (utc_offset z y (int (unat t)))\<rparr>\<rparr>)"
    using assms(1,2) unfolding ws_setTime_def prod.case time_args_def [symmetric] st1_def by simp
  then show ?thesis
    using toLocal_sysTime [OF 2] st1(2) by (auto simp: u_def utc_offset_def simp del: of_int_mult)
qed

definition new_year_post :: http_request where
  "new_year_post = new_http_request\<lparr>req_method := ''POST'', req_path := ''/time'',
     req_params := [(''day'', ''1''), (''hour'', ''0''), (''minute'', ''0''), (''month'', ''1''), (''year'', ''1971'')]\<rparr>"

definition new_year_server :: "handler_method WebServer" where
  "new_year_server = begin_request new_year_post HTTP_POST (new_WebServer 0)"

lemma new_year_fields: "time_args new_year_server \<and> makeTime (posted_time new_year_server) = Some 31536000"
  by code_simp

theorem set_time_shows_shifted_witness:
  "\<exists>sv' st'. ws_setTime sample_setting (new_year_server,
      (snd (new_WeatherStationBase sample_setting 0 timelib_fresh 0))\<lparr>m_tz := Some mst_zone\<rparr>) = Some (sv', st') \<and>
    shown_time (m_last_display_data st') \<noteq> 31536000"
proof -
  let ?st = "(snd (new_WeatherStationBase sample_setting 0 timelib_fresh 0))\<lparr>m_tz := Some mst_zone\<rparr>"
  have st: "m_tz ?st = Some mst_zone" "cache_ok (lib ?st)"
    by (simp_all add: new_WeatherStationBase_def case_prod_beta Let_def fresh_ok)
  have z: "zone_ok mst_zone" "zone_synced mst_zone" using mst_zone_ok by (simp_all add: northern_def)
  have sv: "sv_request new_year_server = Some new_year_post" by (simp add: new_year_server_def)
  have y: "year_of 31536000 = 1970 + int 1" by (simp add: year_of_1971)
  have o: "offset (dst mst_zone) = - 360" "offset (std mst_zone) = - 420"
    by (simp_all add: mst_zone_def new_Timezone_def usDST_def usSTD_def)
  from set_time_shows_shifted [OF new_year_fields [THEN conjunct1] new_year_fields [THEN conjunct2] sv st(1) z st(2) y,
      of sample_setting]
  show ?thesis by (auto simp: o split: if_splits)
qed

end
