(* ===== verification/StationSettings.thy ===== *)
theory StationSettings
  imports WeatherStation
begin

text \<open>
  The settings of the station in the flash file system: what is saved is what a restarted station
  loads.
\<close>

definition settings_file :: "string \<Rightarrow> string \<Rightarrow> string \<Rightarrow> int \<Rightarrow> string \<Rightarrow> int \<Rightarrow> ConfigFile" where
  "settings_file ap pw std_str std_off dst_str dst_off =
     (new_ConfigFile (std_off, dst_off) CONFIG_FILE_NAME)\<lparr>host_ap := ap, host_ap_passwd := pw, std_string := std_str,
        std_offset := std_off, dst_string := dst_str, dst_offset := dst_off\<rparr>"

text \<open>C6: Settings that the station has saved are its settings after a restart, as it loads them from
  the same file system, unless the file has grown over 1024 characters: then the save succeeds
  but the restarted station finds no settings.\<close>

theorem settings_survive_restart:
  assumes "keeps_files (hw b)" "fits (json_sizes b) 6" "config_ok (settings_file ap pw ss so ds do')"
    and "ss \<noteq> []" "ds \<noteq> []"
    and "save_config b ap pw ss so ds do' st = (True, st1)" "world restarted = world st1"
  shows "if length (config_text (json_sizes b) (settings_file ap pw ss so ds do')) \<le> 1024
    then \<exists>w. load_config b restarted =
      (True, restarted\<lparr>world := w, m_host_ssid := ap, m_host_password := pw, m_dst_string := ds,
         m_dst_offset := do', m_std_string := ss, m_std_offset := so\<rparr>)
    else \<exists>w. load_config b restarted = (False, restarted\<lparr>world := w\<rparr>)"
proof -
  let ?c = "settings_file ap pw ss so ds do'"
  have name: "cfg_file_name ?c = CONFIG_FILE_NAME" by (simp add: settings_file_def new_ConfigFile_def)
  have save: "Save (hw b) (json_sizes b) ?c (world st) = (True, world restarted)"
    using assms(6,7) by (auto simp: save_config_def settings_file_def new_ConfigFile_def case_prod_beta Let_def prod_eq_iff split: if_splits)
  note Load_Save [OF assms(1-3) save, of "beyond_buffer b" "offset_memory b", unfolded name]
  then show ?thesis
    using assms(4,5) unfolding load_config_def case_prod_beta Let_def
    by (auto simp: settings_file_def split: if_splits)
qed

definition file_setting :: "(string \<Rightarrow> string option) setting" where
  "file_setting = \<lparr>hw = file_board, json_sizes = esp8266, beyond_buffer = ''x'', offset_memory = (0, 0),
     tz_memory = (0, 0, 0, 0), float_times_60 = (\<lambda>_. 0)\<rparr>"

definition sample_settings :: ConfigFile where
  "sample_settings = settings_file ''home'' ''secret'' ''?ST'' (- 300) ''?DT'' (- 240)"

lemma sample_settings_short: "length (config_text esp8266 sample_settings) \<le> 1024"
  by code_simp

theorem settings_survive_restart_witness:
  "\<exists>st1 st2. save_config file_setting ''home'' ''secret'' ''?ST'' (- 300) ''?DT'' (- 240)
        (snd (new_WeatherStationBase file_setting 0 timelib_fresh (\<lambda>_. None))) = (True, st1) \<and>
     load_config file_setting ((snd (new_WeatherStationBase file_setting 0 timelib_fresh (world st1)))) = (True, st2) \<and>
     m_host_ssid st2 = ''home'' \<and> m_std_offset st2 = - 300"
proof -
  let ?st = "snd (new_WeatherStationBase file_setting 0 timelib_fresh (\<lambda>_. None))"
  have files: "keeps_files (hw file_setting)" by (simp add: keeps_files_def file_setting_def file_board_def)
  have room: "fits (json_sizes file_setting) 6"
    by (simp add: file_setting_def fits_def esp8266_def node_room_def round_size_up_def)
  have ok: "config_ok (settings_file ''home'' ''secret'' ''?ST'' (- 300) ''?DT'' (- 240))"
    by (simp add: config_ok_def settings_file_def int32_range_def NUL_def)
  obtain st1 where st1: "save_config file_setting ''home'' ''secret'' ''?ST'' (- 300) ''?DT'' (- 240) ?st = (True, st1)"
    by (simp add: save_config_def Save_def file_setting_def file_board_def Let_def)
  have w: "world (snd (new_WeatherStationBase file_setting 0 timelib_fresh (world st1))) = world st1"
    by (simp add: new_WeatherStationBase_def file_setting_def file_board_def)
  have "length (config_text (json_sizes file_setting) (settings_file ''home'' ''secret'' ''?ST'' (- 300) ''?DT'' (- 240))) \<le> 1024"
    using sample_settings_short by (simp add: sample_settings_def file_setting_def)
  with settings_survive_restart [OF files room ok _ _ st1 w] st1 show ?thesis by auto
qed

end
