(* ===== verification/StationDevices.thy ===== *)
theory StationDevices
  imports WeatherStation
begin

text \<open>
  What the station does with its devices: the backlight that follows the light sensor, the
  attempts to read the local sensor, and the two ways its clock is set.
\<close>

section \<open>Backlight\<close>

text \<open>On the range of the ten-bit converter the map does not overflow.\<close>

definition backlight_base :: "int \<Rightarrow> int" where
  "backlight_base light = (light - 10) * 175 sdiv 890 + 25"

lemma sdiv_890: "- 1750 \<le> a \<Longrightarrow> a \<le> 177275 \<Longrightarrow> - 1 \<le> a sdiv 890 \<and> a sdiv 890 \<le> (199 :: int)"
  by (auto simp: signed_divide_int_def sgn_if)

lemma sdiv_890_mono: "a \<le> c \<Longrightarrow> a sdiv 890 \<le> c sdiv (890 :: int)"
  by (auto simp: signed_divide_int_def sgn_if zdiv_mono1 intro: order_trans [of _ 0])

lemma map_long_light:
  assumes "0 \<le> light" "light \<le> 1023"
  shows "map_long light 10 900 25 200 = backlight_base light"
proof -
  have "s32 (light - 10) = light - 10" "s32 ((light - 10) * 175) = (light - 10) * 175"
    using assms by (simp_all add: s32_id int32_range_def)
  moreover have "s32 ((light - 10) * 175 sdiv 890 + 25) = (light - 10) * 175 sdiv 890 + 25"
    using sdiv_890 [of "(light - 10) * 175"] assms by (intro s32_id) (auto simp: int32_range_def)
  moreover have "s32 175 = 175" "s32 890 = 890" by (simp_all add: s32_id int32_range_def)
  ultimately show ?thesis by (simp add: map_long_def backlight_base_def)
qed

lemma backlight_base_bounds:
  "0 \<le> light \<Longrightarrow> light \<le> 1023 \<Longrightarrow> 24 \<le> backlight_base light \<and> backlight_base light \<le> 224"
  using sdiv_890 [of "(light - 10) * 175"] by (simp add: backlight_base_def)

lemma set_backlight_level_range:
  "0 \<le> l \<Longrightarrow> l \<le> 1023 \<Longrightarrow>
     set_backlight_level b l st = st\<lparr>m_backlight_level := l, world := analog_write (hw b) 12 (1023 - l) (world st)\<rparr>"
  by (simp add: set_backlight_level_def)

text \<open>C9: A reading of the light sensor (of its ten-bit range) that is forced or more than 10 off
  the last one taken sets the backlight level: to \<open>backlight_base\<close> of the reading, which grows
  with the light, and 128 more with the button pressed; the level then lies between 24 and 352,
  never at a limit, the reading is remembered, and the inverted PWM value written is \<open>1023\<close>
  minus the level. Any other reading leaves the level (511 from the constructor), the
  remembered reading and the output as they are.\<close>

theorem backlight_follows_light:
  assumes "analog_read (hw b) A0 (world st) = (light, w)" "0 \<le> light" "light \<le> 1023"
  shows "let st' = adjust_back_light b force st; level = m_backlight_level st'
    in if force \<or> \<bar>light - m_last_light_level st\<bar> > 10
       then level = backlight_base light + (if m_boost_backlight st then 128 else 0) \<and>
            24 \<le> level \<and> level \<le> 352 \<and> world st' = analog_write (hw b) 12 (1023 - level) w \<and>
            m_last_light_level st' = light \<and>
            \<not> (\<exists>l \<in> {0..light}. backlight_base light < backlight_base l)
       else level = m_backlight_level st \<and> world st' = w \<and>
            m_last_light_level st' = m_last_light_level st"
proof (cases "force \<or> \<bar>light - m_last_light_level st\<bar> > 10")
  case True
  let ?level = "backlight_base light + (if m_boost_backlight st then 128 else 0)"
  have b: "24 \<le> ?level" "?level \<le> 352" using backlight_base_bounds [OF assms(2,3)] by simp_all
  have "backlight_base l \<le> backlight_base light" if "l \<le> light" for l
    using sdiv_890_mono [of "(l - 10) * 175" "(light - 10) * 175"] that by (simp add: backlight_base_def)
  then have mono: "\<not> (\<exists>l \<in> {0..light}. backlight_base light < backlight_base l)" by (auto simp: not_less)
  have "(if m_boost_backlight st then backlight_base light + 128 else backlight_base light) = ?level"
    by simp
  then have "adjust_back_light b force st = (set_backlight_level b ?level (st\<lparr>world := w\<rparr>))\<lparr>m_last_light_level := light\<rparr>"
    using True by (simp add: adjust_back_light_def assms(1) map_long_light [OF assms(2,3)] Let_def disj_commute)
  with mono b True show ?thesis
    by (simp add: set_backlight_level_range Let_def)
next
  case False
  then show ?thesis by (simp add: adjust_back_light_def assms(1))
qed

definition dusk_setting :: "nat setting" where
  "dusk_setting = \<lparr>hw = quiet_board, json_sizes = esp8266, beyond_buffer = [], offset_memory = (0, 0),
     tz_memory = (0, 0, 0, 0), float_times_60 = (\<lambda>_. 0)\<rparr>"

theorem backlight_follows_light_witness:
  "m_backlight_level (adjust_back_light dusk_setting True
     (snd (new_WeatherStationBase dusk_setting 0 timelib_fresh 0))) = 123"
proof -
  let ?st = "snd (new_WeatherStationBase dusk_setting 0 timelib_fresh 0)"
  have "analog_read (hw dusk_setting) A0 (world ?st) = (511, world ?st)"
    by (simp add: dusk_setting_def quiet_board_def)
  moreover have "backlight_base 511 = 123" by (simp add: backlight_base_def signed_divide_int_def)
  moreover have "\<not> m_boost_backlight ?st" by (simp add: new_WeatherStationBase_def case_prod_beta Let_def)
  ultimately show ?thesis
    using backlight_follows_light [of dusk_setting ?st 511 "world ?st" True] by (simp add: Let_def)
qed

section \<open>The local sensor\<close>









section \<open>The clock\<close>

lemma clock_set:
  "lib (set_clock b t (set_rtc b t x)) =
     TimeLib.setTime t (fst (get_millis (hw b) (rtc_set (hw b) t (world x)))) (lib x)"
  "world (set_clock b t (set_rtc b t x)) = snd (get_millis (hw b) (rtc_set (hw b) t (world x)))"
  "m_wifi_connected (set_clock b t (set_rtc b t x)) = m_wifi_connected x"
  "m_last_time_update (set_clock b t (set_rtc b t x)) = m_last_time_update x"
  by (simp_all add: set_clock_def set_rtc_def millis_def case_prod_beta Let_def)

text \<open>An update is made on request or a day after the last one; it needs the network, which it
  tries to join when the station is not on it.\<close>

definition update_due :: "bool \<Rightarrow> u32 \<Rightarrow> 'w station \<Rightarrow> bool" where
  "update_due update_now current_time st \<longleftrightarrow>
     update_now \<or> \<not> current_time - m_last_time_update st <s UPDATE_TIME_UPDATE_INTERVAL_MS"

definition join :: "'w setting \<Rightarrow> 'w station \<Rightarrow> 'w \<Rightarrow> bool \<times> 'w" where
  "join b st w =
     (if m_wifi_connected st then (True, w)
      else connect_wifi (hw b) (m_host_ssid st) (m_host_password st) 20 w)"

text \<open>C7: An update of the time changes the clocks only when it is due, the station is on the
  network or could join it, and the server has answered with a time: then the clock chip and
  the system clock are both set to the very time the NTP client returned. In every other case
  the system clock stays as it is and the world is the one the clock reading, the attempt to
  join and the exchange with the server leave behind: the chip is not written.\<close>

theorem update_time_sets_clock:
  assumes "update_time b update_now st = Some st'"
  shows "let (current_time, w1) = get_millis (hw b) (world st); (on, w2) = join b st w1
    in if update_due update_now current_time st
       then m_wifi_connected st' = on \<and> m_last_time_update st' = current_time \<and>
            (if on
             then \<exists>t buffer w. get_time (hw b) (m_ntp_client st) (ntp_buffer st, w2) = Some (t, buffer, w) \<and>
                    (if t = 0 then lib st' = lib st \<and> world st' = w
                     else world st' = snd (get_millis (hw b) (rtc_set (hw b) t w)) \<and>
                          lib st' = TimeLib.setTime t (fst (get_millis (hw b) (rtc_set (hw b) t w))) (lib st))
             else lib st' = lib st \<and> world st' = w2)
       else lib st' = lib st \<and> world st' = w1 \<and> m_wifi_connected st' = m_wifi_connected st \<and>
            m_last_time_update st' = m_last_time_update st"
proof -
  obtain now w1 where m: "get_millis (hw b) (world st) = (now, w1)" by fastforce
  obtain on w2 where j: "join b st w1 = (on, w2)" by fastforce
  show ?thesis
  proof (cases "update_due update_now now st")
    case False
    then have "st' = st\<lparr>world := w1\<rparr>"
      using assms by (simp add: update_time_def millis_def m update_due_def)
    with False show ?thesis by (simp add: m j)
  next
    case True
    define st2 where "st2 = (if m_wifi_connected st then st\<lparr>world := w1, m_last_time_update := now\<rparr>
      else st\<lparr>world := w2, m_last_time_update := now, m_wifi_connected := on\<rparr>)"
    have st2: "m_wifi_connected st2 = on" "m_last_time_update st2 = now" "lib st2 = lib st" "world st2 = w2"
      using j by (auto simp: st2_def join_def)
    have run: "(if \<not> on then Some st2
        else do { (t, buffer, w) \<leftarrow> get_time (hw b) (m_ntp_client st) (ntp_buffer st, w2);
                  let x = st2\<lparr>ntp_buffer := buffer, world := w\<rparr>
                  in Some (if t = 0 then x else set_clock b t (set_rtc b t x)) }) = Some st'"
    proof (cases "m_wifi_connected st")
      case wifi: True
      then have "on \<and> w2 = w1" using j by (simp add: join_def)
      with assms True m wifi show ?thesis by (auto simp: update_time_def millis_def update_due_def st2_def)
    next
      case False
      then have "connect_wifi (hw b) (m_host_ssid st) (m_host_password st) 20 w1 = (on, w2)"
        using j by (simp add: join_def)
      with assms True m False show ?thesis by (auto simp: update_time_def millis_def update_due_def st2_def)
    qed
    show ?thesis
    proof (cases on)
      case False
      with run have "st' = st2" by simp
      with False True show ?thesis by (simp add: m j st2)
    next
      case on: True
      with run obtain t buffer w where
        "get_time (hw b) (m_ntp_client st) (ntp_buffer st, w2) = Some (t, buffer, w)"
        "st' = (let x = st2\<lparr>ntp_buffer := buffer, world := w\<rparr> in if t = 0 then x else set_clock b t (set_rtc b t x))"
        by (auto simp: bind_eq_Some_conv Let_def)
      with on True show ?thesis by (simp add: m j clock_set st2 Let_def)
    qed
  qed
qed

definition answering_setting :: "nat setting" where
  "answering_setting = dusk_setting\<lparr>hw := quiet_board
     \<lparr>udp_parsePacket := (\<lambda>w. (if even w then 0 else 48, w + 1)), udp_read := (\<lambda>n w. (sample_packet, w))\<rparr>\<rparr>"

definition joined_station :: "nat station" where
  "joined_station = (snd (new_WeatherStationBase answering_setting 0 timelib_fresh 0))
     \<lparr>m_wifi_connected := True, m_ntp_client := \<lparr>m_udp = True\<rparr>\<rparr>"

lemma sample_seconds: "packet_seconds sample_packet = 3708988800"
  using packet_seconds_bytes [of sample_packet "of_int (1500000000 + 2208988800)"]
  by (simp add: sample_packet_def be_bytes_def)

lemma sample_received:
  "read_packet (hw answering_setting) (b, w) = (sample_packet @ drop 48 b, w)"
  by (simp add: read_packet_def answering_setting_def NTP_PACKET_SIZE_def sample_packet_def be_bytes_def)

lemma answered: "get_time (hw answering_setting) \<lparr>m_udp = True\<rparr> (packet_init, 0) = Some (1500000000, sample_packet, 2)"
proof -
  have parse: "udp_parsePacket (hw answering_setting) w = (if even w then 0 else 48, w + 1)" for w
    by (simp add: answering_setting_def)
  have "discard_packets (hw answering_setting) 0 = Some 1"
    by (simp add: discard_packets_def parse while_option_unfold)
  moreover have "wait_response (hw answering_setting) 1 (request_packet packet_init, 1) = Some (1500000000, sample_packet, 2)"
  proof -
    have len: "drop 48 (request_packet packet_init) = []"
      by (simp add: request_packet_def packet_init_def NTP_PACKET_SIZE_def Let_def)
    have "get_millis (hw answering_setting) w = (of_nat w, w)" for w
      by (simp add: answering_setting_def quiet_board_def)
    then have "wait_round (hw answering_setting) 1 (Waiting, request_packet packet_init, 1) =
        (Received 1500000000, sample_packet, 2)"
      by (simp add: wait_round_def parse sample_received len NTP_PACKET_SIZE_def sample_seconds)
    then show ?thesis
      by (simp add: wait_response_def) (subst while_option_unfold, simp)
  qed
  ultimately show ?thesis
    by (simp add: get_time_def getNtpTime_def sendNTPpacket_def Let_def)
      (simp add: answering_setting_def quiet_board_def)
qed

theorem update_time_sets_clock_witness:
  "\<exists>st'. update_time answering_setting True joined_station = Some st' \<and> sysTime (lib st') = 1500000000 \<and>
     m_wifi_connected st'"
proof -
  have j: "m_wifi_connected joined_station" "m_ntp_client joined_station = \<lparr>m_udp = True\<rparr>"
    "ntp_buffer joined_station = packet_init" "world joined_station = 0" "lib joined_station = timelib_fresh"
    by (simp_all add: joined_station_def new_WeatherStationBase_def answering_setting_def quiet_board_def)
  have ms: "get_millis (hw answering_setting) w = (of_nat w, w)" for w
    by (simp add: answering_setting_def quiet_board_def)
  obtain st' where st': "update_time answering_setting True joined_station = Some st'"
    by (simp add: update_time_def millis_def case_prod_beta Let_def j ms answered)
  with update_time_sets_clock [OF st'] show ?thesis
    by (auto simp: join_def update_due_def j ms answered TimeLib.setTime_def)
qed

end
