(* ===== verification/SensorReport.thy ===== *)
theory SensorReport
  imports StationLoop RemoteStation
begin

text \<open>
  The way of a reading from the remote board to the screen of the base station: the text the
  remote board sends, received and parsed by the web server, dispatched to the handler of the
  station, and drawn at the next tick of the display timer.
\<close>

lemma report_params:
  "map_of (insert_params (report_fields t h) []) temp_var_name = Some (dec_of_int t)"
  "map_of (insert_params (report_fields t h) []) humidity_var_name = Some (dec_of_int h)"
  "(k, v) \<in> set (insert_params (report_fields t h) []) \<Longrightarrow> NUL \<notin> set k \<and> NUL \<notin> set v"
proof -
  have s: "sorted_map []" by (simp add: sorted_map_def)
  note l = insert_params_lookup [OF s, of "report_fields t h"]
  show "map_of (insert_params (report_fields t h) []) temp_var_name = Some (dec_of_int t)"
    "map_of (insert_params (report_fields t h) []) humidity_var_name = Some (dec_of_int h)"
    unfolding l by (simp_all add: report_fields_def temp_var_name_def humidity_var_name_def)
  assume "(k, v) \<in> set (insert_params (report_fields t h) [])"
  moreover have "sorted_map (insert_params (report_fields t h) [])" by (rule insert_params_sorted [OF s])
  ultimately have "map_of (insert_params (report_fields t h) []) k = Some v"
    by (simp add: sorted_map_def strict_sorted_iff)
  then have "map_of (report_fields t h) k = Some v" by (simp add: l)
  then have "(k, v) \<in> set (report_fields t h)" by (rule map_of_SomeD)
  then show "NUL \<notin> set k \<and> NUL \<notin> set v"
    using dec_of_int_no_NUL by (auto simp: report_fields_def temp_var_name_def humidity_var_name_def NUL_def)
qed

lemma report_handler:
  "find (\<lambda>h. canHandle h HTTP_POST (c_text report_url)) station_handlers =
     Some (MethodRequestHandler Handle_sensor_data_post None report_url HTTP_POST)"
  by (simp add: station_handlers_def MethodRequestHandler_canHandle_def method_uri_matches_def report_url_def
      c_text_def NUL_def)

text \<open>The handler of the station records the reading and changes nothing else.\<close>

lemma report_handled:
  assumes "station_ok (sv, st)" "int32_range t" "int32_range h"
    and "req_method r = ''POST''" "req_path r = report_url" "req_params r = insert_params (report_fields t h) []"
  shows "\<exists>r' sv'. handle_get (station_env b) r (sv, st) =
      Some (r', sv', st\<lparr>m_current_remote_sensor_data := \<lparr>temperature = t, humidity = h\<rparr>\<rparr>) \<and>
    req_status r' = ''200 OK'' \<and> req_answer r' = ''OK'' \<and> req_auth_realm r' = req_auth_realm r"
proof -
  have m: "request_method (req_method r) = Some HTTP_POST"
    unfolding assms(4) by code_simp
  let ?h = "MethodRequestHandler Handle_sensor_data_post None report_url HTTP_POST"
  let ?sv = "(begin_request r HTTP_POST sv)\<lparr>sv_handler := Some ?h\<rparr>"
  have find: "find (\<lambda>h. canHandle h HTTP_POST (c_text (req_path r))) (sv_handlers sv) = Some ?h"
    using assms(1) report_handler by (simp add: station_ok_def assms(5))
  have "arg name ?sv = (case map_of (req_params r) name of None \<Rightarrow> [] | Some v \<Rightarrow> v)" for name
    using find_argument_request [of "req_params r" name] report_params(3) assms(6)
    by (auto simp: arg_def split: option.splits)
  then have "arg temp_var_name ?sv = dec_of_int t" "arg humidity_var_name ?sv = dec_of_int h"
    by (simp_all add: assms(6) report_params(1,2))
  then have "handle_sensor_data_post (?sv, st) = do { sv \<leftarrow> send 200 (Some ''text/plain'') ''OK'' ?sv;
      Some (sv, st\<lparr>m_current_remote_sensor_data := \<lparr>temperature = t, humidity = h\<rparr>\<rparr>) }"
    using assms(2,3) by (simp add: handle_sensor_data_post_def atol_dec)
  moreover have "dec_of_int 200 = ''200''" by (rule dec_200)
  ultimately show ?thesis
    unfolding handle_get_method [OF m find disjI1 [OF refl]]
    by (simp add: station_env_def run_handler_def send_def sendContent_def responseCodeToString_def
        c_text_def NUL_def)
qed

lemma report_head:
  assumes "incoming s = report_text server t h"
  shows "fst (ReceiveLine s) \<noteq> []"
proof -
  let ?l = "''POST '' @ report_url @ '' HTTP/1.1''"
  obtain rest where "report_text server t h = println ?l @ rest"
    unfolding report_text_def Let_def by blast
  then have "incoming s = ?l @ CRLF @ rest" using assms by (simp add: println_def)
  moreover have "no_newline ?l" by (simp add: no_newline_def report_url_def)
  ultimately show ?thesis using ReceiveLine_crlf by simp
qed

lemma receive_frame:
  "outgoing (snd (ReceiveLine s)) = outgoing s"
  "outgoing (snd (header_loop s x)) = outgoing s"
  "body_polls as n line s = Some (l, s') \<Longrightarrow> outgoing s' = outgoing s"
proof -
  show line: "outgoing (snd (ReceiveLine s)) = outgoing s" for s
    by (simp add: ReceiveLine_def case_prod_beta)
  show "outgoing (snd (header_loop s x)) = outgoing s"
  proof (induction s x rule: header_loop.induct)
    case (1 s x)
    then show ?case using line [of s] by (subst header_loop.simps) (auto simp: case_prod_beta Let_def)
  qed
  show "body_polls as n line s = Some (l, s') \<Longrightarrow> outgoing s' = outgoing s"
    by (induction as n line s rule: body_polls.induct)
       (auto simp: ReceiveBytes_def split: if_splits option.splits list.splits)
qed

lemma Request_parse_frame: "Request_parse s = Some (r, s') \<Longrightarrow> outgoing s' = outgoing s"
  using receive_frame
  by (auto simp: Request_parse_def receive_body_def case_prod_beta Let_def split: option.splits if_splits)

lemma report_url_ok: "uri_ok report_url"
  by (simp add: uri_ok_def report_url_def no_newline_def)

lemma Response_starts:
  assumes "req_auth_realm r = []"
  shows "\<exists>rest. outgoing (Response asctime r s) = outgoing s @ ''HTTP/1.1 '' @ req_status r @ [CHR 0x0A] @ rest"
  using assms by (simp add: Response_def SendLine_def SendBytes_def Let_def)

lemma report_received:
  assumes "station_ok (sv, st)" "int32_range t" "int32_range h" "no_newline server"
    and "incoming s = report_text server t h"
    and "length (post_data t h) \<le> sum_list (arrivals s)"
  shows "\<exists>s' sv' rest. handleClient (station_env b) asctime s (sv, st) =
      Some (0, s', sv', st\<lparr>m_current_remote_sensor_data := \<lparr>temperature = t, humidity = h\<rparr>\<rparr>) \<and>
    outgoing s' = outgoing s @ ''HTTP/1.1 200 OK'' @ [CHR 0x0A] @ rest"
proof -
  obtain req s1 where req: "Request_parse s = Some (req, s1)" "req_method req = ''POST''" "req_path req = report_url"
    "req_params req = insert_params (report_fields t h) []" "req_auth_realm req = []"
    using post_request_read [OF report_url_ok _ report_fields_ok report_headers_ok [OF assms(4)]
        report_length [OF assms(2,3)], of s] assms(5,6)
    by (auto simp: report_text_request post_data_print report_fields_def)
  obtain r' sv' where r': "handle_get (station_env b) req (sv, st) =
      Some (r', sv', st\<lparr>m_current_remote_sensor_data := \<lparr>temperature = t, humidity = h\<rparr>\<rparr>)"
    "req_status r' = ''200 OK''" "req_auth_realm r' = []"
    using report_handled [OF assms(1-3) req(2-4), of b] req(5) by auto
  obtain rest where "outgoing (Response asctime r' s1) = outgoing s1 @ ''HTTP/1.1 '' @ req_status r' @ [CHR 0x0A] @ rest"
    using Response_starts [OF r'(3)] by blast
  moreover have "outgoing s1 = outgoing s" by (rule Request_parse_frame [OF req(1)])
  ultimately show ?thesis
    using report_head [OF assms(5)] req(1) r' by (simp add: handleClient_def Request_def)
qed

end
