(* ===== verification/PrintLib.thy ===== *)
theory PrintLib
  imports Prelude
begin

text \<open>
  Printing, \<^verbatim>\<open>esp8266_sim/Print.cpp\<close>, over the virtual \<open>write\<close> of one byte, which says how many
  bytes it has taken. The floating-point functions are left out. \<open>char\<close> is unsigned, as on the
  target.
\<close>

type_synonym 's sink = "u8 \<Rightarrow> 's \<Rightarrow> (nat \<times> 's) option"

fun print_buffer :: "'s sink \<Rightarrow> u8 list \<Rightarrow> 's \<Rightarrow> (nat \<times> 's) option" where
  "print_buffer wr [] s = Some (0, s)"
| "print_buffer wr (b # bs) s =
     do { (k, s) \<leftarrow> wr b s;
          if k \<noteq> 0 then do { (n, s) \<leftarrow> print_buffer wr bs s; Some (Suc n, s) } else Some (0, s) }"

definition char_bytes :: "string \<Rightarrow> u8 list" where
  "char_bytes str = map of_char str"

definition write_cstr :: "'s sink \<Rightarrow> string option \<Rightarrow> 's \<Rightarrow> (nat \<times> 's) option" where
  "write_cstr wr str s = (case str of None \<Rightarrow> Some (0, s) | Some t \<Rightarrow> print_buffer wr (char_bytes t) s)"

definition print_string :: "'s sink \<Rightarrow> string \<Rightarrow> 's \<Rightarrow> (nat \<times> 's) option" where
  "print_string wr str s = print_buffer wr (char_bytes str) s"

definition print_cstr :: "'s sink \<Rightarrow> string option \<Rightarrow> 's \<Rightarrow> (nat \<times> 's) option" where
  "print_cstr wr str s = write_cstr wr str s"

definition print_char :: "'s sink \<Rightarrow> char \<Rightarrow> 's \<Rightarrow> (nat \<times> 's) option" where
  "print_char wr ch s = wr (of_char ch) s"

section \<open>Numbers\<close>

definition number_digit :: "u8 \<Rightarrow> u8" where
  "number_digit d = (if d < 10 then d + 48 else d + 65 - 10)"

text \<open>The digits are put in front of those in the buffer, which holds 32; \<open>None\<close>: it is overrun.\<close>

function number_loop :: "nat \<Rightarrow> nat \<Rightarrow> u8 list \<Rightarrow> u8 list option" where
  "number_loop base n buf =
     (if base < 2 \<or> 32 \<le> length buf then None
      else (let buf = number_digit (of_nat (n mod base)) # buf; n = n div base
            in if n \<noteq> 0 then number_loop base n buf else Some buf))"
  by pat_completeness auto
termination
  by (relation "measure (\<lambda>(base, n, buf). n)") (auto intro!: div_less_dividend intro: gr0I)

declare number_loop.simps [simp del]

definition printNumber :: "'s sink \<Rightarrow> u32 \<Rightarrow> u8 \<Rightarrow> 's \<Rightarrow> (nat \<times> 's) option" where
  "printNumber wr n base s =
     (let base = (if base < 2 then 10 else base)
      in do { str \<leftarrow> number_loop (unat base) (unat n) []; print_buffer wr str s })"

definition print_ulong :: "'s sink \<Rightarrow> u32 \<Rightarrow> int \<Rightarrow> 's \<Rightarrow> (nat \<times> 's) option" where
  "print_ulong wr n base s = (if base = 0 then wr (ucast n) s else printNumber wr n (word_of_int base) s)"

definition print_long :: "'s sink \<Rightarrow> int \<Rightarrow> int \<Rightarrow> 's \<Rightarrow> (nat \<times> 's) option" where
  "print_long wr n base s =
     (if base = 0 then wr (word_of_int n) s
      else if base = 10
      then (if n < 0
            then do { (t, s) \<leftarrow> print_char wr CHR ''-'' s;
                      (k, s) \<leftarrow> printNumber wr (word_of_int (- n)) 10 s;
                      Some (k + t, s) }
            else printNumber wr (word_of_int n) 10 s)
      else printNumber wr (word_of_int n) (word_of_int base) s)"

definition print_uchar :: "'s sink \<Rightarrow> u8 \<Rightarrow> int \<Rightarrow> 's \<Rightarrow> (nat \<times> 's) option" where
  "print_uchar wr b base s = print_ulong wr (ucast b) base s"

definition print_int :: "'s sink \<Rightarrow> int \<Rightarrow> int \<Rightarrow> 's \<Rightarrow> (nat \<times> 's) option" where
  "print_int wr n base s = print_long wr n base s"

definition print_uint :: "'s sink \<Rightarrow> u32 \<Rightarrow> int \<Rightarrow> 's \<Rightarrow> (nat \<times> 's) option" where
  "print_uint wr n base s = print_ulong wr n base s"

section \<open>Lines\<close>

definition println_end :: "'s sink \<Rightarrow> 's \<Rightarrow> (nat \<times> 's) option" where
  "println_end wr s = write_cstr wr (Some [CHR 0x0D, CHR 0x0A]) s"

text \<open>The \<open>println\<close> of each type prints and then ends the line.\<close>

definition with_line :: "('s \<Rightarrow> (nat \<times> 's) option) \<Rightarrow> 's sink \<Rightarrow> 's \<Rightarrow> (nat \<times> 's) option" where
  "with_line pr wr s = do { (n, s) \<leftarrow> pr s; (k, s) \<leftarrow> println_end wr s; Some (n + k, s) }"

definition println_string :: "'s sink \<Rightarrow> string \<Rightarrow> 's \<Rightarrow> (nat \<times> 's) option" where
  "println_string wr str = with_line (print_string wr str) wr"
definition println_cstr :: "'s sink \<Rightarrow> string option \<Rightarrow> 's \<Rightarrow> (nat \<times> 's) option" where
  "println_cstr wr str = with_line (print_cstr wr str) wr"
definition println_char :: "'s sink \<Rightarrow> char \<Rightarrow> 's \<Rightarrow> (nat \<times> 's) option" where
  "println_char wr ch = with_line (print_char wr ch) wr"
definition println_uchar :: "'s sink \<Rightarrow> u8 \<Rightarrow> int \<Rightarrow> 's \<Rightarrow> (nat \<times> 's) option" where
  "println_uchar wr b base = with_line (print_uchar wr b base) wr"
definition println_int :: "'s sink \<Rightarrow> int \<Rightarrow> int \<Rightarrow> 's \<Rightarrow> (nat \<times> 's) option" where
  "println_int wr n base = with_line (print_int wr n base) wr"
definition println_uint :: "'s sink \<Rightarrow> u32 \<Rightarrow> int \<Rightarrow> 's \<Rightarrow> (nat \<times> 's) option" where
  "println_uint wr n base = with_line (print_uint wr n base) wr"
definition println_long :: "'s sink \<Rightarrow> int \<Rightarrow> int \<Rightarrow> 's \<Rightarrow> (nat \<times> 's) option" where
  "println_long wr n base = with_line (print_long wr n base) wr"
definition println_ulong :: "'s sink \<Rightarrow> u32 \<Rightarrow> int \<Rightarrow> 's \<Rightarrow> (nat \<times> 's) option" where
  "println_ulong wr n base = with_line (print_ulong wr n base) wr"

section \<open>What is printed\<close>

text \<open>The value of a digit string in a base up to 36.\<close>

definition digit_of :: "u8 \<Rightarrow> nat" where
  "digit_of b = (if b < 58 then unat b - 48 else unat b - 55)"

definition number_value :: "nat \<Rightarrow> u8 list \<Rightarrow> nat" where
  "number_value base bs = foldl (\<lambda>v b. v * base + digit_of b) 0 bs"

lemma digit_of_digit: "d < 36 \<Longrightarrow> digit_of (number_digit (of_nat d)) = d"
proof -
  assume "d < 36"
  then have "d \<in> set [0..<36]" by simp
  moreover have "\<forall>d \<in> set [0..<36]. digit_of (number_digit (of_nat d)) = d" by code_simp
  ultimately show ?thesis by blast
qed

lemma foldl_value:
  "foldl (\<lambda>v b. v * base + digit_of b) a bs = a * base ^ length bs + number_value base bs"
proof (induction bs rule: rev_induct)
  case (snoc b bs)
  then show ?case by (simp add: number_value_def algebra_simps)
qed (simp add: number_value_def)

lemma number_value_Cons: "number_value base (b # bs) = digit_of b * base ^ length bs + number_value base bs"
  using foldl_value [of base "digit_of b" bs] by (simp add: number_value_def)

text \<open>A number below \<open>base ^ k\<close> takes at most \<open>k\<close> digits.\<close>

lemma number_loop_value:
  assumes "2 \<le> base" "base \<le> 36" "n < base ^ k" "0 < k" "length buf + k \<le> 32"
  shows "\<exists>ds. number_loop base n buf = Some (ds @ buf) \<and> ds \<noteq> [] \<and> length ds \<le> k \<and> number_value base ds = n"
  using assms(3-)
proof (induction k arbitrary: n buf)
  case (Suc k)
  let ?d = "number_digit (of_nat (n mod base))"
  have room: "\<not> (base < 2 \<or> 32 \<le> length buf)" using assms(1) Suc.prems by simp
  have "n mod base < base" using assms(1) by simp
  then have d: "digit_of ?d = n mod base" using assms(2) by (intro digit_of_digit) simp
  show ?case
  proof (cases "n div base = 0")
    case True
    then have "n mod base = n" using assms(1) by (simp add: div_eq_0_iff)
    then have "number_value base [?d] = n" using d by (simp add: number_value_def)
    moreover have "number_loop base n buf = Some ([?d] @ buf)"
      using True room by (subst number_loop.simps) (simp add: Let_def)
    ultimately show ?thesis by (intro exI [of _ "[?d]"]) simp
  next
    case False
    have "0 < k"
    proof (rule ccontr)
      assume "\<not> 0 < k"
      then show False using False Suc.prems(1) by (simp add: div_eq_0_iff)
    qed
    moreover have "n div base < base ^ k"
      using Suc.prems(1) assms(1) by (simp add: less_mult_imp_div_less mult.commute)
    ultimately obtain ds where ds: "number_loop base (n div base) (?d # buf) = Some (ds @ ?d # buf)" "ds \<noteq> []"
        "length ds \<le> k" "number_value base ds = n div base"
      using Suc.IH [of "n div base" "?d # buf"] Suc.prems(3) by auto
    have "number_value base (ds @ [?d]) = n"
      using ds(4) d by (simp add: number_value_def)
    moreover have "number_loop base n buf = Some ((ds @ [?d]) @ buf)"
      using False room ds(1) by (subst number_loop.simps) (simp add: Let_def)
    ultimately show ?thesis using ds(3) by (intro exI [of _ "ds @ [?d]"]) simp
  qed
qed simp

text \<open>Printing a 32-bit number in any base up to 36 never overruns the buffer of 32 characters,
  and what is written is a digit string whose value is the number, whatever it is written to; the
  bases 0 and 1 print in decimal.\<close>

theorem printed_number_reads_back:
  assumes "base \<le> 36"
  shows "\<exists>ds. printNumber wr n base s = print_buffer wr ds s \<and> ds \<noteq> [] \<and> length ds \<le> 32 \<and>
    number_value (if base < 2 then 10 else unat base) ds = unat n"
proof -
  let ?b = "if base < 2 then 10 else base"
  have b: "2 \<le> unat ?b" "unat ?b \<le> 36" "unat ?b = (if base < 2 then 10 else unat base)"
    using assms by (auto simp: word_le_nat_alt word_less_nat_alt)
  have "unat n < 2 ^ 32" using unat_u32_less [of n] by simp
  also have "(2 :: nat) ^ 32 \<le> unat ?b ^ 32" using b(1) by (rule power_mono) simp
  finally obtain ds where "number_loop (unat ?b) (unat n) [] = Some (ds @ [])" "ds \<noteq> []" "length ds \<le> 32"
      "number_value (unat ?b) ds = unat n"
    using number_loop_value [OF b(1,2), of "unat n" 32 "[]"] by auto
  then show ?thesis using b(3) by (intro exI [of _ ds]) (simp add: printNumber_def Let_def)
qed

definition collect :: "u8 list sink" where
  "collect b s = Some (1, s @ [b])"

lemma hex_digits: "printNumber collect 3054 16 [] = print_buffer collect (char_bytes ''BEE'') []"
  by code_simp

theorem printed_number_reads_back_witness:
  "\<exists>ds. printNumber collect 3054 16 [] = print_buffer collect ds [] \<and> number_value 16 ds = 3054"
  using printed_number_reads_back [of 16 collect 3054 "[]"] by auto

end
