(* ===== verification/Gfx.thy ===== *)
theory Gfx
  imports Prelude
begin

text \<open>
  The drawing library, \<^verbatim>\<open>esp8266_sim/Adafruit_GFX.cpp\<close>: points, lines, rectangles, circles,
  triangles, bitmaps and text on an object whose virtual methods a driver overrides. Coordinates
  are 16-bit and computed in \<open>int\<close>: \<open>s16\<close> stands wherever one is stored or passed. A drawing
  operation is \<open>None\<close> when it writes outside its buffer or runs round its 16-bit counter for ever.
\<close>

section \<open>The object and its virtual methods\<close>

definition s16 :: "int \<Rightarrow> int" where
  "s16 i = sint (word_of_int i :: u16)"

definition int16_range :: "int \<Rightarrow> bool" where
  "int16_range i \<longleftrightarrow> - 32768 \<le> i \<and> i \<le> 32767"

lemma s16_id [simp]: "int16_range i \<Longrightarrow> s16 i = i"
  unfolding s16_def int16_range_def
  by (simp add: signed_take_bit_int_eq_self sint_sbintrunc')

lemma s16_range: "int16_range (s16 i)"
  unfolding s16_def int16_range_def
  using sint_range_size [of "word_of_int i :: u16"] by (simp add: word_size)

record GFXglyph =
  bitmapOffset :: u16
  glyph_width :: u8
  glyph_height :: u8
  xAdvance :: u8
  xOffset :: u8
  yOffset :: u8

record GFXfont =
  bitmap :: "u8 list"
  glyph :: "GFXglyph list"
  first :: u8
  last_char :: u8
  yAdvance :: u8

text \<open>\<open>dev\<close> is what the subclass adds.\<close>

record 'd gfx =
  raw_width :: int
  raw_height :: int
  width :: int
  height :: int
  cursor_x :: int
  cursor_y :: int
  textcolor :: u16
  textbgcolor :: u16
  textsize :: int
  rotation :: nat
  wrap :: bool
  use_cp437 :: bool
  gfxFont :: "GFXfont option"
  dev :: 'd

definition new_gfx :: "int \<Rightarrow> int \<Rightarrow> 'd \<Rightarrow> 'd gfx" where
  "new_gfx w h d = \<lparr>raw_width = w, raw_height = h, width = w, height = h, cursor_x = 0, cursor_y = 0,
     textcolor = 0xFFFF, textbgcolor = 0xFFFF, textsize = 1, rotation = 0, wrap = True, use_cp437 = False,
     gfxFont = None, dev = d\<rparr>"

type_synonym 'd pixel_fn = "int \<Rightarrow> int \<Rightarrow> u16 \<Rightarrow> 'd gfx \<Rightarrow> 'd gfx option"
type_synonym 'd line_fn = "int \<Rightarrow> int \<Rightarrow> int \<Rightarrow> u16 \<Rightarrow> 'd gfx \<Rightarrow> 'd gfx option"
type_synonym 'd rect_fn = "int \<Rightarrow> int \<Rightarrow> int \<Rightarrow> int \<Rightarrow> u16 \<Rightarrow> 'd gfx \<Rightarrow> 'd gfx option"

record 'd gfx_class =
  drawPixel :: "'d pixel_fn"
  drawFastVLine :: "'d line_fn"
  drawFastHLine :: "'d line_fn"
  fillRect :: "'d rect_fn"
  fillScreen :: "u16 \<Rightarrow> 'd gfx \<Rightarrow> 'd gfx option"

text \<open>\<open>drawPixel\<close> of each point of a list in turn.\<close>

fun draw_points :: "'d pixel_fn \<Rightarrow> u16 \<Rightarrow> (int \<times> int) list \<Rightarrow> 'd gfx \<Rightarrow> 'd gfx option" where
  "draw_points dp color [] g = Some g"
| "draw_points dp color ((x, y) # ps) g =
     do { g \<leftarrow> dp (s16 x) (s16 y) color g; draw_points dp color ps g }"

section \<open>Lines and rectangles\<close>

partial_function (option) line_loop ::
    "'d pixel_fn \<Rightarrow> bool \<Rightarrow> int \<Rightarrow> int \<Rightarrow> int \<Rightarrow> int \<Rightarrow> u16 \<Rightarrow> int \<Rightarrow> int \<Rightarrow> int \<Rightarrow> 'd gfx \<Rightarrow> 'd gfx option" where
  "line_loop dp steep x1 dx dy ystep color x0 y0 err g =
     (if x0 \<le> x1
      then do { g \<leftarrow> (if steep then dp y0 x0 color g else dp x0 y0 color g);
                let err = s16 (err - dy);
                    (y0, err) = (if err < 0 then (s16 (y0 + ystep), s16 (err + dx)) else (y0, err))
                in line_loop dp steep x1 dx dy ystep color (s16 (x0 + 1)) y0 err g }
      else Some g)"

definition drawLine :: "'d pixel_fn \<Rightarrow> int \<Rightarrow> int \<Rightarrow> int \<Rightarrow> int \<Rightarrow> u16 \<Rightarrow> 'd gfx \<Rightarrow> 'd gfx option" where
  "drawLine dp x0 y0 x1 y1 color g =
     (let steep = \<bar>y1 - y0\<bar> > \<bar>x1 - x0\<bar>;
          (x0, y0, x1, y1) = (if steep then (y0, x0, y1, x1) else (x0, y0, x1, y1));
          (x0, y0, x1, y1) = (if x0 > x1 then (x1, y1, x0, y0) else (x0, y0, x1, y1));
          dx = s16 (x1 - x0);
          dy = s16 \<bar>y1 - y0\<bar>;
          err = dx sdiv 2;
          ystep = (if y0 < y1 then 1 else - 1)
      in line_loop dp steep x1 dx dy ystep color x0 y0 err g)"

text \<open>The methods of the base class that a driver may keep.\<close>

definition gfx_drawFastVLine :: "'d pixel_fn \<Rightarrow> int \<Rightarrow> int \<Rightarrow> int \<Rightarrow> u16 \<Rightarrow> 'd gfx \<Rightarrow> 'd gfx option" where
  "gfx_drawFastVLine dp x y h color g = drawLine dp x y x (s16 (y + h - 1)) color g"

definition gfx_drawFastHLine :: "'d pixel_fn \<Rightarrow> int \<Rightarrow> int \<Rightarrow> int \<Rightarrow> u16 \<Rightarrow> 'd gfx \<Rightarrow> 'd gfx option" where
  "gfx_drawFastHLine dp x y w color g = drawLine dp x y (s16 (x + w - 1)) y color g"

partial_function (option) column_loop ::
    "'d line_fn \<Rightarrow> int \<Rightarrow> int \<Rightarrow> int \<Rightarrow> u16 \<Rightarrow> int \<Rightarrow> 'd gfx \<Rightarrow> 'd gfx option" where
  "column_loop vline x_end y h color i g =
     (if i < x_end
      then do { g \<leftarrow> vline i y h color g; column_loop vline x_end y h color (s16 (i + 1)) g }
      else Some g)"

definition gfx_fillRect :: "'d line_fn \<Rightarrow> int \<Rightarrow> int \<Rightarrow> int \<Rightarrow> int \<Rightarrow> u16 \<Rightarrow> 'd gfx \<Rightarrow> 'd gfx option" where
  "gfx_fillRect vline x y w h color g = column_loop vline (x + w) y h color x g"

definition gfx_fillScreen :: "'d rect_fn \<Rightarrow> u16 \<Rightarrow> 'd gfx \<Rightarrow> 'd gfx option" where
  "gfx_fillScreen fill color g = fill 0 0 (width g) (height g) color g"

text \<open>A subclass that overrides \<open>drawPixel\<close> only.\<close>

definition base_class :: "'d pixel_fn \<Rightarrow> 'd gfx_class" where
  "base_class dp =
     (let vline = gfx_drawFastVLine dp; fill = gfx_fillRect vline
      in \<lparr>drawPixel = dp, drawFastVLine = vline, drawFastHLine = gfx_drawFastHLine dp, fillRect = fill,
          fillScreen = gfx_fillScreen fill\<rparr>)"

definition drawRect :: "'d gfx_class \<Rightarrow> int \<Rightarrow> int \<Rightarrow> int \<Rightarrow> int \<Rightarrow> u16 \<Rightarrow> 'd gfx \<Rightarrow> 'd gfx option" where
  "drawRect c x y w h color g =
     do { g \<leftarrow> drawFastHLine c x y w color g;
          g \<leftarrow> drawFastHLine c x (s16 (y + h - 1)) w color g;
          g \<leftarrow> drawFastVLine c x y h color g;
          drawFastVLine c (s16 (x + w - 1)) y h color g }"

section \<open>Circles\<close>

text \<open>The counters \<open>f\<close>, \<open>ddF_x\<close>, \<open>ddF_y\<close>, \<open>x\<close> and \<open>y\<close>, and the step that the three circle loops
  share. As \<open>x < y\<close> at each step, \<open>x\<close> and \<open>y\<close> do not wrap.\<close>

definition circle_start :: "int \<Rightarrow> int \<times> int \<times> int \<times> int \<times> int" where
  "circle_start r = (s16 (1 - r), 1, s16 (- 2 * r), 0, r)"

definition circle_step :: "int \<times> int \<times> int \<times> int \<times> int \<Rightarrow> int \<times> int \<times> int \<times> int \<times> int" where
  "circle_step = (\<lambda>(f, ddF_x, ddF_y, x, y).
     (let (y, ddF_y, f) = (if f \<ge> 0 then (y - 1, s16 (ddF_y + 2), s16 (f + s16 (ddF_y + 2))) else (y, ddF_y, f));
          x = x + 1;
          ddF_x = s16 (ddF_x + 2);
          f = s16 (f + ddF_x)
      in (f, ddF_x, ddF_y, x, y)))"

lemma circle_step_xy:
  "circle_step (f, ddF_x, ddF_y, x, y) = (f', ddF_x', ddF_y', x', y') \<Longrightarrow>
     x' = x + 1 \<and> y' = (if f \<ge> 0 then y - 1 else y)"
  by (auto simp: circle_step_def Let_def split: if_splits)

function circle_loop ::
    "(int \<Rightarrow> int \<Rightarrow> 'g \<Rightarrow> 'g option) \<Rightarrow> int \<times> int \<times> int \<times> int \<times> int \<Rightarrow> 'g \<Rightarrow> 'g option" where
  "circle_loop body (f, ddF_x, ddF_y, x, y) g =
     (if x < y
      then (let (f, ddF_x, ddF_y, x, y) = circle_step (f, ddF_x, ddF_y, x, y)
            in do { g \<leftarrow> body x y g; circle_loop body (f, ddF_x, ddF_y, x, y) g })
      else Some g)"
  by pat_completeness auto
termination
  by (relation "measure (\<lambda>(body, (f, ddF_x, ddF_y, x, y), g). nat (y - x))")
     (auto simp: circle_step_def Let_def split: if_splits)

definition drawCircle :: "'d gfx_class \<Rightarrow> int \<Rightarrow> int \<Rightarrow> int \<Rightarrow> u16 \<Rightarrow> 'd gfx \<Rightarrow> 'd gfx option" where
  "drawCircle c x0 y0 r color g =
     do { g \<leftarrow> draw_points (drawPixel c) color [(x0, y0 + r), (x0, y0 - r), (x0 + r, y0), (x0 - r, y0)] g;
          circle_loop (\<lambda>x y. draw_points (drawPixel c) color
              [(x0 + x, y0 + y), (x0 - x, y0 + y), (x0 + x, y0 - y), (x0 - x, y0 - y),
               (x0 + y, y0 + x), (x0 - y, y0 + x), (x0 + y, y0 - x), (x0 - y, y0 - x)])
            (circle_start r) g }"

text \<open>The four bits of \<open>cornername\<close> choose the quarters.\<close>

definition corner_points :: "nat \<Rightarrow> int \<Rightarrow> int \<Rightarrow> int \<Rightarrow> int \<Rightarrow> (int \<times> int) list" where
  "corner_points cornername x0 y0 x y =
     (if bit cornername 2 then [(x0 + x, y0 + y), (x0 + y, y0 + x)] else []) @
     (if bit cornername 1 then [(x0 + x, y0 - y), (x0 + y, y0 - x)] else []) @
     (if bit cornername 3 then [(x0 - y, y0 + x), (x0 - x, y0 + y)] else []) @
     (if bit cornername 0 then [(x0 - y, y0 - x), (x0 - x, y0 - y)] else [])"

definition drawCircleHelper ::
    "'d gfx_class \<Rightarrow> int \<Rightarrow> int \<Rightarrow> int \<Rightarrow> nat \<Rightarrow> u16 \<Rightarrow> 'd gfx \<Rightarrow> 'd gfx option" where
  "drawCircleHelper c x0 y0 r cornername color g =
     circle_loop (\<lambda>x y. draw_points (drawPixel c) color (corner_points cornername x0 y0 x y)) (circle_start r) g"

definition side_lines ::
    "'d gfx_class \<Rightarrow> int \<Rightarrow> int \<Rightarrow> int \<Rightarrow> u16 \<Rightarrow> int \<Rightarrow> int \<Rightarrow> int \<Rightarrow> 'd gfx \<Rightarrow> 'd gfx option" where
  "side_lines c x0 y0 delta color x y side g =
     do { g \<leftarrow> drawFastVLine c (s16 (x0 + side * x)) (s16 (y0 - y)) (s16 (2 * y + 1 + delta)) color g;
          drawFastVLine c (s16 (x0 + side * y)) (s16 (y0 - x)) (s16 (2 * x + 1 + delta)) color g }"

definition fillCircleHelper ::
    "'d gfx_class \<Rightarrow> int \<Rightarrow> int \<Rightarrow> int \<Rightarrow> nat \<Rightarrow> int \<Rightarrow> u16 \<Rightarrow> 'd gfx \<Rightarrow> 'd gfx option" where
  "fillCircleHelper c x0 y0 r cornername delta color g =
     circle_loop (\<lambda>x y g.
         do { g \<leftarrow> (if bit cornername 0 then side_lines c x0 y0 delta color x y 1 g else Some g);
              if bit cornername 1 then side_lines c x0 y0 delta color x y (- 1) g else Some g })
       (circle_start r) g"

definition fillCircle :: "'d gfx_class \<Rightarrow> int \<Rightarrow> int \<Rightarrow> int \<Rightarrow> u16 \<Rightarrow> 'd gfx \<Rightarrow> 'd gfx option" where
  "fillCircle c x0 y0 r color g =
     do { g \<leftarrow> drawFastVLine c x0 (s16 (y0 - r)) (s16 (2 * r + 1)) color g;
          fillCircleHelper c x0 y0 r 3 0 color g }"

definition drawRoundRect ::
    "'d gfx_class \<Rightarrow> int \<Rightarrow> int \<Rightarrow> int \<Rightarrow> int \<Rightarrow> int \<Rightarrow> u16 \<Rightarrow> 'd gfx \<Rightarrow> 'd gfx option" where
  "drawRoundRect c x y w h r color g =
     do { g \<leftarrow> drawFastHLine c (s16 (x + r)) y (s16 (w - 2 * r)) color g;
          g \<leftarrow> drawFastHLine c (s16 (x + r)) (s16 (y + h - 1)) (s16 (w - 2 * r)) color g;
          g \<leftarrow> drawFastVLine c x (s16 (y + r)) (s16 (h - 2 * r)) color g;
          g \<leftarrow> drawFastVLine c (s16 (x + w - 1)) (s16 (y + r)) (s16 (h - 2 * r)) color g;
          g \<leftarrow> drawCircleHelper c (s16 (x + r)) (s16 (y + r)) r 1 color g;
          g \<leftarrow> drawCircleHelper c (s16 (x + w - r - 1)) (s16 (y + r)) r 2 color g;
          g \<leftarrow> drawCircleHelper c (s16 (x + w - r - 1)) (s16 (y + h - r - 1)) r 4 color g;
          drawCircleHelper c (s16 (x + r)) (s16 (y + h - r - 1)) r 8 color g }"

definition fillRoundRect ::
    "'d gfx_class \<Rightarrow> int \<Rightarrow> int \<Rightarrow> int \<Rightarrow> int \<Rightarrow> int \<Rightarrow> u16 \<Rightarrow> 'd gfx \<Rightarrow> 'd gfx option" where
  "fillRoundRect c x y w h r color g =
     do { g \<leftarrow> fillRect c (s16 (x + r)) y (s16 (w - 2 * r)) h color g;
          g \<leftarrow> fillCircleHelper c (s16 (x + w - r - 1)) (s16 (y + r)) r 1 (s16 (h - 2 * r - 1)) color g;
          fillCircleHelper c (s16 (x + r)) (s16 (y + r)) r 2 (s16 (h - 2 * r - 1)) color g }"

section \<open>Triangles\<close>

definition drawTriangle ::
    "'d gfx_class \<Rightarrow> int \<Rightarrow> int \<Rightarrow> int \<Rightarrow> int \<Rightarrow> int \<Rightarrow> int \<Rightarrow> u16 \<Rightarrow> 'd gfx \<Rightarrow> 'd gfx option" where
  "drawTriangle c x0 y0 x1 y1 x2 y2 color g =
     do { g \<leftarrow> drawLine (drawPixel c) x0 y0 x1 y1 color g;
          g \<leftarrow> drawLine (drawPixel c) x1 y1 x2 y2 color g;
          drawLine (drawPixel c) x2 y2 x0 y0 color g }"

text \<open>One scan line between the edges \<open>xa + sa / dya\<close> and \<open>xb + sb / dyb\<close>, and a run of them.\<close>

definition scan_line ::
    "'d gfx_class \<Rightarrow> int \<Rightarrow> int \<Rightarrow> int \<Rightarrow> int \<Rightarrow> u16 \<Rightarrow> int \<Rightarrow> int \<Rightarrow> int \<Rightarrow> 'd gfx \<Rightarrow> 'd gfx option" where
  "scan_line c xa dya xb dyb color y sa sb g =
     (let a = s16 (xa + sa sdiv dya);
          b = s16 (xb + sb sdiv dyb);
          (a, b) = (if a > b then (b, a) else (a, b))
      in drawFastHLine c a y (s16 (b - a + 1)) color g)"

partial_function (option) scan_loop ::
    "'d gfx_class \<Rightarrow> int \<Rightarrow> int \<Rightarrow> int \<Rightarrow> int \<Rightarrow> int \<Rightarrow> int \<Rightarrow> u16 \<Rightarrow> int \<Rightarrow> int \<Rightarrow> int \<Rightarrow> int \<Rightarrow> 'd gfx
     \<Rightarrow> (int \<times> 'd gfx) option" where
  "scan_loop c xa dxa dya xb dxb dyb color y_last y sa sb g =
     (if y \<le> y_last
      then do { g \<leftarrow> scan_line c xa dya xb dyb color y sa sb g;
                scan_loop c xa dxa dya xb dxb dyb color y_last (s16 (y + 1)) (s32 (sa + dxa)) (s32 (sb + dxb)) g }
      else Some (y, g))"

definition by_height :: "int \<times> int \<Rightarrow> int \<times> int \<Rightarrow> (int \<times> int) \<times> (int \<times> int)" where
  "by_height p q = (if snd p > snd q then (q, p) else (p, q))"

definition fillTriangle ::
    "'d gfx_class \<Rightarrow> int \<Rightarrow> int \<Rightarrow> int \<Rightarrow> int \<Rightarrow> int \<Rightarrow> int \<Rightarrow> u16 \<Rightarrow> 'd gfx \<Rightarrow> 'd gfx option" where
  "fillTriangle c x0 y0 x1 y1 x2 y2 color g =
     (let (p0, p1) = by_height (x0, y0) (x1, y1);
          (p1, p2) = by_height p1 (x2, y2);
          (p0, p1) = by_height p0 p1;
          (x0, y0) = p0; (x1, y1) = p1; (x2, y2) = p2
      in if y0 = y2
         then (let (a, b) = (if x1 < x0 then (x1, x0) else if x1 > x0 then (x0, x1) else (x0, x0));
                   (a, b) = (if x2 < a then (x2, b) else if x2 > b then (a, x2) else (a, b))
               in drawFastHLine c a y0 (s16 (b - a + 1)) color g)
         else (let dx01 = s16 (x1 - x0); dy01 = s16 (y1 - y0); dx02 = s16 (x2 - x0);
                   dy02 = s16 (y2 - y0); dx12 = s16 (x2 - x1); dy12 = s16 (y2 - y1);
                   y_last = (if y1 = y2 then y1 else s16 (y1 - 1))
               in do { (y, g) \<leftarrow> scan_loop c x0 dx01 dy01 x0 dx02 dy02 color y_last y0 0 0 g;
                       (y, g) \<leftarrow> scan_loop c x1 dx12 dy12 x0 dx02 dy02 color y2 y
                                 (s32 (dx12 * (y - y1))) (s32 (dx02 * (y - y0))) g;
                       Some g }))"

section \<open>Bitmaps\<close>

text \<open>The inner loop over a row: the current byte is read at every eighth pixel and shifted
  in between. \<open>shift\<close>, \<open>probe\<close> and the colour \<open>bg\<close> of clear bits, if any, are what the variants
  differ in; \<open>base\<close> is the index of the first byte of the row.\<close>

function bitmap_row ::
    "(u8 \<Rightarrow> u8) \<Rightarrow> u8 \<Rightarrow> u16 option \<Rightarrow> 'd gfx_class \<Rightarrow> int \<Rightarrow> int \<Rightarrow> u8 list \<Rightarrow> nat \<Rightarrow> int \<Rightarrow> u16 \<Rightarrow> int \<Rightarrow> u8
     \<Rightarrow> 'd gfx \<Rightarrow> (u8 \<times> 'd gfx) option" where
  "bitmap_row shift probe bg c x y bits base w color i byte g =
     (if i < w
      then do { byte \<leftarrow> (if i mod 8 \<noteq> 0 then Some (shift byte)
                        else if base + nat (i div 8) < length bits then Some (bits ! (base + nat (i div 8)))
                        else None);
                g \<leftarrow> (if and byte probe \<noteq> 0 then drawPixel c (s16 (x + i)) y color g
                     else (case bg of None \<Rightarrow> Some g | Some b \<Rightarrow> drawPixel c (s16 (x + i)) y b g));
                bitmap_row shift probe bg c x y bits base w color (i + 1) byte g }
      else Some (byte, g))"
  by pat_completeness auto
termination
  by (relation "measure (\<lambda>(shift, probe, bg, c, x, y, bits, base, w, color, i, byte, g). nat (w - i))") auto

function bitmap_rows ::
    "(u8 \<Rightarrow> u8) \<Rightarrow> u8 \<Rightarrow> u16 option \<Rightarrow> 'd gfx_class \<Rightarrow> int \<Rightarrow> int \<Rightarrow> u8 list \<Rightarrow> int \<Rightarrow> int \<Rightarrow> u16 \<Rightarrow> int \<Rightarrow> u8
     \<Rightarrow> 'd gfx \<Rightarrow> 'd gfx option" where
  "bitmap_rows shift probe bg c x y bits w h color j byte g =
     (if j < h
      then do { let byteWidth = (w + 7) sdiv 8
                in bitmap_row shift probe bg c x (s16 (y + j)) bits (nat (j * byteWidth)) w color 0 byte g }
           \<bind> (\<lambda>(byte, g). bitmap_rows shift probe bg c x y bits w h color (j + 1) byte g)
      else Some g)"
  by pat_completeness auto
termination
  by (relation "measure (\<lambda>(shift, probe, bg, c, x, y, bits, w, h, color, j, byte, g). nat (h - j))") auto

definition shift_left :: "u8 \<Rightarrow> u8" where "shift_left b = push_bit 1 b"
definition shift_right :: "u8 \<Rightarrow> u8" where "shift_right b = drop_bit 1 b"

text \<open>Flash and RAM are read alike; \<open>byte\<close> is read before it is first used.\<close>

definition drawBitmap ::
    "'d gfx_class \<Rightarrow> int \<Rightarrow> int \<Rightarrow> u8 list \<Rightarrow> int \<Rightarrow> int \<Rightarrow> u16 \<Rightarrow> 'd gfx \<Rightarrow> 'd gfx option" where
  "drawBitmap c x y bits w h color g = bitmap_rows shift_left 0x80 None c x y bits w h color 0 0 g"

definition drawBitmap_bg ::
    "'d gfx_class \<Rightarrow> int \<Rightarrow> int \<Rightarrow> u8 list \<Rightarrow> int \<Rightarrow> int \<Rightarrow> u16 \<Rightarrow> u16 \<Rightarrow> 'd gfx \<Rightarrow> 'd gfx option" where
  "drawBitmap_bg c x y bits w h color bg g = bitmap_rows shift_left 0x80 (Some bg) c x y bits w h color 0 0 g"

definition drawBitmap_ram ::
    "'d gfx_class \<Rightarrow> int \<Rightarrow> int \<Rightarrow> u8 list \<Rightarrow> int \<Rightarrow> int \<Rightarrow> u16 \<Rightarrow> 'd gfx \<Rightarrow> 'd gfx option" where
  "drawBitmap_ram c x y bits w h color g = bitmap_rows shift_left 0x80 None c x y bits w h color 0 0 g"

definition drawBitmap_ram_bg ::
    "'d gfx_class \<Rightarrow> int \<Rightarrow> int \<Rightarrow> u8 list \<Rightarrow> int \<Rightarrow> int \<Rightarrow> u16 \<Rightarrow> u16 \<Rightarrow> 'd gfx \<Rightarrow> 'd gfx option" where
  "drawBitmap_ram_bg c x y bits w h color bg g = bitmap_rows shift_left 0x80 (Some bg) c x y bits w h color 0 0 g"

definition drawXBitmap ::
    "'d gfx_class \<Rightarrow> int \<Rightarrow> int \<Rightarrow> u8 list \<Rightarrow> int \<Rightarrow> int \<Rightarrow> u16 \<Rightarrow> 'd gfx \<Rightarrow> 'd gfx option" where
  "drawXBitmap c x y bits w h color g = bitmap_rows shift_right 0x01 None c x y bits w h color 0 0 g"

end
