(* ===== verification/GfxText.thy ===== *)
theory GfxText
  imports Gfx GlcdFont PrintLib
begin

text \<open>
  The text of the drawing library, \<^verbatim>\<open>esp8266_sim/Adafruit_GFX.cpp\<close>: characters of the built-in
  font and of custom fonts, the cursor, the bounds of a text, and the button.
\<close>

section \<open>Settings\<close>

definition setCursor :: "int \<Rightarrow> int \<Rightarrow> 'd gfx \<Rightarrow> 'd gfx" where
  "setCursor x y g = g\<lparr>cursor_x := x, cursor_y := y\<rparr>"

definition setTextSize :: "u8 \<Rightarrow> 'd gfx \<Rightarrow> 'd gfx" where
  "setTextSize s g = g\<lparr>textsize := (if s > 0 then uint s else 1)\<rparr>"

definition setTextColor :: "u16 \<Rightarrow> 'd gfx \<Rightarrow> 'd gfx" where
  "setTextColor c g = g\<lparr>textcolor := c, textbgcolor := c\<rparr>"

definition setTextColor_bg :: "u16 \<Rightarrow> u16 \<Rightarrow> 'd gfx \<Rightarrow> 'd gfx" where
  "setTextColor_bg c b g = g\<lparr>textcolor := c, textbgcolor := b\<rparr>"

definition setTextWrap :: "bool \<Rightarrow> 'd gfx \<Rightarrow> 'd gfx" where
  "setTextWrap w g = g\<lparr>wrap := w\<rparr>"

definition gfx_setRotation :: "u8 \<Rightarrow> 'd gfx \<Rightarrow> 'd gfx" where
  "gfx_setRotation x g =
     (let g = g\<lparr>rotation := unat (and x 3)\<rparr>
      in if rotation g = 0 \<or> rotation g = 2 then g\<lparr>width := raw_width g, height := raw_height g\<rparr>
         else g\<lparr>width := raw_height g, height := raw_width g\<rparr>)"

definition cp437 :: "bool \<Rightarrow> 'd gfx \<Rightarrow> 'd gfx" where
  "cp437 x g = g\<lparr>use_cp437 := x\<rparr>"

definition setFont :: "GFXfont option \<Rightarrow> 'd gfx \<Rightarrow> 'd gfx" where
  "setFont f g =
     (let g = (if f \<noteq> None
               then (if gfxFont g = None then g\<lparr>cursor_y := s16 (cursor_y g + 6)\<rparr> else g)
               else if gfxFont g \<noteq> None then g\<lparr>cursor_y := s16 (cursor_y g - 6)\<rparr> else g)
      in g\<lparr>gfxFont := f\<rparr>)"

section \<open>Characters\<close>

text \<open>A dot of a character: a pixel, or a square of \<open>sz\<close> pixels.\<close>

definition char_dot ::
    "'d gfx_class \<Rightarrow> int \<Rightarrow> int \<Rightarrow> int \<Rightarrow> int \<Rightarrow> int \<Rightarrow> u16 \<Rightarrow> 'd gfx \<Rightarrow> 'd gfx option" where
  "char_dot c x y sz i j color g =
     (if sz = 1 then drawPixel c (s16 (x + i)) (s16 (y + j)) color g
      else fillRect c (s16 (x + i * sz)) (s16 (y + j * sz)) sz sz color g)"

fun char_column ::
    "'d gfx_class \<Rightarrow> int \<Rightarrow> int \<Rightarrow> u16 \<Rightarrow> u16 \<Rightarrow> int \<Rightarrow> int \<Rightarrow> int list \<Rightarrow> u8 \<Rightarrow> 'd gfx \<Rightarrow> 'd gfx option" where
  "char_column c x y color bg sz i [] line g = Some g"
| "char_column c x y color bg sz i (j # js) line g =
     do { g \<leftarrow> (if and line 1 \<noteq> 0 then char_dot c x y sz i j color g
               else if bg \<noteq> color then char_dot c x y sz i j bg g
               else Some g);
          char_column c x y color bg sz i js (drop_bit 1 line) g }"

fun char_columns ::
    "'d gfx_class \<Rightarrow> int \<Rightarrow> int \<Rightarrow> u8 \<Rightarrow> u16 \<Rightarrow> u16 \<Rightarrow> int \<Rightarrow> int list \<Rightarrow> 'd gfx \<Rightarrow> 'd gfx option" where
  "char_columns c x y ch color bg sz [] g = Some g"
| "char_columns c x y ch color bg sz (i # ks) g =
     do { g \<leftarrow> char_column c x y color bg sz i [0..7]
                 (if i < 5 then font ! (unat ch * 5 + nat i) else 0) g;
          char_columns c x y ch color bg sz ks g }"

definition classic_char :: "'d gfx_class \<Rightarrow> int \<Rightarrow> int \<Rightarrow> u8 \<Rightarrow> u16 \<Rightarrow> u16 \<Rightarrow> int \<Rightarrow> 'd gfx \<Rightarrow> 'd gfx option" where
  "classic_char c x y ch color bg sz g =
     (if x \<ge> width g \<or> y \<ge> height g \<or> x + 6 * sz - 1 < 0 \<or> y + 8 * sz - 1 < 0 then Some g
      else (let ch = (if \<not> use_cp437 g \<and> ch \<ge> 176 then ch + 1 else ch)
            in char_columns c x y ch color bg sz [0..5] g))"

text \<open>The dots of a glyph of a custom font, in rows: \<open>bi\<close> counts them, \<open>bo\<close> is the next byte.\<close>

fun glyph_dots ::
    "'d gfx_class \<Rightarrow> int \<Rightarrow> int \<Rightarrow> u16 \<Rightarrow> int \<Rightarrow> u8 list \<Rightarrow> int \<Rightarrow> int \<Rightarrow> (int \<times> int) list \<Rightarrow> u8 \<Rightarrow> u8 \<Rightarrow> u16
     \<Rightarrow> 'd gfx \<Rightarrow> 'd gfx option" where
  "glyph_dots c x y color sz bm xo yo [] bi bits bo g = Some g"
| "glyph_dots c x y color sz bm xo yo ((yy, xx) # ps) bi bits bo g =
     do { (bits, bo) \<leftarrow> (if and bi 7 = 0
                        then if unat bo < length bm then Some (bm ! unat bo, bo + 1) else None
                        else Some (bits, bo));
          g \<leftarrow> (if and bits 0x80 \<noteq> 0 then char_dot c x y sz (xo + xx) (yo + yy) color g else Some g);
          glyph_dots c x y color sz bm xo yo ps (bi + 1) (push_bit 1 bits) bo g }"

definition glyph_cells :: "u8 \<Rightarrow> u8 \<Rightarrow> (int \<times> int) list" where
  "glyph_cells w h = List.product [0..uint h - 1] [0..uint w - 1]"

definition get_glyph :: "GFXfont \<Rightarrow> u8 \<Rightarrow> GFXglyph option" where
  "get_glyph f ch = (if unat (ch - first f) < length (glyph f) then Some (glyph f ! unat (ch - first f)) else None)"

definition custom_char :: "GFXfont \<Rightarrow> 'd gfx_class \<Rightarrow> int \<Rightarrow> int \<Rightarrow> u8 \<Rightarrow> u16 \<Rightarrow> int \<Rightarrow> 'd gfx \<Rightarrow> 'd gfx option" where
  "custom_char f c x y ch color sz g =
     do { gl \<leftarrow> get_glyph f ch;
          glyph_dots c x y color sz (bitmap f) (sint (xOffset gl)) (sint (yOffset gl))
            (glyph_cells (glyph_width gl) (glyph_height gl)) 0 0 (bitmapOffset gl) g }"

definition drawChar :: "'d gfx_class \<Rightarrow> int \<Rightarrow> int \<Rightarrow> u8 \<Rightarrow> u16 \<Rightarrow> u16 \<Rightarrow> int \<Rightarrow> 'd gfx \<Rightarrow> 'd gfx option" where
  "drawChar c x y ch color bg sz g =
     (case gfxFont g of None \<Rightarrow> classic_char c x y ch color bg sz g
      | Some f \<Rightarrow> custom_char f c x y ch color sz g)"

section \<open>Writing at the cursor\<close>

definition next_line :: "int \<Rightarrow> 'd gfx \<Rightarrow> 'd gfx" where
  "next_line advance g = g\<lparr>cursor_x := 0, cursor_y := s16 (cursor_y g + advance)\<rparr>"

definition draw_at_cursor :: "'d gfx_class \<Rightarrow> u8 \<Rightarrow> 'd gfx \<Rightarrow> 'd gfx option" where
  "draw_at_cursor c ch g =
     drawChar c (cursor_x g) (cursor_y g) ch (textcolor g) (textbgcolor g) (textsize g) g"

definition gfx_write :: "'d gfx_class \<Rightarrow> u8 \<Rightarrow> 'd gfx \<Rightarrow> (nat \<times> 'd gfx) option" where
  "gfx_write c ch g =
     do { g \<leftarrow> (case gfxFont g of
                 None \<Rightarrow>
                   if ch = 10 then Some (next_line (textsize g * 8) g)
                   else if ch = 13 then Some g
                   else (let g = (if wrap g \<and> cursor_x g + textsize g * 6 \<ge> width g
                                  then next_line (textsize g * 8) g else g)
                         in do { g \<leftarrow> draw_at_cursor c ch g;
                                 Some (g\<lparr>cursor_x := s16 (cursor_x g + textsize g * 6)\<rparr>) })
               | Some f \<Rightarrow>
                   if ch = 10 then Some (next_line (textsize g * uint (yAdvance f)) g)
                   else if ch \<noteq> 13 \<and> ch \<ge> first f \<and> ch \<le> last_char f
                   then do { gl \<leftarrow> get_glyph f ch;
                             g \<leftarrow> (if glyph_width gl > 0 \<and> glyph_height gl > 0
                                  then (let g = (if wrap g \<and> cursor_x g + textsize g *
                                                     (sint (xOffset gl) + uint (glyph_width gl)) \<ge> width g
                                                 then next_line (textsize g * uint (yAdvance f)) g else g)
                                        in draw_at_cursor c ch g)
                                  else Some g);
                             Some (g\<lparr>cursor_x := s16 (cursor_x g + uint (xAdvance gl) * textsize g)\<rparr>) }
                   else Some g);
          Some (1, g) }"

definition gfx_print :: "'d gfx_class \<Rightarrow> string \<Rightarrow> 'd gfx \<Rightarrow> 'd gfx option" where
  "gfx_print c str g = map_option snd (print_string (gfx_write c) str g)"

section \<open>The bounds of a text\<close>

text \<open>One character with the built-in font: \<open>x\<close> moves only when the line wraps.\<close>

definition classic_step ::
    "bool \<Rightarrow> int \<Rightarrow> int \<Rightarrow> u8 \<Rightarrow> int \<times> int \<times> u16 \<times> u16 \<Rightarrow> int \<times> int \<times> u16 \<times> u16" where
  "classic_step wr ts wd ch = (\<lambda>(x, y, lineWidth, maxWidth).
     (if ch \<noteq> 10
      then (if ch \<noteq> 13
            then (if wr \<and> x + ts * 6 \<ge> wd
                  then (0, s16 (y + ts * 8), of_int (ts * 6), if lineWidth > maxWidth then lineWidth else maxWidth)
                  else (x, y, lineWidth + of_int (ts * 6), maxWidth))
            else (x, y, lineWidth, maxWidth))
      else (0, s16 (y + ts * 8), 0, if lineWidth > maxWidth then lineWidth else maxWidth)))"

text \<open>One character with a custom font: the corners found so far.\<close>

definition custom_step ::
    "GFXfont \<Rightarrow> bool \<Rightarrow> int \<Rightarrow> int \<Rightarrow> u8 \<Rightarrow> int \<times> int \<times> int \<times> int \<times> int \<times> int
     \<Rightarrow> (int \<times> int \<times> int \<times> int \<times> int \<times> int) option" where
  "custom_step f wr ts wd ch = (\<lambda>(x, y, minx, miny, maxx, maxy).
     (let ya = s16 (ts * uint (yAdvance f))
      in if ch \<noteq> 10
         then (if ch \<noteq> 13 \<and> ch \<ge> first f \<and> ch \<le> last_char f
               then do { gl \<leftarrow> get_glyph f ch;
                         let xo = sint (xOffset gl); yo = sint (yOffset gl);
                             gw = uint (glyph_width gl); gh = uint (glyph_height gl);
                             (x, y) = (if wr \<and> x + (xo + gw) * ts \<ge> wd then (0, s16 (y + ya)) else (x, y));
                             gx1 = s16 (x + xo * ts); gy1 = s16 (y + yo * ts);
                             gx2 = s16 (gx1 + gw * ts - 1); gy2 = s16 (gy1 + gh * ts - 1)
                         in Some (s16 (x + uint (xAdvance gl) * ts), y, min minx gx1, min miny gy1,
                                  max maxx gx2, max maxy gy2) }
               else Some (x, y, minx, miny, maxx, maxy))
         else Some (0, s16 (y + ya), minx, miny, maxx, maxy)))"

fun custom_steps ::
    "GFXfont \<Rightarrow> bool \<Rightarrow> int \<Rightarrow> int \<Rightarrow> u8 list \<Rightarrow> int \<times> int \<times> int \<times> int \<times> int \<times> int
     \<Rightarrow> (int \<times> int \<times> int \<times> int \<times> int \<times> int) option" where
  "custom_steps f wr ts wd [] st = Some st"
| "custom_steps f wr ts wd (ch # chs) st =
     do { st \<leftarrow> custom_step f wr ts wd ch st; custom_steps f wr ts wd chs st }"

text \<open>The upper left corner, the width and the height.\<close>

definition getTextBounds :: "u8 list \<Rightarrow> int \<Rightarrow> int \<Rightarrow> 'd gfx \<Rightarrow> (int \<times> int \<times> u16 \<times> u16) option" where
  "getTextBounds str x y g =
     (let str = takeWhile (\<lambda>b. b \<noteq> 0) str; ts = textsize g
      in case gfxFont g of
           Some f \<Rightarrow>
             do { (_, _, minx, miny, maxx, maxy) \<leftarrow>
                    custom_steps f (wrap g) ts (width g) str (x, y, width g, height g, - 1, - 1);
                  Some (minx, miny, if maxx \<ge> minx then of_int (maxx - minx + 1) else 0,
                        if maxy \<ge> miny then of_int (maxy - miny + 1) else 0) }
         | None \<Rightarrow>
             (let (_, y2, lineWidth, maxWidth) = fold (classic_step (wrap g) ts (width g)) str (x, y, 0, 0);
                  y2 = (if lineWidth \<noteq> 0 then s16 (y2 + ts * 8) else y2)
              in Some (x, y, maxWidth - 1, of_int (y2 - y))))"

text \<open>The same for a text in flash memory.\<close>

definition getTextBounds_flash :: "u8 list \<Rightarrow> int \<Rightarrow> int \<Rightarrow> 'd gfx \<Rightarrow> (int \<times> int \<times> u16 \<times> u16) option" where
  "getTextBounds_flash str x y g = getTextBounds str x y g"

section \<open>The button\<close>

record Button =
  b_x :: int
  b_y :: int
  b_w :: int
  b_h :: int
  b_textsize :: u8
  b_outlinecolor :: u16
  b_fillcolor :: u16
  b_textcolor :: u16
  b_label :: string
  currstate :: bool
  laststate :: bool

definition initButton ::
    "int \<Rightarrow> int \<Rightarrow> u8 \<Rightarrow> u8 \<Rightarrow> u16 \<Rightarrow> u16 \<Rightarrow> u16 \<Rightarrow> string \<Rightarrow> u8 \<Rightarrow> Button \<Rightarrow> Button" where
  "initButton x y w h outline fill txt lab ts b =
     b\<lparr>b_x := x, b_y := y, b_w := uint w, b_h := uint h, b_outlinecolor := outline, b_fillcolor := fill,
       b_textcolor := txt, b_textsize := ts, b_label := take 9 (takeWhile (\<lambda>ch. ch \<noteq> NUL) lab)\<rparr>"

definition drawButton :: "'d gfx_class \<Rightarrow> Button \<Rightarrow> bool \<Rightarrow> 'd gfx \<Rightarrow> 'd gfx option" where
  "drawButton c b inverted g =
     (let (fill, outline, txt) =
            (if \<not> inverted then (b_fillcolor b, b_outlinecolor b, b_textcolor b)
             else (b_textcolor b, b_outlinecolor b, b_fillcolor b));
          x = s16 (b_x b - b_w b div 2); y = s16 (b_y b - b_h b div 2);
          r = min (b_w b) (b_h b) div 4; ts = uint (b_textsize b)
      in do { g \<leftarrow> fillRoundRect c x y (s16 (b_w b)) (s16 (b_h b)) r fill g;
              g \<leftarrow> drawRoundRect c x y (s16 (b_w b)) (s16 (b_h b)) r outline g;
              let g = setCursor (s16 (b_x b - int (length (b_label b)) * 3 * ts)) (s16 (b_y b - 4 * ts)) g;
                  g = setTextColor txt g;
                  g = setTextSize (b_textsize b) g
              in gfx_print c (b_label b) g })"

definition button_contains :: "int \<Rightarrow> int \<Rightarrow> Button \<Rightarrow> bool" where
  "button_contains x y b =
     (if x < b_x b - b_w b div 2 \<or> x > b_x b + b_w b div 2 then False
      else if y < b_y b - b_h b div 2 \<or> y > b_y b + b_h b div 2 then False
      else True)"

definition press :: "bool \<Rightarrow> Button \<Rightarrow> Button" where
  "press p b = b\<lparr>laststate := currstate b, currstate := p\<rparr>"

definition isPressed :: "Button \<Rightarrow> bool" where "isPressed b = currstate b"
definition justPressed :: "Button \<Rightarrow> bool" where "justPressed b \<longleftrightarrow> currstate b \<and> \<not> laststate b"
definition justReleased :: "Button \<Rightarrow> bool" where "justReleased b \<longleftrightarrow> \<not> currstate b \<and> laststate b"

section \<open>Properties\<close>

lemma classic_steps_one_line:
  "10 \<notin> set str \<Longrightarrow> x + ts * 6 < wd \<Longrightarrow>
   \<exists>lw'. fold (classic_step wr ts wd) str (x, y, lw, mw) = (x, y, lw', mw)"
proof (induction str arbitrary: lw)
  case (Cons ch str)
  then have "\<exists>lw1. classic_step wr ts wd ch (x, y, lw, mw) = (x, y, lw1, mw)" by (auto simp: classic_step_def)
  then show ?case using Cons by auto
qed simp

text \<open>With the built-in font, \<open>getTextBounds\<close> forgets the width of the last line: a text
  of one line that starts on the screen is said to be 65535 pixels wide, whatever its length. (The widest line so far
  is only updated at a line break, and one is taken off it at the end; \<open>x\<close> does not move, so that a
  long text is not wrapped either.)\<close>

theorem text_bounds_one_line:
  assumes "gfxFont g = None" "10 \<notin> set str" "x + textsize g * 6 < width g"
  shows "\<exists>h. getTextBounds str x y g = Some (x, y, 0xFFFF, h)"
proof -
  let ?str = "takeWhile (\<lambda>b. b \<noteq> 0) str"
  have "10 \<notin> set ?str" using assms(2) by (auto dest: set_takeWhileD)
  then obtain lw where "fold (classic_step (wrap g) (textsize g) (width g)) ?str (x, y, 0, 0) = (x, y, lw, 0)"
    using classic_steps_one_line [OF _ assms(3)] by blast
  then show ?thesis by (simp add: getTextBounds_def assms(1) Let_def)
qed

theorem text_bounds_one_line_witness:
  "\<exists>h. getTextBounds (char_bytes ''72'') 20 40 (new_gfx 240 320 ()) = Some (20, 40, 0xFFFF, h)"
  by (rule text_bounds_one_line) (simp_all add: new_gfx_def char_bytes_def)

end
