(* ===== verification/GfxShapes.thy ===== *)
theory GfxShapes
  imports Gfx
begin

text \<open>
  What the shapes of the drawing library look like: lines and circles as the sequence of the
  pixels they set, each the nearest to the ideal curve, for coordinates whose differences fit in
  16 bits.
\<close>

section \<open>Lines\<close>

definition line_row :: "int \<Rightarrow> int \<Rightarrow> int \<Rightarrow> int" where
  "line_row dx dy i = (i * dy + (dx - 1) div 2) div dx"

definition line_err :: "int \<Rightarrow> int \<Rightarrow> int \<Rightarrow> int" where
  "line_err dx dy i = dx div 2 - i * dy + line_row dx dy i * dx"

lemma line_err_range:
  assumes "0 < dx"
  shows "0 \<le> line_err dx dy i" "line_err dx dy i < dx"
proof -
  let ?n = "i * dy + (dx - 1) div 2"
  have "?n = ?n div dx * dx + ?n mod dx" by (rule div_mult_mod_eq [symmetric])
  moreover have "dx div 2 + (dx - 1) div 2 = dx - 1" by presburger
  ultimately have "line_err dx dy i = dx - 1 - ?n mod dx" unfolding line_err_def line_row_def by linarith
  then show "0 \<le> line_err dx dy i" "line_err dx dy i < dx"
    using assms pos_mod_sign [OF assms, of ?n] pos_mod_bound [OF assms, of ?n] by linarith+
qed

text \<open>The row is determined by the range of the error.\<close>

lemma line_row_unique:
  assumes "0 \<le> dx div 2 - i * dy + k * dx" "dx div 2 - i * dy + k * dx < dx"
  shows "line_row dx dy i = k"
proof -
  have dx: "dx div 2 + (dx - 1) div 2 = dx - 1" by presburger
  have "i * dy + (dx - 1) div 2 = k * dx + (dx - 1 - (dx div 2 - i * dy + k * dx))" using dx by linarith
  moreover have "0 < dx" using assms by linarith
  ultimately show ?thesis
    unfolding line_row_def using assms
    by (intro int_div_pos_eq [where r = "dx - 1 - (dx div 2 - i * dy + k * dx)"]) (auto simp: mult.commute)
qed

lemma line_row_step:
  assumes "0 < dx" "0 \<le> dy" "dy \<le> dx"
  shows "line_row dx dy (i + 1) = (if line_err dx dy i - dy < 0 then line_row dx dy i + 1 else line_row dx dy i)"
    "line_err dx dy (i + 1) =
       (if line_err dx dy i - dy < 0 then line_err dx dy i - dy + dx else line_err dx dy i - dy)"
proof -
  note r = line_err_range [OF assms(1), of dy i]
  show row: "line_row dx dy (i + 1) = (if line_err dx dy i - dy < 0 then line_row dx dy i + 1 else line_row dx dy i)"
    by (rule line_row_unique) (use r assms in \<open>auto simp: line_err_def algebra_simps\<close>)
  show "line_err dx dy (i + 1) =
      (if line_err dx dy i - dy < 0 then line_err dx dy i - dy + dx else line_err dx dy i - dy)"
    by (simp add: line_err_def [of dx dy "i + 1"] row) (simp add: line_err_def algebra_simps)
qed

lemma line_row_mono:
  assumes "0 \<le> dy" "0 \<le> dx" "i \<le> j"
  shows "line_row dx dy i \<le> line_row dx dy j"
  unfolding line_row_def
  by (cases "dx = 0") (use assms in \<open>auto intro!: zdiv_mono1 mult_right_mono\<close>)

lemma line_row_ends:
  assumes "0 \<le> dy" "dy \<le> dx"
  shows "line_row dx dy 0 = 0" "line_row dx dy dx = dy" "line_err dx dy 0 = dx div 2"
proof -
  show z: "line_row dx dy 0 = 0" using assms by (cases "dx = 0") (auto simp: line_row_def intro!: div_pos_pos_trivial)
  show "line_err dx dy 0 = dx div 2" by (simp add: line_err_def z)
  show "line_row dx dy dx = dy"
  proof (cases "dx = 0")
    case False
    then have "(dx - 1) div 2 div dx = 0" using assms by (intro div_pos_pos_trivial) auto
    then show ?thesis using False by (simp add: line_row_def)
  qed (use assms in \<open>simp add: line_row_def\<close>)
qed

text \<open>A step of the loop in all cases, a single point included.\<close>

lemma line_step:
  assumes "0 \<le> dy" "dy \<le> dx"
  shows "line_row dx dy (i + 1) = (if line_err dx dy i - dy < 0 then line_row dx dy i + 1 else line_row dx dy i)"
    "line_err dx dy (i + 1) =
       (if line_err dx dy i - dy < 0 then line_err dx dy i - dy + dx else line_err dx dy i - dy)"
    "0 \<le> line_err dx dy i" "line_err dx dy i \<le> dx"
proof -
  have "line_row 0 0 j = 0" "line_err 0 0 j = 0" for j by (simp_all add: line_row_def line_err_def)
  moreover have "dx = 0 \<Longrightarrow> dy = 0" using assms by simp
  moreover have "dx \<noteq> 0 \<Longrightarrow> 0 < dx" using assms by simp
  ultimately show "line_row dx dy (i + 1) = (if line_err dx dy i - dy < 0 then line_row dx dy i + 1 else line_row dx dy i)"
    "line_err dx dy (i + 1) = (if line_err dx dy i - dy < 0 then line_err dx dy i - dy + dx else line_err dx dy i - dy)"
    "0 \<le> line_err dx dy i" "line_err dx dy i \<le> dx"
    using line_row_step [of dx dy i, OF _ assms] line_err_range [of dx dy i]
    by (cases "dx = 0"; simp only: less_imp_le simp_thms if_True if_False diff_self less_irrefl order_refl; simp)+
qed

text \<open>The point of column \<open>i\<close>.\<close>

definition line_point :: "bool \<Rightarrow> int \<Rightarrow> int \<Rightarrow> int \<Rightarrow> int \<Rightarrow> int \<Rightarrow> int \<Rightarrow> int \<times> int" where
  "line_point steep x y ystep dx dy i =
     (if steep then (y + ystep * line_row dx dy i, x + i) else (x + i, y + ystep * line_row dx dy i))"

definition near :: "int \<Rightarrow> bool" where
  "near v \<longleftrightarrow> \<bar>v\<bar> \<le> 16383"

lemma near_range: "near v \<Longrightarrow> int16_range v" "near v \<Longrightarrow> near w \<Longrightarrow> int16_range (v - w)"
  "near v \<Longrightarrow> near w \<Longrightarrow> int16_range (v + w)" "near v \<Longrightarrow> int16_range (v + 1)"
  by (auto simp: near_def int16_range_def)

lemma near_between: "near a \<Longrightarrow> near b \<Longrightarrow> a \<le> v \<and> v \<le> b \<or> b \<le> v \<and> v \<le> a \<Longrightarrow> near v"
  by (auto simp: near_def)

lemma line_loop_points:
  assumes "0 \<le> dy" "dy \<le> dx" "ystep = 1 \<or> ystep = - 1" "near x" "near (x + dx)" "near y" "near (y + ystep * dy)"
    and "0 \<le> i" "i \<le> dx + 1"
  shows "line_loop c steep (x + dx) dx dy ystep color (x + i) (y + ystep * line_row dx dy i) (line_err dx dy i) g =
    draw_points c color (map (line_point steep x y ystep dx dy) [i..dx]) g"
  using assms(8,9)
proof (induction "nat (dx + 1 - i)" arbitrary: i g)
  case 0
  then show ?case by (subst line_loop.simps) simp
next
  case (Suc n)
  let ?y = "y + ystep * line_row dx dy i" and ?e = "line_err dx dy i - dy"
  have i: "i \<le> dx" using Suc(2) by linarith
  note row = line_row_mono [of dy dx 0 i] line_row_mono [of dy dx i dx] line_row_ends [OF assms(1,2)]
  have k: "0 \<le> line_row dx dy i" "line_row dx dy i \<le> dy" using row assms(1,2) i Suc.prems by auto
  have nx: "near (x + i)" by (rule near_between [OF assms(4,5)]) (use i Suc.prems in auto)
  have ny: "near ?y" by (rule near_between [OF assms(6,7)]) (use k assms(3) in auto)
  have dx: "dx \<le> 32766" "dy \<le> 32766" using assms(2,4,5) by (auto simp: near_def)
  note step = line_step [OF assms(1,2), of i]
  have e: "int16_range ?e" "int16_range (?e + dx) \<or> \<not> ?e < 0"
    using step(3,4) dx assms(1,2) by (auto simp: int16_range_def)
  have y1: "int16_range (?y + ystep)" using ny assms(3) by (auto simp: near_def int16_range_def)
  have IH: "line_loop c steep (x + dx) dx dy ystep color (x + (i + 1)) (y + ystep * line_row dx dy (i + 1))
      (line_err dx dy (i + 1)) g' =
    draw_points c color (map (line_point steep x y ystep dx dy) [i + 1..dx]) g'" for g'
    using Suc i by (intro Suc(1)) linarith+
  have x1: "s16 (x + i + 1) = x + (i + 1)" using near_range(4) [OF nx] by (simp add: add.assoc)
  have y1: "(if ?e < 0 then s16 (?y + ystep) else ?y) = y + ystep * line_row dx dy (i + 1)"
    unfolding step(1) using y1 by (simp add: distrib_left)
  have e1: "(if ?e < 0 then s16 (?e + dx) else ?e) = line_err dx dy (i + 1)"
    unfolding step(2) using e(2) by auto
  have "[i..dx] = i # [i + 1..dx]" using i by (simp add: upto_rec1)
  then show ?case
    unfolding line_loop.simps [of c steep "x + dx" dx dy ystep color "x + i"]
    using i near_range(1) [OF nx] near_range(1) [OF ny] e(1) x1 y1 e1
    by (simp add: line_point_def Let_def case_prod_beta IH if_distrib [of fst] if_distrib [of snd] cong: if_cong)
qed

definition line_points :: "int \<Rightarrow> int \<Rightarrow> int \<Rightarrow> int \<Rightarrow> (int \<times> int) list" where
  "line_points x0 y0 x1 y1 =
     (let steep = \<bar>y1 - y0\<bar> > \<bar>x1 - x0\<bar>;
          (x0, y0, x1, y1) = (if steep then (y0, x0, y1, x1) else (x0, y0, x1, y1));
          (x0, y0, x1, y1) = (if x0 > x1 then (x1, y1, x0, y0) else (x0, y0, x1, y1))
      in map (line_point steep x0 y0 (if y0 < y1 then 1 else - 1) (x1 - x0) \<bar>y1 - y0\<bar>) [0..x1 - x0])"

lemma half_of: "0 \<le> d \<Longrightarrow> d sdiv 2 = d div (2 :: int)"
  by (cases "d = 0") (simp_all add: signed_divide_int_def)

text \<open>The run from left to right, once the ends are in order.\<close>

lemma line_run:
  assumes "near x0" "near y0" "near x1" "near y1" "x0 \<le> x1" "\<bar>y1 - y0\<bar> \<le> x1 - x0"
  shows "line_loop c steep x1 (s16 (x1 - x0)) (s16 \<bar>y1 - y0\<bar>) (if y0 < y1 then 1 else - 1) color x0 y0
      (s16 (x1 - x0) sdiv 2) g =
    draw_points c color (map (line_point steep x0 y0 (if y0 < y1 then 1 else - 1) (x1 - x0) \<bar>y1 - y0\<bar>) [0..x1 - x0]) g"
proof -
  let ?s = "if y0 < y1 then 1 else - 1 :: int"
  have y: "y0 + ?s * \<bar>y1 - y0\<bar> = y1" by auto
  have sx: "s16 (x1 - x0) = x1 - x0" using near_range(2) [OF assms(3,1)] by simp
  have sy: "s16 \<bar>y1 - y0\<bar> = \<bar>y1 - y0\<bar>" using assms(2,4) by (intro s16_id) (auto simp: near_def int16_range_def)
  have h: "(x1 - x0) sdiv 2 = (x1 - x0) div 2" using assms(5) by (simp add: half_of)
  have x: "x0 + (x1 - x0) = x1" "x0 + 0 = x0" by simp_all
  note ends = line_row_ends [OF abs_ge_zero assms(6)]
  have "y0 + ?s * line_row (x1 - x0) \<bar>y1 - y0\<bar> 0 = y0" using ends by simp
  then show ?thesis
    unfolding h sx sy
    using line_loop_points [of "\<bar>y1 - y0\<bar>" "x1 - x0" ?s x0 y0 0 c steep color g, unfolded x y ends] assms
    by (cases "y0 < y1") simp_all
qed

lemma drawLine_points:
  assumes "near x0" "near y0" "near x1" "near y1"
  shows "drawLine c x0 y0 x1 y1 color g = draw_points c color (line_points x0 y0 x1 y1) g"
proof (cases "\<bar>y1 - y0\<bar> > \<bar>x1 - x0\<bar>")
  case True
  then show ?thesis
    using line_run [OF assms(2,1,4,3), of c True color g] line_run [OF assms(4,3,2,1), of c True color g]
    unfolding drawLine_def line_points_def by (cases "y0 > y1") (simp_all add: abs_minus_commute)
next
  case False
  then show ?thesis
    using line_run [OF assms, of c False color g] line_run [OF assms(3,4,1,2), of c False color g]
    unfolding drawLine_def line_points_def by (cases "x0 > x1") (simp_all add: abs_minus_commute)
qed

lemma line_point_near:
  assumes "0 \<le> dy" "dy \<le> dx" "s = 1 \<or> s = - 1"
  shows "2 * \<bar>i * (s * dy) - s * line_row dx dy i * dx\<bar> \<le> dx"
proof -
  have "\<bar>i * (s * dy) - s * line_row dx dy i * dx\<bar> = \<bar>i * dy - line_row dx dy i * dx\<bar>"
    using assms(3) by (auto simp: algebra_simps abs_minus_commute)
  moreover have "dx div 2 - i * dy + line_row dx dy i * dx = line_err dx dy i" by (simp add: line_err_def)
  moreover have "0 \<le> line_err dx dy i \<and> (line_err dx dy i < dx \<or> dx = 0 \<and> line_err dx dy i = 0)"
    using line_err_range [of dx dy i] assms by (cases "dx = 0") (auto simp: line_err_def line_row_def)
  moreover have "h = dx div 2 \<Longrightarrow> h - A + B = e \<Longrightarrow> 0 \<le> e \<and> (e < dx \<or> dx = 0 \<and> e = 0) \<Longrightarrow> 2 * \<bar>A - B\<bar> \<le> dx"
    for h A B e :: int by presburger
  ultimately show ?thesis by metis
qed

text \<open>The distance of a point from a line, times the length of the line.\<close>

definition off_line :: "int \<Rightarrow> int \<Rightarrow> int \<Rightarrow> int \<Rightarrow> int \<times> int \<Rightarrow> int" where
  "off_line x0 y0 x1 y1 p = \<bar>(fst p - x0) * (y1 - y0) - (snd p - y0) * (x1 - x0)\<bar>"

lemma off_line_turn:
  "off_line x1 y1 x0 y0 p = off_line x0 y0 x1 y1 p"
  "off_line y0 x0 y1 x1 (prod.swap p) = off_line x0 y0 x1 y1 p"
proof -
  have "(fst p - x1) * (y0 - y1) - (snd p - y1) * (x0 - x1) = - ((fst p - x0) * (y1 - y0) - (snd p - y0) * (x1 - x0))"
    by algebra
  then show "off_line x1 y1 x0 y0 p = off_line x0 y0 x1 y1 p" by (simp add: off_line_def)
qed (simp add: off_line_def abs_minus_commute)

text \<open>A list of points that runs along a line: one for each step of the longer direction.\<close>

definition follows_line :: "int \<Rightarrow> int \<Rightarrow> int \<Rightarrow> int \<Rightarrow> (int \<times> int) list \<Rightarrow> bool" where
  "follows_line x0 y0 x1 y1 ps \<longleftrightarrow>
     length ps = nat (max \<bar>x1 - x0\<bar> \<bar>y1 - y0\<bar>) + 1 \<and>
     distinct (map (if \<bar>y1 - y0\<bar> > \<bar>x1 - x0\<bar> then snd else fst) ps) \<and>
     (x0, y0) \<in> set ps \<and> (x1, y1) \<in> set ps \<and>
     list_all (\<lambda>p. 2 * off_line x0 y0 x1 y1 p \<le> max \<bar>x1 - x0\<bar> \<bar>y1 - y0\<bar>) ps"

lemma follows_line_turn: "follows_line x1 y1 x0 y0 ps = follows_line x0 y0 x1 y1 ps"
  by (auto simp: follows_line_def off_line_turn(1) abs_minus_commute)

lemma follows_line_swap:
  assumes "follows_line y0 x0 y1 x1 ps" "\<bar>y1 - y0\<bar> > \<bar>x1 - x0\<bar>"
  shows "follows_line x0 y0 x1 y1 (map prod.swap ps)"
proof -
  have "off_line x0 y0 x1 y1 (prod.swap p) = off_line y0 x0 y1 x1 p" for p
    by (rule off_line_turn(2))
  moreover have "snd \<circ> prod.swap = (fst :: int \<times> int \<Rightarrow> int)" by (simp add: fun_eq_iff)
  moreover have "(y, x) \<in> set ps \<Longrightarrow> (x, y) \<in> set (map prod.swap ps)" for x y
    using image_eqI [of "(x, y)" prod.swap "(y, x)" "set ps"] by simp
  ultimately show ?thesis using assms
    by (simp add: follows_line_def list_all_iff max.commute)
qed

lemma sorted_line_follows:
  assumes "x0 \<le> x1" "\<bar>y1 - y0\<bar> \<le> x1 - x0"
  shows "follows_line x0 y0 x1 y1
    (map (line_point False x0 y0 (if y0 < y1 then 1 else - 1) (x1 - x0) \<bar>y1 - y0\<bar>) [0..x1 - x0])"
proof -
  let ?s = "if y0 < y1 then 1 else - 1 :: int" and ?dx = "x1 - x0" and ?dy = "\<bar>y1 - y0\<bar>"
  let ?f = "line_point False x0 y0 ?s ?dx ?dy"
  have s: "?s * ?dy = y1 - y0" by auto
  have max: "max \<bar>?dx\<bar> ?dy = ?dx" using assms by simp
  note ends = line_row_ends [OF abs_ge_zero assms(2)]
  have "?f 0 = (x0, y0)" "?f ?dx = (x1, y1)" using s ends by (auto simp: line_point_def)
  then have "(x0, y0) \<in> ?f ` {0..?dx}" "(x1, y1) \<in> ?f ` {0..?dx}"
    using assms(1) by (metis (no_types) atLeastAtMost_iff diff_ge_0_iff_ge image_eqI order_refl)+
  moreover have "map fst (map ?f [0..?dx]) = map (\<lambda>i. x0 + i) [0..?dx]" by (simp add: line_point_def)
  then have "distinct (map fst (map ?f [0..?dx]))" by (simp add: distinct_map inj_on_def)
  moreover have "2 * off_line x0 y0 x1 y1 (?f i) \<le> ?dx" for i
    using line_point_near [OF abs_ge_zero assms(2), of ?s i]
    by (simp add: off_line_def line_point_def s)
  ultimately show ?thesis
    unfolding follows_line_def max using assms by (auto simp: list_all_iff)
qed

lemma line_point_swap: "line_point True x y s dx dy = (\<lambda>i. prod.swap (line_point False x y s dx dy i))"
  by (simp add: line_point_def fun_eq_iff)

lemma line_points_follow: "follows_line x0 y0 x1 y1 (line_points x0 y0 x1 y1)"
proof (cases "\<bar>y1 - y0\<bar> > \<bar>x1 - x0\<bar>")
  case True
  then have "follows_line x0 y0 x1 y1 (map prod.swap (if y0 > y1
      then map (line_point False y1 x1 (if x1 < x0 then 1 else - 1) (y0 - y1) \<bar>x0 - x1\<bar>) [0..y0 - y1]
      else map (line_point False y0 x0 (if x0 < x1 then 1 else - 1) (y1 - y0) \<bar>x1 - x0\<bar>) [0..y1 - y0]))"
    using sorted_line_follows [of y0 y1 x1 x0] sorted_line_follows [of y1 y0 x0 x1]
    by (intro follows_line_swap) (auto simp: follows_line_turn [of y1 x1] abs_minus_commute)
  then show ?thesis using True
    by (cases "y0 > y1") (simp_all add: line_points_def line_point_swap o_def)
next
  case False
  then show ?thesis
    using sorted_line_follows [of x0 x1 y1 y0] sorted_line_follows [of x1 x0 y0 y1]
    by (cases "x0 > x1") (simp_all add: line_points_def follows_line_turn [of x1 y1] abs_minus_commute)
qed

text \<open>C24: Bresenham's algorithm: for coordinates of at most 16383 in size, a line sets one pixel
  for each step of the longer direction, both ends among them, and each lies within half a
  pixel of the ideal line. It uses additions on 16-bit counters only.\<close>

theorem drawLine_nearest:
  assumes "\<bar>x0\<bar> \<le> 16383" "\<bar>y0\<bar> \<le> 16383" "\<bar>x1\<bar> \<le> 16383" "\<bar>y1\<bar> \<le> 16383"
  shows "\<exists>ps. drawLine c x0 y0 x1 y1 color g = draw_points c color ps g \<and> follows_line x0 y0 x1 y1 ps"
  using drawLine_points [of x0 y0 x1 y1 c color g] line_points_follow assms by (auto simp: near_def)

definition recorder :: "(int \<times> int \<times> u16) list gfx_class" where
  "recorder = \<lparr>drawPixel = (\<lambda>x y col g. Some (g\<lparr>dev := dev g @ [(x, y, col)]\<rparr>)),
     drawFastVLine = (\<lambda>_ _ _ _ g. Some g), drawFastHLine = (\<lambda>_ _ _ _ g. Some g),
     fillRect = (\<lambda>_ _ _ _ _ g. Some g), fillScreen = (\<lambda>_ g. Some g)\<rparr>"

theorem drawLine_nearest_witness:
  "\<exists>ps. drawLine (drawPixel recorder) 7 1 0 (- 3) 5 (new_gfx 8 8 []) = draw_points (drawPixel recorder) 5 ps (new_gfx 8 8 []) \<and>
     follows_line 7 1 0 (- 3) ps"
  using drawLine_nearest [of 7 1 0 "- 3" "drawPixel recorder" 5 "new_gfx 8 8 []"] by simp

section \<open>Rectangles\<close>

lemma draw_points_append:
  "draw_points c color (ps @ qs) g = draw_points c color ps g \<bind> draw_points c color qs"
  by (induction ps arbitrary: g) (auto split: bind_splits)

lemma level_row: "0 \<le> d \<Longrightarrow> line_row d 0 i = 0"
  by (cases "d = 0") (auto simp: line_row_def intro!: div_pos_pos_trivial)

text \<open>The vertical and horizontal lines of the base class. A line of length 0 is not empty: it
  sets two pixels.\<close>

lemma gfx_vline_points:
  assumes "near x" "near y" "near (y + h - 1)"
  shows "gfx_drawFastVLine c x y h color g =
    draw_points c color (map (Pair x) (if 1 \<le> h then [y..y + h - 1] else [y + h - 1..y])) g"
proof -
  have r: "s16 (y + h - 1) = y + h - 1" using near_range(1) [OF assms(3)] by simp
  have "map (\<lambda>i. (x, a + i)) [0..n] = map (Pair x) [a..a + n]" for a n
    by (rule nth_equalityI) (simp_all add: add.commute)
  then have "line_points x y x (y + h - 1) = map (Pair x) (if 1 \<le> h then [y..y + h - 1] else [y + h - 1..y])"
    by (cases "h = 1"; cases "1 \<le> h"; simp add: line_points_def line_point_def [abs_def] level_row add_diff_eq)
  then show ?thesis
    unfolding gfx_drawFastVLine_def r by (simp add: drawLine_points [OF assms(1,2,1,3)])
qed

lemma gfx_hline_points:
  assumes "near x" "near y" "near (x + w - 1)"
  shows "gfx_drawFastHLine c x y w color g =
    draw_points c color (map (\<lambda>i. (i, y)) (if 1 \<le> w then [x..x + w - 1] else [x + w - 1..x])) g"
proof -
  have r: "s16 (x + w - 1) = x + w - 1" using near_range(1) [OF assms(3)] by simp
  have "map (\<lambda>i. (a + i, y)) [0..n] = map (\<lambda>i. (i, y)) [a..a + n]" for a n
    by (rule nth_equalityI) (simp_all add: add.commute)
  then have "line_points x y (x + w - 1) y = map (\<lambda>i. (i, y)) (if 1 \<le> w then [x..x + w - 1] else [x + w - 1..x])"
    by (cases "1 \<le> w") (simp_all add: line_points_def line_point_def [abs_def] level_row add_diff_eq)
  then show ?thesis
    unfolding gfx_drawFastHLine_def r by (simp add: drawLine_points [OF assms(1,2,3,2)])
qed

definition rect_points :: "int \<Rightarrow> int \<Rightarrow> int \<Rightarrow> int \<Rightarrow> (int \<times> int) list" where
  "rect_points x y w h = concat (map (\<lambda>i. map (Pair i) [y..y + h - 1]) [x..x + w - 1])"

lemma column_loop_points:
  assumes "near y" "near (y + h - 1)" "1 \<le> h" "near x_end" "near i"
  shows "column_loop (gfx_drawFastVLine c) x_end y h color i g =
    draw_points c color (concat (map (\<lambda>i. map (Pair i) [y..y + h - 1]) [i..x_end - 1])) g"
  using assms(5)
proof (induction "nat (x_end - i)" arbitrary: i g)
  case 0
  then show ?case by (subst column_loop.simps) simp
next
  case (Suc n)
  have i: "i < x_end" using Suc(2) by linarith
  have n: "near (i + 1)" using i Suc(3) assms(4) by (auto simp: near_def)
  have "s16 (i + 1) = i + 1" using near_range(4) [OF Suc(3)] by simp
  moreover have "[i..x_end - 1] = i # [i + 1..x_end - 1]" using i by (simp add: upto_rec1)
  moreover have "column_loop (gfx_drawFastVLine c) x_end y h color (i + 1) =
      draw_points c color (concat (map (\<lambda>i. map (Pair i) [y..y + h - 1]) [i + 1..x_end - 1]))"
    using Suc(1) [of "i + 1"] Suc(2) n by (intro ext) simp
  ultimately show ?case
    using i gfx_vline_points [OF Suc(3) assms(1,2), of c color] assms(3)
    by (subst column_loop.simps) (simp add: draw_points_append)
qed

text \<open>The rectangle of the base class, with its own vertical lines.\<close>

lemma gfx_fillRect_points:
  assumes "near x" "near y" "near (x + w)" "near (y + h - 1)" "1 \<le> h"
  shows "gfx_fillRect (gfx_drawFastVLine c) x y w h color g = draw_points c color (rect_points x y w h) g"
  using column_loop_points [OF assms(2,4,5,3,1)] by (simp add: gfx_fillRect_def rect_points_def)

section \<open>Circles\<close>

text \<open>The octant from \<open>(x, y)\<close> on, without the counters of the code.\<close>

definition arc_value :: "int \<Rightarrow> int \<Rightarrow> int \<Rightarrow> int" where
  "arc_value r x y = (x + 1) * (x + 1) + y * y - y - r * r"

function arc :: "int \<Rightarrow> int \<Rightarrow> int \<Rightarrow> (int \<times> int) list" where
  "arc r x y =
     (if x < y then (let y = (if 0 \<le> arc_value r x y then y - 1 else y) in (x + 1, y) # arc r (x + 1) y) else [])"
  by pat_completeness auto
termination
  by (relation "measure (\<lambda>(r, x, y). nat (y - x))") auto

declare arc.simps [simp del] circle_loop.simps [simp del]

text \<open>\<open>m\<close> is the integer nearest to the square root of \<open>r * r - k * k\<close>, up to a tie.\<close>

definition nearest :: "int \<Rightarrow> int \<Rightarrow> int \<Rightarrow> bool" where
  "nearest r k m \<longleftrightarrow> m * m - m \<le> r * r - k * k \<and> r * r - k * k \<le> m * m + m"

definition arc_inv :: "int \<Rightarrow> int \<Rightarrow> int \<Rightarrow> bool" where
  "arc_inv r x y \<longleftrightarrow> 0 \<le> x \<and> x \<le> y + 1 \<and> 0 \<le> y \<and> y \<le> r \<and> nearest r x y \<and> (x < y \<longrightarrow> y * y - y < r * r - x * x)"

lemma arc_inv_start: "0 \<le> r \<Longrightarrow> arc_inv r 0 r"
  by (simp add: arc_inv_def nearest_def)

lemma arc_inv_step:
  assumes "arc_inv r x y" "x < y"
  shows "arc_inv r (x + 1) (if 0 \<le> arc_value r x y then y - 1 else y)"
proof -
  have y: "x + 1 \<le> y" "0 \<le> x" "y \<le> r" and lo: "y * y - y + 1 \<le> r * r - x * x" and up: "r * r - x * x \<le> y * y + y"
    using assms by (auto simp: arc_inv_def nearest_def)
  have q: "(x + 1) * (x + 1) = x * x + 2 * x + 1" "(y - 1) * (y - 1) = y * y - 2 * y + 1"
    by (simp_all add: algebra_simps)
  show ?thesis
  proof (cases "0 \<le> arc_value r x y")
    case True
    then have "r * r - (x + 1) * (x + 1) \<le> (y - 1) * (y - 1) + (y - 1)" using q by (simp add: arc_value_def)
    moreover have "(y - 1) * (y - 1) - (y - 1) \<le> r * r - (x + 1) * (x + 1)" using lo y(1) q by linarith
    moreover have "x + 1 < y - 1 \<Longrightarrow> (y - 1) * (y - 1) - (y - 1) < r * r - (x + 1) * (x + 1)" using lo q by linarith
    ultimately show ?thesis using True y by (simp add: arc_inv_def nearest_def)
  next
    case False
    then have "y * y - y < r * r - (x + 1) * (x + 1)" by (simp add: arc_value_def)
    moreover have "r * r - (x + 1) * (x + 1) \<le> y * y + y" using up y(2) q by linarith
    ultimately show ?thesis using False y by (simp add: arc_inv_def nearest_def)
  qed
qed

text \<open>The counters of the code stay in range and hold the value of the arc.\<close>

lemma arc_value_range:
  assumes "arc_inv r x y" "x < y"
  shows "2 * x + 1 - 2 * y \<le> arc_value r x y" "arc_value r x y \<le> 2 * x"
proof -
  have "(x + 1) * (x + 1) = x * x + 2 * x + 1" by (simp add: algebra_simps)
  then show "2 * x + 1 - 2 * y \<le> arc_value r x y" "arc_value r x y \<le> 2 * x"
    using assms by (auto simp: arc_inv_def nearest_def arc_value_def)
qed

lemma circle_step_arc:
  assumes "arc_inv r x y" "x < y" "r \<le> 8000"
  shows "circle_step (arc_value r x y, 2 * x + 1, - 2 * y, x, y) =
    (let y = (if 0 \<le> arc_value r x y then y - 1 else y) in (arc_value r (x + 1) y, 2 * (x + 1) + 1, - 2 * y, x + 1, y))"
proof -
  have y: "y \<le> 8000" "0 \<le> x" "0 \<le> y" using assms by (auto simp: arc_inv_def)
  note v = arc_value_range [OF assms(1,2)]
  have ddy: "s16 (- 2 * y + 2) = - 2 * (y - 1)" and ddx: "s16 (2 * x + 1 + 2) = 2 * (x + 1) + 1"
    using y assms(2) by (subst s16_id; simp add: int16_range_def)+
  have next1: "arc_value r (x + 1) (y - 1) = arc_value r x y - 2 * (y - 1) + (2 * (x + 1) + 1)"
    and next2: "arc_value r (x + 1) y = arc_value r x y + (2 * (x + 1) + 1)"
    by (simp_all add: arc_value_def algebra_simps)
  show ?thesis
  proof (cases "0 \<le> arc_value r x y")
    case True
    have "s16 (arc_value r x y + - 2 * (y - 1)) = arc_value r x y + - 2 * (y - 1)"
      "s16 (arc_value r x y + - 2 * (y - 1) + (2 * (x + 1) + 1)) = arc_value r (x + 1) (y - 1)"
      using True v y assms(2) next1 by (subst s16_id; simp add: int16_range_def)+
    then show ?thesis
      unfolding circle_step_def prod.case Let_def using True by (simp only: if_True ddy ddx prod.case)
  next
    case False
    have "s16 (arc_value r x y + (2 * (x + 1) + 1)) = arc_value r (x + 1) y"
      using False v y assms(2) next2 by (subst s16_id; simp add: int16_range_def)
    then show ?thesis
      unfolding circle_step_def prod.case Let_def using False by (simp only: if_False ddx prod.case)
  qed
qed

lemma circle_loop_arc:
  assumes "arc_inv r x y" "r \<le> 8000"
  shows "circle_loop (\<lambda>x y. draw_points c color (P x y)) (arc_value r x y, 2 * x + 1, - 2 * y, x, y) g =
    draw_points c color (concat (map (\<lambda>(x, y). P x y) (arc r x y))) g"
  using assms(1)
proof (induction "nat (y - x)" arbitrary: x y g rule: less_induct)
  case less
  show ?case
  proof (cases "x < y")
    case True
    let ?y = "if 0 \<le> arc_value r x y then y - 1 else y"
    have IH: "circle_loop (\<lambda>x y. draw_points c color (P x y))
        (arc_value r (x + 1) ?y, 2 * (x + 1) + 1, - 2 * ?y, x + 1, ?y) =
      draw_points c color (concat (map (\<lambda>(x, y). P x y) (arc r (x + 1) ?y)))"
      using True arc_inv_step [OF less(2) True] by (intro ext less(1)) auto
    have step: "circle_step (arc_value r x y, 2 * x + 1, - 2 * y, x, y) =
        (arc_value r (x + 1) ?y, 2 * (x + 1) + 1, - 2 * ?y, x + 1, ?y)"
      unfolding circle_step_arc [OF less(2) True assms(2)] Let_def ..
    show ?thesis
      unfolding circle_loop.simps [of _ "arc_value r x y"] arc.simps [of r x y] step
      using True by (simp only: if_True Let_def prod.case list.map concat.simps draw_points_append IH)
  qed (simp add: circle_loop.simps arc.simps)
qed

section \<open>What the arc is\<close>

lemma arc_sound:
  assumes "arc_inv r x y" "(a, b) \<in> set (arc r x y)"
  shows "arc_inv r a b"
  using assms
proof (induction r x y rule: arc.induct)
  case (1 r x y)
  let ?y = "if 0 \<le> arc_value r x y then y - 1 else y"
  have xy: "x < y" using 1(3) by (subst (asm) arc.simps) (auto split: if_splits)
  then have "(a, b) = (x + 1, ?y) \<or> (a, b) \<in> set (arc r (x + 1) ?y)"
    using 1(3) by (subst (asm) arc.simps) (simp add: Let_def)
  then show ?case using 1(1) [OF xy refl] arc_inv_step [OF 1(2) xy] by blast
qed

lemma nearest_unique:
  assumes "nearest r k m" "0 \<le> m" "0 \<le> n" "n * n - n < r * r - k * k" "r * r - k * k \<le> n * n + n"
  shows "m = n \<or> m * m - m = r * r - k * k"
proof (rule ccontr)
  assume c: "\<not> (m = n \<or> m * m - m = r * r - k * k)"
  have mono: "a + 1 \<le> b \<Longrightarrow> 0 \<le> a \<Longrightarrow> a * a + a \<le> b * b - b" for a b :: int
    using mult_mono [of "a + 1" b "a" "b - 1"] by (simp add: algebra_simps)
  have "m < n \<or> n < m" using c by auto
  then show False
    using mono [of m n] mono [of n m] assms c by (auto simp: nearest_def)
qed

lemma square_gap_mono: "m * m - m < n * n - n \<Longrightarrow> 1 \<le> m \<Longrightarrow> m < (n :: int) \<or> n \<le> 0"
proof (rule ccontr)
  assume a: "m * m - m < n * n - n" "1 \<le> m" "\<not> (m < n \<or> n \<le> 0)"
  then have "n * (n - 1) \<le> m * (m - 1)" by (intro mult_mono) auto
  with a(1) show False by (simp add: algebra_simps)
qed

lemma arc_complete:
  assumes "arc_inv r x y" "x < k" "k < m" "m * m - m < r * r - k * k" "r * r - k * k \<le> m * m + m"
  shows "(k, m) \<in> set (arc r x y)"
  using assms(1,2)
proof (induction "nat (y - x)" arbitrary: x y rule: less_induct)
  case less
  have m: "1 \<le> m" "1 \<le> k" using less(2,3) assms(3) by (auto simp: arc_inv_def)
  let ?y = "if 0 \<le> arc_value r x y then y - 1 else y"
  show ?case
  proof (cases "x < y")
    case False
    have "(x + 1) * (x + 1) \<le> k * k" using less(2,3) by (intro mult_mono) (auto simp: arc_inv_def)
    then have "x * x + 2 * x + 1 \<le> k * k" by (simp add: algebra_simps)
    then have "m * m - m < y * y - y"
      using assms(4) less(2) False by (simp add: arc_inv_def nearest_def)
    then have "m < y \<or> y \<le> 0" using square_gap_mono m(1) by blast
    moreover have "\<not> y \<le> 0"
    proof
      assume "y \<le> 0"
      then have "y = 0" using less(2) by (simp add: arc_inv_def)
      moreover have "0 \<le> m * (m - 1)" using m(1) by simp
      ultimately show False using \<open>m * m - m < y * y - y\<close> by (simp add: algebra_simps)
    qed
    ultimately show ?thesis using False less(3) assms(3) by linarith
  next
    case True
    have inv: "arc_inv r (x + 1) ?y" by (rule arc_inv_step [OF less(2) True])
    have arc: "arc r x y = (x + 1, ?y) # arc r (x + 1) ?y"
      using True by (subst arc.simps) (simp only: Let_def if_True)
    show ?thesis
    proof (cases "k = x + 1")
      case True
      have near: "nearest r k ?y" "0 \<le> ?y" "0 \<le> m" "k < ?y \<longrightarrow> ?y * ?y - ?y < r * r - k * k"
        using inv m(1) by (auto simp: arc_inv_def True)
      have "?y = m"
      proof (rule ccontr)
        assume "?y \<noteq> m"
        then have tie: "?y * ?y - ?y = r * r - k * k" using nearest_unique [OF near(1-3) assms(4,5)] by blast
        then have "m < ?y \<or> ?y \<le> 0" using square_gap_mono [of m ?y] assms(4) m(1) by linarith
        moreover have "?y \<le> k" using near(4) tie by linarith
        ultimately have "?y = 0" using near(2) assms(3) by linarith
        moreover have "0 \<le> m * (m - 1)" using m(1) by simp
        ultimately show False using tie assms(4) by (simp add: algebra_simps)
      qed
      then show ?thesis unfolding arc by (simp only: True list.set insert_iff simp_thms)
    next
      case False
      then have "(k, m) \<in> set (arc r (x + 1) ?y)"
        using inv True less(3) by (intro less(1)) auto
      then show ?thesis unfolding arc by (simp only: list.set insert_iff simp_thms)
    qed
  qed
qed

lemma arc_on_circle:
  assumes "arc_inv r a b"
  shows "nearest r (min a b) (max a b)"
proof (cases "a \<le> b")
  case False
  then have "a = b + 1" using assms by (simp add: arc_inv_def)
  moreover have "(b + 1) * (b + 1) = b * b + 2 * b + 1" by (simp add: algebra_simps)
  ultimately show ?thesis using assms False by (auto simp: arc_inv_def nearest_def)
qed (use assms in \<open>simp add: arc_inv_def\<close>)

text \<open>A point at \<open>(p, q)\<close> from the centre is on the circle if its larger coordinate is the nearest
  to the circle in the column of the smaller; the diagonal points and those on a tie may or may
  not be drawn.\<close>

definition on_circle :: "int \<Rightarrow> int \<Rightarrow> int \<Rightarrow> bool" where
  "on_circle r p q \<longleftrightarrow> nearest r (min \<bar>p\<bar> \<bar>q\<bar>) (max \<bar>p\<bar> \<bar>q\<bar>)"

definition clear_of_tie :: "int \<Rightarrow> int \<Rightarrow> int \<Rightarrow> bool" where
  "clear_of_tie r p q \<longleftrightarrow> \<bar>p\<bar> \<noteq> \<bar>q\<bar> \<and>
     max \<bar>p\<bar> \<bar>q\<bar> * max \<bar>p\<bar> \<bar>q\<bar> - max \<bar>p\<bar> \<bar>q\<bar> < r * r - min \<bar>p\<bar> \<bar>q\<bar> * min \<bar>p\<bar> \<bar>q\<bar>"

definition octants :: "int \<Rightarrow> int \<Rightarrow> int \<Rightarrow> int \<Rightarrow> (int \<times> int) list" where
  "octants x0 y0 x y =
     [(x0 + x, y0 + y), (x0 - x, y0 + y), (x0 + x, y0 - y), (x0 - x, y0 - y),
      (x0 + y, y0 + x), (x0 - y, y0 + x), (x0 + y, y0 - x), (x0 - y, y0 - x)]"

lemma octants_on_circle:
  assumes "0 \<le> a" "0 \<le> b" "(x, y) \<in> set (octants x0 y0 a b)"
  shows "min \<bar>x - x0\<bar> \<bar>y - y0\<bar> = min a b \<and> max \<bar>x - x0\<bar> \<bar>y - y0\<bar> = max a b"
  using assms by (auto simp: octants_def)

lemma octants_all:
  assumes "\<bar>p\<bar> = a \<and> \<bar>q\<bar> = b \<or> \<bar>p\<bar> = b \<and> \<bar>q\<bar> = a"
  shows "(x0 + p, y0 + q) \<in> set (octants x0 y0 a b)"
proof -
  have "(p = a \<or> p = - a) \<and> (q = b \<or> q = - b) \<or> (p = b \<or> p = - b) \<and> (q = a \<or> q = - a)"
    using assms by arith
  then show ?thesis by (elim disjE conjE) (simp_all add: octants_def)
qed

definition circle_points :: "int \<Rightarrow> int \<Rightarrow> int \<Rightarrow> (int \<times> int) list" where
  "circle_points x0 y0 r =
     [(x0, y0 + r), (x0, y0 - r), (x0 + r, y0), (x0 - r, y0)] @
     concat (map (\<lambda>(x, y). octants x0 y0 x y) (arc r 0 r))"

lemma drawCircle_points:
  assumes "0 \<le> r" "r \<le> 8000"
  shows "drawCircle c x0 y0 r color g = draw_points (drawPixel c) color (circle_points x0 y0 r) g"
proof -
  have "circle_start r = (arc_value r 0 r, 2 * 0 + 1, - 2 * r, 0, r)"
    using assms by (simp add: circle_start_def arc_value_def int16_range_def)
  then have loop: "circle_loop (\<lambda>x y. draw_points (drawPixel c) color (octants x0 y0 x y)) (circle_start r) =
      draw_points (drawPixel c) color (concat (map (\<lambda>(x, y). octants x0 y0 x y) (arc r 0 r)))"
    by (simp only: circle_loop_arc [OF arc_inv_start [OF assms(1)] assms(2)] fun_eq_iff) simp
  show ?thesis
    unfolding drawCircle_def circle_points_def draw_points_append loop [unfolded octants_def] octants_def ..
qed

lemma circle_points_on:
  assumes "0 \<le> r" "(x, y) \<in> set (circle_points x0 y0 r)"
  shows "on_circle r (x - x0) (y - y0)"
proof -
  have "on_circle r p q" if "\<bar>p\<bar> = 0 \<and> \<bar>q\<bar> = r \<or> \<bar>p\<bar> = r \<and> \<bar>q\<bar> = 0" for p q
    using that assms(1) by (auto simp: on_circle_def nearest_def)
  moreover have "on_circle r (x - x0) (y - y0)" if "(a, b) \<in> set (arc r 0 r)" "(x, y) \<in> set (octants x0 y0 a b)" for a b
  proof -
    have inv: "arc_inv r a b" by (rule arc_sound [OF arc_inv_start [OF assms(1)] that(1)])
    then have "0 \<le> a" "0 \<le> b" by (simp_all add: arc_inv_def)
    from octants_on_circle [OF this that(2)] arc_on_circle [OF inv] show ?thesis
      by (simp add: on_circle_def)
  qed
  ultimately show ?thesis
    using assms by (auto simp: circle_points_def)
qed

lemma circle_points_all:
  assumes "0 \<le> r" "on_circle r p q" "clear_of_tie r p q"
  shows "(x0 + p, y0 + q) \<in> set (circle_points x0 y0 r)"
proof -
  let ?k = "min \<bar>p\<bar> \<bar>q\<bar>" and ?m = "max \<bar>p\<bar> \<bar>q\<bar>"
  have km: "0 \<le> ?k" "?k < ?m" using assms(3) unfolding clear_of_tie_def by linarith+
  have pq: "\<bar>p\<bar> = ?k \<and> \<bar>q\<bar> = ?m \<or> \<bar>p\<bar> = ?m \<and> \<bar>q\<bar> = ?k" by auto
  have b: "?m * ?m - ?m < r * r - ?k * ?k" "r * r - ?k * ?k \<le> ?m * ?m + ?m"
    using assms(2,3) by (simp_all only: on_circle_def nearest_def clear_of_tie_def)
  show ?thesis
  proof (cases "?k = 0")
    case True
    have "nearest r ?k r" unfolding True using assms(1) by (simp add: nearest_def)
    from nearest_unique [OF this assms(1) _ b] km have "r = ?m \<or> r * r - r = r * r - ?k * ?k" by linarith
    moreover have "r \<noteq> 0"
    proof
      assume "r = 0"
      then have "?m * ?m < ?m" using b(1) unfolding True by simp
      then show False using km mult_mono [of 1 ?m ?m ?m] by linarith
    qed
    ultimately have "r = ?m" unfolding True by simp
    then have "\<bar>p\<bar> = 0 \<and> \<bar>q\<bar> = r \<or> \<bar>p\<bar> = r \<and> \<bar>q\<bar> = 0" using pq True by simp
    then have "p = 0 \<and> (q = r \<or> q = - r) \<or> (p = r \<or> p = - r) \<and> q = 0" using assms(1) by linarith
    then show ?thesis by (elim disjE conjE) (simp_all add: circle_points_def)
  next
    case False
    then have "0 < ?k" using km(1) by linarith
    then have "(?k, ?m) \<in> set (arc r 0 r)"
      by (rule arc_complete [OF arc_inv_start [OF assms(1)] _ km(2) b])
    moreover have "(x0 + p, y0 + q) \<in> set (octants x0 y0 ?k ?m)" by (rule octants_all [OF pq])
    ultimately have "\<exists>e \<in> set (arc r 0 r). (x0 + p, y0 + q) \<in> set (case e of (x, y) \<Rightarrow> octants x0 y0 x y)"
      by (intro bexI [of _ "(?k, ?m)"]) simp_all
    then show ?thesis unfolding circle_points_def by (simp only: set_append set_concat set_map Un_iff UN_iff image_iff) blast
  qed
qed

text \<open>C25: The midpoint circle: up to a radius of 8000, where the 16-bit counters suffice, the
  loop ends, every pixel that is set is the nearest one to the ideal circle in its column (in its
  row, where the circle is steep), and in the eight octants no such pixel is left out, the
  diagonal and exact ties aside.\<close>

theorem drawCircle_nearest:
  assumes "0 \<le> r" "r \<le> 8000"
  shows "\<exists>ps. drawCircle c x0 y0 r color g = draw_points (drawPixel c) color ps g \<and>
    (\<forall>x y. (x, y) \<in> set ps \<longrightarrow> on_circle r (x - x0) (y - y0)) \<and>
    (\<forall>x y. on_circle r (x - x0) (y - y0) \<and> clear_of_tie r (x - x0) (y - y0) \<longrightarrow> (x, y) \<in> set ps)"
proof (intro exI conjI allI impI)
  show "drawCircle c x0 y0 r color g = draw_points (drawPixel c) color (circle_points x0 y0 r) g"
    by (rule drawCircle_points [OF assms])
  show "(x, y) \<in> set (circle_points x0 y0 r) \<Longrightarrow> on_circle r (x - x0) (y - y0)" for x y
    by (rule circle_points_on [OF assms(1)])
  show "on_circle r (x - x0) (y - y0) \<and> clear_of_tie r (x - x0) (y - y0) \<Longrightarrow> (x, y) \<in> set (circle_points x0 y0 r)" for x y
    using circle_points_all [OF assms(1), of "x - x0" "y - y0" x0 y0] by simp
qed

theorem drawCircle_nearest_witness:
  "\<exists>ps. drawCircle recorder 10 10 5 1 (new_gfx 20 20 []) = draw_points (drawPixel recorder) 1 ps (new_gfx 20 20 []) \<and>
     (13, 14) \<in> set ps \<and> (14, 14) \<notin> set ps"
proof -
  have "on_circle 5 3 4" "clear_of_tie 5 3 4" "\<not> on_circle 5 4 4"
    by (simp_all add: on_circle_def clear_of_tie_def nearest_def)
  then show ?thesis
    using drawCircle_nearest [of 5 recorder 10 10 1 "new_gfx 20 20 []"] by fastforce
qed

end
