(* ===== verification/Canvas.thy ===== *)
theory Canvas
  imports GfxShapes GfxText
begin

text \<open>
  Drawing surfaces: the interface that a driver of the drawing library offers, the two canvases
  in memory of \<^verbatim>\<open>esp8266_sim/Adafruit_GFX.cpp\<close>, and what the shapes leave on any surface.
\<close>

section \<open>The interface of a surface\<close>

definition on_screen :: "'d gfx \<Rightarrow> int \<Rightarrow> int \<Rightarrow> bool" where
  "on_screen g p q \<longleftrightarrow> 0 \<le> p \<and> p < width g \<and> 0 \<le> q \<and> q < height g"

text \<open>A pixel that is set changes, if it is on the screen, and nothing else does; \<open>ink\<close> is how a
  colour is stored.\<close>

definition same_but_dev :: "'d gfx \<Rightarrow> 'd gfx \<Rightarrow> bool" where
  "same_but_dev g g' \<longleftrightarrow> g' = g\<lparr>dev := dev g'\<rparr>"

lemma same_but_dev_trans: "same_but_dev g g' \<Longrightarrow> same_but_dev g' g'' \<Longrightarrow> same_but_dev g g''"
  unfolding same_but_dev_def by (metis gfx.surjective gfx.update_convs(14))

lemma same_but_dev_fields:
  assumes "same_but_dev g g'"
  shows "width g' = width g" "height g' = height g" "on_screen g' p q = on_screen g p q"
    "raw_width g' = raw_width g" "raw_height g' = raw_height g" "rotation g' = rotation g"
    "textsize g' = textsize g" "use_cp437 g' = use_cp437 g" "gfxFont g' = gfxFont g" "wrap g' = wrap g"
    "cursor_x g' = cursor_x g" "cursor_y g' = cursor_y g" "textcolor g' = textcolor g" "textbgcolor g' = textbgcolor g"
proof -
  obtain d where "g' = g\<lparr>dev := d\<rparr>" using assms by (auto simp: same_but_dev_def)
  then show "width g' = width g" "height g' = height g" "on_screen g' p q = on_screen g p q"
    "raw_width g' = raw_width g" "raw_height g' = raw_height g" "rotation g' = rotation g"
    "textsize g' = textsize g" "use_cp437 g' = use_cp437 g" "gfxFont g' = gfxFont g" "wrap g' = wrap g"
    "cursor_x g' = cursor_x g" "cursor_y g' = cursor_y g" "textcolor g' = textcolor g" "textbgcolor g' = textbgcolor g"
    by (simp_all add: on_screen_def)
qed

locale surface =
  fixes dp :: "'d pixel_fn" and pixel :: "'d gfx \<Rightarrow> int \<Rightarrow> int \<Rightarrow> 'v" and ink :: "u16 \<Rightarrow> 'v"
    and ok :: "'d gfx \<Rightarrow> bool"
  assumes set_pixel: "ok g \<Longrightarrow> \<exists>g'. dp x y color g = Some g' \<and> ok g' \<and> same_but_dev g g' \<and>
    (\<forall>p q. on_screen g p q \<longrightarrow> pixel g' p q = (if p = x \<and> q = y then ink color else pixel g p q))"
begin

text \<open>What a drawing operation leaves: the pixels of a set in one colour, the others as before.\<close>

definition paints :: "('d gfx \<Rightarrow> 'd gfx option) \<Rightarrow> u16 \<Rightarrow> (int \<times> int) set \<Rightarrow> 'd gfx \<Rightarrow> bool" where
  "paints f color S g \<longleftrightarrow> (\<exists>g'. f g = Some g' \<and> ok g' \<and> same_but_dev g g' \<and>
     (\<forall>p q. on_screen g p q \<longrightarrow> pixel g' p q = (if (p, q) \<in> S then ink color else pixel g p q)))"

lemma paints_none: "ok g \<Longrightarrow> paints Some color {} g"
  by (auto simp: paints_def same_but_dev_def)

lemma paints_pixel: "ok g \<Longrightarrow> paints (dp x y color) color {(x, y)} g"
  unfolding paints_def using set_pixel [of g x y color] by auto

lemma paints_bind:
  assumes "paints f color S g" "\<And>g'. ok g' \<Longrightarrow> same_but_dev g g' \<Longrightarrow> paints (h g') color T g'"
  shows "paints (\<lambda>g. f g \<bind> (\<lambda>g'. h g' g')) color (S \<union> T) g"
proof -
  obtain g1 where g1: "f g = Some g1" "ok g1" "same_but_dev g g1"
    "\<forall>p q. on_screen g p q \<longrightarrow> pixel g1 p q = (if (p, q) \<in> S then ink color else pixel g p q)"
    using assms(1) by (auto simp: paints_def)
  obtain g2 where "h g1 g1 = Some g2" "ok g2" "same_but_dev g1 g2"
    "\<forall>p q. on_screen g1 p q \<longrightarrow> pixel g2 p q = (if (p, q) \<in> T then ink color else pixel g1 p q)"
    using assms(2) [OF g1(2,3)] by (auto simp: paints_def)
  then show ?thesis
    unfolding paints_def using g1 same_but_dev_trans [OF g1(3)] same_but_dev_fields(3) [OF g1(3)]
    by (intro exI [of _ g2]) auto
qed

lemma paints_seq:
  "paints f color S g \<Longrightarrow> (\<And>g'. ok g' \<Longrightarrow> paints h color T g') \<Longrightarrow> paints (\<lambda>g. f g \<bind> h) color (S \<union> T) g"
  using paints_bind [of f color S g "\<lambda>_. h" T] by simp

lemma paints_points:
  "ok g \<Longrightarrow> list_all (\<lambda>(x, y). int16_range x \<and> int16_range y) ps \<Longrightarrow> paints (draw_points dp color ps) color (set ps) g"
proof (induction ps arbitrary: g)
  case Nil
  then show ?case using paints_none [of g color] by (simp add: paints_def)
next
  case (Cons xy ps)
  obtain x y where xy: "xy = (x, y)" by (cases xy)
  have "paints (\<lambda>g. dp x y color g \<bind> (\<lambda>g'. draw_points dp color ps g')) color ({(x, y)} \<union> set ps) g"
    using Cons by (intro paints_bind paints_pixel) auto
  then show ?case using Cons.prems(2) by (simp add: xy paints_def)
qed

end

section \<open>The canvases\<close>

text \<open>The point of the buffer behind a point of the rotated screen.\<close>

definition unrotate :: "'d gfx \<Rightarrow> int \<Rightarrow> int \<Rightarrow> int \<times> int" where
  "unrotate g x y =
     (if rotation g = 1 then (s16 (raw_width g - 1 - y), x)
      else if rotation g = 2 then (s16 (raw_width g - 1 - x), s16 (raw_height g - 1 - y))
      else if rotation g = 3 then (y, s16 (raw_height g - 1 - x))
      else (x, y))"

text \<open>A write outside the block that was allocated is undefined.\<close>

definition poke_buffer :: "int \<Rightarrow> ('a \<Rightarrow> 'a) \<Rightarrow> 'a list \<Rightarrow> 'a list option" where
  "poke_buffer i f buf = (if 0 \<le> i \<and> nat i < length buf then Some (buf[nat i := f (buf ! nat i)]) else None)"

text \<open>The canvas of one bit per pixel; \<open>malloc\<close> may fail. The size of the block is computed in 16
  bits.\<close>

definition new_GFXcanvas1 :: "bool \<Rightarrow> u16 \<Rightarrow> u16 \<Rightarrow> u8 list option gfx" where
  "new_GFXcanvas1 malloc_ok w h =
     (let bytes = ((uint w + 7) div 8 * uint h) mod 65536
      in new_gfx (s16 (uint w)) (s16 (uint h)) (if malloc_ok then Some (replicate (nat bytes) 0) else None))"

definition set_bit_mask :: "int \<Rightarrow> u8" where
  "set_bit_mask x = [0x80, 0x40, 0x20, 0x10, 0x08, 0x04, 0x02, 0x01] ! nat (x mod 8)"

definition clear_bit_mask :: "int \<Rightarrow> u8" where
  "clear_bit_mask x = [0x7F, 0xBF, 0xDF, 0xEF, 0xF7, 0xFB, 0xFD, 0xFE] ! nat (x mod 8)"

definition canvas1_drawPixel :: "int \<Rightarrow> int \<Rightarrow> u16 \<Rightarrow> u8 list option gfx \<Rightarrow> u8 list option gfx option" where
  "canvas1_drawPixel x y color g =
     (case dev g of
        None \<Rightarrow> Some g
      | Some buffer \<Rightarrow>
          if x < 0 \<or> y < 0 \<or> x \<ge> width g \<or> y \<ge> height g then Some g
          else (let (x, y) = unrotate g x y;
                    i = x sdiv 8 + y * ((raw_width g + 7) sdiv 8)
                in do { buffer \<leftarrow> poke_buffer i (\<lambda>b. if color \<noteq> 0 then or b (set_bit_mask x)
                                                   else and b (clear_bit_mask x)) buffer;
                        Some (g\<lparr>dev := Some buffer\<rparr>) }))"

definition canvas1_fillScreen :: "u16 \<Rightarrow> u8 list option gfx \<Rightarrow> u8 list option gfx option" where
  "canvas1_fillScreen color g =
     (case dev g of
        None \<Rightarrow> Some g
      | Some buffer \<Rightarrow>
          (let bytes = nat (((raw_width g + 7) sdiv 8 * raw_height g) mod 65536)
           in if bytes \<le> length buffer
              then Some (g\<lparr>dev := Some (replicate bytes (if color \<noteq> 0 then 0xFF else 0x00) @ drop bytes buffer)\<rparr>)
              else None))"

definition canvas1_class :: "u8 list option gfx_class" where
  "canvas1_class = (base_class canvas1_drawPixel)\<lparr>fillScreen := canvas1_fillScreen\<rparr>"

text \<open>The canvas of 16 bits per pixel.\<close>

definition new_GFXcanvas16 :: "bool \<Rightarrow> u16 \<Rightarrow> u16 \<Rightarrow> u16 list option gfx" where
  "new_GFXcanvas16 malloc_ok w h =
     (let bytes = (uint w * uint h * 2) mod 65536
      in new_gfx (s16 (uint w)) (s16 (uint h)) (if malloc_ok then Some (replicate (nat bytes div 2) 0) else None))"

definition canvas16_drawPixel :: "int \<Rightarrow> int \<Rightarrow> u16 \<Rightarrow> u16 list option gfx \<Rightarrow> u16 list option gfx option" where
  "canvas16_drawPixel x y color g =
     (case dev g of
        None \<Rightarrow> Some g
      | Some buffer \<Rightarrow>
          if x < 0 \<or> y < 0 \<or> x \<ge> width g \<or> y \<ge> height g then Some g
          else (let (x, y) = unrotate g x y
                in do { buffer \<leftarrow> poke_buffer (x + y * raw_width g) (\<lambda>_. color) buffer;
                        Some (g\<lparr>dev := Some buffer\<rparr>) }))"

text \<open>\<open>memset\<close> where both bytes of the colour are the same, otherwise a loop over a 16-bit count.\<close>

definition canvas16_fillScreen :: "u16 \<Rightarrow> u16 list option gfx \<Rightarrow> u16 list option gfx option" where
  "canvas16_fillScreen color g =
     (case dev g of
        None \<Rightarrow> Some g
      | Some buffer \<Rightarrow>
          (let pixels = (if drop_bit 8 color = and color 0xFF then raw_width g * raw_height g
                         else (raw_width g * raw_height g) mod 65536)
           in if 0 \<le> pixels \<and> nat pixels \<le> length buffer
              then Some (g\<lparr>dev := Some (replicate (nat pixels) color @ drop (nat pixels) buffer)\<rparr>)
              else None))"

definition canvas16_class :: "u16 list option gfx_class" where
  "canvas16_class = (base_class canvas16_drawPixel)\<lparr>fillScreen := canvas16_fillScreen\<rparr>"

section \<open>The canvases are surfaces\<close>

definition canvas_shape :: "'d gfx \<Rightarrow> bool" where
  "canvas_shape g \<longleftrightarrow> 0 \<le> raw_width g \<and> raw_width g \<le> 32767 \<and> 0 \<le> raw_height g \<and> raw_height g \<le> 32767 \<and>
     rotation g < 4 \<and>
     width g = (if even (rotation g) then raw_width g else raw_height g) \<and>
     height g = (if even (rotation g) then raw_height g else raw_width g)"

lemma rotation_cases: "rotation g < 4 \<Longrightarrow> rotation g = 0 \<or> rotation g = 1 \<or> rotation g = 2 \<or> rotation g = 3"
  by linarith

lemma unrotate_range:
  assumes "canvas_shape g" "on_screen g p q"
  shows "0 \<le> fst (unrotate g p q)" "fst (unrotate g p q) < raw_width g"
    "0 \<le> snd (unrotate g p q)" "snd (unrotate g p q) < raw_height g"
proof -
  have "int16_range (raw_width g - 1 - p) \<or> odd (rotation g)" "int16_range (raw_height g - 1 - q) \<or> odd (rotation g)"
    "int16_range (raw_width g - 1 - q) \<or> even (rotation g)" "int16_range (raw_height g - 1 - p) \<or> even (rotation g)"
    using assms by (auto simp: canvas_shape_def on_screen_def int16_range_def)
  then show "0 \<le> fst (unrotate g p q)" "fst (unrotate g p q) < raw_width g"
    "0 \<le> snd (unrotate g p q)" "snd (unrotate g p q) < raw_height g"
    using assms rotation_cases [of g] by (auto simp: canvas_shape_def on_screen_def unrotate_def)
qed

lemma unrotate_inj:
  assumes "canvas_shape g" "on_screen g p q" "on_screen g p' q'" "unrotate g p q = unrotate g p' q'"
  shows "p = p' \<and> q = q'"
proof -
  have "int16_range (raw_width g - 1 - p) \<or> odd (rotation g)" "int16_range (raw_height g - 1 - q) \<or> odd (rotation g)"
    "int16_range (raw_width g - 1 - q) \<or> even (rotation g)" "int16_range (raw_height g - 1 - p) \<or> even (rotation g)"
    if "on_screen g p q" for p q
    using assms(1) that by (auto simp: canvas_shape_def on_screen_def int16_range_def)
  from this [OF assms(2)] this [OF assms(3)] show ?thesis
    using assms rotation_cases [of g] by (auto simp: canvas_shape_def unrotate_def)
qed

lemma unrotate_dev [simp]: "unrotate (g\<lparr>dev := d\<rparr>) p q = unrotate g p q"
  by (simp add: unrotate_def)

lemma canvas_shape_dev [simp]: "canvas_shape (g\<lparr>dev := d\<rparr>) = canvas_shape g"
  by (simp add: canvas_shape_def)

text \<open>Cells of a row-major array.\<close>

lemma cell_less:
  assumes "0 \<le> x" "x < w" "0 \<le> y" "y < (h :: int)"
  shows "0 \<le> x + y * w" "x + y * w < w * h"
proof -
  have "y * w + w \<le> h * w" using mult_right_mono [of "y + 1" h w] assms by (simp add: algebra_simps)
  then show "x + y * w < w * h" using assms by (simp add: mult.commute)
qed (use assms in simp)

lemma cell_inj:
  assumes "0 \<le> x" "x < w" "0 \<le> x'" "x' < (w :: int)" "x + y * w = x' + y' * w"
  shows "x = x' \<and> y = y'"
proof -
  have "(x + y * w) div w = y" "(x' + y' * w) div w = y'" using assms(1-4) by simp_all
  then have "y = y'" using assms(5) by simp
  then show ?thesis using assms(5) by simp
qed

lemma poke_buffer_nth:
  assumes "0 \<le> i" "nat i < length buf"
  shows "poke_buffer i f buf = Some (buf[nat i := f (buf ! nat i)])"
  using assms by (simp add: poke_buffer_def)

subsection \<open>16 bits per pixel\<close>

definition canvas16_ok :: "u16 list option gfx \<Rightarrow> bool" where
  "canvas16_ok g \<longleftrightarrow> canvas_shape g \<and> (case dev g of None \<Rightarrow> False
     | Some buf \<Rightarrow> raw_width g * raw_height g \<le> int (length buf))"

definition cell16 :: "u16 list option gfx \<Rightarrow> int \<Rightarrow> int \<Rightarrow> nat" where
  "cell16 g p q = nat (fst (unrotate g p q) + snd (unrotate g p q) * raw_width g)"

definition pixel16 :: "u16 list option gfx \<Rightarrow> int \<Rightarrow> int \<Rightarrow> u16" where
  "pixel16 g p q = the (dev g) ! cell16 g p q"

lemma cell16_less:
  assumes "canvas16_ok g" "on_screen g p q"
  shows "cell16 g p q < length (the (dev g))"
  using unrotate_range [of g p q] cell_less [of "fst (unrotate g p q)" "raw_width g" "snd (unrotate g p q)" "raw_height g"] assms
  by (auto simp: canvas16_ok_def cell16_def nat_less_iff split: option.splits)

lemma cell16_inj:
  assumes "canvas16_ok g" "on_screen g p q" "on_screen g p' q'" "cell16 g p q = cell16 g p' q'"
  shows "p = p' \<and> q = q'"
proof -
  have shape: "canvas_shape g" using assms(1) by (simp add: canvas16_ok_def)
  note r = unrotate_range [OF shape assms(2)] unrotate_range [OF shape assms(3)]
  have "fst (unrotate g p q) + snd (unrotate g p q) * raw_width g = fst (unrotate g p' q') + snd (unrotate g p' q') * raw_width g"
    using assms(4) cell_less(1) [OF r(1-4)] cell_less(1) [OF r(5-8)] by (simp add: cell16_def)
  then have "unrotate g p q = unrotate g p' q'" using cell_inj [OF r(1,2,5,6)] by (simp add: prod_eq_iff)
  then show ?thesis by (rule unrotate_inj [OF shape assms(2,3)])
qed

lemma canvas16_set_pixel:
  assumes "canvas16_ok g"
  shows "\<exists>g'. canvas16_drawPixel x y color g = Some g' \<and> canvas16_ok g' \<and> same_but_dev g g' \<and>
    (\<forall>p q. on_screen g p q \<longrightarrow> pixel16 g' p q = (if p = x \<and> q = y then color else pixel16 g p q))"
proof -
  obtain buf where buf: "dev g = Some buf" using assms by (auto simp: canvas16_ok_def split: option.splits)
  show ?thesis
  proof (cases "on_screen g x y")
    case False
    then have "canvas16_drawPixel x y color g = Some g" by (auto simp: canvas16_drawPixel_def buf on_screen_def)
    then show ?thesis using assms False by (auto simp: same_but_dev_def)
  next
    case True
    have shape: "canvas_shape g" using assms by (simp add: canvas16_ok_def)
    have cell: "cell16 g x y < length buf" using cell16_less [OF assms True] buf by simp
    have "0 \<le> fst (unrotate g x y) + snd (unrotate g x y) * raw_width g"
      using unrotate_range [OF shape True] by simp
    then have draw: "canvas16_drawPixel x y color g = Some (g\<lparr>dev := Some (buf[cell16 g x y := color])\<rparr>)"
      using True cell by (simp add: canvas16_drawPixel_def buf on_screen_def case_prod_beta Let_def poke_buffer_nth cell16_def)
    have "pixel16 (g\<lparr>dev := Some (buf[cell16 g x y := color])\<rparr>) p q = (if p = x \<and> q = y then color else pixel16 g p q)"
      if "on_screen g p q" for p q
      using cell16_inj [OF assms that True] cell by (auto simp: pixel16_def cell16_def buf nth_list_update)
    moreover have "canvas16_ok (g\<lparr>dev := Some (buf[cell16 g x y := color])\<rparr>)"
      using assms buf by (simp add: canvas16_ok_def)
    ultimately show ?thesis using draw by (auto simp: same_but_dev_def)
  qed
qed

interpretation canvas16: surface canvas16_drawPixel pixel16 "\<lambda>color. color" canvas16_ok
  by unfold_locales (rule canvas16_set_pixel)

subsection \<open>One bit per pixel\<close>

lemma masks:
  assumes "0 \<le> x"
  shows "set_bit_mask x = push_bit (7 - nat (x mod 8)) 1" "clear_bit_mask x = not (push_bit (7 - nat (x mod 8)) 1)"
proof -
  have "x mod 8 \<in> {0, 1, 2, 3, 4, 5, 6, 7}" using pos_mod_sign [of 8 x] pos_mod_bound [of 8 x] by simp arith
  then show "set_bit_mask x = push_bit (7 - nat (x mod 8)) 1" "clear_bit_mask x = not (push_bit (7 - nat (x mod 8)) 1)"
    by (auto simp: set_bit_mask_def clear_bit_mask_def)
qed

definition row_bytes :: "'d gfx \<Rightarrow> int" where
  "row_bytes g = (raw_width g + 7) div 8"

definition canvas1_ok :: "u8 list option gfx \<Rightarrow> bool" where
  "canvas1_ok g \<longleftrightarrow> canvas_shape g \<and> (case dev g of None \<Rightarrow> False
     | Some buf \<Rightarrow> row_bytes g * raw_height g \<le> int (length buf))"

definition cell1 :: "u8 list option gfx \<Rightarrow> int \<Rightarrow> int \<Rightarrow> nat" where
  "cell1 g p q = nat (fst (unrotate g p q) div 8 + snd (unrotate g p q) * row_bytes g)"

definition place1 :: "u8 list option gfx \<Rightarrow> int \<Rightarrow> int \<Rightarrow> nat" where
  "place1 g p q = 7 - nat (fst (unrotate g p q) mod 8)"

definition pixel1 :: "u8 list option gfx \<Rightarrow> int \<Rightarrow> int \<Rightarrow> bool" where
  "pixel1 g p q = bit (the (dev g) ! cell1 g p q) (place1 g p q)"

lemma cell1_dev [simp]:
  "cell1 (g\<lparr>dev := d\<rparr>) p q = cell1 g p q" "place1 (g\<lparr>dev := d\<rparr>) p q = place1 g p q"
  by (simp_all add: cell1_def place1_def row_bytes_def)

lemma column_less:
  assumes "0 \<le> x" "x < raw_width g"
  shows "0 \<le> x div 8" "x div 8 < row_bytes g"
  using assms by (auto simp: row_bytes_def)

lemma cell1_less:
  assumes "canvas1_ok g" "on_screen g p q"
  shows "cell1 g p q < length (the (dev g))"
proof -
  have shape: "canvas_shape g" using assms(1) by (simp add: canvas1_ok_def)
  note r = unrotate_range [OF shape assms(2)]
  show ?thesis
    using cell_less [OF column_less [OF r(1,2)] r(3,4)] assms(1)
    by (auto simp: canvas1_ok_def cell1_def nat_less_iff split: option.splits)
qed

lemma cell1_inj:
  assumes "canvas1_ok g" "on_screen g p q" "on_screen g p' q'" "cell1 g p q = cell1 g p' q'" "place1 g p q = place1 g p' q'"
  shows "p = p' \<and> q = q'"
proof -
  have shape: "canvas_shape g" using assms(1) by (simp add: canvas1_ok_def)
  note r = unrotate_range [OF shape assms(2)] unrotate_range [OF shape assms(3)]
  note c = column_less [OF r(1,2)] column_less [OF r(5,6)]
  have "fst (unrotate g p q) div 8 + snd (unrotate g p q) * row_bytes g =
      fst (unrotate g p' q') div 8 + snd (unrotate g p' q') * row_bytes g"
    using assms(4) cell_less(1) [OF c(1,2) r(3,4)] cell_less(1) [OF c(3,4) r(7,8)] by (simp add: cell1_def)
  then have eq: "fst (unrotate g p q) div 8 = fst (unrotate g p' q') div 8" "snd (unrotate g p q) = snd (unrotate g p' q')"
    using cell_inj [OF c] by auto
  moreover have "fst (unrotate g p q) mod 8 = fst (unrotate g p' q') mod 8"
  proof -
    have m: "0 \<le> fst (unrotate g p q) mod 8" "fst (unrotate g p q) mod 8 < 8"
      "0 \<le> fst (unrotate g p' q') mod 8" "fst (unrotate g p' q') mod 8 < 8" by simp_all
    then show ?thesis using assms(5) unfolding place1_def by arith
  qed
  ultimately have "unrotate g p q = unrotate g p' q'"
    by (metis div_mult_mod_eq prod_eqI)
  then show ?thesis by (rule unrotate_inj [OF shape assms(2,3)])
qed

lemma div_as_sdiv: "0 \<le> a \<Longrightarrow> a sdiv 8 = a div (8 :: int)"
  by (cases "a = 0") (simp_all add: signed_divide_int_def)

lemma canvas1_set_pixel:
  assumes "canvas1_ok g"
  shows "\<exists>g'. canvas1_drawPixel x y color g = Some g' \<and> canvas1_ok g' \<and> same_but_dev g g' \<and>
    (\<forall>p q. on_screen g p q \<longrightarrow> pixel1 g' p q = (if p = x \<and> q = y then color \<noteq> 0 else pixel1 g p q))"
proof -
  obtain buf where buf: "dev g = Some buf" using assms by (auto simp: canvas1_ok_def split: option.splits)
  show ?thesis
  proof (cases "on_screen g x y")
    case False
    then have "canvas1_drawPixel x y color g = Some g" by (auto simp: canvas1_drawPixel_def buf on_screen_def)
    then show ?thesis using assms False by (auto simp: same_but_dev_def)
  next
    case True
    have shape: "canvas_shape g" using assms by (simp add: canvas1_ok_def)
    note r = unrotate_range [OF shape True]
    define b where "b = (if color \<noteq> 0 then set_bit (place1 g x y) (buf ! cell1 g x y)
      else unset_bit (place1 g x y) (buf ! cell1 g x y))"
    let ?g = "g\<lparr>dev := Some (buf[cell1 g x y := b])\<rparr>"
    have cell: "cell1 g x y < length buf" using cell1_less [OF assms True] buf by simp
    have "fst (unrotate g x y) sdiv 8 + snd (unrotate g x y) * ((raw_width g + 7) sdiv 8) = int (cell1 g x y)"
      using r shape cell_less(1) [OF column_less [OF r(1,2)] r(3,4)]
      by (simp add: cell1_def row_bytes_def div_as_sdiv canvas_shape_def)
    then have draw: "canvas1_drawPixel x y color g = Some ?g"
      using True cell r(1)
      by (simp add: canvas1_drawPixel_def buf on_screen_def case_prod_beta Let_def poke_buffer_nth b_def place1_def
          masks set_bit_eq_or unset_bit_eq_and_not)
    have "pixel1 ?g p q = (if p = x \<and> q = y then color \<noteq> 0 else pixel1 g p q)" if "on_screen g p q" for p q
    proof -
      have "place1 g x y < 8" by (simp add: place1_def)
      then have "bit b n = (if n = place1 g x y then color \<noteq> 0 else bit (buf ! cell1 g x y) n)" for n
        by (auto simp: b_def bit_set_bit_iff bit_unset_bit_iff)
      moreover have "p = x \<and> q = y \<longleftrightarrow> cell1 g p q = cell1 g x y \<and> place1 g p q = place1 g x y"
        using cell1_inj [OF assms that True] by blast
      ultimately show ?thesis
        using cell by (cases "cell1 g p q = cell1 g x y") (auto simp: pixel1_def buf)
    qed
    moreover have "canvas1_ok ?g"
      using assms buf by (simp add: canvas1_ok_def row_bytes_def)
    ultimately show ?thesis using draw by (auto simp: same_but_dev_def)
  qed
qed

interpretation canvas1: surface canvas1_drawPixel pixel1 "\<lambda>color. color \<noteq> 0" canvas1_ok
  by unfold_locales (rule canvas1_set_pixel)

section \<open>Shapes on a surface\<close>

lemma line_points_near:
  assumes "near x0" "near y0" "near x1" "near y1" "(x, y) \<in> set (line_points x0 y0 x1 y1)"
  shows "near x \<and> near y"
proof -
  have row: "0 \<le> line_row dx dy i \<and> line_row dx dy i \<le> dy" if "0 \<le> i" "i \<le> dx" "0 \<le> dy" "dy \<le> dx" for dx dy i
    using line_row_mono [of dy dx 0 i] line_row_mono [of dy dx i dx] line_row_ends [of dy dx] that by auto
  have run: "near (a + i) \<and> near (b + (if b < b' then 1 else - 1) * line_row (a' - a) \<bar>b' - b\<bar> i)"
    if "near a" "near b" "near a'" "near b'" "0 \<le> i" "i \<le> a' - a" "\<bar>b' - b\<bar> \<le> a' - a" for a b a' b' i
  proof -
    let ?k = "line_row (a' - a) \<bar>b' - b\<bar> i"
    have "0 \<le> ?k" "?k \<le> \<bar>b' - b\<bar>" using row [of i "a' - a" "\<bar>b' - b\<bar>"] that by auto
    then show ?thesis using that by (cases "b < b'") (simp_all add: near_def, linarith+)
  qed
  show ?thesis
  proof (cases "\<bar>y1 - y0\<bar> > \<bar>x1 - x0\<bar>")
    case True
    then show ?thesis
      using assms run [of y0 x0 y1 x1] run [of y1 x1 y0 x0]
      by (cases "y0 > y1") (auto simp: line_points_def line_point_def abs_minus_commute)
  next
    case False
    then show ?thesis
      using assms run [of x0 y0 x1 y1] run [of x1 y1 x0 y0]
      by (cases "x0 > x1") (auto simp: line_points_def line_point_def abs_minus_commute)
  qed
qed

lemma near_circle:
  assumes "on_circle r p q" "0 \<le> r"
  shows "\<bar>p\<bar> \<le> r + 1 \<and> \<bar>q\<bar> \<le> r + 1"
proof -
  let ?k = "min \<bar>p\<bar> \<bar>q\<bar>" and ?m = "max \<bar>p\<bar> \<bar>q\<bar>"
  have "?m * ?m - ?m \<le> r * r - ?k * ?k" using assms(1) unfolding on_circle_def nearest_def by blast
  moreover have "0 \<le> ?k * ?k" by simp
  moreover have "(r + 2) * (r + 1) \<le> ?m * (?m - 1)" if "r + 2 \<le> ?m"
    using that assms(2) by (intro mult_mono) auto
  then have "r + 2 \<le> ?m \<Longrightarrow> r * r + 3 * r + 2 \<le> ?m * ?m - ?m" by (simp add: algebra_simps)
  ultimately have "?m \<le> r + 1" using assms(2) by linarith
  then show ?thesis by simp
qed

definition in_rect :: "int \<Rightarrow> int \<Rightarrow> int \<Rightarrow> int \<Rightarrow> (int \<times> int) set" where
  "in_rect x y w h = {x..<x + w} \<times> {y..<y + h}"

lemma set_rect_points: "set (rect_points x y w h) = in_rect x y w h"
  by (auto simp: rect_points_def in_rect_def)

context surface
begin

lemma paints_line:
  assumes "ok g" "near x0" "near y0" "near x1" "near y1"
  shows "paints (drawLine dp x0 y0 x1 y1 color) color (set (line_points x0 y0 x1 y1)) g"
proof -
  have "list_all (\<lambda>(x, y). int16_range x \<and> int16_range y) (line_points x0 y0 x1 y1)"
    using line_points_near [OF assms(2-5)] near_range(1) by (auto simp: list_all_iff)
  moreover have "drawLine dp x0 y0 x1 y1 color = draw_points dp color (line_points x0 y0 x1 y1)"
    using drawLine_points [OF assms(2-5)] by (intro ext)
  ultimately show ?thesis using paints_points [OF assms(1)] by simp
qed

lemma paints_rect:
  assumes "ok g" "near x" "near y" "near (x + w)" "near (y + h - 1)" "1 \<le> h"
  shows "paints (gfx_fillRect (gfx_drawFastVLine dp) x y w h color) color (in_rect x y w h) g"
proof -
  have "list_all (\<lambda>(x, y). int16_range x \<and> int16_range y) (rect_points x y w h)"
    using assms(2-5) by (auto simp: list_all_iff set_rect_points in_rect_def near_def int16_range_def)
  moreover have "gfx_fillRect (gfx_drawFastVLine dp) x y w h color = draw_points dp color (rect_points x y w h)"
    using gfx_fillRect_points [OF assms(2-6)] by (intro ext)
  ultimately show ?thesis
    using paints_points [OF assms(1), of "rect_points x y w h" color, unfolded set_rect_points] by simp
qed

lemma paints_circle:
  assumes "ok g" "0 \<le> r" "r \<le> 8000" "near x0" "near y0" "drawPixel c = dp"
  shows "paints (drawCircle c x0 y0 r color) color (set (circle_points x0 y0 r)) g"
proof -
  have "int16_range x \<and> int16_range y" if "(x, y) \<in> set (circle_points x0 y0 r)" for x y
    using near_circle [OF circle_points_on [OF assms(2) that] assms(2)] assms(3-5)
    by (auto simp: near_def int16_range_def)
  then have "list_all (\<lambda>(x, y). int16_range x \<and> int16_range y) (circle_points x0 y0 r)"
    by (auto simp: list_all_iff)
  moreover have "drawCircle c x0 y0 r color = draw_points dp color (circle_points x0 y0 r)"
    by (simp add: fun_eq_iff drawCircle_points [OF assms(2,3)] assms(6))
  ultimately show ?thesis using paints_points [OF assms(1)] by simp
qed

end

section \<open>What the canvases show\<close>

text \<open>Filling a rectangle of a canvas sets exactly its pixels, in any of the four rotations and
  also where it reaches beyond the screen; every write stays inside the buffer, provided that
  it has room for the canvas.\<close>

theorem canvas_fillRect_exact:
  assumes "canvas16_ok g" "\<bar>x\<bar> \<le> 10000" "\<bar>y\<bar> \<le> 10000" "0 \<le> w" "w \<le> 5000" "1 \<le> h" "h \<le> 5000"
  shows "\<exists>g'. fillRect canvas16_class x y w h color g = Some g' \<and> canvas16_ok g' \<and>
    (\<forall>p q. on_screen g p q \<longrightarrow>
       pixel16 g' p q = (if x \<le> p \<and> p < x + w \<and> y \<le> q \<and> q < y + h then color else pixel16 g p q))"
proof -
  have "near x" "near y" "near (x + w)" "near (y + h - 1)" using assms by (auto simp: near_def)
  from canvas16.paints_rect [OF assms(1) this assms(6), of color] show ?thesis
    by (auto simp: canvas16.paints_def canvas16_class_def base_class_def Let_def in_rect_def)
qed

lemma fresh_shape:
  assumes "w \<le> 32767" "h \<le> 32767"
  shows "canvas_shape (new_gfx (s16 (uint w)) (s16 (uint h)) d)" "s16 (uint (w :: u16)) = uint w" "s16 (uint (h :: u16)) = uint h"
proof -
  have "uint w \<le> 32767" "uint h \<le> 32767" using assms by (simp_all add: word_le_def)
  then show "s16 (uint w) = uint w" "s16 (uint h) = uint h" by (simp_all add: int16_range_def order_trans [OF _ uint_ge_0])
  then show "canvas_shape (new_gfx (s16 (uint w)) (s16 (uint h)) d)"
    using \<open>uint w \<le> 32767\<close> \<open>uint h \<le> 32767\<close> by (simp add: canvas_shape_def new_gfx_def)
qed

lemma fresh_ok16:
  assumes "w \<le> 32767" "h \<le> 32767"
  shows "canvas16_ok (new_GFXcanvas16 True w h) \<longleftrightarrow> uint w * uint h \<le> (uint w * uint h * 2) mod 65536 div 2"
proof -
  have "canvas_shape (new_GFXcanvas16 True w h)"
    unfolding new_GFXcanvas16_def Let_def by (rule fresh_shape(1) [OF assms])
  moreover have "dev (new_GFXcanvas16 True w h) = Some (replicate (nat ((uint w * uint h * 2) mod 65536) div 2) 0)"
    "raw_width (new_GFXcanvas16 True w h) = uint w" "raw_height (new_GFXcanvas16 True w h) = uint h"
    using fresh_shape(2,3) [OF assms] by (simp_all add: new_GFXcanvas16_def new_gfx_def Let_def)
  ultimately show ?thesis by (simp add: canvas16_ok_def zdiv_int)
qed

lemma rotated_ok16:
  assumes "canvas16_ok g"
  shows "canvas16_ok (gfx_setRotation r g)"
proof -
  have "unat (and r 3) < 4"
  proof -
    have "and r 3 = take_bit 2 r" by (simp add: take_bit_eq_mask mask_eq_decr_exp)
    then show ?thesis using take_bit_nat_less_exp [of 2 "unat r"] by (simp add: unsigned_take_bit_eq)
  qed
  then have "unat (and r 3) = 0 \<or> unat (and r 3) = 1 \<or> unat (and r 3) = 2 \<or> unat (and r 3) = 3" by linarith
  then show ?thesis
    using assms by (cases "dev g") (auto simp: canvas16_ok_def canvas_shape_def gfx_setRotation_def Let_def)
qed

theorem canvas_fillRect_exact_witness:
  "\<exists>g g'. rotation g = 1 \<and> fillRect canvas16_class 3 (- 2) 5 6 7 g = Some g' \<and> pixel16 g' 7 3 = 7"
proof -
  let ?g = "gfx_setRotation 1 (new_GFXcanvas16 True 20 10)"
  have ok: "canvas16_ok ?g" by (intro rotated_ok16) (simp add: fresh_ok16)
  have "rotation ?g = 1" "on_screen ?g 7 3"
    by (simp_all add: gfx_setRotation_def on_screen_def new_GFXcanvas16_def new_gfx_def int16_range_def)
  then show ?thesis using canvas_fillRect_exact [OF ok, of 3 "- 2" 5 6 7] by fastforce
qed

text \<open>The canvas of 16 bits per pixel computes the size of its buffer in 16 bits: up to 32767
  pixels the buffer is large enough, and every larger canvas gets a buffer that is too small,
  such that setting its last pixel writes outside. The screen of the station has 76800 pixels.\<close>

theorem canvas16_size_wraps:
  assumes "w \<le> 32767" "h \<le> 32767"
  shows "if uint w * uint h \<le> 32767 then canvas16_ok (new_GFXcanvas16 True w h)
    else canvas16_drawPixel (uint w - 1) (uint h - 1) color (new_GFXcanvas16 True w h) = None"
proof (cases "uint w * uint h \<le> 32767")
  case True
  then have "0 \<le> uint w * uint h * 2" "uint w * uint h * 2 < 65536" by (simp, linarith)
  then show ?thesis using True fresh_ok16 [OF assms] by simp
next
  case False
  have "uint w \<noteq> 0 \<and> uint h \<noteq> 0" using False by auto
  then have pos: "0 < uint w" "0 < uint h" using uint_ge_0 [of w] uint_ge_0 [of h] by linarith+
  have f: "dev (new_GFXcanvas16 True w h) = Some (replicate (nat ((uint w * uint h * 2) mod 65536) div 2) 0)"
    "raw_width (new_GFXcanvas16 True w h) = uint w" "raw_height (new_GFXcanvas16 True w h) = uint h"
    "width (new_GFXcanvas16 True w h) = uint w" "height (new_GFXcanvas16 True w h) = uint h"
    "rotation (new_GFXcanvas16 True w h) = 0"
    using fresh_shape(2,3) [OF assms] by (simp_all add: new_GFXcanvas16_def new_gfx_def Let_def)
  have "(uint w * uint h * 2) mod 65536 < 65536" by simp
  then have "nat ((uint w * uint h * 2) mod 65536) div 2 \<le> nat (uint w - 1 + (uint h - 1) * uint w)"
    using False by (simp add: algebra_simps)
  then show ?thesis
    using False pos by (simp add: canvas16_drawPixel_def f unrotate_def poke_buffer_def)
qed

theorem canvas16_size_wraps_witness:
  "canvas16_drawPixel 239 319 0 (new_GFXcanvas16 True 240 320) = None"
  using canvas16_size_wraps [of 240 320 0] by simp

end
