(* ===== verification/TextShapes.thy ===== *)
theory TextShapes
  imports Canvas
begin

text \<open>
  What a printed text looks like: on any surface that also fills rectangles, the characters of the
  built-in font appear as their dots, scaled by the text size, side by side from the cursor on.
\<close>

text \<open>The dots of a column, and of a character.\<close>

definition dot_area :: "int \<Rightarrow> int \<Rightarrow> int \<Rightarrow> int \<Rightarrow> int \<Rightarrow> (int \<times> int) set" where
  "dot_area x y sz i j = in_rect (x + i * sz) (y + j * sz) sz sz"

definition column_area :: "int \<Rightarrow> int \<Rightarrow> int \<Rightarrow> int \<Rightarrow> u8 \<Rightarrow> int list \<Rightarrow> (int \<times> int) set" where
  "column_area x y sz i line js = (\<Union>k \<in> {k. k < length js \<and> bit line k}. dot_area x y sz i (js ! k))"

lemma column_area_Cons:
  "column_area x y sz i line (j # js) =
     (if bit line 0 then dot_area x y sz i j else {}) \<union> column_area x y sz i (drop_bit 1 line) js"
proof -
  have "{k. k < length (j # js) \<and> bit line k} =
      (if bit line 0 then {0} else {}) \<union> Suc ` {k. k < length js \<and> bit (drop_bit 1 line) k}"
    by (auto simp: bit_drop_bit_eq image_iff gr0_conv_Suc less_Suc_eq_0_disj)
  then show ?thesis by (auto simp: column_area_def)
qed

text \<open>The dots of a character in the built-in font, with the gap of a column behind it.\<close>

definition font_index :: "bool \<Rightarrow> u8 \<Rightarrow> u8" where
  "font_index cp ch = (if \<not> cp \<and> ch \<ge> 176 then ch + 1 else ch)"

definition glyph_dot :: "u8 \<Rightarrow> int \<Rightarrow> int \<Rightarrow> bool" where
  "glyph_dot ch i j \<longleftrightarrow> 0 \<le> i \<and> i < 5 \<and> 0 \<le> j \<and> j < 8 \<and> bit (font ! (unat ch * 5 + nat i)) (nat j)"

definition char_area :: "int \<Rightarrow> int \<Rightarrow> int \<Rightarrow> u8 \<Rightarrow> (int \<times> int) set" where
  "char_area x y sz ch = {(p, q). glyph_dot ch ((p - x) div sz) ((q - y) div sz)}"

lemma in_dot_area:
  assumes "0 < sz"
  shows "(p, q) \<in> dot_area x y sz i j \<longleftrightarrow> (p - x) div sz = i \<and> (q - y) div sz = j"
proof -
  have "a \<le> b \<and> b < a + sz \<longleftrightarrow> (b - x) div sz = i" if "a = x + i * sz" for a b x i
  proof
    assume "a \<le> b \<and> b < a + sz"
    then show "(b - x) div sz = i"
      using that by (intro int_div_pos_eq [where r = "b - a"]) (auto simp: algebra_simps)
  next
    assume i: "(b - x) div sz = i"
    have "b - x = (b - x) div sz * sz + (b - x) mod sz" by (rule div_mult_mod_eq [symmetric])
    moreover have "0 \<le> (b - x) mod sz" "(b - x) mod sz < sz" using assms by simp_all
    ultimately show "a \<le> b \<and> b < a + sz" using that i by simp
  qed
  from this [OF refl] show ?thesis by (auto simp: dot_area_def in_rect_def)
qed

lemma char_area_columns:
  assumes "0 < sz"
  shows "(\<Union>i \<in> {0..5}. column_area x y sz i (if i < 5 then font ! (unat ch * 5 + nat i) else 0) [0..7]) =
    char_area x y sz ch"
proof -
  have "(p, q) \<in> column_area x y sz i line [0..7] \<longleftrightarrow>
      (p - x) div sz = i \<and> 0 \<le> (q - y) div sz \<and> (q - y) div sz < 8 \<and> bit line (nat ((q - y) div sz))" for p q i line
  proof -
    have "(p, q) \<in> column_area x y sz i line [0..7] \<longleftrightarrow>
        (\<exists>k < 8. bit line k \<and> (p - x) div sz = i \<and> (q - y) div sz = int k)"
      by (auto simp: column_area_def in_dot_area [OF assms])
    moreover have "(\<exists>k < 8. bit line k \<and> b \<and> a = int k) \<longleftrightarrow> b \<and> 0 \<le> a \<and> a < 8 \<and> bit line (nat a)" for a b
      by (auto intro: exI [of _ "nat a"])
    ultimately show ?thesis by simp
  qed
  then show ?thesis
    by (auto simp: char_area_def glyph_dot_def split: if_splits)
qed

text \<open>The dots of a text without line breaks.\<close>

fun text_area :: "int \<Rightarrow> int \<Rightarrow> int \<Rightarrow> bool \<Rightarrow> u8 list \<Rightarrow> (int \<times> int) set" where
  "text_area x y sz cp [] = {}"
| "text_area x y sz cp (ch # chs) = char_area x y sz (font_index cp ch) \<union> text_area (x + sz * 6) y sz cp chs"

locale drawing = surface "drawPixel c" pixel ink ok
  for c :: "'d gfx_class" and pixel :: "'d gfx \<Rightarrow> int \<Rightarrow> int \<Rightarrow> 'v" and ink ok +
  assumes fill_rect: "ok g \<Longrightarrow> 0 \<le> x \<Longrightarrow> x \<le> 10000 \<Longrightarrow> 0 \<le> y \<Longrightarrow> y \<le> 10000 \<Longrightarrow>
      1 \<le> w \<Longrightarrow> w \<le> 5000 \<Longrightarrow> 1 \<le> h \<Longrightarrow> h \<le> 5000 \<Longrightarrow>
      paints (fillRect c x y w h color) color (in_rect x y w h) g"
    and ok_cursor: "ok (g\<lparr>cursor_x := a, cursor_y := b\<rparr>) = ok g"
    and pixel_cursor: "pixel (g\<lparr>cursor_x := a, cursor_y := b\<rparr>) = pixel g"
begin

lemma paints_dot:
  assumes "ok g" "0 \<le> x" "x \<le> 5000" "0 \<le> y" "y \<le> 5000" "1 \<le> sz" "sz \<le> 255" "0 \<le> i" "i \<le> 8" "0 \<le> j" "j \<le> 8"
  shows "paints (char_dot c x y sz i j color) color (dot_area x y sz i j) g"
proof -
  have b: "0 \<le> i * sz" "i * sz \<le> 8 * 255" "0 \<le> j * sz" "j * sz \<le> 8 * 255"
    using assms mult_mono [of i 8 sz 255] mult_mono [of j 8 sz 255] by simp_all
  have "int16_range (x + i * sz)" "int16_range (y + j * sz)" "int16_range (x + i)" "int16_range (y + j)"
    unfolding int16_range_def using assms b by linarith+
  then have s: "s16 (x + i * sz) = x + i * sz" "s16 (y + j * sz) = y + j * sz" "s16 (x + i) = x + i" "s16 (y + j) = y + j"
    by simp_all
  show ?thesis
  proof (cases "sz = 1")
    case True
    then have "dot_area x y sz i j = {(x + i, y + j)}" by (auto simp: dot_area_def in_rect_def)
    moreover have "char_dot c x y sz i j color = drawPixel c (x + i) (y + j) color"
      by (simp add: fun_eq_iff char_dot_def True s)
    ultimately show ?thesis using paints_pixel [OF assms(1)] by simp
  next
    case False
    then have "char_dot c x y sz i j color = fillRect c (x + i * sz) (y + j * sz) sz sz color"
      by (simp add: fun_eq_iff char_dot_def s)
    then show ?thesis unfolding dot_area_def using assms b by (simp add: fill_rect)
  qed
qed

lemma paints_column:
  assumes "0 \<le> x" "x \<le> 5000" "0 \<le> y" "y \<le> 5000" "1 \<le> sz" "sz \<le> 255" "0 \<le> i" "i \<le> 8"
  shows "ok g \<Longrightarrow> set js \<subseteq> {0..8} \<Longrightarrow>
    paints (char_column c x y color color sz i js line) color (column_area x y sz i line js) g"
proof (induction js arbitrary: line g)
  case Nil
  then show ?case using paints_none [of g color] by (simp add: paints_def column_area_def)
next
  case (Cons j js)
  have rest: "paints (char_column c x y color color sz i js (drop_bit 1 line)) color
      (column_area x y sz i (drop_bit 1 line) js) g'" if "ok g'" for g'
    using Cons that by simp
  have bit0: "and line 1 \<noteq> 0 \<longleftrightarrow> bit line 0" by (simp add: bit_iff_and_push_bit_not_eq_0)
  have "paints (if bit line 0 then char_dot c x y sz i j color else Some) color
      (if bit line 0 then dot_area x y sz i j else {}) g"
    using paints_dot [OF Cons.prems(1) assms, of j color] paints_none [OF Cons.prems(1), of color] Cons.prems(2) by simp
  from paints_seq [OF this rest]
  show ?case
    unfolding column_area_Cons by (simp add: paints_def bit0 if_distrib [of "\<lambda>f. f _"] if_distribR cong: if_cong)
qed

lemma paints_columns:
  assumes "0 \<le> x" "x \<le> 5000" "0 \<le> y" "y \<le> 5000" "1 \<le> sz" "sz \<le> 255"
  shows "ok g \<Longrightarrow> set ks \<subseteq> {0..5} \<Longrightarrow> paints (char_columns c x y ch color color sz ks) color
    (\<Union>i \<in> set ks. column_area x y sz i (if i < 5 then font ! (unat ch * 5 + nat i) else 0) [0..7]) g"
proof (induction ks arbitrary: g)
  case Nil
  then show ?case using paints_none [of g color] by (simp add: paints_def)
next
  case (Cons i ks)
  let ?line = "if i < 5 then font ! (unat ch * 5 + nat i) else 0"
  have "paints (char_column c x y color color sz i [0..7] ?line) color (column_area x y sz i ?line [0..7]) g"
    using Cons.prems assms by (intro paints_column) auto
  moreover have "paints (char_columns c x y ch color color sz ks) color
      (\<Union>i \<in> set ks. column_area x y sz i (if i < 5 then font ! (unat ch * 5 + nat i) else 0) [0..7]) g'" if "ok g'" for g'
    using Cons that by simp
  ultimately show ?case by (simp add: paints_seq)
qed

text \<open>A character in the transparent mode; where it is clipped none of it is on the screen.\<close>

lemma paints_classic:
  assumes "ok g" "0 \<le> x" "x \<le> 5000" "0 \<le> y" "y \<le> 5000" "1 \<le> sz" "sz \<le> 255"
  shows "paints (classic_char c x y ch color color sz) color (char_area x y sz (font_index (use_cp437 g) ch)) g"
proof (cases "x \<ge> width g \<or> y \<ge> height g")
  case True
  have "\<not> on_screen g p q" if "(p, q) \<in> char_area x y sz ch'" for p q ch'
  proof -
    have "0 \<le> (p - x) div sz" "0 \<le> (q - y) div sz" using that by (auto simp: char_area_def glyph_dot_def)
    then have "x \<le> p" "y \<le> q" using assms(6) by (simp_all add: pos_imp_zdiv_nonneg_iff)
    then show ?thesis using True by (auto simp: on_screen_def)
  qed
  then show ?thesis
    using paints_none [OF assms(1), of color] True by (auto simp: paints_def classic_char_def)
next
  case False
  then have "classic_char c x y ch color color sz g =
      char_columns c x y (font_index (use_cp437 g) ch) color color sz [0..5] g"
    using assms by (simp add: classic_char_def font_index_def Let_def)
  moreover have "paints (char_columns c x y (font_index (use_cp437 g) ch) color color sz [0..5]) color
      (char_area x y sz (font_index (use_cp437 g) ch)) g"
    using paints_columns [OF assms(2-7) assms(1), of "[0..5]" "font_index (use_cp437 g) ch" color]
      char_area_columns [of sz x y "font_index (use_cp437 g) ch"] assms(6) by simp
  ultimately show ?thesis by (simp add: paints_def)
qed

lemma write_plain:
  assumes "ok g" "gfxFont g = None" "textbgcolor g = textcolor g" "1 \<le> textsize g" "textsize g \<le> 255"
    and "0 \<le> cursor_x g" "cursor_x g + textsize g * 6 < width g" "width g \<le> 5000" "0 \<le> cursor_y g" "cursor_y g \<le> 5000"
    and "ch \<noteq> 10" "ch \<noteq> 13"
  shows "\<exists>g'. gfx_write c ch g = Some (1, g') \<and> ok g' \<and> same_but_dev (g\<lparr>cursor_x := cursor_x g + textsize g * 6\<rparr>) g' \<and>
    (\<forall>p q. on_screen g p q \<longrightarrow> pixel g' p q =
      (if (p, q) \<in> char_area (cursor_x g) (cursor_y g) (textsize g) (font_index (use_cp437 g) ch)
       then ink (textcolor g) else pixel g p q))"
proof -
  have x: "cursor_x g \<le> 5000" "int16_range (cursor_x g + textsize g * 6)"
    using assms(4-8) by (auto simp: int16_range_def)
  obtain g1 where g1: "draw_at_cursor c ch g = Some g1" "ok g1" "same_but_dev g g1"
    "\<forall>p q. on_screen g p q \<longrightarrow> pixel g1 p q =
      (if (p, q) \<in> char_area (cursor_x g) (cursor_y g) (textsize g) (font_index (use_cp437 g) ch)
       then ink (textcolor g) else pixel g p q)"
    using paints_classic [OF assms(1,6) x(1) assms(9,10,4,5), of ch "textcolor g"]
    by (auto simp: paints_def draw_at_cursor_def drawChar_def assms(2,3))
  have f: "cursor_x g1 = cursor_x g" "textsize g1 = textsize g" using same_but_dev_fields [OF g1(3)] by simp_all
  have "gfx_write c ch g = Some (1, g1\<lparr>cursor_x := cursor_x g + textsize g * 6\<rparr>)"
    using assms(2,7,11,12) g1(1) x(2) by (simp add: gfx_write_def Let_def f)
  moreover have "ok (g1\<lparr>cursor_x := a\<rparr>)" "pixel (g1\<lparr>cursor_x := a\<rparr>) = pixel g1" for a
    using g1(2) ok_cursor [where g = g1 and a = a and b = "cursor_y g1"] pixel_cursor [where g = g1 and a = a and b = "cursor_y g1"] by simp_all
  moreover have "same_but_dev (g\<lparr>cursor_x := a\<rparr>) (g1\<lparr>cursor_x := a\<rparr>)" for a
  proof -
    obtain d where "g1 = g\<lparr>dev := d\<rparr>" using g1(3) by (auto simp: same_but_dev_def)
    then show ?thesis by (simp add: same_but_dev_def)
  qed
  ultimately show ?thesis
    by (intro exI [of _ "g1\<lparr>cursor_x := cursor_x g + textsize g * 6\<rparr>"] conjI) (use g1(4) in simp_all)
qed

lemma write_chars:
  assumes "ok g" "gfxFont g = None" "textbgcolor g = textcolor g" "1 \<le> textsize g" "textsize g \<le> 255"
    and "0 \<le> cursor_x g" "cursor_x g + textsize g * 6 * int (length chs) < width g" "width g \<le> 5000"
    and "0 \<le> cursor_y g" "cursor_y g \<le> 5000" "10 \<notin> set chs" "13 \<notin> set chs"
  shows "\<exists>g'. print_buffer (gfx_write c) chs g = Some (length chs, g') \<and> ok g' \<and>
    same_but_dev (g\<lparr>cursor_x := cursor_x g + textsize g * 6 * int (length chs)\<rparr>) g' \<and>
    (\<forall>p q. on_screen g p q \<longrightarrow> pixel g' p q =
      (if (p, q) \<in> text_area (cursor_x g) (cursor_y g) (textsize g) (use_cp437 g) chs
       then ink (textcolor g) else pixel g p q))"
  using assms
proof (induction chs arbitrary: g)
  case Nil
  then show ?case by (auto simp: same_but_dev_def)
next
  case (Cons ch chs)
  have room: "cursor_x g + textsize g * 6 + textsize g * 6 * int (length chs) < width g"
    using Cons.prems(7) by (simp add: algebra_simps)
  moreover have "0 \<le> textsize g * 6 * int (length chs)" using Cons.prems(4) by simp
  ultimately have "cursor_x g + textsize g * 6 < width g" by linarith
  with write_plain [OF Cons.prems(1-6) _ Cons.prems(8-10), of ch] Cons.prems(11,12)
  obtain g1 where g1: "gfx_write c ch g = Some (1, g1)" "ok g1"
    "same_but_dev (g\<lparr>cursor_x := cursor_x g + textsize g * 6\<rparr>) g1"
    "\<forall>p q. on_screen g p q \<longrightarrow> pixel g1 p q =
      (if (p, q) \<in> char_area (cursor_x g) (cursor_y g) (textsize g) (font_index (use_cp437 g) ch)
       then ink (textcolor g) else pixel g p q)"
    by auto
  obtain d where g1d: "g1 = g\<lparr>cursor_x := cursor_x g + textsize g * 6, dev := d\<rparr>"
    using g1(3) by (auto simp: same_but_dev_def)
  then have f: "gfxFont g1 = None" "textbgcolor g1 = textcolor g1" "textsize g1 = textsize g" "width g1 = width g"
    "cursor_x g1 = cursor_x g + textsize g * 6" "cursor_y g1 = cursor_y g" "textcolor g1 = textcolor g"
    "use_cp437 g1 = use_cp437 g" "on_screen g1 = on_screen g"
    using Cons.prems(2,3) by (simp_all add: on_screen_def fun_eq_iff)
  have "0 \<le> cursor_x g + textsize g * 6" using Cons.prems(4,6) by simp
  with Cons.IH [OF g1(2) f(1,2), unfolded f] Cons.prems room obtain g2 where g2:
    "print_buffer (gfx_write c) chs g1 = Some (length chs, g2)" "ok g2"
    "same_but_dev (g1\<lparr>cursor_x := cursor_x g + textsize g * 6 + textsize g * 6 * int (length chs)\<rparr>) g2"
    "\<forall>p q. on_screen g p q \<longrightarrow> pixel g2 p q =
      (if (p, q) \<in> text_area (cursor_x g + textsize g * 6) (cursor_y g) (textsize g) (use_cp437 g) chs
       then ink (textcolor g) else pixel g1 p q)"
    by auto
  have "same_but_dev (g\<lparr>cursor_x := cursor_x g + textsize g * 6 * int (length (ch # chs))\<rparr>) g2"
    using g2(3) by (simp add: g1d same_but_dev_def algebra_simps)
  then show ?case
    using g1(1,4) g2(1,2,4) by (intro exI [of _ g2]) auto
qed

lemma print_text:
  assumes "ok g" "gfxFont g = None" "textbgcolor g = textcolor g" "1 \<le> textsize g" "textsize g \<le> 255"
    and "0 \<le> cursor_x g" "cursor_x g + textsize g * 6 * int (length str) < width g" "width g \<le> 5000"
    and "0 \<le> cursor_y g" "cursor_y g \<le> 5000" "10 \<notin> set (char_bytes str)" "13 \<notin> set (char_bytes str)"
  shows "\<exists>g'. gfx_print c str g = Some g' \<and> ok g' \<and>
    same_but_dev (g\<lparr>cursor_x := cursor_x g + textsize g * 6 * int (length str)\<rparr>) g' \<and>
    (\<forall>p q. on_screen g p q \<longrightarrow> pixel g' p q =
      (if (p, q) \<in> text_area (cursor_x g) (cursor_y g) (textsize g) (use_cp437 g) (char_bytes str)
       then ink (textcolor g) else pixel g p q))"
  using write_chars [OF assms(1-6), of "char_bytes str"] assms(7-12)
  by (auto simp: gfx_print_def print_string_def char_bytes_def)

end

section \<open>Text on the canvases\<close>

lemma canvas_methods:
  "drawPixel canvas16_class = canvas16_drawPixel" "drawPixel canvas1_class = canvas1_drawPixel"
  "fillRect canvas16_class = gfx_fillRect (gfx_drawFastVLine canvas16_drawPixel)"
  "fillRect canvas1_class = gfx_fillRect (gfx_drawFastVLine canvas1_drawPixel)"
  by (simp_all add: canvas16_class_def canvas1_class_def base_class_def Let_def)

lemma canvas_cursor:
  "canvas16_ok (g\<lparr>cursor_x := a, cursor_y := b\<rparr>) = canvas16_ok g" "pixel16 (g\<lparr>cursor_x := a, cursor_y := b\<rparr>) = pixel16 g"
  "canvas1_ok (h\<lparr>cursor_x := a, cursor_y := b\<rparr>) = canvas1_ok h" "pixel1 (h\<lparr>cursor_x := a, cursor_y := b\<rparr>) = pixel1 h"
  by (simp_all add: canvas16_ok_def canvas1_ok_def canvas_shape_def row_bytes_def pixel16_def pixel1_def cell16_def
      cell1_def place1_def unrotate_def fun_eq_iff cong: option.case_cong)

interpretation canvas16_text: drawing canvas16_class pixel16 "\<lambda>color. color" canvas16_ok
proof (unfold_locales, goal_cases)
  case (1 g x y color)
  then show ?case using canvas16_set_pixel by (simp add: canvas_methods)
next
  case (2 g x y w h color)
  then show ?case unfolding canvas_methods by (intro canvas16.paints_rect) (auto simp: near_def)
qed (simp_all add: canvas_cursor)

interpretation canvas1_text: drawing canvas1_class pixel1 "\<lambda>color. color \<noteq> 0" canvas1_ok
proof (unfold_locales, goal_cases)
  case (1 g x y color)
  then show ?case using canvas1_set_pixel by (simp add: canvas_methods)
next
  case (2 g x y w h color)
  then show ?case unfolding canvas_methods by (intro canvas1.paints_rect) (auto simp: near_def)
qed (simp_all add: canvas_cursor)

end
