(* ===== verification/Ili9341.thy ===== *)
theory Ili9341
  imports GfxText
begin

text \<open>
  The driver of the TFT screen, \<^verbatim>\<open>esp8266_sim/Adafruit_ILI9341.cpp\<close>, as built for the ESP8266
  (no direct port access, SPI transactions): every operation is what it puts on the pins and on
  the SPI bus. What the screen answers on a read is an argument.
\<close>

section \<open>The bus\<close>

datatype bus_event =
    PinMode int bool
  | DigitalWrite int bool
  | SpiStart
  | SpiBegin
  | SpiEnd
  | Transfer u8
  | Delay nat

record ili =
  hwSPI :: bool
  cs :: int
  dc :: int
  mosi :: int
  miso :: int
  sclk :: int
  rst :: int
  bus :: "bus_event list"

definition ILI9341_TFTWIDTH :: int where "ILI9341_TFTWIDTH = 240"
definition ILI9341_TFTHEIGHT :: int where "ILI9341_TFTHEIGHT = 320"
definition ILI9341_CASET :: u8 where "ILI9341_CASET = 0x2A"
definition ILI9341_PASET :: u8 where "ILI9341_PASET = 0x2B"
definition ILI9341_RAMWR :: u8 where "ILI9341_RAMWR = 0x2C"
definition ILI9341_MADCTL :: u8 where "ILI9341_MADCTL = 0x36"
definition ILI9341_INVOFF :: u8 where "ILI9341_INVOFF = 0x20"
definition ILI9341_INVON :: u8 where "ILI9341_INVON = 0x21"

text \<open>The two constructors; with hardware SPI \<open>_miso\<close> is left as it is in memory.\<close>

definition new_ILI9341_soft :: "int \<Rightarrow> int \<Rightarrow> int \<Rightarrow> int \<Rightarrow> int \<Rightarrow> int \<Rightarrow> ili gfx" where
  "new_ILI9341_soft cs_pin dc_pin mosi_pin sclk_pin rst_pin miso_pin =
     new_gfx ILI9341_TFTWIDTH ILI9341_TFTHEIGHT
       \<lparr>hwSPI = False, cs = cs_pin, dc = dc_pin, mosi = mosi_pin, miso = miso_pin, sclk = sclk_pin,
        rst = rst_pin, bus = []\<rparr>"

definition new_ILI9341 :: "int \<Rightarrow> int \<Rightarrow> int \<Rightarrow> int \<Rightarrow> ili gfx" where
  "new_ILI9341 miso_memory cs_pin dc_pin rst_pin =
     new_gfx ILI9341_TFTWIDTH ILI9341_TFTHEIGHT
       \<lparr>hwSPI = True, cs = cs_pin, dc = dc_pin, mosi = 0, miso = miso_memory, sclk = 0,
        rst = rst_pin, bus = []\<rparr>"

definition emit :: "bus_event list \<Rightarrow> ili gfx \<Rightarrow> ili gfx" where
  "emit es g = g\<lparr>dev := (dev g)\<lparr>bus := bus (dev g) @ es\<rparr>\<rparr>"

definition digitalWrite :: "int \<Rightarrow> bool \<Rightarrow> ili gfx \<Rightarrow> ili gfx" where
  "digitalWrite pin v g = emit [DigitalWrite pin v] g"

definition spi_begin :: "ili gfx \<Rightarrow> ili gfx" where
  "spi_begin g = (if hwSPI (dev g) then emit [SpiBegin] g else g)"

definition spi_end :: "ili gfx \<Rightarrow> ili gfx" where
  "spi_end g = (if hwSPI (dev g) then emit [SpiEnd] g else g)"

text \<open>One byte: a transfer, or eight bits clocked out by hand, the highest first.\<close>

definition spiwrite :: "u8 \<Rightarrow> ili gfx \<Rightarrow> ili gfx" where
  "spiwrite c g =
     (if hwSPI (dev g) then emit [Transfer c] g
      else fold (\<lambda>n g. digitalWrite (sclk (dev g)) False (digitalWrite (sclk (dev g)) True
                         (digitalWrite (mosi (dev g)) (bit c n) g)))
             [7, 6, 5, 4, 3, 2, 1, 0] g)"

definition writecommand :: "u8 \<Rightarrow> ili gfx \<Rightarrow> ili gfx" where
  "writecommand c g =
     (let d = dev g; g = digitalWrite (dc d) False g;
          g = digitalWrite (sclk d) False g;
          g = digitalWrite (cs d) False g;
          g = spiwrite c g
      in digitalWrite (cs d) True g)"

definition writedata :: "u8 \<Rightarrow> ili gfx \<Rightarrow> ili gfx" where
  "writedata c g =
     (let d = dev g; g = digitalWrite (dc d) True g;
          g = digitalWrite (cs d) False g;
          g = spiwrite c g
      in digitalWrite (cs d) True g)"

text \<open>A list of commands in flash memory, read from \<open>addr\<close> on; it may end too early.\<close>

fun list_args :: "nat \<Rightarrow> u8 list \<Rightarrow> ili gfx \<Rightarrow> (u8 list \<times> ili gfx) option" where
  "list_args 0 addr g = Some (addr, g)"
| "list_args (Suc n) [] g = None"
| "list_args (Suc n) (b # addr) g = list_args n addr (writedata b g)"

fun list_commands :: "nat \<Rightarrow> u8 list \<Rightarrow> ili gfx \<Rightarrow> ili gfx option" where
  "list_commands 0 addr g = Some g"
| "list_commands (Suc n) (c # numArgs # addr) g =
     do { (addr, g) \<leftarrow> list_args (unat (and numArgs 0x7F)) addr (writecommand c g);
          if and numArgs 0x80 \<noteq> 0
          then (case addr of
                  [] \<Rightarrow> None
                | ms # addr \<Rightarrow> list_commands n addr (emit [Delay (if ms = 255 then 500 else unat ms)] g))
          else list_commands n addr g }"
| "list_commands (Suc n) _ g = None"

definition commandList :: "u8 list \<Rightarrow> ili gfx \<Rightarrow> ili gfx option" where
  "commandList addr g = (case addr of [] \<Rightarrow> None | n # addr \<Rightarrow> list_commands (unat n) addr g)"

section \<open>Start\<close>

text \<open>The commands that set the screen up, each with its data.\<close>

definition init_commands :: "(u8 \<times> u8 list) list" where
  "init_commands =
     [(0xEF, [0x03, 0x80, 0x02]),
      (0xCF, [0x00, 0xC1, 0x30]),
      (0xED, [0x64, 0x03, 0x12, 0x81]),
      (0xE8, [0x85, 0x00, 0x78]),
      (0xCB, [0x39, 0x2C, 0x00, 0x34, 0x02]),
      (0xF7, [0x20]),
      (0xEA, [0x00, 0x00]),
      (0xC0, [0x23]),
      (0xC1, [0x10]),
      (0xC5, [0x3e, 0x28]),
      (0xC7, [0x86]),
      (0x36, [0x48]),
      (0x3A, [0x55]),
      (0xB1, [0x00, 0x18]),
      (0xB6, [0x08, 0x82, 0x27]),
      (0xF2, [0x00]),
      (0x26, [0x01]),
      (0xE0, [0x0F, 0x31, 0x2B, 0x0C, 0x0E, 0x08, 0x4E, 0xF1, 0x37, 0x07, 0x10, 0x03, 0x0E, 0x09, 0x00]),
      (0xE1, [0x00, 0x0E, 0x14, 0x03, 0x11, 0x07, 0x31, 0xC1, 0x48, 0x08, 0x0F, 0x0C, 0x31, 0x36, 0x0F]),
      (0x11, [])]"

definition send_command :: "u8 \<times> u8 list \<Rightarrow> ili gfx \<Rightarrow> ili gfx" where
  "send_command cmd g = fold writedata (snd cmd) (writecommand (fst cmd) g)"

definition ili_begin :: "ili gfx \<Rightarrow> ili gfx" where
  "ili_begin g =
     (let d = dev g;
          g = (if rst d > 0 then digitalWrite (rst d) False (emit [PinMode (rst d) True] g) else g);
          g = emit [PinMode (dc d) True, PinMode (cs d) True] g;
          g = (if hwSPI d then emit [SpiStart] g
               else emit [PinMode (sclk d) True, PinMode (mosi d) True, PinMode (miso d) False] g);
          g = (if rst d > 0
               then emit [DigitalWrite (rst d) True, Delay 5, DigitalWrite (rst d) False, Delay 20,
                          DigitalWrite (rst d) True, Delay 150] g
               else g);
          g = spi_begin g;
          g = fold send_command init_commands g;
          g = spi_end g;
          g = emit [Delay 120] g;
          g = spi_begin g;
          g = writecommand 0x29 g
      in spi_end g)"

section \<open>Drawing\<close>

definition high_byte :: "u16 \<Rightarrow> u8" where "high_byte c = ucast (drop_bit 8 c)"
definition low_byte :: "u16 \<Rightarrow> u8" where "low_byte c = ucast c"

definition setAddrWindow :: "u16 \<Rightarrow> u16 \<Rightarrow> u16 \<Rightarrow> u16 \<Rightarrow> ili gfx \<Rightarrow> ili gfx" where
  "setAddrWindow x0 y0 x1 y1 g =
     (let g = writecommand ILI9341_CASET g;
          g = fold writedata [high_byte x0, low_byte x0, high_byte x1, low_byte x1] g;
          g = writecommand ILI9341_PASET g;
          g = fold writedata [high_byte y0, low_byte y0, high_byte y1, low_byte y1] g
      in writecommand ILI9341_RAMWR g)"

text \<open>The bytes of \<open>n\<close> pixels in one go.\<close>

definition push_pixels :: "nat \<Rightarrow> u16 \<Rightarrow> ili gfx \<Rightarrow> ili gfx" where
  "push_pixels n color g =
     (let d = dev g; g = digitalWrite (dc d) True g;
          g = digitalWrite (cs d) False g;
          g = ((\<lambda>g. spiwrite (low_byte color) (spiwrite (high_byte color) g)) ^^ n) g
      in digitalWrite (cs d) True g)"

definition pushColor :: "u16 \<Rightarrow> ili gfx \<Rightarrow> ili gfx" where
  "pushColor color g = spi_end (push_pixels 1 color (spi_begin g))"

definition ili_drawPixel :: "int \<Rightarrow> int \<Rightarrow> u16 \<Rightarrow> ili gfx \<Rightarrow> ili gfx option" where
  "ili_drawPixel x y color g =
     Some (if x < 0 \<or> x \<ge> width g \<or> y < 0 \<or> y \<ge> height g then g
           else (let g = spi_begin g;
                     g = setAddrWindow (word_of_int x) (word_of_int y) (word_of_int (x + 1)) (word_of_int (y + 1)) g
                 in spi_end (push_pixels 1 color g)))"

text \<open>\<open>while (h--)\<close> on a 16-bit \<open>h\<close> runs \<open>h\<close> times, modulo 65536.\<close>

definition ili_drawFastVLine :: "int \<Rightarrow> int \<Rightarrow> int \<Rightarrow> u16 \<Rightarrow> ili gfx \<Rightarrow> ili gfx option" where
  "ili_drawFastVLine x y h color g =
     Some (if x \<ge> width g \<or> y \<ge> height g then g
           else (let h = (if y + h - 1 \<ge> height g then s16 (height g - y) else h);
                     g = spi_begin g;
                     g = setAddrWindow (word_of_int x) (word_of_int y) (word_of_int x) (word_of_int (y + h - 1)) g
                 in spi_end (push_pixels (nat (h mod 65536)) color g)))"

definition ili_drawFastHLine :: "int \<Rightarrow> int \<Rightarrow> int \<Rightarrow> u16 \<Rightarrow> ili gfx \<Rightarrow> ili gfx option" where
  "ili_drawFastHLine x y w color g =
     Some (if x \<ge> width g \<or> y \<ge> height g then g
           else (let w = (if x + w - 1 \<ge> width g then s16 (width g - x) else w);
                     g = spi_begin g;
                     g = setAddrWindow (word_of_int x) (word_of_int y) (word_of_int (x + w - 1)) (word_of_int y) g
                 in spi_end (push_pixels (nat (w mod 65536)) color g)))"

definition ili_fillRect :: "int \<Rightarrow> int \<Rightarrow> int \<Rightarrow> int \<Rightarrow> u16 \<Rightarrow> ili gfx \<Rightarrow> ili gfx option" where
  "ili_fillRect x y w h color g =
     Some (if x \<ge> width g \<or> y \<ge> height g then g
           else (let w = (if x + w - 1 \<ge> width g then s16 (width g - x) else w);
                     h = (if y + h - 1 \<ge> height g then s16 (height g - y) else h);
                     g = spi_begin g;
                     g = setAddrWindow (word_of_int x) (word_of_int y)
                           (word_of_int (x + w - 1)) (word_of_int (y + h - 1)) g
                 in spi_end (push_pixels (nat h * nat w) color g)))"

definition ili_fillScreen :: "u16 \<Rightarrow> ili gfx \<Rightarrow> ili gfx option" where
  "ili_fillScreen color g = ili_fillRect 0 0 (width g) (height g) color g"

definition ili_class :: "ili gfx_class" where
  "ili_class = \<lparr>drawPixel = ili_drawPixel, drawFastVLine = ili_drawFastVLine,
     drawFastHLine = ili_drawFastHLine, fillRect = ili_fillRect, fillScreen = ili_fillScreen\<rparr>"

definition color565 :: "u8 \<Rightarrow> u8 \<Rightarrow> u8 \<Rightarrow> u16" where
  "color565 r g b =
     or (or (push_bit 8 (and (ucast r) 0xF8)) (push_bit 3 (and (ucast g) 0xFC))) (drop_bit 3 (ucast b))"

definition ili_setRotation :: "u8 \<Rightarrow> ili gfx \<Rightarrow> ili gfx" where
  "ili_setRotation m g =
     (let g = writecommand ILI9341_MADCTL (spi_begin g);
          g = g\<lparr>rotation := unat m mod 4\<rparr>;
          g = (if rotation g = 0 then (writedata 0x48 g)\<lparr>width := ILI9341_TFTWIDTH, height := ILI9341_TFTHEIGHT\<rparr>
               else if rotation g = 1 then (writedata 0x28 g)\<lparr>width := ILI9341_TFTHEIGHT, height := ILI9341_TFTWIDTH\<rparr>
               else if rotation g = 2 then (writedata 0x88 g)\<lparr>width := ILI9341_TFTWIDTH, height := ILI9341_TFTHEIGHT\<rparr>
               else (writedata 0xE8 g)\<lparr>width := ILI9341_TFTHEIGHT, height := ILI9341_TFTWIDTH\<rparr>)
      in spi_end g)"

definition ili_invertDisplay :: "bool \<Rightarrow> ili gfx \<Rightarrow> ili gfx" where
  "ili_invertDisplay i g = spi_end (writecommand (if i then ILI9341_INVON else ILI9341_INVOFF) (spi_begin g))"

section \<open>Reading\<close>

text \<open>\<open>answer\<close> is the byte, or for the clocked bus the level of the pin, that the screen gives
  after what was on the bus so far.\<close>

fun read_bits :: "(bus_event list \<Rightarrow> bool) \<Rightarrow> nat \<Rightarrow> u8 \<Rightarrow> ili gfx \<Rightarrow> u8 \<times> ili gfx" where
  "read_bits level 0 r g = (r, g)"
| "read_bits level (Suc n) r g =
     (let g = digitalWrite (sclk (dev g)) False g;
          g = digitalWrite (sclk (dev g)) True g;
          r = push_bit 1 r
      in read_bits level n (if level (bus (dev g)) then or r 1 else r) g)"

definition spiread :: "(bus_event list \<Rightarrow> u8) \<Rightarrow> (bus_event list \<Rightarrow> bool) \<Rightarrow> ili gfx \<Rightarrow> u8 \<times> ili gfx" where
  "spiread answer level g =
     (if hwSPI (dev g) then (let g = emit [Transfer 0] g in (answer (bus (dev g)), g))
      else read_bits level 8 0 g)"

definition readdata :: "(bus_event list \<Rightarrow> u8) \<Rightarrow> (bus_event list \<Rightarrow> bool) \<Rightarrow> ili gfx \<Rightarrow> u8 \<times> ili gfx" where
  "readdata answer level g =
     (let d = dev g;
          g = digitalWrite (cs d) False (digitalWrite (dc d) True g);
          (r, g) = spiread answer level g
      in (r, digitalWrite (cs d) True g))"

definition readcommand8 ::
    "(bus_event list \<Rightarrow> u8) \<Rightarrow> (bus_event list \<Rightarrow> bool) \<Rightarrow> u8 \<Rightarrow> u8 \<Rightarrow> ili gfx \<Rightarrow> u8 \<times> ili gfx" where
  "readcommand8 answer level c index g =
     (let d = dev g;
          g = spi_begin g;
          g = digitalWrite (cs d) False (digitalWrite (dc d) False g);
          g = spiwrite 0xD9 g;
          g = digitalWrite (dc d) True g;
          g = spiwrite (0x10 + index) g;
          g = digitalWrite (cs d) True g;
          g = digitalWrite (dc d) False g;
          g = digitalWrite (sclk d) False g;
          g = digitalWrite (cs d) False g;
          g = spiwrite c g;
          g = digitalWrite (dc d) True g;
          (r, g) = spiread answer level g;
          g = digitalWrite (cs d) True g
      in (r, spi_end g))"

end
