(* ===== verification/IliScreen.thy ===== *)
theory IliScreen
  imports TextShapes Ili9341
begin

text \<open>
  The TFT screen as a drawing surface: what the driver puts on the bus, seen from the screen, and
  the contract of the screen's controller, which is not part of the sources: after a window has been
  set, colours fill it row by row. Any controller that keeps this contract shows what the
  drawing library draws.
\<close>

section \<open>What the screen hears\<close>

text \<open>The bytes transferred while the chip is selected, each with the level of the data pin.\<close>

fun heard :: "int \<Rightarrow> int \<Rightarrow> bool \<times> bool \<Rightarrow> bus_event list \<Rightarrow> (bool \<times> u8) list" where
  "heard d c st [] = []"
| "heard d c (dl, cl) (DigitalWrite p v # es) = heard d c (if p = d then v else dl, if p = c then v else cl) es"
| "heard d c (dl, cl) (Transfer b # es) = (if cl then heard d c (dl, cl) es else (dl, b) # heard d c (dl, cl) es)"
| "heard d c st (e # es) = heard d c st es"

fun levels :: "int \<Rightarrow> int \<Rightarrow> bool \<times> bool \<Rightarrow> bus_event list \<Rightarrow> bool \<times> bool" where
  "levels d c st [] = st"
| "levels d c (dl, cl) (DigitalWrite p v # es) = levels d c (if p = d then v else dl, if p = c then v else cl) es"
| "levels d c st (e # es) = levels d c st es"

lemma heard_append: "heard d c st (es @ es') = heard d c st es @ heard d c (levels d c st es) es'"
  by (induction d c st es rule: heard.induct) auto

definition sent :: "ili gfx \<Rightarrow> (bool \<times> u8) list" where
  "sent g = heard (dc (dev g)) (cs (dev g)) (True, True) (bus (dev g))"

text \<open>Hardware SPI, on two different pins.\<close>

definition wired :: "ili gfx \<Rightarrow> bool" where
  "wired g \<longleftrightarrow> hwSPI (dev g) \<and> dc (dev g) \<noteq> cs (dev g)"

text \<open>An operation that only sends: it appends to the bus, and the screen hears the bytes.\<close>

definition sends :: "(ili gfx \<Rightarrow> ili gfx) \<Rightarrow> (bool \<times> u8) list \<Rightarrow> ili gfx \<Rightarrow> bool" where
  "sends f bs g \<longleftrightarrow> (\<exists>es. f g = emit es g) \<and> sent (f g) = sent g @ bs"

lemma emit_emit [simp]: "emit es' (emit es g) = emit (es @ es') g"
  by (simp add: emit_def)

lemma emit_fields [simp]:
  "hwSPI (dev (emit es g)) = hwSPI (dev g)" "dc (dev (emit es g)) = dc (dev g)" "cs (dev (emit es g)) = cs (dev g)"
  "sclk (dev (emit es g)) = sclk (dev g)" "wired (emit es g) = wired g" "width (emit es g) = width g" "height (emit es g) = height g"
  by (simp_all add: emit_def wired_def)

lemma sent_emit:
  "sent (emit es g) = sent g @ heard (dc (dev g)) (cs (dev g)) (levels (dc (dev g)) (cs (dev g)) (True, True) (bus (dev g))) es"
  by (simp add: sent_def emit_def heard_append)

lemma sends_seq:
  assumes "sends f bs g" "\<And>g'. wired g' = wired g \<Longrightarrow> sends h bs' g'"
  shows "sends (\<lambda>g. h (f g)) (bs @ bs') g"
proof -
  obtain es where es: "f g = emit es g" "sent (f g) = sent g @ bs" using assms(1) by (auto simp: sends_def)
  have "sends h bs' (f g)" by (rule assms(2)) (simp add: es(1))
  then show ?thesis using es by (auto simp: sends_def)
qed

lemma sends_command: "wired g \<Longrightarrow> sends (writecommand c) [(False, c)] g"
  by (cases "levels (dc (dev g)) (cs (dev g)) (True, True) (bus (dev g))")
     (auto simp: sends_def writecommand_def digitalWrite_def spiwrite_def Let_def sent_emit wired_def)

lemma sends_data: "wired g \<Longrightarrow> sends (writedata c) [(True, c)] g"
  by (cases "levels (dc (dev g)) (cs (dev g)) (True, True) (bus (dev g))")
     (auto simp: sends_def writedata_def digitalWrite_def spiwrite_def Let_def sent_emit wired_def)

lemma sends_frame: "sends spi_begin [] g" "sends spi_end [] g"
  by (cases "levels (dc (dev g)) (cs (dev g)) (True, True) (bus (dev g))";
      auto simp: sends_def spi_begin_def spi_end_def sent_emit intro: exI [of _ "[]"]; simp add: emit_def)+

lemma sends_data_list: "wired g \<Longrightarrow> sends (fold writedata bs) (map (Pair True) bs) g"
proof (induction bs arbitrary: g)
  case Nil
  then show ?case by (auto simp: sends_def emit_def intro!: exI [of _ "[]"])
next
  case (Cons b bs)
  have "sends (\<lambda>g. fold writedata bs (writedata b g)) ([(True, b)] @ map (Pair True) bs) g"
    using Cons by (intro sends_seq sends_data) simp_all
  then show ?case by (simp add: o_def)
qed

lemma spiwrites: 
  "wired g \<Longrightarrow> ((\<lambda>g. spiwrite (low_byte color) (spiwrite (high_byte color) g)) ^^ n) g =
     emit (concat (replicate n [Transfer (high_byte color), Transfer (low_byte color)])) g"
proof (induction n)
  case (Suc n)
  have "concat (replicate n [a, b]) @ [a, b] = [a, b] @ concat (replicate n [a, b])" for a b :: bus_event
    by (induction n) simp_all
  then show ?case using Suc by (simp add: spiwrite_def wired_def)
qed (simp add: emit_def)

definition color_bytes :: "u16 \<Rightarrow> (bool \<times> u8) list" where
  "color_bytes color = [(True, high_byte color), (True, low_byte color)]"

lemma sends_pixels: "wired g \<Longrightarrow> sends (push_pixels n color) (concat (replicate n (color_bytes color))) g"
proof -
  assume w: "wired g"
  have heard: "heard d c (True, False) (concat (replicate n [Transfer a, Transfer b]) @ es) =
      concat (replicate n [(True, a), (True, b)]) @ heard d c (True, False) es" for d c a b es
    by (induction n) simp_all
  show ?thesis using w
    by (cases "levels (dc (dev g)) (cs (dev g)) (True, True) (bus (dev g))")
       (auto simp: sends_def push_pixels_def digitalWrite_def Let_def spiwrites sent_emit heard color_bytes_def wired_def)
qed

definition window_bytes :: "u16 \<Rightarrow> u16 \<Rightarrow> u16 \<Rightarrow> u16 \<Rightarrow> (bool \<times> u8) list" where
  "window_bytes x0 y0 x1 y1 =
     (False, ILI9341_CASET) # map (Pair True) [high_byte x0, low_byte x0, high_byte x1, low_byte x1] @
     (False, ILI9341_PASET) # map (Pair True) [high_byte y0, low_byte y0, high_byte y1, low_byte y1] @
     [(False, ILI9341_RAMWR)]"

lemma sends_window: "wired g \<Longrightarrow> sends (setAddrWindow x0 y0 x1 y1) (window_bytes x0 y0 x1 y1) g"
proof -
  assume w: "wired g"
  let ?data = "\<lambda>a b. [high_byte a, low_byte a, high_byte b, low_byte b]"
  let ?axis = "\<lambda>cmd a b g. fold writedata (?data a b) (writecommand cmd g)"
  have axis: "sends (?axis cmd a b) ([(False, cmd)] @ map (Pair True) (?data a b)) g" if "wired g" for cmd a b g
    using that by (intro sends_seq sends_command sends_data_list) simp_all
  have "sends (\<lambda>g. writecommand ILI9341_RAMWR (?axis ILI9341_PASET y0 y1 (?axis ILI9341_CASET x0 x1 g)))
      (([(False, ILI9341_CASET)] @ map (Pair True) (?data x0 x1)) @
       ([(False, ILI9341_PASET)] @ map (Pair True) (?data y0 y1)) @ [(False, ILI9341_RAMWR)]) g"
    using w by (intro sends_seq [OF axis] sends_seq [OF axis, where h = "writecommand ILI9341_RAMWR"] sends_command) simp_all
  then show ?thesis by (simp add: setAddrWindow_def [abs_def] Let_def window_bytes_def)
qed

lemma sends_area:
  assumes "wired g"
  shows "sends (\<lambda>g. spi_end (push_pixels n color (setAddrWindow x0 y0 x1 y1 (spi_begin g))))
    (window_bytes x0 y0 x1 y1 @ concat (replicate n (color_bytes color))) g"
proof -
  have "sends (\<lambda>g. spi_end (push_pixels n color (setAddrWindow x0 y0 x1 y1 (spi_begin g))))
      ([] @ window_bytes x0 y0 x1 y1 @ concat (replicate n (color_bytes color)) @ []) g"
    using assms
    by (intro sends_seq [OF sends_frame(1)] sends_seq [OF sends_window, where h = "\<lambda>g. spi_end (push_pixels n color g)"]
        sends_seq [OF sends_pixels] sends_frame(2)) simp_all
  then show ?thesis by simp
qed

section \<open>The contract of the controller\<close>

text \<open>\<open>ram hist\<close> is the picture after the bytes \<open>hist\<close>, in the coordinates of the present
  rotation. Colours that follow a window fill it from its upper left corner, row by row.\<close>

locale panel =
  fixes ram :: "(bool \<times> u8) list \<Rightarrow> int \<Rightarrow> int \<Rightarrow> u16"
  assumes window: "x0 \<le> x1 \<Longrightarrow> y0 \<le> y1 \<Longrightarrow>
    int (length colors) \<le> (uint x1 - uint x0 + 1) * (uint y1 - uint y0 + 1) \<Longrightarrow>
    ram (hist @ window_bytes x0 y0 x1 y1 @ concat (map color_bytes colors)) p q =
      (if uint x0 \<le> p \<and> p \<le> uint x1 \<and> uint y0 \<le> q \<and> q \<le> uint y1 \<and>
          (q - uint y0) * (uint x1 - uint x0 + 1) + (p - uint x0) < int (length colors)
       then colors ! nat ((q - uint y0) * (uint x1 - uint x0 + 1) + (p - uint x0))
       else ram hist p q)"
begin

definition shown_pixel :: "ili gfx \<Rightarrow> int \<Rightarrow> int \<Rightarrow> u16" where
  "shown_pixel g p q = ram (sent g) p q"

definition lcd_ok :: "ili gfx \<Rightarrow> bool" where
  "lcd_ok g \<longleftrightarrow> wired g \<and> 0 < width g \<and> width g \<le> 320 \<and> 0 < height g \<and> height g \<le> 320"

lemma area_shown:
  assumes "wired g" "0 \<le> a" "a \<le> b" "b \<le> 65535" "0 \<le> c" "c \<le> d" "d \<le> 65535"
    and "int n \<le> (b - a + 1) * (d - c + 1)"
  shows "\<exists>es. spi_end (push_pixels n color (setAddrWindow (word_of_int a) (word_of_int c) (word_of_int b) (word_of_int d)
      (spi_begin g))) = emit es g \<and>
    (\<forall>p q. shown_pixel (emit es g) p q =
      (if a \<le> p \<and> p \<le> b \<and> c \<le> q \<and> q \<le> d \<and> (q - c) * (b - a + 1) + (p - a) < int n then color else shown_pixel g p q))"
proof -
  have u: "uint (word_of_int a :: u16) = a" "uint (word_of_int b :: u16) = b"
    "uint (word_of_int c :: u16) = c" "uint (word_of_int d :: u16) = d"
    using assms by (simp_all add: uint_word_of_int_eq take_bit_int_eq_self)
  let ?f = "\<lambda>g. spi_end (push_pixels n color (setAddrWindow (word_of_int a) (word_of_int c) (word_of_int b) (word_of_int d)
      (spi_begin g)))"
  obtain es where es: "?f g = emit es g" "sent (emit es g) = sent g @
      window_bytes (word_of_int a) (word_of_int c) (word_of_int b) (word_of_int d) @ concat (map color_bytes (replicate n color))"
    using sends_area [OF assms(1), of n color "word_of_int a" "word_of_int c" "word_of_int b" "word_of_int d"]
    unfolding sends_def by (metis (no_types) map_replicate)
  have le: "(word_of_int a :: u16) \<le> word_of_int b" "(word_of_int c :: u16) \<le> word_of_int d"
    using assms by (simp_all add: word_le_def u)
  have nth: "replicate n color ! nat k = color" if "0 \<le> k" "k < int n" for k
    using that by (simp add: nat_less_iff)
  have "0 \<le> (q - c) * (b - a + 1) + (p - a)" if "a \<le> p" "c \<le> q" for p q
    using that assms by simp
  then have "shown_pixel (emit es g) p q =
      (if a \<le> p \<and> p \<le> b \<and> c \<le> q \<and> q \<le> d \<and> (q - c) * (b - a + 1) + (p - a) < int n then color else shown_pixel g p q)" for p q
    using window [OF le, of "replicate n color" "sent g" p q] assms(8)
    by (auto simp: shown_pixel_def es(2) u nth)
  then show ?thesis using es(1) by blast
qed

lemma emit_same: "same_but_dev g (emit es g)"
  by (simp add: same_but_dev_def emit_def)

lemma same_ok: "lcd_ok g \<Longrightarrow> same_but_dev g (emit es g) \<and> lcd_ok (emit es g)"
  by (simp add: emit_same lcd_ok_def)

text \<open>A pixel is a window of two by two of which the first point is given.\<close>

lemma lcd_set_pixel:
  assumes "lcd_ok g"
  shows "\<exists>g'. ili_drawPixel x y color g = Some g' \<and> lcd_ok g' \<and> same_but_dev g g' \<and>
    (\<forall>p q. on_screen g p q \<longrightarrow> shown_pixel g' p q = (if p = x \<and> q = y then color else shown_pixel g p q))"
proof (cases "on_screen g x y")
  case False
  then have "ili_drawPixel x y color g = Some g" by (auto simp: ili_drawPixel_def on_screen_def)
  then show ?thesis using assms False by (auto simp: same_but_dev_def)
next
  case True
  then have "wired g" "0 \<le> x" "x + 1 \<le> 65535" "0 \<le> y" "y + 1 \<le> 65535"
    using assms by (auto simp: lcd_ok_def on_screen_def)
  from area_shown [OF this(1,2) _ this(3,4) _ this(5), of 1 color] obtain es where es:
    "spi_end (push_pixels 1 color (setAddrWindow (word_of_int x) (word_of_int y) (word_of_int (x + 1)) (word_of_int (y + 1))
       (spi_begin g))) = emit es g"
    "\<forall>p q. shown_pixel (emit es g) p q = (if x \<le> p \<and> p \<le> x + 1 \<and> y \<le> q \<and> q \<le> y + 1 \<and> (q - y) * 2 + (p - x) < 1
       then color else shown_pixel g p q)"
    by auto
  have "x \<le> p \<and> p \<le> x + 1 \<and> y \<le> q \<and> q \<le> y + 1 \<and> (q - y) * 2 + (p - x) < 1 \<longleftrightarrow> p = x \<and> q = y" for p q
    by auto
  moreover have "ili_drawPixel x y color g = Some (emit es g)"
    using True es(1) by (simp add: ili_drawPixel_def on_screen_def)
  ultimately show ?thesis using es(2) same_ok [OF assms] by auto
qed

lemma clipped:
  assumes "0 \<le> x" "x < wd" "wd \<le> 320" "1 \<le> w" "w \<le> 5000"
  shows "1 \<le> (if x + w - 1 \<ge> wd then s16 (wd - x) else w)"
    "(if x + w - 1 \<ge> wd then s16 (wd - x) else w) = min w (wd - x)"
proof -
  have "s16 (wd - x) = wd - x" using assms by (simp add: int16_range_def)
  then show "1 \<le> (if x + w - 1 \<ge> wd then s16 (wd - x) else w)"
    "(if x + w - 1 \<ge> wd then s16 (wd - x) else w) = min w (wd - x)"
    using assms by auto
qed

lemma lcd_fill_rect:
  assumes "lcd_ok g" "0 \<le> x" "0 \<le> y" "1 \<le> w" "w \<le> 5000" "1 \<le> h" "h \<le> 5000"
  shows "\<exists>g'. ili_fillRect x y w h color g = Some g' \<and> lcd_ok g' \<and> same_but_dev g g' \<and>
    (\<forall>p q. on_screen g p q \<longrightarrow> shown_pixel g' p q = (if (p, q) \<in> in_rect x y w h then color else shown_pixel g p q))"
proof (cases "x < width g \<and> y < height g")
  case False
  then have "ili_fillRect x y w h color g = Some g" by (auto simp: ili_fillRect_def)
  moreover have "\<not> on_screen g p q" if "(p, q) \<in> in_rect x y w h" for p q
    using False that by (auto simp: on_screen_def in_rect_def)
  ultimately show ?thesis using assms(1) by (auto simp: same_but_dev_def)
next
  case True
  have g: "wired g" "width g \<le> 320" "height g \<le> 320" using assms(1) by (simp_all add: lcd_ok_def)
  let ?w = "min w (width g - x)" and ?h = "min h (height g - y)"
  have wh: "1 \<le> ?w" "1 \<le> ?h" "x + ?w - 1 \<le> 65535" "y + ?h - 1 \<le> 65535" using True assms g by auto
  have n: "int (nat ?h * nat ?w) = ?w * ?h" using wh by (simp add: mult.commute)
  obtain es where es:
    "spi_end (push_pixels (nat ?h * nat ?w) color (setAddrWindow (word_of_int x) (word_of_int y)
       (word_of_int (x + ?w - 1)) (word_of_int (y + ?h - 1)) (spi_begin g))) = emit es g"
    "\<forall>p q. shown_pixel (emit es g) p q = (if x \<le> p \<and> p \<le> x + ?w - 1 \<and> y \<le> q \<and> q \<le> y + ?h - 1 \<and>
       (q - y) * ?w + (p - x) < ?w * ?h then color else shown_pixel g p q)"
    using area_shown [OF g(1) assms(2) _ wh(3) assms(3) _ wh(4), of "nat ?h * nat ?w" color] wh(1,2) unfolding n
    by auto
  have fill: "ili_fillRect x y w h color g = Some (emit es g)"
    using True es(1) clipped(2) [OF assms(2) _ g(2) assms(4,5)] clipped(2) [OF assms(3) _ g(3) assms(6,7)]
    by (simp add: ili_fillRect_def Let_def)
  have "x \<le> p \<and> p \<le> x + ?w - 1 \<and> y \<le> q \<and> q \<le> y + ?h - 1 \<and> (q - y) * ?w + (p - x) < ?w * ?h \<longleftrightarrow>
      (p, q) \<in> in_rect x y w h" if "on_screen g p q" for p q
  proof
    assume "(p, q) \<in> in_rect x y w h"
    then have i: "0 \<le> p - x" "p - x < ?w" "0 \<le> q - y" "q - y < ?h" using that by (auto simp: in_rect_def on_screen_def)
    then have "(q - y) * ?w + (p - x) < ?w * ?h" using cell_less(2) [OF i] by (simp add: add.commute)
    then show "x \<le> p \<and> p \<le> x + ?w - 1 \<and> y \<le> q \<and> q \<le> y + ?h - 1 \<and> (q - y) * ?w + (p - x) < ?w * ?h"
      using i by linarith
  qed (auto simp: in_rect_def)
  then show ?thesis using es(2) fill same_ok [OF assms(1)] by auto
qed

end

lemma ili_methods: "drawPixel ili_class = ili_drawPixel" "fillRect ili_class = ili_fillRect"
  by (simp_all add: ili_class_def)

text \<open>A controller that keeps the contract makes the driver a surface, and one that text is drawn on.\<close>

sublocale panel \<subseteq> plain: surface ili_drawPixel shown_pixel "\<lambda>color. color" lcd_ok
  by unfold_locales (rule lcd_set_pixel)

sublocale panel \<subseteq> lcd: drawing ili_class shown_pixel "\<lambda>color. color" lcd_ok
proof (unfold_locales, goal_cases)
  case (1 g x y color)
  then show ?case unfolding ili_methods by (rule lcd_set_pixel)
next
  case (2 g x y w h color)
  then show ?case unfolding ili_methods plain.paints_def by (intro lcd_fill_rect)
next
  case (3 b a g)
  show ?case by (simp add: lcd_ok_def wired_def)
next
  case (4 b a g)
  show ?case by (simp add: fun_eq_iff shown_pixel_def sent_def)
qed

section \<open>A controller that keeps the contract\<close>

text \<open>The window registers, the address counters and the picture memory.\<close>

datatype port_mode = Idle | Columns "u8 list" | Rows "u8 list" | Colors "u8 list"

record controller =
  mode :: port_mode
  col_start :: int
  col_end :: int
  row_start :: int
  row_end :: int
  col :: int
  row :: int
  memory :: "int \<Rightarrow> int \<Rightarrow> u16"

definition word_of_bytes :: "u8 \<Rightarrow> u8 \<Rightarrow> u16" where
  "word_of_bytes h l = or (push_bit 8 (ucast h)) (ucast l)"

definition advance_cell :: "controller \<Rightarrow> controller" where
  "advance_cell c =
     (if col c < col_end c then c\<lparr>col := col c + 1\<rparr>
      else c\<lparr>col := col_start c, row := (if row c < row_end c then row c + 1 else row_start c)\<rparr>)"

definition hear :: "bool \<times> u8 \<Rightarrow> controller \<Rightarrow> controller" where
  "hear = (\<lambda>(is_data, b) c.
     (if \<not> is_data
      then (if b = ILI9341_CASET then c\<lparr>mode := Columns []\<rparr>
            else if b = ILI9341_PASET then c\<lparr>mode := Rows []\<rparr>
            else if b = ILI9341_RAMWR then c\<lparr>mode := Colors [], col := col_start c, row := row_start c\<rparr>
            else c\<lparr>mode := Idle\<rparr>)
      else (case mode c of
              Idle \<Rightarrow> c
            | Columns [h0, l0, h1] \<Rightarrow>
                c\<lparr>mode := Idle, col_start := uint (word_of_bytes h0 l0), col_end := uint (word_of_bytes h1 b)\<rparr>
            | Columns bs \<Rightarrow> c\<lparr>mode := Columns (bs @ [b])\<rparr>
            | Rows [h0, l0, h1] \<Rightarrow>
                c\<lparr>mode := Idle, row_start := uint (word_of_bytes h0 l0), row_end := uint (word_of_bytes h1 b)\<rparr>
            | Rows bs \<Rightarrow> c\<lparr>mode := Rows (bs @ [b])\<rparr>
            | Colors [h] \<Rightarrow>
                advance_cell (c\<lparr>mode := Colors [], memory := (memory c)(col c := (memory c (col c))(row c := word_of_bytes h b))\<rparr>)
            | Colors bs \<Rightarrow> c\<lparr>mode := Colors (bs @ [b])\<rparr>)))"

definition power_on :: controller where
  "power_on = \<lparr>mode = Idle, col_start = 0, col_end = 239, row_start = 0, row_end = 319, col = 0, row = 0,
     memory = (\<lambda>_ _. 0)\<rparr>"

definition picture :: "(bool \<times> u8) list \<Rightarrow> int \<Rightarrow> int \<Rightarrow> u16" where
  "picture hist = memory (fold hear hist power_on)"

lemma word_of_own_bytes: "word_of_bytes (high_byte x) (low_byte x) = x"
  unfolding word_of_bytes_def high_byte_def low_byte_def
  by (rule bit_word_eqI) (auto simp: bit_simps)

lemma commands_differ: "ILI9341_CASET \<noteq> ILI9341_PASET" "ILI9341_CASET \<noteq> ILI9341_RAMWR" "ILI9341_PASET \<noteq> ILI9341_RAMWR"
  by (simp_all add: ILI9341_CASET_def ILI9341_PASET_def ILI9341_RAMWR_def)

lemma hear_window:
  "fold hear (window_bytes x0 y0 x1 y1) c =
     c\<lparr>mode := Colors [], col_start := uint x0, col_end := uint x1, row_start := uint y0, row_end := uint y1,
       col := uint x0, row := uint y0\<rparr>"
  using commands_differ by (simp add: window_bytes_def hear_def word_of_own_bytes)

lemma hear_color:
  "mode c = Colors [] \<Longrightarrow> fold hear (color_bytes k) c =
     advance_cell (c\<lparr>memory := (memory c)(col c := (memory c (col c))(row c := k))\<rparr>)"
  by (cases c) (simp add: color_bytes_def hear_def word_of_own_bytes)

lemma advance_fields [simp]:
  "mode (advance_cell c) = mode c" "memory (advance_cell c) = memory c" "col_start (advance_cell c) = col_start c"
  "col_end (advance_cell c) = col_end c" "row_start (advance_cell c) = row_start c" "row_end (advance_cell c) = row_end c"
  by (simp_all add: advance_cell_def)

lemma next_cell:
  assumes "0 < W" "0 \<le> n" "n + 1 < W * (H :: int)"
  shows "(n + 1) mod W = (if n mod W < W - 1 then n mod W + 1 else 0)"
    "(n + 1) div W = (if n mod W < W - 1 then n div W else n div W + 1)"
    "n mod W < W - 1 \<or> n div W < H - 1"
proof -
  have n: "n = n div W * W + n mod W" "0 \<le> n mod W" "n mod W < W" using assms(1) by simp_all
  have last_col: "n mod W = W - 1" if "\<not> n mod W < W - 1" using n that by simp
  have d: "(n + 1) div W = (if n mod W < W - 1 then n div W else n div W + 1)"
  proof (cases "n mod W < W - 1")
    case True
    have "(n + 1) div W = n div W"
      using n True by (intro int_div_pos_eq [where r = "n mod W + 1"]) (auto simp: mult.commute)
    then show ?thesis using True by simp
  next
    case False
    have "n + 1 = W * (n div W + 1) + 0"
      using n(1) last_col [OF False] by (simp add: algebra_simps)
    then have "(n + 1) div W = n div W + 1" by (rule int_div_pos_eq) (use assms(1) in simp_all)
    then show ?thesis using False by simp
  qed
  then show "(n + 1) div W = (if n mod W < W - 1 then n div W else n div W + 1)" .
  have e: "(n + 1) mod W = n + 1 - (n + 1) div W * W" by (simp add: minus_div_mult_eq_mod)
  show "(n + 1) mod W = (if n mod W < W - 1 then n mod W + 1 else 0)"
  proof (cases "n mod W < W - 1")
    case True
    then have "(n + 1) mod W = n + 1 - n div W * W" using e d by simp
    with n(1) have "(n + 1) mod W = n mod W + 1" by linarith
    with True show ?thesis by simp
  next
    case False
    then have "(n + 1) mod W = n + 1 - (n div W + 1) * W" using e d by simp
    moreover have "(n div W + 1) * W = n div W * W + W" by (simp add: algebra_simps)
    ultimately have "(n + 1) mod W = 0" using n(1) last_col [OF False] by linarith
    with False show ?thesis by simp
  qed
  show "n mod W < W - 1 \<or> n div W < H - 1"
  proof (rule ccontr)
    assume "\<not> (n mod W < W - 1 \<or> n div W < H - 1)"
    then have "H - 1 \<le> n div W" "n mod W = W - 1" using last_col by auto
    then have "W * (H - 1) \<le> n div W * W" using assms(1) by (simp add: mult.commute mult_left_mono)
    moreover have "W * (H - 1) = W * H - W" by (simp add: right_diff_distrib)
    ultimately show False using n(1) assms(3) \<open>n mod W = W - 1\<close> by linarith
  qed
qed

lemma hear_colors:
  assumes "mode c = Colors []" "col c = col_start c" "row c = row_start c" "col_start c \<le> col_end c" "row_start c \<le> row_end c"
    and "W = col_end c - col_start c + 1" "H = row_end c - row_start c + 1" "int (length colors) \<le> W * H"
  shows "let c' = fold hear (concat (map color_bytes colors)) c; n = int (length colors) in
    mode c' = Colors [] \<and> col_start c' = col_start c \<and> col_end c' = col_end c \<and>
    row_start c' = row_start c \<and> row_end c' = row_end c \<and>
    (n < W * H \<longrightarrow> col c' = col_start c + n mod W \<and> row c' = row_start c + n div W) \<and>
    (\<forall>p q. memory c' p q =
      (if col_start c \<le> p \<and> p \<le> col_end c \<and> row_start c \<le> q \<and> q \<le> row_end c \<and>
          (q - row_start c) * W + (p - col_start c) < n
       then colors ! nat ((q - row_start c) * W + (p - col_start c)) else memory c p q))"
  using assms(8)
proof (induction colors rule: rev_induct)
  case Nil
  have "\<not> (q - row_start c) * W + (p - col_start c) < 0" if "col_start c \<le> p" "row_start c \<le> q" for p q
    using that assms(4,6) by (simp add: not_less)
  then show ?case using assms(1-5) by auto
next
  case (snoc k colors)
  let ?n = "int (length colors)" and ?c = "fold hear (concat (map color_bytes colors)) c"
  have W: "0 < W" using assms(4,6) by simp
  have n: "?n < W * H" using snoc.prems by simp
  with snoc.IH have c: "mode ?c = Colors []" "col_start ?c = col_start c" "col_end ?c = col_end c"
    "row_start ?c = row_start c" "row_end ?c = row_end c"
    "col ?c = col_start c + ?n mod W" "row ?c = row_start c + ?n div W"
    "\<forall>p q. memory ?c p q =
      (if col_start c \<le> p \<and> p \<le> col_end c \<and> row_start c \<le> q \<and> q \<le> row_end c \<and>
          (q - row_start c) * W + (p - col_start c) < ?n
       then colors ! nat ((q - row_start c) * W + (p - col_start c)) else memory c p q)"
    by (simp_all add: Let_def)
  let ?new = "advance_cell (?c\<lparr>memory := (memory ?c)(col ?c := (memory ?c (col ?c))(row ?c := k))\<rparr>)"
  have new: "fold hear (concat (map color_bytes (colors @ [k]))) c = ?new"
    using hear_color [OF c(1)] by simp
  have m: "0 \<le> ?n mod W" "?n mod W < W" "0 \<le> ?n div W" using W by (simp_all add: pos_imp_zdiv_nonneg_iff)
  have "W * (?n div W) < W * H" using n m(1) mult_div_mod_eq [of W ?n] by linarith
  then have d: "?n div W < H" using W by simp
  have at_n: "(q - row_start c) * W + (p - col_start c) = ?n \<longleftrightarrow> p = col ?c \<and> q = row ?c"
    if "col_start c \<le> p" "p \<le> col_end c" for p q
  proof
    assume "(q - row_start c) * W + (p - col_start c) = ?n"
    then have "(p - col_start c) + (q - row_start c) * W = ?n mod W + ?n div W * W" by (simp add: add.commute)
    then show "p = col ?c \<and> q = row ?c"
      using cell_inj [of "p - col_start c" W "?n mod W" "q - row_start c" "?n div W"] that m assms(6) c(6,7) by auto
  next
    assume "p = col ?c \<and> q = row ?c"
    then show "(q - row_start c) * W + (p - col_start c) = ?n" using c(6,7) by simp
  qed
  have inside: "col_start c \<le> col ?c" "col ?c \<le> col_end c" "row_start c \<le> row ?c" "row ?c \<le> row_end c"
    using m d assms(6,7) c(6,7) by simp_all
  have "memory ?new p q =
      (if col_start c \<le> p \<and> p \<le> col_end c \<and> row_start c \<le> q \<and> q \<le> row_end c \<and>
          (q - row_start c) * W + (p - col_start c) < ?n + 1
       then (colors @ [k]) ! nat ((q - row_start c) * W + (p - col_start c)) else memory c p q)" for p q
  proof (cases "p = col ?c \<and> q = row ?c")
    case True
    then have "(q - row_start c) * W + (p - col_start c) = ?n" using at_n [of p q] inside by simp
    then show ?thesis using True inside by simp
  next
    case False
    let ?in = "col_start c \<le> p \<and> p \<le> col_end c \<and> row_start c \<le> q \<and> q \<le> row_end c"
    let ?i = "(q - row_start c) * W + (p - col_start c)"
    have "?in \<Longrightarrow> ?i \<noteq> ?n" using at_n [of p q] False by blast
    then have "?in \<and> ?i < ?n + 1 \<longleftrightarrow> ?in \<and> ?i < ?n" by linarith
    moreover have "?in \<Longrightarrow> 0 \<le> ?i" using W by simp
    then have "?in \<and> ?i < ?n \<Longrightarrow> (colors @ [k]) ! nat ?i = colors ! nat ?i" by (simp add: nth_append nat_less_iff)
    moreover have "memory ?new p q = memory ?c p q" using False by auto
    ultimately show ?thesis using c(8) by simp
  qed
  moreover have "?n + 1 < W * H \<longrightarrow> col ?new = col_start c + (?n + 1) mod W \<and> row ?new = row_start c + (?n + 1) div W"
  proof
    assume less: "?n + 1 < W * H"
    note step = next_cell [OF W _ less]
    show "col ?new = col_start c + (?n + 1) mod W \<and> row ?new = row_start c + (?n + 1) div W"
      using step c(2-7) assms(6,7) m by (auto simp: advance_cell_def)
  qed
  ultimately show ?case unfolding new Let_def using c(1-5) by (simp add: add.commute)
qed

interpretation reference: panel picture
proof
  fix x0 x1 y0 y1 :: u16 and colors :: "u16 list" and hist p q
  assume a: "x0 \<le> x1" "y0 \<le> y1" "int (length colors) \<le> (uint x1 - uint x0 + 1) * (uint y1 - uint y0 + 1)"
  let ?c = "fold hear hist power_on"
  have "uint x0 \<le> uint x1" "uint y0 \<le> uint y1" using a(1,2) by (simp_all add: word_le_def)
  with hear_colors [of "fold hear (window_bytes x0 y0 x1 y1) ?c" "uint x1 - uint x0 + 1" "uint y1 - uint y0 + 1" colors] a(3)
  show "picture (hist @ window_bytes x0 y0 x1 y1 @ concat (map color_bytes colors)) p q =
      (if uint x0 \<le> p \<and> p \<le> uint x1 \<and> uint y0 \<le> q \<and> q \<le> uint y1 \<and>
          (q - uint y0) * (uint x1 - uint x0 + 1) + (p - uint x0) < int (length colors)
       then colors ! nat ((q - uint y0) * (uint x1 - uint x0 + 1) + (p - uint x0))
       else picture hist p q)"
    unfolding picture_def fold_append comp_apply hear_window by (simp add: Let_def)
qed

end
