(* ===== verification/LcdPixels.thy ===== *)
theory LcdPixels
  imports IliScreen Display
begin

text \<open>
  The display down to the pixels: the commands of \<^verbatim>\<open>weather_station_base/display.cpp\<close> run on the
  drawing library and the driver, and what the screen shows then. The abstract screen of
  \<open>Display\<close>, with its five texts, is refined by the pixels.
\<close>

section \<open>Running the commands\<close>

fun lcd_step :: "lcd_cmd \<Rightarrow> ili gfx \<Rightarrow> ili gfx option" where
  "lcd_step LcdBegin g = Some (ili_begin g)"
| "lcd_step (SetRotation m) g = Some (ili_setRotation (word_of_int m) g)"
| "lcd_step (FillScreen color) g = fillScreen ili_class color g"
| "lcd_step (FillRect x y w h color) g = fillRect ili_class x y w h color g"
| "lcd_step (SetCursor x y) g = Some (setCursor x y g)"
| "lcd_step (SetTextColor color) g = Some (setTextColor color g)"
| "lcd_step (SetTextSize s) g = Some (setTextSize (word_of_int s) g)"
| "lcd_step (Print str) g = gfx_print ili_class str g"

fun run_lcd :: "lcd_cmd list \<Rightarrow> ili gfx \<Rightarrow> ili gfx option" where
  "run_lcd [] g = Some g"
| "run_lcd (cmd # cmds) g = lcd_step cmd g \<bind> run_lcd cmds"

lemma run_lcd_append: "run_lcd (cmds @ cmds') g = run_lcd cmds g \<bind> run_lcd cmds'"
proof (induction cmds arbitrary: g)
  case (Cons cmd cmds)
  then show ?case by (cases "lcd_step cmd g") simp_all
qed simp

section \<open>Texts that fit their regions\<close>

text \<open>As many characters as the region is wide for, and no line break.\<close>

fun text_capacity :: "slot \<Rightarrow> nat" where
  "text_capacity TimeSlot = 5"
| "text_capacity MeridianSlot = 2"
| "text_capacity DateSlot = 17"
| "text_capacity InsideSlot = 15"
| "text_capacity OutsideSlot = 15"

definition text_fits :: "slot \<Rightarrow> string \<Rightarrow> bool" where
  "text_fits k str \<longleftrightarrow> length str \<le> text_capacity k \<and> CHR 0x0A \<notin> set str \<and> CHR 0x0D \<notin> set str"

text \<open>The black pixels of a text in a region.\<close>

definition text_dots :: "slot \<Rightarrow> string \<Rightarrow> (int \<times> int) set" where
  "text_dots k str =
     text_area (fst (origin (region_of k))) (snd (origin (region_of k))) (font_size (region_of k)) False (char_bytes str)"

lemma text_dots_empty [simp]: "text_dots k [] = {}"
  by (simp add: text_dots_def char_bytes_def)

lemma char_area_bounds:
  assumes "(p, q) \<in> char_area x y sz ch" "0 < sz"
  shows "x \<le> p" "p < x + 5 * sz" "y \<le> q" "q < y + 8 * sz"
proof -
  have d: "0 \<le> (p - x) div sz" "(p - x) div sz < 5" "0 \<le> (q - y) div sz" "(q - y) div sz < 8"
    using assms(1) by (auto simp: char_area_def glyph_dot_def)
  have "a < k * sz" if "a div sz < k" for a k
  proof -
    have "a div sz * sz + a mod sz = a" "a mod sz < sz" "a div sz * sz \<le> (k - 1) * sz"
      using assms(2) that by (simp_all add: mult_right_mono del: mult_le_cancel_right)
    moreover have "(k - 1) * sz = k * sz - sz" by (simp add: left_diff_distrib)
    ultimately show ?thesis by linarith
  qed
  from this [OF d(2)] this [OF d(4)] show "p < x + 5 * sz" "q < y + 8 * sz" by simp_all
  show "x \<le> p" "y \<le> q" using d(1,3) assms(2) by (simp_all add: pos_imp_zdiv_nonneg_iff)
qed

lemma text_area_bounds:
  "(p, q) \<in> text_area x y sz cp chs \<Longrightarrow> 0 < sz \<Longrightarrow>
   x \<le> p \<and> p < x + 6 * sz * int (length chs) - sz \<and> y \<le> q \<and> q < y + 8 * sz"
proof (induction chs arbitrary: x)
  case (Cons ch chs)
  have n: "0 \<le> 6 * sz * int (length chs)" "6 * sz * int (length (ch # chs)) = 6 * sz * int (length chs) + 6 * sz"
    using Cons.prems(2) by (simp_all add: algebra_simps)
  from Cons.prems(1) consider "(p, q) \<in> char_area x y sz (font_index cp ch)" | "(p, q) \<in> text_area (x + sz * 6) y sz cp chs"
    by auto
  then show ?case
  proof cases
    case 1
    then show ?thesis using char_area_bounds [OF 1 Cons.prems(2)] n by linarith
  next
    case 2
    then show ?thesis using Cons.IH [OF 2 Cons.prems(2)] n Cons.prems(2) by linarith
  qed
qed simp

lemma fits_in_region:
  assumes "text_fits k str" "(p, q) \<in> text_dots k str"
  shows "in_region (region_of k) (p, q)"
proof -
  have "0 < font_size (region_of k)" by (cases k) (simp_all add: region_defs)
  note b = text_area_bounds [OF assms(2) [unfolded text_dots_def] this]
  have "int (length str) \<le> int (text_capacity k)" using assms(1) by (simp add: text_fits_def)
  then show ?thesis
    using b by (cases k) (auto simp: in_region_def inside_def origin_def region_defs char_bytes_def)
qed

lemma regions_apart: "k \<noteq> k' \<Longrightarrow> in_region (region_of k) p \<Longrightarrow> \<not> in_region (region_of k') p"
  by (cases k; cases k') (auto simp: in_region_def inside_def region_defs)

lemma region_bounds:
  fixes k :: slot
  defines "r \<equiv> region_of k"
  shows "0 \<le> rx r" "0 \<le> ry r" "1 \<le> rw r" "rw r \<le> 5000" "1 \<le> rh r" "rh r \<le> 5000" "1 \<le> font_size r" "font_size r \<le> 4"
    and "rx r + 2 + font_size r * 6 * int (text_capacity k) < 240" "ry r \<le> 220"
  by (cases k; simp add: r_def region_defs)+

section \<open>The screen\<close>

definition redraw_cmds :: "slot \<Rightarrow> string \<Rightarrow> lcd_cmd list" where
  "redraw_cmds k str =
     [FillRect (rx (region_of k)) (ry (region_of k)) (rw (region_of k)) (rh (region_of k)) ILI9341_WHITE,
      SetCursor (rx (region_of k) + 2) (ry (region_of k) + 2), SetTextColor ILI9341_BLACK,
      SetTextSize (font_size (region_of k)), Print str]"

lemma m_lcd_update_slot:
  "last_of k d \<noteq> s \<Longrightarrow> m_lcd (update_slot k s d) = m_lcd d @ redraw_cmds k (label_of k @ s)"
  by (cases k) (simp_all add: update_time_string_def update_time_meridian_def update_date_string_def
      update_inside_temp_string_def update_outside_temp_string_def update_region_def write_region_def clear_region_def
      send_lcd_def redraw_cmds_def)

lemma text_in_update_slot:
  assumes "last_of k d \<noteq> s"
  shows "text_in (region_of k') (update_slot k s d) = (if k' = k then label_of k @ s else text_in (region_of k') d)"
proof (cases "k' = k")
  case True
  then show ?thesis
    using region_writer.upd_new [OF slot_writer assms] update_region_text_in(1) [of "region_of k" "label_of k @ s" d]
    by (simp add: text_in_def)
next
  case False
  then show ?thesis using slots_apart [of k k'] by (simp add: region_writer.other_text [OF slot_writer])
qed

text \<open>The set-up of the driver only sends, and leaves the screen 240 wide and 320 high.\<close>

definition only_bus :: "ili gfx \<Rightarrow> ili gfx \<Rightarrow> bool" where
  "only_bus g g' \<longleftrightarrow> (\<exists>es. g' = emit es g)"

lemma only_bus_refl: "only_bus g g"
  by (auto simp: only_bus_def emit_def intro!: exI [of _ "[]"])

lemma only_bus_emit: "only_bus g g' \<Longrightarrow> only_bus g (emit es g')"
  by (auto simp: only_bus_def)

lemma only_bus_if: "only_bus g x \<Longrightarrow> only_bus g y \<Longrightarrow> only_bus g (if b then x else y)"
  by simp

lemma only_bus_fold: "(\<And>x g'. only_bus g g' \<Longrightarrow> only_bus g (f x g')) \<Longrightarrow> only_bus g g' \<Longrightarrow> only_bus g (fold f xs g')"
  by (induction xs arbitrary: g') simp_all

lemma only_bus_write: "only_bus g g' \<Longrightarrow> only_bus g (spiwrite b g')"
  unfolding spiwrite_def digitalWrite_def
  by (intro only_bus_if only_bus_emit only_bus_fold)

lemmas only_bus_intros = only_bus_refl only_bus_emit only_bus_if only_bus_fold only_bus_write

lemma only_bus_commands:
  "only_bus g g' \<Longrightarrow> only_bus g (writecommand b g')" "only_bus g g' \<Longrightarrow> only_bus g (writedata b g')"
  "only_bus g g' \<Longrightarrow> only_bus g (spi_begin g')" "only_bus g g' \<Longrightarrow> only_bus g (spi_end g')"
  unfolding writecommand_def writedata_def spi_begin_def spi_end_def digitalWrite_def Let_def
  by (intro only_bus_intros | assumption)+

lemma begin_sends: "only_bus g (ili_begin g)"
  unfolding ili_begin_def Let_def digitalWrite_def send_command_def
  by (intro only_bus_intros only_bus_commands)

text \<open>What the driver keeps of the geometry.\<close>

definition upright :: "ili gfx \<Rightarrow> bool" where
  "upright g \<longleftrightarrow> wired g \<and> width g = 240 \<and> height g = 320 \<and> gfxFont g = None \<and> \<not> use_cp437 g"

lemma upright_start:
  assumes "dc_pin \<noteq> cs_pin"
  shows "upright (ili_setRotation 2 (ili_begin (new_ILI9341 mm cs_pin dc_pin rst_pin)))"
proof -
  obtain es where "ili_begin (new_ILI9341 mm cs_pin dc_pin rst_pin) = emit es (new_ILI9341 mm cs_pin dc_pin rst_pin)"
    using begin_sends by (auto simp: only_bus_def)
  then show ?thesis
    using assms by (simp add: upright_def wired_def ili_setRotation_def Let_def spi_begin_def spi_end_def writecommand_def
        writedata_def digitalWrite_def spiwrite_def emit_def new_ILI9341_def new_gfx_def ILI9341_TFTWIDTH_def
        ILI9341_TFTHEIGHT_def)
qed

lemma upright_same: "same_but_dev g g' \<Longrightarrow> wired g' \<Longrightarrow> upright g \<Longrightarrow> upright g'"
  using same_but_dev_fields [of g g'] by (simp add: upright_def)

lemma no_break_byte: "of_char ch = (10 :: u8) \<Longrightarrow> ch = CHR 0x0A" "of_char ch = (13 :: u8) \<Longrightarrow> ch = CHR 0x0D"
proof -
  have code: "unat (of_char c :: u8) = of_char c" for c
  proof -
    have "of_char c < (256 :: nat)" by (cases c) simp
    then show ?thesis by (simp flip: of_nat_of_char [where 'a = u8] add: unat_of_nat)
  qed
  have inj: "ch = ch'" if "of_char ch = (of_char ch' :: u8)" for ch'
  proof -
    have "of_char ch = (of_char ch' :: nat)" using that by (simp flip: code)
    then show ?thesis by simp
  qed
  show "of_char ch = (10 :: u8) \<Longrightarrow> ch = CHR 0x0A" "of_char ch = (13 :: u8) \<Longrightarrow> ch = CHR 0x0D"
    using inj [of "CHR 0x0A"] inj [of "CHR 0x0D"] by simp_all
qed

context panel
begin

lemma upright_ok: "upright g \<Longrightarrow> lcd_ok g"
  by (simp add: upright_def lcd_ok_def)

lemma redraw_pixels:
  assumes "upright g" "text_fits k str"
  shows "\<exists>g'. run_lcd (redraw_cmds k str) g = Some g' \<and> upright g' \<and>
    (\<forall>p q. on_screen g p q \<longrightarrow> shown_pixel g' p q =
      (if in_region (region_of k) (p, q)
       then if (p, q) \<in> text_dots k str then ILI9341_BLACK else ILI9341_WHITE
       else shown_pixel g p q))"
proof -
  let ?r = "region_of k" and ?w = "ILI9341_WHITE" and ?b = "ILI9341_BLACK"
  note r = region_bounds [of k]
  obtain g1 where g1: "ili_fillRect (rx ?r) (ry ?r) (rw ?r) (rh ?r) ?w g = Some g1" "lcd_ok g1" "same_but_dev g g1"
    "\<forall>p q. on_screen g p q \<longrightarrow> shown_pixel g1 p q =
      (if (p, q) \<in> in_rect (rx ?r) (ry ?r) (rw ?r) (rh ?r) then ?w else shown_pixel g p q)"
    using lcd_fill_rect [OF upright_ok [OF assms(1)] r(1,2,3,4,5,6), of ?w] by blast
  have u1: "upright g1" using upright_same [OF g1(3) _ assms(1)] g1(2) by (simp add: lcd_ok_def)
  define g2 where "g2 = setTextSize (word_of_int (font_size ?r))
    (setTextColor ?b (setCursor (rx ?r + 2) (ry ?r + 2) g1))"
  have size: "textsize g2 = font_size ?r" by (cases k) (simp_all add: g2_def setTextSize_def region_defs)
  have f2: "upright g2" "textcolor g2 = ?b" "textbgcolor g2 = ?b" "cursor_x g2 = rx ?r + 2" "cursor_y g2 = ry ?r + 2"
    "shown_pixel g2 = shown_pixel g1"
    using u1 by (simp_all add: g2_def setTextSize_def setTextColor_def setCursor_def upright_def wired_def shown_pixel_def
        sent_def fun_eq_iff)
  have "rx ?r + 2 + font_size ?r * 6 * int (length str) \<le> rx ?r + 2 + font_size ?r * 6 * int (text_capacity k)"
    using assms(2) r(7) by (simp add: text_fits_def mult_left_mono)
  with r(9) have room: "rx ?r + 2 + font_size ?r * 6 * int (length str) < 240" by linarith
  have chars: "10 \<notin> set (char_bytes str)" "13 \<notin> set (char_bytes str)"
    using assms(2) by (auto simp: text_fits_def char_bytes_def dest!: no_break_byte)
  obtain g3 where g3: "gfx_print ili_class str g2 = Some g3" "lcd_ok g3"
    "same_but_dev (g2\<lparr>cursor_x := rx ?r + 2 + font_size ?r * 6 * int (length str)\<rparr>) g3"
    "\<forall>p q. on_screen g2 p q \<longrightarrow> shown_pixel g3 p q = (if (p, q) \<in> text_dots k str then ?b else shown_pixel g1 p q)"
    using lcd.print_text [OF upright_ok [OF f2(1)], of str] r room chars f2(1)
    unfolding size f2(2-6) by (auto simp: upright_def text_dots_def origin_def)
  have u3: "upright g3"
    using upright_same [OF g3(3)] g3(2) f2(1) by (simp add: lcd_ok_def upright_def wired_def)
  have "run_lcd (redraw_cmds k str) g = Some g3"
    using g1(1) g3(1) by (simp add: redraw_cmds_def ili_methods g2_def)
  moreover have "on_screen g2 p q = on_screen g p q" for p q
    using f2(1) assms(1) by (simp add: on_screen_def upright_def)
  moreover have "(p, q) \<in> in_rect (rx ?r) (ry ?r) (rw ?r) (rh ?r) \<longleftrightarrow> in_region ?r (p, q)" for p q
    by (auto simp: in_rect_def in_region_def inside_def)
  ultimately show ?thesis
    using u3 g3(4) g1(4) fits_in_region [OF assms(2)] by (intro exI [of _ g3]) auto
qed

text \<open>The pixels are those of the texts on the abstract screen, black on white.\<close>

definition pixels_show :: "Display \<Rightarrow> ili gfx \<Rightarrow> bool" where
  "pixels_show d g \<longleftrightarrow> upright g \<and> (\<forall>k. text_fits k (text_in (region_of k) d)) \<and>
     (\<forall>p q. on_screen g p q \<longrightarrow> shown_pixel g p q =
       (if \<exists>k. (p, q) \<in> text_dots k (text_in (region_of k) d) then ILI9341_BLACK else ILI9341_WHITE))"

definition display_drawn :: "ili gfx \<Rightarrow> Display \<Rightarrow> bool" where
  "display_drawn g0 d \<longleftrightarrow> (\<exists>g. run_lcd (m_lcd d) g0 = Some g \<and> pixels_show d g)"

lemma pixels_show_update:
  assumes "pixels_show d g" "text_fits k (label_of k @ s)" "last_of k d \<noteq> s"
  shows "\<exists>g'. run_lcd (redraw_cmds k (label_of k @ s)) g = Some g' \<and> pixels_show (update_slot k s d) g'"
proof -
  let ?t = "\<lambda>k. text_in (region_of k) d"
  note now_text = text_in_update_slot [OF assms(3)]
  have d: "upright g" "\<And>k. text_fits k (?t k)"
    "\<And>p q. on_screen g p q \<Longrightarrow> shown_pixel g p q = (if \<exists>k. (p, q) \<in> text_dots k (?t k) then ILI9341_BLACK else ILI9341_WHITE)"
    using assms(1) by (simp_all add: pixels_show_def)
  obtain g' where g': "run_lcd (redraw_cmds k (label_of k @ s)) g = Some g'" "upright g'"
    "\<And>p q. on_screen g p q \<Longrightarrow> shown_pixel g' p q = (if in_region (region_of k) (p, q)
       then if (p, q) \<in> text_dots k (label_of k @ s) then ILI9341_BLACK else ILI9341_WHITE
       else shown_pixel g p q)"
    using redraw_pixels [OF d(1) assms(2)] by blast
  have dots: "(\<exists>k'. (p, q) \<in> text_dots k' (text_in (region_of k') (update_slot k s d))) \<longleftrightarrow>
      (if in_region (region_of k) (p, q) then (p, q) \<in> text_dots k (label_of k @ s)
       else \<exists>k'. (p, q) \<in> text_dots k' (?t k'))" for p q
  proof -
    have "(p, q) \<in> text_dots k' (?t k') \<Longrightarrow> in_region (region_of k') (p, q)" for k'
      by (rule fits_in_region [OF d(2)])
    moreover have "(p, q) \<in> text_dots k (label_of k @ s) \<Longrightarrow> in_region (region_of k) (p, q)"
      by (rule fits_in_region [OF assms(2)])
    moreover have "\<not> in_region (region_of k) (p, q) \<Longrightarrow> (p, q) \<notin> text_dots k (?t k)"
      using fits_in_region [OF d(2)] by blast
    ultimately show ?thesis
      using regions_apart [of _ k "(p, q)"] unfolding now_text by (cases "in_region (region_of k) (p, q)") metis+
  qed
  have "on_screen g' p q = on_screen g p q" for p q
    using d(1) g'(2) by (simp add: on_screen_def upright_def)
  then have "pixels_show (update_slot k s d) g'"
    unfolding pixels_show_def dots using g'(2,3) d(2,3) assms(2) by (simp add: now_text)
  then show ?thesis using g'(1) by blast
qed

lemma display_drawn_update:
  assumes "display_drawn g0 d" "text_fits k (label_of k @ s)"
  shows "display_drawn g0 (update_slot k s d)"
proof (cases "last_of k d = s")
  case True
  then have "update_slot k s d = d" by (rule region_writer.upd_same [OF slot_writer])
  then show ?thesis using assms(1) by simp
next
  case False
  obtain g where g: "run_lcd (m_lcd d) g0 = Some g" "pixels_show d g" using assms(1) by (auto simp: display_drawn_def)
  from pixels_show_update [OF g(2) assms(2) False] g(1) show ?thesis
    by (auto simp: display_drawn_def m_lcd_update_slot [OF False] run_lcd_append)
qed

lemma display_drawn_updates:
  "display_drawn g0 d \<Longrightarrow> list_all (\<lambda>(k, s). text_fits k (label_of k @ s)) us \<Longrightarrow> display_drawn g0 (run_updates us d)"
  unfolding run_updates_def by (induction us arbitrary: d) (auto simp: display_drawn_update)

lemma display_drawn_begin:
  assumes "dc_pin \<noteq> cs_pin"
  shows "display_drawn (new_ILI9341 mm cs_pin dc_pin rst_pin) (display_begin new_Display)"
proof -
  let ?g = "ili_setRotation 2 (ili_begin (new_ILI9341 mm cs_pin dc_pin rst_pin))"
  note u = upright_start [OF assms, of mm rst_pin]
  have b: "0 \<le> (0::int)" "1 \<le> width ?g" "width ?g \<le> 5000" "1 \<le> height ?g" "height ?g \<le> 5000"
    using u by (simp_all add: upright_def)
  obtain g where g: "ili_fillScreen ILI9341_WHITE ?g = Some g" "lcd_ok g" "same_but_dev ?g g"
    "\<forall>p q. on_screen ?g p q \<longrightarrow> shown_pixel g p q =
      (if (p, q) \<in> in_rect 0 0 (width ?g) (height ?g) then ILI9341_WHITE else shown_pixel ?g p q)"
    using lcd_fill_rect [OF upright_ok [OF u] b(1,1,2-5), of ILI9341_WHITE] unfolding ili_fillScreen_def by blast
  have "upright g" using upright_same [OF g(3) _ u] g(2) by (simp add: lcd_ok_def)
  moreover have "on_screen g p q \<Longrightarrow> shown_pixel g p q = ILI9341_WHITE" for p q
    using g(4) same_but_dev_fields(3) [OF g(3)] by (auto simp: on_screen_def in_rect_def)
  moreover have "text_in (region_of k) (display_begin new_Display) = []" for k
    by (simp add: text_in_def screen_of_def display_begin_def new_Display_def send_lcd_def blank_def)
  ultimately have "pixels_show (display_begin new_Display) g"
    by (simp add: pixels_show_def text_fits_def)
  moreover have "run_lcd (m_lcd (display_begin new_Display)) (new_ILI9341 mm cs_pin dc_pin rst_pin) = Some g"
    using g(1) by (simp add: display_begin_def new_Display_def send_lcd_def ili_class_def)
  ultimately show ?thesis by (auto simp: display_drawn_def)
qed

lemma updates_pixels:
  assumes "dc_pin \<noteq> cs_pin" "list_all (\<lambda>(k, s). text_fits k (label_of k @ s)) us"
    and "0 \<le> p" "p < 240" "0 \<le> q" "q < 320"
  shows "\<exists>g. run_lcd (m_lcd (run_updates us (display_begin new_Display))) (new_ILI9341 mm cs_pin dc_pin rst_pin) = Some g \<and>
    ram (sent g) p q =
      (if \<exists>k. (p, q) \<in> text_dots k (text_in (region_of k) (run_updates us (display_begin new_Display)))
       then ILI9341_BLACK else ILI9341_WHITE)"
proof -
  let ?d = "run_updates us (display_begin new_Display)"
  have "display_drawn (new_ILI9341 mm cs_pin dc_pin rst_pin) ?d"
    by (intro display_drawn_updates display_drawn_begin assms(1,2))
  then obtain g where g: "run_lcd (m_lcd ?d) (new_ILI9341 mm cs_pin dc_pin rst_pin) = Some g" "pixels_show ?d g"
    by (auto simp: display_drawn_def)
  have "on_screen g p q" using g(2) assms(3-6) by (simp add: pixels_show_def upright_def on_screen_def)
  then show ?thesis using g by (auto simp: pixels_show_def shown_pixel_def)
qed

end

section \<open>Properties\<close>

text \<open>C17: The pixels refine the abstract screen: after the display has been started and any sequence of
  updates with texts that fit their regions, on any controller that keeps the contract, the commands run to their
  end, and every pixel of the screen is black where one of the five texts that stand on the abstract screen has a
  dot, and white everywhere else.\<close>

theorem screen_pixels:
  assumes "panel ram" "dc_pin \<noteq> cs_pin" "list_all (\<lambda>(k, s). text_fits k (label_of k @ s)) us"
    and "0 \<le> p" "p < 240" "0 \<le> q" "q < 320"
  defines "d \<equiv> run_updates us (display_begin new_Display)"
  shows "\<exists>g. run_lcd (m_lcd d) (new_ILI9341 mm cs_pin dc_pin rst_pin) = Some g \<and>
    ram (sent g) p q =
      (if \<exists>k. (p, q) \<in> text_dots k (text_in (region_of k) d) then ILI9341_BLACK else ILI9341_WHITE)"
  unfolding d_def by (rule panel.updates_pixels [OF assms(1-7)])

theorem screen_pixels_witness:
  "\<exists>g. run_lcd (m_lcd (run_updates [(TimeSlot, ''1:05''), (TimeSlot, ''1:06'')] (display_begin new_Display)))
      (new_ILI9341 0 0 16 (-1)) = Some g \<and> picture (sent g) 30 42 = ILI9341_BLACK"
proof -
  let ?us = "[(TimeSlot, ''1:05''), (TimeSlot, ''1:06'')]"
  have "text_fits TimeSlot (label_of TimeSlot @ ''1:05'')" "text_fits TimeSlot (label_of TimeSlot @ ''1:06'')"
    by (simp_all add: text_fits_def)
  then have f: "list_all (\<lambda>(k, s). text_fits k (label_of k @ s)) ?us" by simp
  have t: "text_in (region_of TimeSlot) (run_updates ?us (display_begin new_Display)) = ''1:06''"
    using run_updates_ok [OF display_begin_ok, of ?us TimeSlot] by (simp add: display_ok_def del: region_of.simps)
  have "glyph_dot 49 2 0" by code_simp
  then have "(30, 42) \<in> text_dots TimeSlot ''1:06''"
    by (simp add: text_dots_def char_bytes_def origin_def region_defs char_area_def font_index_def)
  then have "\<exists>k. (30, 42) \<in> text_dots k (text_in (region_of k) (run_updates ?us (display_begin new_Display)))"
    using t by (intro exI [of _ TimeSlot]) simp
  then show ?thesis
    using screen_pixels [OF reference.panel_axioms _ f, of 16 0 30 42 0 "-1"] by simp
qed


end
