(* ===== verification/StationPixels.thy ===== *)
theory StationPixels
  imports StationRuns LcdPixels
begin

text \<open>
  The base station and its screen: whatever requests come in, the strings that the station draws
  fit the regions of the display, as long as no reading is below -99, so that the pixels are
  those of the five texts.
\<close>

section \<open>The strings fit\<close>

definition mild :: "sensor_data \<Rightarrow> bool" where
  "mild d \<longleftrightarrow> -99 \<le> temperature d \<and> -99 \<le> humidity d"

definition unbroken :: "string \<Rightarrow> bool" where
  "unbroken str \<longleftrightarrow> CHR 0x0A \<notin> set str \<and> CHR 0x0D \<notin> set str"

lemma unbroken_simps [simp]:
  "unbroken []" "unbroken (c # str) \<longleftrightarrow> c \<noteq> CHR 0x0A \<and> c \<noteq> CHR 0x0D \<and> unbroken str"
  "unbroken (xs @ ys) \<longleftrightarrow> unbroken xs \<and> unbroken ys"
  by (auto simp: unbroken_def)

lemma fits_iff: "text_fits k str \<longleftrightarrow> length str \<le> text_capacity k \<and> unbroken str"
  by (auto simp: text_fits_def unbroken_def)

lemma unbroken_take: "unbroken xs \<Longrightarrow> unbroken (take n xs)"
  by (auto simp: unbroken_def dest: in_set_takeD)

lemma unbroken_dec_of_nat [simp]: "unbroken (dec_of_nat n)"
proof -
  have "\<not> is_digit (CHR 0x0A)" "\<not> is_digit (CHR 0x0D)" by (simp_all add: is_digit_def char_code_def)
  then show ?thesis using dec_of_nat_digits [of n] by (auto simp: unbroken_def)
qed

lemma unbroken_dec_of_int [simp]: "unbroken (dec_of_int i)"
  by (simp add: dec_of_int_def)

lemma length_reading:
  assumes "-99 \<le> v"
  shows "length (if v < 255 then dec_of_int v else ''--'') \<le> 3"
  using assms length_dec_of_nat [of "nat v" 3] length_dec_of_nat [of "nat (- v)" 2]
  by (auto simp: dec_of_int_def)

lemma reading_fits:
  assumes "mild d"
  shows "text_fits InsideSlot (''In: '' @ sensor_to_string d)" "text_fits OutsideSlot (''Out: '' @ sensor_to_string d)"
proof -
  have "unbroken (sensor_to_string d)"
    by (simp add: sensor_to_string_def Let_def degree_sign_def)
  moreover have "length (sensor_to_string d) \<le> 10"
    using length_reading [of "temperature d"] length_reading [of "humidity d"] assms
    by (simp add: sensor_to_string_def Let_def mild_def)
  ultimately show "text_fits InsideSlot (''In: '' @ sensor_to_string d)" "text_fits OutsideSlot (''Out: '' @ sensor_to_string d)"
    by (simp_all add: text_fits_def unbroken_def)
qed

text \<open>The names of the days and months.\<close>

lemma names_unbroken:
  "monthStr m = Some s \<Longrightarrow> unbroken s" "dayStr m = Some s \<Longrightarrow> unbroken s"
proof -
  have "list_all unbroken monthNames_P" "list_all unbroken dayNames_P" by (simp_all add: name_tables)
  then show "monthStr m = Some s \<Longrightarrow> unbroken s" "dayStr m = Some s \<Longrightarrow> unbroken s"
    by (auto simp: monthStr_def dayStr_def read_at_def list_all_length split: if_splits)
qed

text \<open>The cache of the Time library never holds an hour above 23.\<close>

definition hour_ok :: "timelib \<Rightarrow> bool" where
  "hour_ok l \<longleftrightarrow> unat (tm_Hour (cache_tm l)) < 24"

lemma refreshCache_hour [simp]: "hour_ok l \<Longrightarrow> hour_ok (refreshCache t l)"
  using breakTime_valid [of t] by (simp add: hour_ok_def refreshCache_def tm_valid_def)

lemma accessors_hour [simp]:
  "hour_ok l \<Longrightarrow> hour_ok (snd (hour t l))" "hour_ok l \<Longrightarrow> hour_ok (snd (hourFormat12 t l))"
  "hour_ok l \<Longrightarrow> hour_ok (snd (isAM t l))" "hour_ok l \<Longrightarrow> hour_ok (snd (minute t l))"
  "hour_ok l \<Longrightarrow> hour_ok (snd (day t l))" "hour_ok l \<Longrightarrow> hour_ok (snd (weekday t l))"
  "hour_ok l \<Longrightarrow> hour_ok (snd (month t l))" "hour_ok l \<Longrightarrow> hour_ok (snd (year t l))"
  by (simp_all add: hour_def hourFormat12_def isAM_def isPM_def minute_def day_def weekday_def month_def year_def
      Let_def case_prod_beta)

lemma setTime_hour [simp]: "hour_ok (TimeLib.setTime t m l) = hour_ok l"
  by (simp add: hour_ok_def TimeLib.setTime_def)

lemma now_hour [simp]: "hour_ok (snd (now m l)) = hour_ok l"
  by (auto simp: now_def now_sync_def now_tick_def hour_ok_def TimeLib.setTime_def Let_def case_prod_beta
      split: option.splits)

lemma changed_hour [simp]: "hour_ok l \<Longrightarrow> hour_ok (snd (changed d a b t l))"
  by (simp add: changed_def time_is_same_def same_field_def Let_def case_prod_beta)

lemma toTime_t_hour: "toTime_t r y l = Some (t, l') \<Longrightarrow> hour_ok l \<Longrightarrow> hour_ok l'"
  by (auto simp: toTime_t_def Let_def case_prod_beta split: option.splits)

lemma recalc_hour: "recalc p t z l = Some (z', l') \<Longrightarrow> hour_ok l \<Longrightarrow> hour_ok l'"
  by (auto simp: recalc_def calcTimeChanges_def Let_def case_prod_beta split: if_splits option.splits
      dest!: toTime_t_hour)

lemma toLocal_hour: "toLocal t z l = Some (u, z', l') \<Longrightarrow> hour_ok l \<Longrightarrow> hour_ok l'"
  by (auto simp: toLocal_def utcIsDST_def split: option.splits dest!: recalc_hour)

lemma toUTC_hour: "toUTC t z l = Some (u, z', l') \<Longrightarrow> hour_ok l \<Longrightarrow> hour_ok l'"
  by (auto simp: toUTC_def locIsDST_def split: option.splits dest!: recalc_hour)

section \<open>What leaves the screen alone\<close>

definition calm :: "Display \<Rightarrow> 'w station \<Rightarrow> bool" where
  "calm d st \<longleftrightarrow> m_display st = d \<and> hour_ok (lib st)"

lemma calm_simps [simp]:
  "calm d (snd (millis b st)) = calm d st" "calm d (snd (station_now b st)) = calm d st"
  "calm d (set_clock b t st) = calm d st" "calm d (set_rtc b t st) = calm d st" "calm d (make_tz b st) = calm d st"
  "calm d (set_backlight_level b i st) = calm d st" "calm d (adjust_back_light b force st) = calm d st"
  "calm d (handle_backlight_button b st) = calm d st" "calm d (update_local_sensor_data b u st) = calm d st"
  "calm d (snd (save_config b ap pw ss so ds do' st)) = calm d st" "calm d (snd (load_config b st)) = calm d st"
  by (simp_all add: calm_def millis_def station_now_def set_clock_def set_rtc_def make_tz_def set_backlight_level_def
      adjust_back_light_def handle_backlight_button_def update_local_sensor_data_def save_config_def load_config_def
      Let_def case_prod_beta)

lemma calm_frame [simp]:
  "calm d (st\<lparr>world := w\<rparr>) = calm d st" "calm d (st\<lparr>pages := o'\<rparr>) = calm d st"
  "calm d (st\<lparr>m_wifi_connected := c\<rparr>) = calm d st" "calm d (st\<lparr>m_last_display_data := dd\<rparr>) = calm d st"
  "calm d (st\<lparr>m_current_remote_sensor_data := x\<rparr>) = calm d st" "calm d (st\<lparr>m_ntp_client := n\<rparr>) = calm d st"
  "calm d (st\<lparr>m_display_timer := c\<rparr>) = calm d st"
  by (simp_all add: calm_def)

lemma tz_calm:
  "tz_toLocal t st = Some (u, st') \<Longrightarrow> calm d st \<longrightarrow> calm d st'" "tz_toUTC t st = Some (u, st') \<Longrightarrow> calm d st \<longrightarrow> calm d st'"
  by (auto simp: calm_def tz_toLocal_def tz_toUTC_def bind_eq_Some_conv case_prod_beta dest: toLocal_hour toUTC_hour)

lemma update_time_calm: "update_time b u st = Some st' \<Longrightarrow> calm d st' = calm d st"
  by (auto simp: update_time_def millis_def set_clock_def set_rtc_def calm_def case_prod_beta Let_def bind_eq_Some_conv
      split: if_splits)

lemma run_handler_calm:
  assumes "run_handler b f (sv, st) = Some (sv', st')" "calm d st"
  shows "calm d st'"
proof (cases f)
  case Handle_sensor_data_post
  then show ?thesis using assms by (auto simp: run_handler_def handle_sensor_data_post_def bind_eq_Some_conv)
next
  case Handle_root
  then show ?thesis
    using assms unfolding run_handler_def handle_root_def prod.case case_prod_beta Let_def
    by (auto simp: bind_eq_Some_conv calm_def)
next
  case HandleTime
  then show ?thesis
    using assms unfolding run_handler_def handleTime_def prod.case case_prod_beta Let_def
    by (auto simp: bind_eq_Some_conv dest!: tz_calm(1) [where d = d])
next
  case SetTime
  then show ?thesis
    using assms unfolding run_handler_def ws_setTime_def prod.case
    by (auto simp: bind_eq_Some_conv dest!: tz_calm [where d = d] split: if_splits)
next
  case SetTimeZone
  then show ?thesis
    using assms unfolding run_handler_def ws_setTimeZone_def prod.case save_tz_config_def
    by (auto simp: bind_eq_Some_conv case_prod_beta Let_def dest!: tz_calm(1) [where d = d] split: if_splits)
next
  case HandleWiFiConfig
  then show ?thesis using assms by (auto simp: run_handler_def handleWiFiConfig_def bind_eq_Some_conv)
next
  case SetWiFiConfig
  then show ?thesis
    using assms unfolding run_handler_def ws_setWiFiConfig_def prod.case save_wifi_config_def
    by (auto simp: bind_eq_Some_conv case_prod_beta Let_def dest!: update_time_calm [where d = d] split: if_splits)
qed

lemma handle_get_calm:
  assumes "handle_get (station_env b) r (sv, st) = Some (r', sv', st')" "station_ok (sv, st)" "calm d st"
  shows "calm d st'"
proof -
  obtain m where m: "request_method (req_method r) = Some m"
    using assms(1) by (auto simp: handle_get_def bind_eq_Some_conv)
  show ?thesis
  proof (cases "find (\<lambda>h. canHandle h m (c_text (req_path r))) (sv_handlers sv)")
    case None
    then show ?thesis using assms by (simp add: handle_get_none [OF m None])
  next
    case (Some h)
    then have "h \<in> set station_handlers" using assms(2) by (auto simp: station_ok_def find_Some_iff)
    then obtain f uri meth where h: "h = MethodRequestHandler f None uri meth" by (auto simp: station_handlers_def)
    obtain sv3 where "run_handler b f ((begin_request r m sv)\<lparr>sv_handler := Some h\<rparr>, st) = Some (sv3, st')"
      using assms(1) unfolding handle_get_method [OF m Some disjI1 [OF h]]
      by (auto simp: bind_eq_Some_conv station_env_def)
    then show ?thesis using run_handler_calm assms(3) by blast
  qed
qed

lemma on_loop_calm:
  assumes "on_loop b req (sv, st) = Some (answer, sv', st')" "station_ok (sv, st)" "calm d st"
  shows "calm d st'"
proof -
  obtain st1 where 1: "update_time b False (update_local_sensor_data b False st) = Some st1"
    using assms(1) by (auto simp: on_loop_def bind_eq_Some_conv)
  have c1: "calm d st1" using update_time_calm [OF 1, of d] assms(3) by simp
  have ok1: "station_ok (sv, st1)" using update_time_keeps(2) [OF 1] assms(2) by (simp add: station_ok_def)
  show ?thesis
  proof (cases req)
    case None
    then show ?thesis using assms(1) 1 c1 by (auto simp: on_loop_def)
  next
    case (Some r)
    then obtain r' sv2 st2 where 2: "handle_get (station_env b) r (sv, st1) = Some (r', sv2, st2)"
      "st' = handle_backlight_button b st2"
      using assms(1) 1 by (auto simp: on_loop_def bind_eq_Some_conv)
    from handle_get_calm [OF 2(1) ok1 c1] show ?thesis by (simp add: 2(2))
  qed
qed

section \<open>Drawing\<close>

lemma length_small: "0 \<le> i \<Longrightarrow> i < 100 \<Longrightarrow> length (dec_of_int i) \<le> 2"
  using length_dec_of_nat [of "nat i" 2] by (simp add: dec_of_int_def)

lemma length_year: "length (dec_of_int (tmYearToCalendar y)) \<le> 4"
proof -
  have "0 \<le> uint y" "uint y < 256" using uint_lt2p [of y] by simp_all
  then have "0 \<le> tmYearToCalendar y" "nat (tmYearToCalendar y) < 10 ^ 4" by (simp_all add: tmYearToCalendar_def)
  then show ?thesis using length_dec_of_nat [of _ 4] by (simp add: dec_of_int_def)
qed

lemma pad_string_two:
  assumes "0 \<le> i" "i < 100"
  shows "length (pad_string (dec_of_int i) 2 (CHR ''0'')) = 2" "unbroken (pad_string (dec_of_int i) 2 (CHR ''0''))"
proof -
  have p: "length (prepend n c str) = n + length str" "unbroken (prepend n (CHR ''0'') str) = unbroken str" for n c str
    by (induction n arbitrary: str) simp_all
  show "length (pad_string (dec_of_int i) 2 (CHR ''0'')) = 2" "unbroken (pad_string (dec_of_int i) 2 (CHR ''0''))"
    using length_small [OF assms] by (simp_all add: pad_string_def p)
qed

text \<open>The clock strings always fit; the readings do when they are mild.\<close>

lemma draw_display_fits:
  assumes "draw_display st = Some st'" "hour_ok (lib st)"
    and "mild (local_data (m_last_display_data st))" "mild (remote_data (m_last_display_data st))"
  shows "hour_ok (lib st') \<and> (\<exists>us. m_display st' = run_updates us (m_display st) \<and> list_all (\<lambda>(k, s). text_fits k (label_of k @ s)) us)"
proof -
  let ?t = "shown_time (m_last_display_data st)"
  let ?tm = "breakTime ?t"
  have v: "tm_valid ?tm" by (rule breakTime_valid)
  obtain ml ms dl ds where names: "monthStr (tm_Month ?tm) = Some ml" "monthShortStr (tm_Month ?tm) = Some ms"
    "ms = take 3 ml" "length ms = 3" "dayStr (tm_Wday ?tm) = Some dl" "dayShortStr (tm_Wday ?tm) = Some ds"
    "ds = take 3 dl" "length ds = 3"
    using date_names_defined [of ?t] by blast
  have plain: "unbroken ms" "unbroken ds"
    using names unbroken_take names_unbroken by blast+
  let ?h = "fst (hourFormat12 ?t (lib st))"
  have h: "0 \<le> ?h" "?h < 100"
    using refreshCache_hour [OF assms(2), of ?t]
    by (auto simp: hourFormat12_def Let_def hour_ok_def word_less_def simp flip: nat_uint_eq)
  have "unat (tm_Minute ?tm) < 100" using v by (simp add: tm_valid_def)
  moreover have "unat (tm_Month ?tm) - 1 < 12" "unat (tm_Day ?tm) \<le> mlen (unat (tm_Year ?tm)) (unat (tm_Month ?tm) - 1)"
    using v by (auto simp: tm_valid_def tm_date_valid_def)
  then have "unat (tm_Day ?tm) < 100"
    using mlen_bounds [of "unat (tm_Month ?tm) - 1" "unat (tm_Year ?tm)"] by linarith
  ultimately have m: "uint (tm_Minute ?tm) < 100" "uint (tm_Day ?tm) < 100"
    using uint_nat [of "tm_Minute ?tm"] uint_nat [of "tm_Day ?tm"] by linarith+
  let ?us = "[(TimeSlot, dec_of_int ?h @ '':'' @ pad_string (dec_of_int (uint (tm_Minute ?tm))) 2 (CHR ''0'')),
    (MeridianSlot, if fst (isAM ?t (snd (hourFormat12 ?t (lib st)))) then ''am'' else ''pm''),
    (DateSlot, ds @ '', '' @ ms @ '' '' @ dec_of_int (uint (tm_Day ?tm)) @ '', '' @
      dec_of_int (tmYearToCalendar (tm_Year ?tm))),
    (InsideSlot, get_local_sensor_string (m_last_display_data st)),
    (OutsideSlot, get_remote_sensor_string (m_last_display_data st))]"
  have "st' = st\<lparr>lib := snd (isAM ?t (snd (hourFormat12 ?t (lib st)))), m_display := run_updates ?us (m_display st)\<rparr>"
    using assms(1) by (simp add: draw_display_def names(2,6) Let_def case_prod_beta run_updates_def)
  moreover have "list_all (\<lambda>(k, s). text_fits k (label_of k @ s)) ?us"
    unfolding list.pred_inject prod.case
  proof (intro conjI)
    show "text_fits TimeSlot (label_of TimeSlot @ dec_of_int ?h @ '':'' @
        pad_string (dec_of_int (uint (tm_Minute ?tm))) 2 (CHR ''0''))"
      using length_small [OF h] pad_string_two [OF _ m(1)] by (simp add: fits_iff)
    show "text_fits MeridianSlot (label_of MeridianSlot @
        (if fst (isAM ?t (snd (hourFormat12 ?t (lib st)))) then ''am'' else ''pm''))"
      by (simp add: fits_iff)
    show "text_fits DateSlot (label_of DateSlot @ ds @ '', '' @ ms @ '' '' @ dec_of_int (uint (tm_Day ?tm)) @ '', '' @
        dec_of_int (tmYearToCalendar (tm_Year ?tm)))"
      using length_small [OF _ m(2)] length_year [of "tm_Year ?tm"] names(4,8) plain by (simp add: fits_iff)
  qed (use reading_fits [OF assms(3)] reading_fits [OF assms(4)] in
      \<open>simp_all add: get_local_sensor_string_def get_remote_sensor_string_def\<close>)
  ultimately show ?thesis using assms(2) by auto
qed

section \<open>Runs with mild readings\<close>

text \<open>As \<open>reachable\<close>, where the Time library starts with an hour below 24 and every tick of the
  display finds mild readings.\<close>

inductive mild_run :: "'w setting \<Rightarrow> 'w run \<Rightarrow> bool" for b where
  mild_begun: "ws_begin b (new_WeatherStationBase b t l w) = Some (sv, st) \<Longrightarrow> hour_ok l \<Longrightarrow>
     mild (m_current_local_sensor_data st) \<Longrightarrow> mild_run b (sv, st)"
| mild_looped: "mild_run b s \<Longrightarrow> on_loop b req s = Some (answer, s') \<Longrightarrow> mild_run b s'"
| mild_served: "mild_run b s \<Longrightarrow> handle_get (station_env b) r s = Some (r', s') \<Longrightarrow> mild_run b s'"
| mild_ticked: "mild_run b (sv, st) \<Longrightarrow> mild (m_current_local_sensor_data st) \<Longrightarrow>
     mild (m_current_remote_sensor_data st) \<Longrightarrow> update_display b False st = Some st' \<Longrightarrow> mild_run b (sv, st')"

lemma mild_run_reachable: "mild_run b s \<Longrightarrow> reachable b s"
  by (induction rule: mild_run.induct) (auto intro: reachable.intros)

text \<open>What is on the screen came from updates with texts that fit.\<close>

definition fitting :: "Display \<Rightarrow> bool" where
  "fitting d \<longleftrightarrow> (\<exists>us. d = run_updates us (display_begin new_Display) \<and>
     list_all (\<lambda>(k, s). text_fits k (label_of k @ s)) us)"

lemma run_updates_append: "run_updates us' (run_updates us d) = run_updates (us @ us') d"
  by (simp add: run_updates_def)

lemma fitting_more:
  "list_all (\<lambda>(k, s). text_fits k (label_of k @ s)) us \<Longrightarrow> fitting d \<Longrightarrow> fitting (run_updates us d)"
proof -
  assume us: "list_all (\<lambda>(k, s). text_fits k (label_of k @ s)) us" and "fitting d"
  then obtain us' where "d = run_updates us' (display_begin new_Display)"
    "list_all (\<lambda>(k, s). text_fits k (label_of k @ s)) us'" by (auto simp: fitting_def)
  with us show ?thesis by (auto simp: fitting_def run_updates_append intro!: exI [of _ "us' @ us"])
qed

lemma update_display_sensors:
  "update_display b u st = Some st' \<Longrightarrow> m_current_local_sensor_data st' = m_current_local_sensor_data st"
  by (auto simp: update_display_def draw_display_def station_now_def millis_def tz_toLocal_def adjust_back_light_def
      set_backlight_level_def case_prod_beta Let_def bind_eq_Some_conv split: if_splits)

lemma update_display_fitting:
  assumes "update_display b u st = Some st'" "calm d st" "fitting d"
    and "mild (m_current_local_sensor_data st)" "mild (m_current_remote_sensor_data st)"
  shows "\<exists>d'. calm d' st' \<and> fitting d'"
proof -
  obtain t st1 where 1: "station_now b (adjust_back_light b False st) = (t, st1)" by fastforce
  obtain t' st2 where 2: "tz_toLocal t st1 = Some (t', st2)"
    using assms(1) 1 by (auto simp: update_display_def Let_def bind_eq_Some_conv)
  have c1: "calm d st1" using calm_simps(2) [of d b "adjust_back_light b False st"] assms(2) by (simp add: 1)
  then have c2: "calm d st2" using tz_calm(1) [OF 2] by blast
  have sensors: "m_current_local_sensor_data st2 = m_current_local_sensor_data st"
    "m_current_remote_sensor_data st2 = m_current_remote_sensor_data st"
    using 1 2 by (auto simp: station_now_def millis_def tz_toLocal_def adjust_back_light_def set_backlight_level_def
        case_prod_beta Let_def bind_eq_Some_conv)
  define l where "l = (if u then lib st2 else snd (changed (m_last_display_data st2) (m_current_local_sensor_data st)
      (m_current_remote_sensor_data st) t' (lib st2)))"
  define st3 where "st3 = st2\<lparr>lib := l, m_last_display_data := update (m_last_display_data st2)
      (m_current_local_sensor_data st) (m_current_remote_sensor_data st) t'\<rparr>"
  have l: "hour_ok l" using c2 by (auto simp: l_def calm_def)
  have "st' = st2\<lparr>lib := l\<rparr> \<or> draw_display st3 = Some st'"
    using assms(1) 1 2 sensors
    by (auto simp: update_display_def Let_def case_prod_beta l_def st3_def split: if_splits)
  then show ?thesis
  proof
    assume "st' = st2\<lparr>lib := l\<rparr>"
    then show ?thesis using c2 l assms(3) by (auto simp: calm_def)
  next
    assume draw: "draw_display st3 = Some st'"
    have "hour_ok (lib st3)" "mild (local_data (m_last_display_data st3))" "mild (remote_data (m_last_display_data st3))"
      "m_display st3 = d"
      using l c2 assms(4,5) by (simp_all add: st3_def update_def calm_def)
    then show ?thesis
      using draw_display_fits [OF draw] fitting_more [OF _ assms(3)] by (auto simp: calm_def)
  qed
qed

lemma register_handlers_calm: "calm d (snd (register_handlers (sv, st))) = calm d st"
  using register_handlers_station [of sv st] by auto

lemma start_up_fitting:
  assumes "do { st \<leftarrow> update_time b True st;
              st \<leftarrow> update_display b True (update_local_sensor_data b True st);
              Some (sv, st\<lparr>m_display_timer := True\<rparr>) } = Some (sv', st')"
    and "calm d st" "fitting d" "mild (m_current_remote_sensor_data st)" "mild (m_current_local_sensor_data st')"
  shows "\<exists>d'. calm d' st' \<and> fitting d'"
proof -
  obtain st1 where 1: "update_time b True st = Some st1" using assms(1) by (auto simp: bind_eq_Some_conv)
  obtain st2 where 2: "update_display b True (update_local_sensor_data b True st1) = Some st2"
    "st' = st2\<lparr>m_display_timer := True\<rparr>"
    using assms(1) 1 by (auto simp: bind_eq_Some_conv)
  have "calm d (update_local_sensor_data b True st1)" using update_time_calm [OF 1, of d] assms(2) by simp
  moreover have "m_current_remote_sensor_data (update_local_sensor_data b True st1) = m_current_remote_sensor_data st"
    using 1 by (auto simp: update_time_def update_local_sensor_data_def millis_def set_clock_def set_rtc_def case_prod_beta
        Let_def bind_eq_Some_conv split: if_splits)
  moreover have "m_current_local_sensor_data (update_local_sensor_data b True st1) = m_current_local_sensor_data st2"
    using update_display_sensors [OF 2(1)] by simp
  ultimately show ?thesis
    using update_display_fitting [OF 2(1) _ assms(3)] assms(4,5) by (simp add: 2(2))
qed

lemma remote_frame:
  "m_current_remote_sensor_data (snd (register_handlers (sv, st))) = m_current_remote_sensor_data st"
  "m_current_remote_sensor_data (make_tz b st) = m_current_remote_sensor_data st"
  "m_current_remote_sensor_data (snd (load_config b st)) = m_current_remote_sensor_data st"
  "m_current_remote_sensor_data (set_clock b t st) = m_current_remote_sensor_data st"
  "m_current_remote_sensor_data (set_backlight_level b i st) = m_current_remote_sensor_data st"
  using register_handlers_station [of sv st]
  by (auto simp: make_tz_def load_config_def set_clock_def millis_def set_backlight_level_def case_prod_beta Let_def)

lemma calm_started: "m_display st = new_Display \<Longrightarrow> hour_ok (lib st) \<Longrightarrow>
    calm (display_begin new_Display) (st\<lparr>m_display := display_begin new_Display\<rparr>)"
  by (simp add: calm_def)

lemma server_begin_fitting:
  assumes "ws_server_begin b (sv, st) = Some (sv', st')" "m_display st = new_Display" "hour_ok (lib st)"
    and "mild (m_current_remote_sensor_data st)" "mild (m_current_local_sensor_data st')"
  shows "\<exists>d'. calm d' st' \<and> fitting d'"
proof -
  let ?d = "display_begin new_Display"
  obtain sv1 st1 where run: "do { st \<leftarrow> update_time b True st1;
              st \<leftarrow> update_display b True (update_local_sensor_data b True st);
              Some (sv1, st\<lparr>m_display_timer := True\<rparr>) } = Some (sv', st')"
    "calm ?d st1" "mild (m_current_remote_sensor_data st1)"
  proof (rule that [OF assms(1) [unfolded ws_server_begin_def prod.case case_prod_beta Let_def]], goal_cases)
    case 1
    show ?case using calm_started [OF assms(2,3)] assms(2) by (simp add: register_handlers_calm)
  next
    case 2
    show ?case using assms(4) by (simp add: remote_frame)
  qed
  have "?d = run_updates [] ?d" by (simp add: run_updates_def)
  then have "fitting ?d" unfolding fitting_def by (metis list.pred_inject(1))
  from start_up_fitting [OF run(1,2) this run(3) assms(5)] show ?thesis .
qed

lemma mild_run_fitting: "mild_run b (sv, st) \<Longrightarrow> \<exists>d. calm d st \<and> fitting d"
proof (induction "(sv, st)" arbitrary: sv st rule: mild_run.induct)
  case (mild_begun t l w sv st)
  let ?n = "new_WeatherStationBase b t l w"
  have new: "m_display (snd ?n) = new_Display" "hour_ok (lib (snd ?n))" "mild (m_current_remote_sensor_data (snd ?n))"
    using mild_begun(2) by (simp_all add: new_WeatherStationBase_def mild_def new_sensor_data_def case_prod_beta Let_def)
  obtain sv1 st1 o' w' where 1: "ws_server_begin b (server_begin (fst ?n), snd ?n) = Some (sv1, st1)"
    "st = st1\<lparr>pages := o', world := w'\<rparr>"
    using mild_begun(1) by (auto simp: ws_begin_def case_prod_beta Let_def bind_eq_Some_conv)
  from server_begin_fitting [OF 1(1) new] mild_begun(3) show ?case by (simp add: 1(2))
next
  case (mild_looped s req answer)
  obtain sv0 st0 where s: "s = (sv0, st0)" by (cases s)
  obtain d where "calm d st0" "fitting d" using mild_looped(2) [OF s] by blast
  moreover have "station_ok (sv0, st0)" using reachable_ok mild_run_reachable mild_looped(1) s by blast
  ultimately show ?case using on_loop_calm mild_looped(3) unfolding s by blast
next
  case (mild_served s r r')
  obtain sv0 st0 where s: "s = (sv0, st0)" by (cases s)
  obtain d where "calm d st0" "fitting d" using mild_served(2) [OF s] by blast
  moreover have "station_ok (sv0, st0)" using reachable_ok mild_run_reachable mild_served(1) s by blast
  ultimately show ?case using handle_get_calm mild_served(3) unfolding s by blast
next
  case (mild_ticked sv st st')
  obtain d where "calm d st" "fitting d" using mild_ticked(2) by blast
  with update_display_fitting [OF mild_ticked(5) _ _ mild_ticked(3,4)] show ?case by blast
qed

section \<open>Properties\<close>

text \<open>C3: The base station with its screen attached, as wired on the board (chip select on pin 0, data pin
  on 16): however long the station has run and whatever requests it has had, as long as no tick met a reading
  below -99, the bytes it has sent to the screen leave, on any controller that keeps the contract, black pixels exactly
  where one of the five texts has a dot, and the texts of the two sensors are those of the readings last drawn.\<close>

theorem station_pixels:
  assumes "mild_run b (sv, st)" "panel ram" "0 \<le> p" "p < 240" "0 \<le> q" "q < 320"
  shows "\<exists>g. run_lcd (m_lcd (m_display st)) (new_ILI9341 mm 0 16 (-1)) = Some g \<and>
    ram (sent g) p q =
      (if \<exists>k. (p, q) \<in> text_dots k (text_in (region_of k) (m_display st)) then ILI9341_BLACK else ILI9341_WHITE) \<and>
    text_in inside_temp_region (m_display st) = ''In: '' @ get_local_sensor_string (m_last_display_data st) \<and>
    text_in outside_temp_region (m_display st) = ''Out: '' @ get_remote_sensor_string (m_last_display_data st)"
proof -
  obtain us where us: "m_display st = run_updates us (display_begin new_Display)"
    "list_all (\<lambda>(k, s). text_fits k (label_of k @ s)) us"
    using mild_run_fitting [OF assms(1)] by (auto simp: calm_def fitting_def)
  have "running st" using reachable_ok [OF mild_run_reachable [OF assms(1)]] by (simp add: station_ok_def)
  note texts = running_shows [OF this]
  obtain g where "run_lcd (m_lcd (m_display st)) (new_ILI9341 mm 0 16 (-1)) = Some g" "ram (sent g) p q =
      (if \<exists>k. (p, q) \<in> text_dots k (text_in (region_of k) (m_display st)) then ILI9341_BLACK else ILI9341_WHITE)"
    using panel.updates_pixels [OF assms(2) _ us(2) assms(3-6), of 16 0 mm "-1", folded us(1)] by auto
  with texts show ?thesis by blast
qed

lemma sample_reading:
  "m_current_local_sensor_data (update_local_sensor_data sample_setting True st) = \<lparr>temperature = 70, humidity = 40\<rparr>"
  by (simp add: update_local_sensor_data_def millis_def sample_setting_def quiet_board_def int_of_float_def int32_range_def
      eval_nat_numeral case_prod_beta Let_def)

lemma sample_mild_run: "\<exists>sv st. mild_run sample_setting (sv, st)"
proof -
  obtain sv st where start: "ws_begin sample_setting (new_WeatherStationBase sample_setting 0 timelib_init 0) = Some (sv, st)"
    using begin_returns [OF sample_alive] by (metis surj_pair)
  have "m_current_local_sensor_data st = \<lparr>temperature = 70, humidity = 40\<rparr>"
    using start unfolding ws_begin_def ws_server_begin_def prod.case case_prod_beta Let_def
    by (auto simp: bind_eq_Some_conv sample_reading dest!: update_display_sensors)
  then have "mild (m_current_local_sensor_data st)" by (simp add: mild_def)
  moreover have "hour_ok timelib_init" by (simp add: hour_ok_def timelib_init_def tm_zero_def)
  ultimately show ?thesis using mild_begun [OF start] by blast
qed

theorem station_pixels_witness:
  "\<exists>sv st g. mild_run sample_setting (sv, st) \<and> run_lcd (m_lcd (m_display st)) (new_ILI9341 0 0 16 (-1)) = Some g \<and>
     picture (sent g) 26 162 = ILI9341_BLACK"
proof -
  obtain sv st where run: "mild_run sample_setting (sv, st)" using sample_mild_run by blast
  obtain g where g: "run_lcd (m_lcd (m_display st)) (new_ILI9341 0 0 16 (-1)) = Some g" "picture (sent g) 26 162 =
      (if \<exists>k. (26, 162) \<in> text_dots k (text_in (region_of k) (m_display st)) then ILI9341_BLACK else ILI9341_WHITE)"
    and label: "text_in inside_temp_region (m_display st) = ''In: '' @ get_local_sensor_string (m_last_display_data st)"
    using station_pixels [OF run reference.panel_axioms, of 26 162 0] by auto
  have "glyph_dot 73 2 0" by code_simp
  then have "(26, 162) \<in> text_dots InsideSlot (''In: '' @ str)" for str
    by (simp add: text_dots_def char_bytes_def origin_def region_defs char_area_def font_index_def)
  then have "(26, 162) \<in> text_dots InsideSlot (text_in (region_of InsideSlot) (m_display st))" by (simp add: label)
  with run g show ?thesis by metis
qed

end
