(* ===== verification/Wire.thy ===== *)
theory Wire
  imports Prelude
begin

text \<open>
  The two-wire bus, \<^verbatim>\<open>esp8266_sim/Wire.cpp\<close> and \<^verbatim>\<open>Wire.h\<close>: a received message that is read byte by byte
  and a message that is collected before it is sent, each in a buffer of 32 bytes. The transfers
  themselves (\<open>twi_writeTo\<close> and its siblings) belong to the core of the chip and are not in the
  sources: they are the record \<open>twi\<close>, an argument of the operations that call them, over an opaque
  world. The invariant \<open>wire_ok\<close> says that no index leaves its buffer; the lemmas after it describe the
  operations on what is still to be sent and what is still to be read.
\<close>

section \<open>The transfers\<close>

text \<open>A read returns its status and the bytes that it has stored at the front of the buffer.\<close>

record 'w twi =
  twi_init :: "int \<Rightarrow> int \<Rightarrow> 'w \<Rightarrow> 'w"
  twi_setClock :: "u32 \<Rightarrow> 'w \<Rightarrow> 'w"
  twi_setClockStretchLimit :: "u32 \<Rightarrow> 'w \<Rightarrow> 'w"
  twi_writeTo :: "u8 \<Rightarrow> u8 list \<Rightarrow> bool \<Rightarrow> 'w \<Rightarrow> u8 \<times> 'w"
  twi_readFrom :: "u8 \<Rightarrow> nat \<Rightarrow> bool \<Rightarrow> 'w \<Rightarrow> u8 \<times> u8 list \<times> 'w"
  optimistic_yield :: "nat \<Rightarrow> 'w \<Rightarrow> 'w"

section \<open>State\<close>

definition BUFFER_LENGTH :: nat where "BUFFER_LENGTH = 32"

record wire =
  rxBuffer :: "u8 list"
  rxBufferIndex :: u8
  rxBufferLength :: u8
  txAddress :: u8
  txBuffer :: "u8 list"
  txBufferIndex :: u8
  txBufferLength :: u8
  transmitting :: u8
  write_error :: int
  default_sda_pin :: int
  default_scl_pin :: int

text \<open>The statics before the first call; the standard pins of a board are an argument.\<close>

definition wire_start :: "int \<Rightarrow> int \<Rightarrow> wire" where
  "wire_start sda scl =
     \<lparr>rxBuffer = replicate BUFFER_LENGTH 0, rxBufferIndex = 0, rxBufferLength = 0, txAddress = 0,
      txBuffer = replicate BUFFER_LENGTH 0, txBufferIndex = 0, txBufferLength = 0, transmitting = 0,
      write_error = 0, default_sda_pin = sda, default_scl_pin = scl\<rparr>"

section \<open>Operations\<close>

definition wire_flush :: "wire \<Rightarrow> wire" where
  "wire_flush s = s\<lparr>rxBufferIndex := 0, rxBufferLength := 0, txBufferIndex := 0, txBufferLength := 0\<rparr>"

definition wire_begin_pins :: "'w twi \<Rightarrow> int \<Rightarrow> int \<Rightarrow> wire \<times> 'w \<Rightarrow> wire \<times> 'w" where
  "wire_begin_pins b sda scl = (\<lambda>(s, w).
     let s = s\<lparr>default_sda_pin := sda, default_scl_pin := scl\<rparr>
     in (wire_flush s, twi_init b sda scl w))"

definition wire_pins :: "int \<Rightarrow> int \<Rightarrow> wire \<Rightarrow> wire" where
  "wire_pins sda scl s = s\<lparr>default_sda_pin := sda, default_scl_pin := scl\<rparr>"

definition wire_begin :: "'w twi \<Rightarrow> wire \<times> 'w \<Rightarrow> wire \<times> 'w" where
  "wire_begin b = (\<lambda>(s, w). wire_begin_pins b (default_sda_pin s) (default_scl_pin s) (s, w))"

text \<open>Working as a slave is commented out: the address is not used.\<close>

definition wire_begin_address :: "'w twi \<Rightarrow> u8 \<Rightarrow> wire \<times> 'w \<Rightarrow> wire \<times> 'w" where
  "wire_begin_address b address = wire_begin b"

definition wire_setClock :: "'w twi \<Rightarrow> u32 \<Rightarrow> wire \<times> 'w \<Rightarrow> wire \<times> 'w" where
  "wire_setClock b frequency = (\<lambda>(s, w). (s, twi_setClock b frequency w))"

definition wire_setClockStretchLimit :: "'w twi \<Rightarrow> u32 \<Rightarrow> wire \<times> 'w \<Rightarrow> wire \<times> 'w" where
  "wire_setClockStretchLimit b limit = (\<lambda>(s, w). (s, twi_setClockStretchLimit b limit w))"

definition wire_requestFrom_stop :: "'w twi \<Rightarrow> u8 \<Rightarrow> nat \<Rightarrow> bool \<Rightarrow> wire \<times> 'w \<Rightarrow> nat \<times> wire \<times> 'w" where
  "wire_requestFrom_stop b address n sendStop = (\<lambda>(s, w).
     let n = (if BUFFER_LENGTH < n then BUFFER_LENGTH else n);
         (status, bytes, w) = twi_readFrom b address n sendStop w;
         read = (if status = 0 then n else 0)
     in (read,
         s\<lparr>rxBuffer := bytes @ drop (length bytes) (rxBuffer s),
           rxBufferIndex := 0, rxBufferLength := of_nat read\<rparr>, w))"

definition wire_requestFrom :: "'w twi \<Rightarrow> u8 \<Rightarrow> u8 \<Rightarrow> wire \<times> 'w \<Rightarrow> u8 \<times> wire \<times> 'w" where
  "wire_requestFrom b address quantity = (\<lambda>(s, w).
     let (n, s, w) = wire_requestFrom_stop b address (unat quantity) True (s, w) in (of_nat n, s, w))"

definition wire_beginTransmission :: "u8 \<Rightarrow> wire \<Rightarrow> wire" where
  "wire_beginTransmission address s =
     s\<lparr>transmitting := 1, txAddress := address, txBufferIndex := 0, txBufferLength := 0\<rparr>"

definition wire_endTransmission_stop :: "'w twi \<Rightarrow> bool \<Rightarrow> wire \<times> 'w \<Rightarrow> u8 \<times> wire \<times> 'w" where
  "wire_endTransmission_stop b sendStop = (\<lambda>(s, w).
     let (ret, w) = twi_writeTo b (txAddress s) (take (unat (txBufferLength s)) (txBuffer s)) sendStop w
     in (ret, s\<lparr>txBufferIndex := 0, txBufferLength := 0, transmitting := 0\<rparr>, w))"

definition wire_endTransmission :: "'w twi \<Rightarrow> wire \<times> 'w \<Rightarrow> u8 \<times> wire \<times> 'w" where
  "wire_endTransmission b = wire_endTransmission_stop b True"

definition wire_write :: "u8 \<Rightarrow> wire \<Rightarrow> nat \<times> wire" where
  "wire_write data s =
     (if transmitting s \<noteq> 0
      then (if BUFFER_LENGTH \<le> unat (txBufferLength s)
            then (0, s\<lparr>write_error := 1\<rparr>)
            else (let i = txBufferIndex s
                  in (1, s\<lparr>txBuffer := (txBuffer s)[unat i := data], txBufferIndex := i + 1, txBufferLength := i + 1\<rparr>)))
      else (1, s))"

text \<open>The loop of the block write, with the number of bytes written so far.\<close>

fun wire_write_loop :: "u8 list \<Rightarrow> nat \<Rightarrow> wire \<Rightarrow> nat \<times> wire" where
  "wire_write_loop [] i s = (i, s)"
| "wire_write_loop (d # data) i s =
     (let (n, s) = wire_write d s in if n = 0 then (i, s) else wire_write_loop data (Suc i) s)"

definition wire_write_block :: "u8 list \<Rightarrow> wire \<Rightarrow> nat \<times> wire" where
  "wire_write_block data s =
     (if transmitting s \<noteq> 0 then wire_write_loop data 0 s else (length data, s))"

definition wire_available :: "'w twi \<Rightarrow> wire \<times> 'w \<Rightarrow> int \<times> wire \<times> 'w" where
  "wire_available b = (\<lambda>(s, w).
     let result = uint (rxBufferLength s) - uint (rxBufferIndex s)
     in (result, s, if result = 0 then optimistic_yield b 1000 w else w))"

definition wire_read :: "wire \<Rightarrow> int \<times> wire" where
  "wire_read s =
     (if rxBufferIndex s < rxBufferLength s
      then (uint (rxBuffer s ! unat (rxBufferIndex s)), s\<lparr>rxBufferIndex := rxBufferIndex s + 1\<rparr>)
      else (- 1, s))"

definition wire_peek :: "wire \<Rightarrow> int" where
  "wire_peek s =
     (if rxBufferIndex s < rxBufferLength s then uint (rxBuffer s ! unat (rxBufferIndex s)) else - 1)"

section \<open>The buffers\<close>

text \<open>No index leaves its buffer, and while a message is collected its length is the index.\<close>

definition wire_ok :: "wire \<Rightarrow> bool" where
  "wire_ok s \<longleftrightarrow> length (rxBuffer s) = BUFFER_LENGTH \<and> length (txBuffer s) = BUFFER_LENGTH \<and>
     rxBufferIndex s \<le> rxBufferLength s \<and> unat (rxBufferLength s) \<le> BUFFER_LENGTH \<and>
     txBufferIndex s = txBufferLength s \<and> unat (txBufferLength s) \<le> BUFFER_LENGTH"

text \<open>A transfer stores at most what it was asked for, and all of it if it succeeds.\<close>

definition twi_fits :: "'w twi \<Rightarrow> bool" where
  "twi_fits b \<longleftrightarrow> (\<forall>a n stop w status bytes w'. twi_readFrom b a n stop w = (status, bytes, w') \<longrightarrow>
     length bytes \<le> n \<and> (status = 0 \<longrightarrow> length bytes = n))"

lemma twi_fitsD:
  "twi_fits b \<Longrightarrow> twi_readFrom b a n stop w = (status, bytes, w') \<Longrightarrow>
     length bytes \<le> n \<and> (status = 0 \<longrightarrow> length bytes = n)"
  unfolding twi_fits_def by blast

definition unsent :: "wire \<Rightarrow> u8 list" where
  "unsent s = take (unat (txBufferLength s)) (txBuffer s)"

definition unread :: "wire \<Rightarrow> u8 list" where
  "unread s = drop (unat (rxBufferIndex s)) (take (unat (rxBufferLength s)) (rxBuffer s))"

lemma wire_start_ok: "wire_ok (wire_start sda scl)"
  by (simp add: wire_ok_def wire_start_def)

lemma wire_flush_ok: "wire_ok s \<Longrightarrow> wire_ok (wire_flush s)"
  by (simp add: wire_ok_def wire_flush_def)

lemma wire_begin_ok: "wire_ok s \<Longrightarrow> wire_ok (fst (wire_begin b (s, w)))"
  by (simp add: wire_begin_def wire_begin_pins_def wire_ok_def wire_flush_def)

lemma wire_beginTransmission_ok: "wire_ok s \<Longrightarrow> wire_ok (wire_beginTransmission a s)"
  by (simp add: wire_ok_def wire_beginTransmission_def)

lemma wire_beginTransmission_unsent [simp]:
  "unsent (wire_beginTransmission a s) = []" "transmitting (wire_beginTransmission a s) = 1"
  "txAddress (wire_beginTransmission a s) = a" "unread (wire_beginTransmission a s) = unread s"
  by (simp_all add: unsent_def unread_def wire_beginTransmission_def)

lemma unat_suc_small: "unat (i :: u8) < 32 \<Longrightarrow> unat (i + 1) = Suc (unat i)"
  by (simp add: unat_plus_if')

lemma take_update_append: "i < length xs \<Longrightarrow> take (Suc i) (xs[i := x]) = take i xs @ [x]"
  by (simp add: take_Suc_conv_app_nth)

lemma wire_write_room:
  assumes "wire_ok s" "transmitting s \<noteq> 0" "length (unsent s) < BUFFER_LENGTH"
  shows "\<exists>s'. wire_write d s = (1, s') \<and> wire_ok s' \<and> unsent s' = unsent s @ [d] \<and>
    transmitting s' = transmitting s \<and> txAddress s' = txAddress s \<and> unread s' = unread s \<and>
    write_error s' = write_error s"
proof -
  have room: "unat (txBufferLength s) < 32"
    using assms by (simp add: unsent_def wire_ok_def BUFFER_LENGTH_def)
  then show ?thesis using assms unat_suc_small [OF room]
    by (simp add: wire_write_def Let_def wire_ok_def unsent_def unread_def BUFFER_LENGTH_def take_update_append)
qed

lemma wire_write_full:
  assumes "wire_ok s" "transmitting s \<noteq> 0" "length (unsent s) = BUFFER_LENGTH"
  shows "wire_write d s = (0, s\<lparr>write_error := 1\<rparr>)"
  using assms by (simp add: wire_write_def unsent_def wire_ok_def)

lemma wire_write_ok: "wire_ok s \<Longrightarrow> wire_ok (snd (wire_write d s))"
proof (cases "transmitting s \<noteq> 0")
  case True
  assume ok: "wire_ok s"
  then have "length (unsent s) \<le> BUFFER_LENGTH" by (simp add: unsent_def wire_ok_def)
  then consider "length (unsent s) < BUFFER_LENGTH" | "length (unsent s) = BUFFER_LENGTH" by linarith
  then show ?thesis
  proof cases
    case 1
    show ?thesis using wire_write_room [OF ok True 1, of d] by auto
  next
    case 2
    show ?thesis using wire_write_full [OF ok True 2, of d] ok by (simp add: wire_ok_def)
  qed
qed (simp add: wire_write_def)

lemma wire_write_loop_keeps: "wire_ok s \<Longrightarrow> wire_ok (snd (wire_write_loop data i s))"
proof (induction data i s rule: wire_write_loop.induct)
  case (2 d data i s)
  then show ?case using wire_write_ok [of s d] by (auto simp: Let_def split: prod.splits)
qed simp

lemma wire_write_loop_sends:
  assumes "wire_ok s" "transmitting s \<noteq> 0"
  shows "\<exists>s'. wire_write_loop data i s = (i + min (length data) (BUFFER_LENGTH - length (unsent s)), s') \<and>
    wire_ok s' \<and> unsent s' = take BUFFER_LENGTH (unsent s @ data) \<and>
    transmitting s' = transmitting s \<and> txAddress s' = txAddress s \<and> unread s' = unread s \<and>
    write_error s' = (if BUFFER_LENGTH < length (unsent s @ data) then 1 else write_error s)"
  using assms
proof (induction data arbitrary: i s)
  case Nil
  then show ?case by (simp add: unsent_def wire_ok_def min_absorb1)
next
  case (Cons d data)
  have "length (unsent s) \<le> BUFFER_LENGTH" using Cons.prems(1) by (simp add: unsent_def wire_ok_def)
  then consider "length (unsent s) < BUFFER_LENGTH" | "length (unsent s) = BUFFER_LENGTH" by linarith
  then show ?case
  proof cases
    case 1
    obtain t where t: "wire_write d s = (1, t)" "wire_ok t" "unsent t = unsent s @ [d]"
        "transmitting t = transmitting s" "txAddress t = txAddress s" "unread t = unread s" "write_error t = write_error s"
      using wire_write_room [OF Cons.prems 1] by blast
    have "transmitting t \<noteq> 0" using t Cons.prems by simp
    with Cons.IH [OF t(2), of "Suc i"] t 1 show ?thesis
      by (auto simp: min_def)
  next
    case 2
    show ?thesis using wire_write_full [OF Cons.prems 2, of d] 2 Cons.prems
      by (simp add: wire_ok_def unsent_def unread_def)
  qed
qed

lemma wire_endTransmission_eq:
  "wire_endTransmission b (s, w) =
     (let (ret, w') = twi_writeTo b (txAddress s) (unsent s) True w
      in (ret, s\<lparr>txBufferIndex := 0, txBufferLength := 0, transmitting := 0\<rparr>, w'))"
  by (simp add: wire_endTransmission_def wire_endTransmission_stop_def unsent_def)

lemma wire_endTransmission_ok:
  "wire_ok s \<Longrightarrow> wire_endTransmission_stop b stop (s, w) = (ret, s', w') \<Longrightarrow> wire_ok s'"
  by (auto simp: wire_endTransmission_stop_def wire_ok_def Let_def split: prod.splits)

lemma wire_requestFrom_ok:
  assumes "wire_ok s" "twi_fits b" "wire_requestFrom_stop b a n stop (s, w) = (r, s', w')"
  shows "wire_ok s'"
proof -
  obtain status bytes v where t: "twi_readFrom b a (if BUFFER_LENGTH < n then BUFFER_LENGTH else n) stop w = (status, bytes, v)"
    by (metis surj_pair)
  show ?thesis using assms t twi_fitsD [OF assms(2) t]
    by (auto simp: wire_requestFrom_stop_def wire_ok_def Let_def BUFFER_LENGTH_def unat_of_nat split: if_splits)
qed

lemma wire_request_reads:
  assumes "wire_ok s" "twi_fits b" "n \<le> BUFFER_LENGTH" "twi_readFrom b a n True w = (0, bytes, w')"
  shows "\<exists>s'. wire_requestFrom b a (of_nat n) (s, w) = (of_nat n, s', w') \<and> wire_ok s' \<and> unread s' = bytes \<and>
    unsent s' = unsent s"
proof -
  have n: "n \<le> 32" using assms(3) by (simp add: BUFFER_LENGTH_def)
  then have u: "unat (of_nat n :: u8) = n" by (simp add: unat_of_nat)
  have "length bytes = n" using twi_fitsD [OF assms(2,4)] by simp
  then show ?thesis using assms n u
    by (simp add: wire_requestFrom_def wire_requestFrom_stop_def Let_def wire_ok_def unread_def unsent_def BUFFER_LENGTH_def)
qed

lemma wire_request_fails:
  assumes "twi_readFrom b a (min n BUFFER_LENGTH) stop w = (status, bytes, w')" "status \<noteq> 0"
  shows "\<exists>s'. wire_requestFrom_stop b a n stop (s, w) = (0, s', w') \<and> unread s' = []"
proof -
  have m: "(if BUFFER_LENGTH < n then BUFFER_LENGTH else n) = min n BUFFER_LENGTH" by simp
  show ?thesis unfolding wire_requestFrom_stop_def by (simp only: m prod.case Let_def assms(1)) (simp add: assms(2) unread_def)
qed

lemma unread_length: "wire_ok s \<Longrightarrow> length (unread s) = unat (rxBufferLength s) - unat (rxBufferIndex s)"
  by (simp add: unread_def wire_ok_def)

lemma wire_available_unread: "wire_ok s \<Longrightarrow> fst (wire_available b (s, w)) = int (length (unread s))"
proof -
  assume ok: "wire_ok s"
  then have "unat (rxBufferIndex s) \<le> unat (rxBufferLength s)" by (simp add: wire_ok_def word_le_nat_alt)
  then show ?thesis unfolding unread_length [OF ok] by (simp add: wire_available_def Let_def of_nat_diff)
qed

lemma wire_available_keeps:
  "wire_ok s \<Longrightarrow> unread s \<noteq> [] \<Longrightarrow> wire_available b (s, w) = (int (length (unread s)), s, w)"
  using wire_available_unread [of s b w] by (auto simp: wire_available_def Let_def)

lemma wire_read_unread:
  assumes "wire_ok s"
  shows "case unread s of [] \<Rightarrow> wire_read s = (- 1, s)
    | d # ds \<Rightarrow> \<exists>s'. wire_read s = (uint d, s') \<and> wire_ok s' \<and> unread s' = ds \<and> unsent s' = unsent s"
proof (cases "rxBufferIndex s < rxBufferLength s")
  case True
  then have i: "unat (rxBufferIndex s) < unat (rxBufferLength s)" by (simp add: word_less_nat_alt)
  have bounds: "unat (rxBufferLength s) \<le> 32" "length (rxBuffer s) = 32"
    using assms by (simp_all add: wire_ok_def BUFFER_LENGTH_def)
  then have u: "unread s = rxBuffer s ! unat (rxBufferIndex s) #
      drop (Suc (unat (rxBufferIndex s))) (take (unat (rxBufferLength s)) (rxBuffer s))"
    using i by (simp add: unread_def Cons_nth_drop_Suc [symmetric])
  have "unat (rxBufferIndex s + 1) = Suc (unat (rxBufferIndex s))"
    using i bounds by (intro unat_suc_small) simp
  then show ?thesis using True u i assms
    by (simp add: wire_read_def unread_def wire_ok_def unsent_def word_le_nat_alt)
next
  case False
  then show ?thesis using unread_length [OF assms] by (simp add: wire_read_def word_less_nat_alt)
qed

lemma wire_read_Cons:
  "wire_ok s \<Longrightarrow> unread s = d # ds \<Longrightarrow>
     \<exists>s'. wire_read s = (uint d, s') \<and> wire_ok s' \<and> unread s' = ds \<and> unsent s' = unsent s"
  using wire_read_unread [of s] by simp

lemma wire_read_Nil: "wire_ok s \<Longrightarrow> unread s = [] \<Longrightarrow> wire_read s = (- 1, s)"
  using wire_read_unread [of s] by simp

section \<open>Properties\<close>

text \<open>A message of any length never leaves the buffer of 32 bytes: its first 32 bytes are sent to the address, the
  result of the block write says how many those are, and the write error is set exactly when some were cut.\<close>

theorem block_write_cut:
  assumes "wire_ok s"
  shows "\<exists>s' s'' ret w'. wire_write_block ds (wire_beginTransmission a s) = (min (length ds) BUFFER_LENGTH, s') \<and>
    wire_ok s' \<and> write_error s' = (if BUFFER_LENGTH < length ds then 1 else write_error s) \<and>
    wire_endTransmission b (s', w) = (ret, s'', w') \<and> wire_ok s'' \<and>
    twi_writeTo b a (take BUFFER_LENGTH ds) True w = (ret, w')"
proof -
  have "transmitting (wire_beginTransmission a s) \<noteq> 0" "write_error (wire_beginTransmission a s) = write_error s"
    by (simp_all add: wire_beginTransmission_def)
  then obtain s' where s': "wire_write_block ds (wire_beginTransmission a s) = (min (length ds) BUFFER_LENGTH, s')"
      "wire_ok s'" "unsent s' = take BUFFER_LENGTH ds" "txAddress s' = a"
      "write_error s' = (if BUFFER_LENGTH < length ds then 1 else write_error s)"
    using wire_write_loop_sends [OF wire_beginTransmission_ok [OF assms], of a ds 0] by (auto simp: wire_write_block_def)
  obtain ret w' where t: "twi_writeTo b a (take BUFFER_LENGTH ds) True w = (ret, w')" by force
  have e: "wire_endTransmission b (s', w) = (ret, s'\<lparr>txBufferIndex := 0, txBufferLength := 0, transmitting := 0\<rparr>, w')"
    by (simp add: wire_endTransmission_eq s' t)
  have "wire_ok (s'\<lparr>txBufferIndex := 0, txBufferLength := 0, transmitting := 0\<rparr>)"
    using s'(2) by (simp add: wire_ok_def)
  with e t s' show ?thesis by blast
qed

end
