(* ===== verification/RealTimeClock.thy ===== *)
theory RealTimeClock
  imports Wire TimeLib
begin

text \<open>
  The driver of the clock chip, \<^verbatim>\<open>weather_station_base/DS1307RTC.cpp\<close>: seven registers in binary coded
  decimal, written and read over the two-wire bus, and its stand-in on a desktop,
  \<^verbatim>\<open>esp8266_sim/DS1307RTC.cpp\<close>. The chip is not part of the sources: the locale \<open>clock_chip\<close> states
  what its data sheet says of the registers while their clock does not tick, and a time that has been set
  over it reads back. It is interpreted on a register file.
\<close>

unbundle bit_operations_syntax

section \<open>Binary coded decimal\<close>

definition dec2bcd :: "u8 \<Rightarrow> u8" where
  "dec2bcd num = num div 10 * 16 + num mod 10"

definition bcd2dec :: "u8 \<Rightarrow> u8" where
  "bcd2dec num = num div 16 * 10 + num mod 16"

definition tmYearToY2k :: "u8 \<Rightarrow> u8" where
  "tmYearToY2k Y = Y - 30"

definition y2kYearToTm :: "u8 \<Rightarrow> u8" where
  "y2kYearToTm Y = Y + 30"

section \<open>The driver\<close>

definition DS1307_CTRL_ID :: u8 where "DS1307_CTRL_ID = 0x68"

definition tmNbrFields :: nat where "tmNbrFields = 7"

record 'w rtc =
  chip_exists :: bool
  rtc_wire :: wire
  rtc_world :: 'w

definition new_DS1307RTC :: "'w twi \<Rightarrow> 'w rtc \<Rightarrow> 'w rtc" where
  "new_DS1307RTC b r =
     (let (s, w) = wire_begin b (rtc_wire r, rtc_world r) in r\<lparr>rtc_wire := s, rtc_world := w\<rparr>)"

text \<open>A message to the chip: each byte is a call of \<open>write\<close>, whose result is not looked at.\<close>

definition rtc_message :: "'w twi \<Rightarrow> u8 list \<Rightarrow> wire \<times> 'w \<Rightarrow> u8 \<times> wire \<times> 'w" where
  "rtc_message b ds = (\<lambda>(s, w).
     wire_endTransmission b (fold (\<lambda>d s. snd (wire_write d s)) ds (wire_beginTransmission DS1307_CTRL_ID s), w))"

text \<open>The next byte of the answer, as it is stored in a \<open>uint8_t\<close>.\<close>

definition next_byte :: "wire \<Rightarrow> u8 \<times> wire" where
  "next_byte s = (let (i, s) = wire_read s in (word_of_int i, s))"

definition rtc_fields :: "tmElements_t \<Rightarrow> wire \<Rightarrow> u8 \<times> tmElements_t \<times> wire" where
  "rtc_fields tm s =
     (let (sec, s) = next_byte s; (mi, s) = next_byte s; (ho, s) = next_byte s; (wd, s) = next_byte s;
          (da, s) = next_byte s; (mo, s) = next_byte s; (ye, s) = next_byte s
      in (sec, tm\<lparr>tm_Second := bcd2dec (sec AND 0x7f), tm_Minute := bcd2dec mi, tm_Hour := bcd2dec (ho AND 0x3f),
            tm_Wday := bcd2dec wd, tm_Day := bcd2dec da, tm_Month := bcd2dec mo,
            tm_Year := y2kYearToTm (bcd2dec ye)\<rparr>, s))"

definition rtc_read :: "'w twi \<Rightarrow> tmElements_t \<Rightarrow> 'w rtc \<Rightarrow> bool \<times> tmElements_t \<times> 'w rtc" where
  "rtc_read b tm r =
     (let (ret, s, w) = rtc_message b [0] (rtc_wire r, rtc_world r)
      in if ret \<noteq> 0 then (False, tm, r\<lparr>chip_exists := False, rtc_wire := s, rtc_world := w\<rparr>)
         else (let (_, s, w) = wire_requestFrom b DS1307_CTRL_ID (of_nat tmNbrFields) (s, w);
                   (n, s, w) = wire_available b (s, w)
               in if n < int tmNbrFields
                  then (False, tm, r\<lparr>chip_exists := True, rtc_wire := s, rtc_world := w\<rparr>)
                  else (let (sec, tm, s) = rtc_fields tm s
                        in (sec AND 0x80 = 0, tm, r\<lparr>chip_exists := True, rtc_wire := s, rtc_world := w\<rparr>))))"

text \<open>The clock is halted while it is set; the seconds, written last, start it again.\<close>

definition rtc_date_message :: "tmElements_t \<Rightarrow> u8 list" where
  "rtc_date_message tm =
     [0, 0x80, dec2bcd (tm_Minute tm), dec2bcd (tm_Hour tm), dec2bcd (tm_Wday tm), dec2bcd (tm_Day tm),
      dec2bcd (tm_Month tm), dec2bcd (tmYearToY2k (tm_Year tm))]"

definition rtc_write :: "'w twi \<Rightarrow> tmElements_t \<Rightarrow> 'w rtc \<Rightarrow> bool \<times> 'w rtc" where
  "rtc_write b tm r =
     (let (ret, s, w) = rtc_message b (rtc_date_message tm) (rtc_wire r, rtc_world r)
      in if ret \<noteq> 0 then (False, r\<lparr>chip_exists := False, rtc_wire := s, rtc_world := w\<rparr>)
         else (let (ret, s, w) = rtc_message b [0, dec2bcd (tm_Second tm)] (s, w)
               in if ret \<noteq> 0 then (False, r\<lparr>chip_exists := False, rtc_wire := s, rtc_world := w\<rparr>)
                  else (True, r\<lparr>chip_exists := True, rtc_wire := s, rtc_world := w\<rparr>)))"

text \<open>\<open>junk\<close> is what the memory of the local \<open>tm\<close> holds; a month from 14 on is undefined in \<open>makeTime\<close>.\<close>

definition clock_get :: "'w twi \<Rightarrow> tmElements_t \<Rightarrow> 'w rtc \<Rightarrow> (time_t \<times> 'w rtc) option" where
  "clock_get b junk r =
     (let (ok, tm, r) = rtc_read b junk r
      in if \<not> ok then Some (0, r) else do { t \<leftarrow> makeTime tm; Some (t, r) })"

definition clock_set :: "'w twi \<Rightarrow> time_t \<Rightarrow> 'w rtc \<Rightarrow> bool \<times> 'w rtc" where
  "clock_set b t r = rtc_write b (breakTime t) r"

definition isRunning :: "'w twi \<Rightarrow> 'w rtc \<Rightarrow> bool \<times> 'w rtc" where
  "isRunning b r =
     (let (_, s, w) = rtc_message b [0] (rtc_wire r, rtc_world r);
          (_, s, w) = wire_requestFrom b DS1307_CTRL_ID 1 (s, w);
          (i, s) = wire_read s
      in (i AND 0x80 = 0, r\<lparr>rtc_wire := s, rtc_world := w\<rparr>))"

text \<open>
  Whether a \<open>char\<close> is signed depends on the processor: it is not on the ESP8266. \<open>char_int\<close> is its
  value as an \<open>int\<close>, for the given choice.
\<close>

definition char_int :: "bool \<Rightarrow> u8 \<Rightarrow> int" where
  "char_int signed_char c = (if signed_char then sint c else uint c)"

definition calibration_byte :: "bool \<Rightarrow> u8 \<Rightarrow> u8" where
  "calibration_byte signed_char calValue =
     (let calReg = word_of_int \<bar>char_int signed_char calValue\<bar> AND 0x1f
      in if 0 \<le> char_int signed_char calValue then calReg OR 0x20 else calReg)"

definition setCalibration :: "'w twi \<Rightarrow> bool \<Rightarrow> u8 \<Rightarrow> 'w rtc \<Rightarrow> 'w rtc" where
  "setCalibration b signed_char calValue r =
     (let (_, s, w) = rtc_message b [0x07, calibration_byte signed_char calValue] (rtc_wire r, rtc_world r)
      in r\<lparr>rtc_wire := s, rtc_world := w\<rparr>)"

definition calibration_value :: "u8 \<Rightarrow> u8" where
  "calibration_value calReg = (let out = calReg AND 0x1f in if calReg AND 0x20 = 0 then - out else out)"

definition getCalibration :: "'w twi \<Rightarrow> 'w rtc \<Rightarrow> u8 \<times> 'w rtc" where
  "getCalibration b r =
     (let (_, s, w) = rtc_message b [0x07] (rtc_wire r, rtc_world r);
          (_, s, w) = wire_requestFrom b DS1307_CTRL_ID 1 (s, w);
          (calReg, s) = next_byte s
      in (calibration_value calReg, r\<lparr>rtc_wire := s, rtc_world := w\<rparr>))"

section \<open>The clock of the desktop\<close>

text \<open>The stand-in keeps an offset to the clock of the desktop, whose reading is the argument \<open>host\<close>.\<close>

definition sim_read :: "time_t \<Rightarrow> time_t \<Rightarrow> tmElements_t" where
  "sim_read host offs = breakTime (host + offs)"

definition sim_write :: "time_t \<Rightarrow> tmElements_t \<Rightarrow> (bool \<times> time_t) option" where
  "sim_write host tm = do { t \<leftarrow> makeTime tm; Some (True, t - host) }"

definition sim_get :: "time_t \<Rightarrow> time_t \<Rightarrow> time_t option" where
  "sim_get host offs = makeTime (sim_read host offs)"

definition sim_set :: "time_t \<Rightarrow> time_t \<Rightarrow> (bool \<times> time_t) option" where
  "sim_set host t = sim_write host (breakTime t)"

section \<open>Fields that fit in two digits\<close>

lemma bcd_digits:
  "m < 160 \<Longrightarrow> m div 10 * 16 + m mod 10 < (256::nat)" "m < 160 \<Longrightarrow> m div 10 * 16 < (256::nat)"
  "m < 160 \<Longrightarrow> m div 16 * 10 + m mod 16 < (256::nat)" "m < 160 \<Longrightarrow> m div 16 * 10 < (256::nat)"
  "m < 100 \<Longrightarrow> m div 10 * 16 + m mod 10 < (160::nat)"
  using div_mult_mod_eq [of m 10] div_mult_mod_eq [of m 16] by linarith+

lemma unat_dec2bcd: "unat n < 160 \<Longrightarrow> unat (dec2bcd n) = unat n div 10 * 16 + unat n mod 10"
  using bcd_digits(1,2) [of "unat n"] by (simp add: dec2bcd_def unat_word_ariths unat_div unat_mod)

lemma unat_bcd2dec: "unat n < 160 \<Longrightarrow> unat (bcd2dec n) = unat n div 16 * 10 + unat n mod 16"
  using bcd_digits(3,4) [of "unat n"] by (simp add: bcd2dec_def unat_word_ariths unat_div unat_mod)

lemma bcd_inverse:
  assumes "unat n < 100"
  shows "bcd2dec (dec2bcd n) = n"
proof -
  have d: "unat (dec2bcd n) = unat n div 10 * 16 + unat n mod 10" using assms by (simp add: unat_dec2bcd)
  then have "unat (dec2bcd n) < 160" using bcd_digits(5) [OF assms] by simp
  from unat_bcd2dec [OF this] d have "unat (bcd2dec (dec2bcd n)) = unat n"
    by simp
  then show ?thesis by (simp add: word_unat_eq_iff)
qed

lemma and_low_bits: "unat (x :: u8) < 2 ^ k \<Longrightarrow> x AND mask k = x"
  by (simp add: take_bit_eq_mask [symmetric] word_unat_eq_iff unsigned_take_bit_eq take_bit_nat_eq_self)

lemma top_bit_clear: "unat (x :: u8) < 128 \<Longrightarrow> x AND 0x80 = 0"
proof -
  assume x: "unat x < 128"
  have "(x AND mask 7) AND 0x80 = 0" by (simp add: and.assoc mask_numeral)
  moreover have "x AND mask 7 = x" using x by (intro and_low_bits) simp
  ultimately show ?thesis by (simp only:)
qed

text \<open>The fields of a time from 2000 to 2099 fit in their digits.\<close>

lemma breakTime_year_of_day:
  "ydays (unat (tm_Year (breakTime t))) \<le> unat t div 86400 \<and>
   unat t div 86400 < ydays (Suc (unat (tm_Year (breakTime t))))"
proof -
  obtain year month and d :: u32 where f: "tm_Year (breakTime t) = year" "month < 12"
    "unat d < mlen (unat year) month" "ydays (unat year) + mdays (unat year) month + unat d = unat t div 86400"
    by (rule breakTime_fields [of t]) simp
  have "mdays (unat year) month + unat d < ylen (unat year)"
    using f mdays_mono [of "Suc month" 12 "unat year"] by (simp add: mdays_12)
  then show ?thesis using f by simp
qed

definition y2k_times :: "time_t set" where
  "y2k_times = {t. 946684800 \<le> unat t \<and> unat t < 4102444800}"

lemma leap_before_2100: "y < 130 \<Longrightarrow> LEAP_YEAR (int y) \<longleftrightarrow> (y + 2) mod 4 = 0"
proof -
  assume y: "y < 130"
  have "(1970 + int y) mod 4 = 0 \<longleftrightarrow> (y + 2) mod 4 = 0" by presburger
  moreover have "(1970 + int y) mod 400 = 0" if century: "(1970 + int y) mod 100 = 0"
  proof -
    from century obtain k where k: "1970 + int y = 100 * k" by fastforce
    with y have "k = 20" by linarith
    with k show ?thesis by simp
  qed
  ultimately show ?thesis unfolding LEAP_YEAR_def by (metis add_pos_nonneg of_nat_0_le_iff zero_less_numeral)
qed

lemma ydays_before_2100: "y \<le> 130 \<Longrightarrow> ydays y = 365 * y + (y + 1) div 4"
proof (induction y)
  case (Suc y)
  then have "ylen y = (if (y + 2) mod 4 = 0 then 366 else 365)" by (simp add: ylen_leap leap_before_2100)
  moreover have "(Suc y + 1) div 4 = (if (y + 2) mod 4 = 0 then Suc ((y + 1) div 4) else (y + 1) div 4)"
    using div_Suc [of "y + 1" 4] by simp
  moreover have "ydays y = 365 * y + (y + 1) div 4" using Suc by (intro Suc.IH) simp
  ultimately show ?case by (simp del: div_Suc add: algebra_simps)
qed simp

lemma ydays_y2k: "ydays 30 = 10957" "ydays 130 = 47482"
  by (simp_all add: ydays_before_2100)

lemma y2k_year:
  assumes "t \<in> y2k_times"
  shows "unat (tmYearToY2k (tm_Year (breakTime t))) < 100"
    and "y2kYearToTm (tmYearToY2k (tm_Year (breakTime t))) = tm_Year (breakTime t)"
proof -
  let ?y = "unat (tm_Year (breakTime t))"
  have t: "946684800 \<le> unat t" "unat t < 4102444800" using assms unfolding y2k_times_def by blast+
  have days: "10957 \<le> unat t div 86400" using div_le_mono [OF t(1), of 86400] by simp
  have days': "unat t div 86400 < 47482" using t(2) by (intro less_mult_imp_div_less) simp
  note y = breakTime_year_of_day [of t]
  have "30 \<le> ?y"
  proof (rule ccontr)
    assume "\<not> 30 \<le> ?y"
    then have "ydays (Suc ?y) \<le> ydays 30" by (intro mono_ydays) simp
    with y days days' show False unfolding ydays_y2k by linarith
  qed
  moreover have "?y < 130"
  proof (rule ccontr)
    assume "\<not> ?y < 130"
    then have "ydays 130 \<le> ydays ?y" by (intro mono_ydays) simp
    with y days days' show False unfolding ydays_y2k by linarith
  qed
  ultimately show "unat (tmYearToY2k (tm_Year (breakTime t))) < 100"
    by (simp add: tmYearToY2k_def unat_sub word_le_nat_alt)
qed (simp add: tmYearToY2k_def y2kYearToTm_def)

lemma breakTime_small:
  "unat (tm_Second (breakTime t)) < 60" "unat (tm_Minute (breakTime t)) < 60" "unat (tm_Hour (breakTime t)) < 24"
  "unat (tm_Wday (breakTime t)) < 8" "unat (tm_Day (breakTime t)) < 32" "unat (tm_Month (breakTime t)) < 13"
proof -
  have v: "tm_date_valid (breakTime t)" by (rule breakTime_date_valid)
  then have "unat (tm_Month (breakTime t)) - 1 < 12" by (auto simp: tm_date_valid_def)
  from mlen_bounds [OF this, of "unat (tm_Year (breakTime t))"] v
  show "unat (tm_Day (breakTime t)) < 32" "unat (tm_Month (breakTime t)) < 13"
    unfolding tm_date_valid_def by linarith+
qed (simp_all add: breakTime_clock less_Suc_eq_le)

section \<open>Messages on the bus\<close>

lemma write_all_sends:
  assumes "wire_ok s" "transmitting s \<noteq> 0" "length (unsent s) + length ds \<le> BUFFER_LENGTH"
  shows "wire_ok (fold (\<lambda>d s. snd (wire_write d s)) ds s) \<and>
    unsent (fold (\<lambda>d s. snd (wire_write d s)) ds s) = unsent s @ ds \<and>
    txAddress (fold (\<lambda>d s. snd (wire_write d s)) ds s) = txAddress s"
  using assms
proof (induction ds arbitrary: s)
  case (Cons d ds)
  obtain t where t: "wire_write d s = (1, t)" "wire_ok t" "unsent t = unsent s @ [d]"
      "transmitting t = transmitting s" "txAddress t = txAddress s"
    using wire_write_room [OF Cons.prems(1,2), of d] Cons.prems(3) by auto
  then show ?case using Cons.IH [of t] Cons.prems by simp
qed simp

lemma rtc_message_sends:
  assumes "wire_ok s" "length ds \<le> BUFFER_LENGTH" "twi_writeTo b DS1307_CTRL_ID ds True w = (ret, w')"
  shows "\<exists>s'. rtc_message b ds (s, w) = (ret, s', w') \<and> wire_ok s'"
proof -
  let ?s = "fold (\<lambda>d s. snd (wire_write d s)) ds (wire_beginTransmission DS1307_CTRL_ID s)"
  have s: "wire_ok ?s" "unsent ?s = ds" "txAddress ?s = DS1307_CTRL_ID"
    using write_all_sends [of "wire_beginTransmission DS1307_CTRL_ID s" ds] wire_beginTransmission_ok [OF assms(1)] assms(2)
    by simp_all
  then have r: "rtc_message b ds (s, w) = (ret, ?s\<lparr>txBufferIndex := 0, txBufferLength := 0, transmitting := 0\<rparr>, w')"
    by (simp add: rtc_message_def wire_endTransmission_eq assms(3))
  then have "wire_endTransmission_stop b True (?s, w) = (ret, ?s\<lparr>txBufferIndex := 0, txBufferLength := 0, transmitting := 0\<rparr>, w')"
    by (simp add: rtc_message_def wire_endTransmission_def)
  from wire_endTransmission_ok [OF s(1) this] r show ?thesis by blast
qed

lemma next_byte_Cons:
  "wire_ok s \<Longrightarrow> unread s = d # ds \<Longrightarrow> \<exists>s'. next_byte s = (d, s') \<and> wire_ok s' \<and> unread s' = ds"
  using wire_read_Cons [of s d ds] by (auto simp: next_byte_def)

text \<open>The seven bytes of an answer, as fields.\<close>

definition decoded :: "u8 list \<Rightarrow> tmElements_t" where
  "decoded ds =
     \<lparr>tm_Second = bcd2dec (ds ! 0 AND 0x7f), tm_Minute = bcd2dec (ds ! 1), tm_Hour = bcd2dec (ds ! 2 AND 0x3f),
      tm_Wday = bcd2dec (ds ! 3), tm_Day = bcd2dec (ds ! 4), tm_Month = bcd2dec (ds ! 5),
      tm_Year = y2kYearToTm (bcd2dec (ds ! 6))\<rparr>"

lemma rtc_fields_decoded:
  assumes "wire_ok s" "unread s = ds" "length ds = 7"
  shows "\<exists>s'. rtc_fields tm s = (ds ! 0, decoded ds, s') \<and> wire_ok s'"
proof -
  obtain d0 d1 d2 d3 d4 d5 d6 where ds: "ds = [d0, d1, d2, d3, d4, d5, d6]"
    using assms(3) by (auto simp: length_Suc_conv numeral_eq_Suc)
  obtain s1 where 1: "next_byte s = (d0, s1)" "wire_ok s1" "unread s1 = [d1, d2, d3, d4, d5, d6]"
    using next_byte_Cons [OF assms(1)] assms(2) ds by blast
  obtain s2 where 2: "next_byte s1 = (d1, s2)" "wire_ok s2" "unread s2 = [d2, d3, d4, d5, d6]"
    using next_byte_Cons [OF 1(2,3)] by blast
  obtain s3 where 3: "next_byte s2 = (d2, s3)" "wire_ok s3" "unread s3 = [d3, d4, d5, d6]"
    using next_byte_Cons [OF 2(2,3)] by blast
  obtain s4 where 4: "next_byte s3 = (d3, s4)" "wire_ok s4" "unread s4 = [d4, d5, d6]"
    using next_byte_Cons [OF 3(2,3)] by blast
  obtain s5 where 5: "next_byte s4 = (d4, s5)" "wire_ok s5" "unread s5 = [d5, d6]"
    using next_byte_Cons [OF 4(2,3)] by blast
  obtain s6 where 6: "next_byte s5 = (d5, s6)" "wire_ok s6" "unread s6 = [d6]"
    using next_byte_Cons [OF 5(2,3)] by blast
  obtain s7 where 7: "next_byte s6 = (d6, s7)" "wire_ok s7"
    using next_byte_Cons [OF 6(2,3)] by blast
  show ?thesis using 1 2 3 4 5 6 7 ds by (simp add: rtc_fields_def decoded_def)
qed

lemma rtc_read_decoded:
  assumes "wire_ok (rtc_wire r)" "twi_fits b"
    and "twi_writeTo b DS1307_CTRL_ID [0] True (rtc_world r) = (0, w)"
    and "twi_readFrom b DS1307_CTRL_ID tmNbrFields True w = (0, ds, w')"
  shows "\<exists>r'. rtc_read b tm r = (ds ! 0 AND 0x80 = 0, decoded ds, r') \<and> wire_ok (rtc_wire r') \<and> rtc_world r' = w'"
proof -
  obtain s1 where 1: "rtc_message b [0] (rtc_wire r, rtc_world r) = (0, s1, w)" "wire_ok s1"
    using rtc_message_sends [OF assms(1) _ assms(3)] by (auto simp: BUFFER_LENGTH_def)
  have n: "length ds = tmNbrFields" using twi_fitsD [OF assms(2,4)] by simp
  obtain s2 where 2: "wire_requestFrom b DS1307_CTRL_ID (of_nat tmNbrFields) (s1, w) = (of_nat tmNbrFields, s2, w')"
      "wire_ok s2" "unread s2 = ds"
    using wire_request_reads [OF 1(2) assms(2) _ assms(4)] by (auto simp: BUFFER_LENGTH_def tmNbrFields_def)
  have 3: "wire_available b (s2, w') = (int tmNbrFields, s2, w')"
    using wire_available_keeps [OF 2(2), of b w'] 2(3) n by (cases ds) (simp_all add: tmNbrFields_def)
  obtain s4 where 4: "rtc_fields tm s2 = (ds ! 0, decoded ds, s4)" "wire_ok s4"
    using rtc_fields_decoded [OF 2(2,3)] n by (auto simp: tmNbrFields_def)
  show ?thesis using 1 2 3 4 by (simp add: rtc_read_def Let_def)
qed

section \<open>The registers of the chip\<close>

text \<open>
  The bits that each of the seven registers has. The chip stores the bytes that follow the number of the first
  register, register by register, and answers a read from its register pointer on.
\<close>

definition rtc_masks :: "u8 list" where
  "rtc_masks = [0xff, 0x7f, 0x7f, 0x07, 0x3f, 0x1f, 0xff]"

definition stored :: "nat \<Rightarrow> u8 list \<Rightarrow> u8 list \<Rightarrow> u8 list" where
  "stored n ds regs = take n regs @ map2 (AND) ds (drop n rtc_masks) @ drop (n + length ds) regs"

locale clock_chip =
  fixes b :: "'w twi" and registers :: "'w \<Rightarrow> u8 list" and pointer :: "'w \<Rightarrow> nat" and present :: "'w \<Rightarrow> bool"
  assumes fits: "twi_fits b"
    and sized: "present w \<Longrightarrow> length (registers w) = 7"
    and chip_writes: "present w \<Longrightarrow> n + length ds \<le> 7 \<Longrightarrow>
      \<exists>w'. twi_writeTo b DS1307_CTRL_ID (of_nat n # ds) True w = (0, w') \<and> present w' \<and>
        registers w' = stored n ds (registers w) \<and> pointer w' = n + length ds"
    and chip_reads: "present w \<Longrightarrow> pointer w + n \<le> 7 \<Longrightarrow>
      \<exists>w'. twi_readFrom b DS1307_CTRL_ID n True w = (0, take n (drop (pointer w) (registers w)), w') \<and>
        present w' \<and> registers w' = registers w"

text \<open>The registers of a time.\<close>

definition time_registers :: "tmElements_t \<Rightarrow> u8 list" where
  "time_registers tm =
     [dec2bcd (tm_Second tm), dec2bcd (tm_Minute tm), dec2bcd (tm_Hour tm), dec2bcd (tm_Wday tm),
      dec2bcd (tm_Day tm), dec2bcd (tm_Month tm), dec2bcd (tmYearToY2k (tm_Year tm))]"

lemma stored_time:
  "length regs = 7 \<Longrightarrow>
     stored 0 [dec2bcd (tm_Second tm)] (stored 0 (tl (rtc_date_message tm)) regs) =
       map2 (AND) (time_registers tm) rtc_masks"
  by (simp add: stored_def rtc_date_message_def time_registers_def rtc_masks_def)

lemma dec2bcd_less: "unat n < m \<Longrightarrow> m \<le> 100 \<Longrightarrow> unat (dec2bcd n) < (m + 9) div 10 * 16"
proof -
  assume n: "unat n < m" "m \<le> 100"
  then have "unat n div 10 < (m + 9) div 10" by (simp add: less_mult_imp_div_less)
  then have "Suc (unat n div 10) * 16 \<le> (m + 9) div 10 * 16" by simp
  moreover have "unat n div 10 * 16 + unat n mod 10 < Suc (unat n div 10) * 16" by simp
  ultimately show ?thesis using n unat_dec2bcd [of n] by linarith
qed

lemma u8_masks:
  fixes x :: u8
  shows "unat x < 8 \<Longrightarrow> x AND 0x07 = x" "unat x < 32 \<Longrightarrow> x AND 0x1f = x" "unat x < 64 \<Longrightarrow> x AND 0x3f = x"
    "unat x < 128 \<Longrightarrow> x AND 0x7f = x" "x AND 0xff = x"
  using and_low_bits [of x 3] and_low_bits [of x 5] and_low_bits [of x 6] and_low_bits [of x 7] and_low_bits [of x 8]
    unat_u8_less [of x]
  by (simp_all add: mask_eq_exp_minus_1)

lemma time_registers_masked:
  assumes "t \<in> y2k_times"
  shows "map2 (AND) (time_registers (breakTime t)) rtc_masks = time_registers (breakTime t)"
proof -
  note small = breakTime_small [of t] y2k_year(1) [OF assms]
  have "unat (dec2bcd (tm_Wday (breakTime t))) < 8"
    using small(4) by (simp add: unat_dec2bcd)
  moreover note dec2bcd_less [OF small(2)] dec2bcd_less [OF small(3)] dec2bcd_less [OF small(5)] dec2bcd_less [OF small(6)]
  ultimately show ?thesis by (simp add: time_registers_def rtc_masks_def u8_masks)
qed

lemma decoded_time_registers:
  assumes "t \<in> y2k_times"
  shows "decoded (time_registers (breakTime t)) = breakTime t"
    and "hd (time_registers (breakTime t)) AND 0x80 = 0"
proof -
  note small = breakTime_small [of t] y2k_year [OF assms]
  have sec: "unat (dec2bcd (tm_Second (breakTime t))) < 96" using dec2bcd_less [OF small(1)] by simp
  have hour: "unat (dec2bcd (tm_Hour (breakTime t))) < 48" using dec2bcd_less [OF small(3)] by simp
  have digits: "unat (tm_Second (breakTime t)) < 100" "unat (tm_Minute (breakTime t)) < 100" "unat (tm_Hour (breakTime t)) < 100"
    "unat (tm_Wday (breakTime t)) < 100" "unat (tm_Day (breakTime t)) < 100" "unat (tm_Month (breakTime t)) < 100"
    using small by linarith+
  show "decoded (time_registers (breakTime t)) = breakTime t"
    by (rule tmElements_t.equality)
       (use sec hour digits small(7,8) in \<open>simp_all add: decoded_def time_registers_def bcd_inverse u8_masks\<close>)
  show "hd (time_registers (breakTime t)) AND 0x80 = 0"
    using sec by (simp add: time_registers_def top_bit_clear)
qed

context clock_chip
begin

lemma message_stores:
  assumes "present w" "wire_ok s" "n + length ds \<le> 7"
  shows "\<exists>s' w'. rtc_message b (of_nat n # ds) (s, w) = (0, s', w') \<and> wire_ok s' \<and> present w' \<and>
    registers w' = stored n ds (registers w) \<and> pointer w' = n + length ds"
proof -
  obtain w' where w: "twi_writeTo b DS1307_CTRL_ID (of_nat n # ds) True w = (0, w')" "present w'"
      "registers w' = stored n ds (registers w)" "pointer w' = n + length ds"
    using chip_writes [OF assms(1,3)] by blast
  have "length (of_nat n # ds :: u8 list) \<le> BUFFER_LENGTH" using assms(3) by (simp add: BUFFER_LENGTH_def)
  from rtc_message_sends [OF assms(2) this w(1)] w show ?thesis by blast
qed

lemma read_answers:
  assumes "present (rtc_world r)" "wire_ok (rtc_wire r)"
  shows "\<exists>r'. rtc_read b tm r = (hd (registers (rtc_world r)) AND 0x80 = 0, decoded (registers (rtc_world r)), r') \<and>
    wire_ok (rtc_wire r') \<and> present (rtc_world r') \<and> registers (rtc_world r') = registers (rtc_world r)"
proof -
  obtain w where w: "twi_writeTo b DS1307_CTRL_ID [0] True (rtc_world r) = (0, w)" "present w"
      "registers w = registers (rtc_world r)" "pointer w = 0"
    using chip_writes [OF assms(1), of 0 "[]"] by (auto simp: stored_def)
  obtain w' where w': "twi_readFrom b DS1307_CTRL_ID tmNbrFields True w = (0, registers (rtc_world r), w')" "present w'"
      "registers w' = registers (rtc_world r)"
    using chip_reads [OF w(2), of tmNbrFields] w(3,4) sized [OF w(2)] by (auto simp: tmNbrFields_def)
  have "registers (rtc_world r) ! 0 = hd (registers (rtc_world r))"
    using sized [OF assms(1)] by (cases "registers (rtc_world r)") auto
  with rtc_read_decoded [OF assms(2) fits w(1) w'(1), of tm] w' show ?thesis by auto
qed

lemma set_stores:
  assumes "present (rtc_world r)" "wire_ok (rtc_wire r)"
  shows "\<exists>r'. clock_set b t r = (True, r') \<and> chip_exists r' \<and> wire_ok (rtc_wire r') \<and> present (rtc_world r') \<and>
    registers (rtc_world r') = map2 (AND) (time_registers (breakTime t)) rtc_masks"
proof -
  have date: "rtc_date_message (breakTime t) = of_nat 0 # tl (rtc_date_message (breakTime t))"
    and len: "0 + length (tl (rtc_date_message (breakTime t))) \<le> 7" by (simp_all add: rtc_date_message_def)
  obtain s w where 1: "rtc_message b (rtc_date_message (breakTime t)) (rtc_wire r, rtc_world r) = (0, s, w)" "wire_ok s"
      "present w" "registers w = stored 0 (tl (rtc_date_message (breakTime t))) (registers (rtc_world r))"
    using message_stores [OF assms len] date by metis
  obtain s' w' where 2: "rtc_message b [0, dec2bcd (tm_Second (breakTime t))] (s, w) = (0, s', w')" "wire_ok s'"
      "present w'" "registers w' = stored 0 [dec2bcd (tm_Second (breakTime t))] (registers w)"
    using message_stores [OF 1(3,2), of 0 "[dec2bcd (tm_Second (breakTime t))]"] by auto
  show ?thesis using 1 2 stored_time [OF sized [OF assms(1)]]
    by (simp add: clock_set_def rtc_write_def)
qed

lemma set_get:
  assumes "present (rtc_world r)" "wire_ok (rtc_wire r)" "t \<in> y2k_times"
  shows "\<exists>r' r''. clock_set b t r = (True, r') \<and> clock_get b junk r' = Some (t, r'')"
proof -
  obtain r' where r: "clock_set b t r = (True, r')" "wire_ok (rtc_wire r')" "present (rtc_world r')"
      "registers (rtc_world r') = time_registers (breakTime t)"
    using set_stores [OF assms(1,2)] time_registers_masked [OF assms(3)] by metis
  obtain r'' where "rtc_read b junk r' = (True, breakTime t, r'')"
    using read_answers [OF r(3,2), of junk] decoded_time_registers [OF assms(3)] r(4) by auto
  then show ?thesis using r by (simp add: clock_get_def makeTime_breakTime_aux)
qed

lemma running_answers:
  assumes "present (rtc_world r)" "wire_ok (rtc_wire r)"
  shows "fst (isRunning b r) \<longleftrightarrow> hd (registers (rtc_world r)) AND 0x80 = 0"
proof -
  obtain d ds where regs: "registers (rtc_world r) = d # ds" using sized [OF assms(1)] by (cases "registers (rtc_world r)") auto
  obtain s w where 1: "rtc_message b [0] (rtc_wire r, rtc_world r) = (0, s, w)" "wire_ok s" "present w"
      "registers w = d # ds" "pointer w = 0"
    using message_stores [OF assms, of 0 "[]"] regs by (auto simp: stored_def)
  obtain w' where 2: "twi_readFrom b DS1307_CTRL_ID 1 True w = (0, [d], w')"
    using chip_reads [OF 1(3), of 1] 1(4,5) by auto
  obtain s' where 3: "wire_requestFrom b DS1307_CTRL_ID 1 (s, w) = (1, s', w')" "wire_ok s'" "unread s' = [d]"
    using wire_request_reads [OF 1(2) fits _ 2] by (auto simp: BUFFER_LENGTH_def)
  obtain s'' where 4: "wire_read s' = (uint d, s'')" using wire_read_Cons [OF 3(2,3)] by blast
  have "uint d AND 0x80 = uint (d AND 0x80)" by (simp add: uint_and)
  then show ?thesis using 1(1) 3(1) 4 regs by (simp add: isRunning_def uint_0_iff)
qed

text \<open>While the clock is being set it is halted: if only the first message arrives, no time is read.\<close>

lemma half_set_reads_zero:
  assumes "present (rtc_world r)" "wire_ok (rtc_wire r)"
    and "rtc_message b (rtc_date_message tm) (rtc_wire r, rtc_world r) = (0, s, w)"
  shows "\<exists>r'. clock_get b junk (r\<lparr>rtc_wire := s, rtc_world := w\<rparr>) = Some (0, r')"
proof -
  have date: "rtc_date_message tm = of_nat 0 # tl (rtc_date_message tm)"
    and len: "0 + length (tl (rtc_date_message tm)) \<le> 7" by (simp_all add: rtc_date_message_def)
  have "wire_ok s" "present w" "registers w = stored 0 (tl (rtc_date_message tm)) (registers (rtc_world r))"
    using message_stores [OF assms(1,2) len] date assms(3) by auto
  moreover from this(3) have "hd (registers w) AND 0x80 \<noteq> 0" by (simp add: stored_def rtc_date_message_def rtc_masks_def)
  ultimately show ?thesis
    using read_answers [of "r\<lparr>rtc_wire := s, rtc_world := w\<rparr>" junk] by (auto simp: clock_get_def)
qed

end

text \<open>
  A calibration is five bits and a sign. It survives where \<open>char\<close> is signed; where it is not, as on the
  ESP8266, a negative calibration is stored as a positive one.
\<close>

lemma calibration_kept: "\<forall>i \<in> set [-31..31]. calibration_value (calibration_byte True (word_of_int i)) = word_of_int i"
  by code_simp

lemma calibration_lost: "\<forall>i \<in> set [-31..-1]. calibration_value (calibration_byte False (word_of_int i)) = 32 + word_of_int i"
  by code_simp

section \<open>A register file\<close>

type_synonym chip = "u8 list \<times> nat"

definition chip_write :: "u8 \<Rightarrow> u8 list \<Rightarrow> bool \<Rightarrow> chip \<Rightarrow> u8 \<times> chip" where
  "chip_write a ds stop c =
     (if a = DS1307_CTRL_ID \<and> ds \<noteq> [] \<and> unat (hd ds) + length (tl ds) \<le> 7
      then (0, stored (unat (hd ds)) (tl ds) (fst c), unat (hd ds) + length (tl ds))
      else (2, c))"

definition chip_read :: "u8 \<Rightarrow> nat \<Rightarrow> bool \<Rightarrow> chip \<Rightarrow> u8 \<times> u8 list \<times> chip" where
  "chip_read a n stop c =
     (if a = DS1307_CTRL_ID \<and> snd c + n \<le> 7 \<and> length (fst c) = 7
      then (0, take n (drop (snd c) (fst c)), fst c, snd c + n)
      else (2, [], c))"

definition chip_bus :: "chip twi" where
  "chip_bus =
     \<lparr>twi_init = (\<lambda>_ _ c. c), twi_setClock = (\<lambda>_ c. c), twi_setClockStretchLimit = (\<lambda>_ c. c),
      twi_writeTo = chip_write, twi_readFrom = chip_read, optimistic_yield = (\<lambda>_ c. c)\<rparr>"

lemma chip_bus_fits: "twi_fits chip_bus"
  by (auto simp: twi_fits_def chip_bus_def chip_read_def split: if_splits)

lemma stored_length: "length regs = 7 \<Longrightarrow> n + length ds \<le> 7 \<Longrightarrow> length (stored n ds regs) = 7"
  by (simp add: stored_def rtc_masks_def)

interpretation register_file: clock_chip chip_bus fst snd "\<lambda>c. length (fst c) = 7"
proof
  show "twi_fits chip_bus" by (rule chip_bus_fits)
  show "length (fst c) = 7 \<Longrightarrow> n + length ds \<le> 7 \<Longrightarrow>
      \<exists>c'. twi_writeTo chip_bus DS1307_CTRL_ID (of_nat n # ds) True c = (0, c') \<and> length (fst c') = 7 \<and>
        fst c' = stored n ds (fst c) \<and> snd c' = n + length ds" for c :: chip and n ds
    by (simp add: chip_bus_def chip_write_def stored_length unat_of_nat)
  show "length (fst c) = 7 \<Longrightarrow> snd c + n \<le> 7 \<Longrightarrow>
      \<exists>c'. twi_readFrom chip_bus DS1307_CTRL_ID n True c = (0, take n (drop (snd c) (fst c)), c') \<and>
        length (fst c') = 7 \<and> fst c' = fst c" for c :: chip and n
    by (simp add: chip_bus_def chip_read_def)
qed

definition sample_clock :: "chip rtc" where
  "sample_clock = \<lparr>chip_exists = False, rtc_wire = wire_start 4 5, rtc_world = (replicate 7 0, 0)\<rparr>"

section \<open>Properties\<close>

text \<open>C20: The clock chip keeps the time it is set to, over the bus and in binary coded decimal: for every time from
  2000 to 2099, on any chip that keeps its registers, \<open>set\<close> succeeds and \<open>get\<close> gives the same time back,
  whatever the bus buffers held before.\<close>

theorem clock_set_get:
  assumes "clock_chip b registers pointer present" "present (rtc_world r)" "wire_ok (rtc_wire r)" "t \<in> y2k_times"
  shows "\<exists>r' r''. clock_set b t r = (True, r') \<and> clock_get b junk r' = Some (t, r'')"
  using clock_chip.set_get [OF assms] .

theorem clock_set_get_witness:
  "\<exists>r' r''. clock_set chip_bus 1500000000 sample_clock = (True, r') \<and> clock_get chip_bus tm_zero r' = Some (1500000000, r'')"
  by (rule clock_set_get [OF register_file.clock_chip_axioms])
     (simp_all add: sample_clock_def wire_start_ok y2k_times_def)

text \<open>The stand-in of the desktop runs on from the time it is set to, as the clock of the desktop does, modulo
  the 32 bits of a time.\<close>

theorem sim_clock_runs:
  "\<exists>offs. sim_set host t = Some (True, offs) \<and> sim_get (host + d) offs = Some (t + d)"
  by (simp add: sim_set_def sim_write_def sim_get_def sim_read_def makeTime_breakTime_aux)

end
