(* ===== verification/IpAddress.thy ===== *)
theory IpAddress
  imports PrintLib Platform
begin

text \<open>
  IPv4 addresses, \<^verbatim>\<open>esp8266_sim/IPAddress.cpp\<close> and \<^verbatim>\<open>IPAddress.h\<close>: the four octets, their little-endian
  word, the parser of the dotted form and its printer. An address that is printed parses back; the texts
  that the parser takes are described exactly, and among them are some that are no addresses.
\<close>

section \<open>The class\<close>

text \<open>The union of four octets and a word, seen as the octets.\<close>

type_synonym address = "u8 list"

definition new_IPAddress :: address where
  "new_IPAddress = [0, 0, 0, 0]"

definition IPAddress_octets :: "u8 \<Rightarrow> u8 \<Rightarrow> u8 \<Rightarrow> u8 \<Rightarrow> address" where
  "IPAddress_octets a b c d = [a, b, c, d]"

definition ip_of_dword :: "u32 \<Rightarrow> address" where
  "ip_of_dword w = [ucast w, ucast (drop_bit 8 w), ucast (drop_bit 16 w), ucast (drop_bit 24 w)]"

definition ip_dword :: "address \<Rightarrow> u32" where
  "ip_dword a = ucast (a ! 0) + push_bit 8 (ucast (a ! 1)) + push_bit 16 (ucast (a ! 2)) + push_bit 24 (ucast (a ! 3))"

text \<open>Four octets are copied from memory; fewer than four there are an undefined read.\<close>

definition ip_of_memory :: "u8 list \<Rightarrow> address option" where
  "ip_of_memory bs = (if length bs < 4 then None else Some (take 4 bs))"

definition ip_equal :: "address \<Rightarrow> address \<Rightarrow> bool" where
  "ip_equal a b \<longleftrightarrow> ip_dword a = ip_dword b"

definition ip_equal_memory :: "address \<Rightarrow> u8 list \<Rightarrow> bool option" where
  "ip_equal_memory a bs = (if length bs < 4 then None else Some (take 4 bs = a))"

definition ip_index :: "address \<Rightarrow> nat \<Rightarrow> u8 option" where
  "ip_index a i = (if i < 4 then Some (a ! i) else None)"

section \<open>Parsing\<close>

text \<open>
  The loop of \<open>fromString\<close>: the accumulator, the dots so far and the octets, which are overwritten as they
  come, also when the text is refused in the end.
\<close>

fun fromString_loop :: "string \<Rightarrow> u16 \<Rightarrow> nat \<Rightarrow> address \<Rightarrow> bool \<times> address" where
  "fromString_loop [] acc dots bytes =
     (if dots \<noteq> 3 then (False, bytes) else (True, bytes[3 := ucast acc]))"
| "fromString_loop (c # s) acc dots bytes =
     (if is_digit c
      then (let acc = acc * 10 + of_nat (digit_val c)
            in if 255 < acc then (False, bytes) else fromString_loop s acc dots bytes)
      else if c = CHR ''.''
      then (if dots = 3 then (False, bytes) else fromString_loop s 0 (Suc dots) (bytes[dots := ucast acc]))
      else (False, bytes))"

definition fromString :: "string \<Rightarrow> address \<Rightarrow> bool \<times> address" where
  "fromString s a = fromString_loop s 0 0 a"

section \<open>Printing\<close>

definition print_octet_dot :: "'s sink \<Rightarrow> u8 \<Rightarrow> nat \<times> 's \<Rightarrow> (nat \<times> 's) option" where
  "print_octet_dot wr octet = (\<lambda>(n, s). do {
     (k, s) \<leftarrow> print_uchar wr octet 10 s;
     (j, s) \<leftarrow> print_char wr CHR ''.'' s;
     Some (n + k + j, s) })"

definition ip_printTo :: "'s sink \<Rightarrow> address \<Rightarrow> 's \<Rightarrow> (nat \<times> 's) option" where
  "ip_printTo wr a s = do {
     r \<leftarrow> print_octet_dot wr (a ! 0) (0, s);
     r \<leftarrow> print_octet_dot wr (a ! 1) r;
     (n, s) \<leftarrow> print_octet_dot wr (a ! 2) r;
     (k, s) \<leftarrow> print_uchar wr (a ! 3) 10 s;
     Some (n + k, s) }"

section \<open>What is printed\<close>

lemma number_digit_char: "d < 10 \<Longrightarrow> number_digit (of_nat d) = of_char (digit_char d)"
proof -
  assume "d < 10"
  then have "d \<in> set [0..<10]" by simp
  moreover have "\<forall>d \<in> set [0..<10]. number_digit (of_nat d) = (of_char (digit_char d) :: u8)" by code_simp
  ultimately show ?thesis by blast
qed

lemma number_loop_decimal:
  "length (dec_of_nat n) + length buf \<le> 32 \<Longrightarrow> number_loop 10 n buf = Some (char_bytes (dec_of_nat n) @ buf)"
proof (induction n arbitrary: buf rule: dec_of_nat.induct)
  case (1 n)
  show ?case
  proof (cases "n < 10")
    case True
    then have "dec_of_nat n = [digit_char n]" by (subst dec_of_nat.simps) simp
    then show ?thesis using True 1(2) number_digit_char [OF True]
      by (subst number_loop.simps) (simp add: char_bytes_def)
  next
    case False
    then have d: "dec_of_nat n = dec_of_nat (n div 10) @ [digit_char (n mod 10)]" by (subst dec_of_nat.simps) simp
    have "number_loop 10 (n div 10) (number_digit (of_nat (n mod 10)) # buf) =
        Some (char_bytes (dec_of_nat (n div 10)) @ number_digit (of_nat (n mod 10)) # buf)"
      using 1(2) by (intro 1(1) [OF False]) (simp add: d)
    moreover have "\<not> 32 \<le> length buf" using 1(2) d by simp
    moreover have "n div 10 \<noteq> 0" using False by simp
    ultimately show ?thesis using number_digit_char [of "n mod 10"]
      by (subst number_loop.simps) (simp add: d char_bytes_def Let_def)
  qed
qed

lemma print_uchar_decimal: "print_uchar wr octet 10 s = print_string wr (dec_of_nat (unat octet)) s"
proof -
  have "length (dec_of_nat (unat octet)) \<le> 3" using unat_u8_less [of octet] by (intro length_dec_of_nat) simp_all
  then have "number_loop 10 (unat octet) [] = Some (char_bytes (dec_of_nat (unat octet)) @ [])"
    by (intro number_loop_decimal) simp
  then show ?thesis
    by (simp add: print_uchar_def print_ulong_def printNumber_def print_string_def Let_def unat_ucast_u32)
qed

text \<open>The dotted form of an address.\<close>

definition dotted :: "address \<Rightarrow> string" where
  "dotted a = dec_of_nat (unat (a ! 0)) @ ''.'' @ dec_of_nat (unat (a ! 1)) @ ''.'' @
     dec_of_nat (unat (a ! 2)) @ ''.'' @ dec_of_nat (unat (a ! 3))"

lemma collect_string: "print_string collect str out = Some (length str, out @ char_bytes str)"
proof -
  have "print_buffer collect bs out = Some (length bs, out @ bs)" for bs :: "u8 list" and out
    by (induction bs arbitrary: out) (simp_all add: collect_def)
  then show ?thesis by (simp add: print_string_def char_bytes_def)
qed

lemma printTo_dotted: "ip_printTo collect a out = Some (length (dotted a), out @ char_bytes (dotted a))"
  by (simp add: ip_printTo_def print_octet_dot_def print_uchar_decimal collect_string print_char_def dotted_def)
     (simp add: collect_def char_bytes_def)

section \<open>What is parsed\<close>

text \<open>Digits are added to the accumulator as long as it stays below 256, at every one of them.\<close>

fun octet_from :: "nat \<Rightarrow> string \<Rightarrow> nat option" where
  "octet_from n [] = Some n"
| "octet_from n (c # s) =
     (if is_digit c \<and> n * 10 + digit_val c < 256 then octet_from (n * 10 + digit_val c) s else None)"

lemma octet_from_bound: "octet_from n s = Some m \<Longrightarrow> n < 256 \<Longrightarrow> m < 256 \<and> n \<le> m"
proof (induction s arbitrary: n)
  case (Cons c s)
  then show ?case by (fastforce split: if_splits)
qed simp

lemma octet_from_append:
  "octet_from n (xs @ ys) = Option.bind (octet_from n xs) (\<lambda>m. octet_from m ys)"
  by (induction n xs rule: octet_from.induct) auto

lemma octet_from_dec: "n < 256 \<Longrightarrow> octet_from 0 (dec_of_nat n) = Some n"
proof (induction n rule: dec_of_nat.induct)
  case (1 n)
  show ?case
  proof (cases "n < 10")
    case True
    then show ?thesis by (subst dec_of_nat.simps) simp
  next
    case False
    then have "octet_from 0 (dec_of_nat (n div 10)) = Some (n div 10)" using 1 by simp
    then show ?thesis using False 1(2) by (subst dec_of_nat.simps) (simp add: octet_from_append)
  qed
qed

lemma digit_val_small: "is_digit c \<Longrightarrow> digit_val c < 10"
  by (auto simp: is_digit_def digit_val_def)

lemma dot_no_digit [simp]: "\<not> is_digit CHR ''.''"
  by (simp add: is_digit_def char_code_def)

lemma digit_not_dot: "is_digit c \<Longrightarrow> c \<noteq> CHR ''.''"
  by (auto simp: is_digit_def char_code_def)

lemma acc_step:
  assumes "n < 256" "d < 10"
  shows "255 < of_nat n * 10 + (of_nat d :: u16) \<longleftrightarrow> 256 \<le> n * 10 + d"
proof -
  have "unat (of_nat (n * 10 + d) :: u16) = n * 10 + d" using assms by (simp only: unat_of_nat) simp
  then show ?thesis by (auto simp: word_less_nat_alt)
qed

text \<open>An octet, up to a dot or to the end.\<close>

lemma loop_octet:
  assumes "n < 256" "octet_from n w = Some m"
  shows "fromString_loop (w @ rest) (of_nat n) dots bytes = fromString_loop rest (of_nat m) dots bytes"
  using assms
proof (induction w arbitrary: n)
  case (Cons c w)
  then have c: "is_digit c" "n * 10 + digit_val c < 256" "octet_from (n * 10 + digit_val c) w = Some m"
    by (auto split: if_splits)
  then show ?case using Cons.IH [OF c(2,3)] acc_step [OF Cons.prems(1) digit_val_small [OF c(1)]]
    by (simp add: Let_def)
qed simp

lemma loop_octet_bad:
  assumes "n < 256" "octet_from n w = None" "CHR ''.'' \<notin> set w"
  shows "\<not> fst (fromString_loop (w @ rest) (of_nat n) dots bytes)"
  using assms
proof (induction w arbitrary: n)
  case (Cons c w)
  show ?case
  proof (cases "is_digit c")
    case True
    note step = acc_step [OF Cons.prems(1) digit_val_small [OF True]]
    show ?thesis
    proof (cases "n * 10 + digit_val c < 256")
      case small: True
      show ?thesis using Cons.IH [OF small] Cons.prems True step small by (simp add: Let_def)
    qed (use step True in \<open>simp add: Let_def\<close>)
  qed (use Cons.prems in auto)
qed simp

text \<open>The text up to the first dot, and the octets of a text.\<close>

definition no_dot :: "string \<Rightarrow> bool" where
  "no_dot w \<longleftrightarrow> CHR ''.'' \<notin> set w"

lemma octet_no_dot: "octet_from n w = Some m \<Longrightarrow> no_dot w"
  by (induction n w rule: octet_from.induct) (auto simp: no_dot_def split: if_splits)

lemma loop_dot: "fromString_loop (CHR ''.'' # s) acc dots bytes =
    (if dots = 3 then (False, bytes) else fromString_loop s 0 (Suc dots) (bytes[dots := ucast acc]))"
  by simp

lemma split_dot: "\<exists>w rest. no_dot w \<and> (s = w \<or> s = w @ ''.'' @ rest)"
proof (cases "CHR ''.'' \<in> set s")
  case True
  then obtain w rest where "s = w @ CHR ''.'' # rest" "CHR ''.'' \<notin> set w" by (meson split_list_first)
  then show ?thesis by (auto simp: no_dot_def)
qed (auto simp: no_dot_def)

text \<open>What the loop takes from a given dot on.\<close>

fun takes :: "nat \<Rightarrow> string list \<Rightarrow> bool" where
  "takes k [] \<longleftrightarrow> False"
| "takes k [w] \<longleftrightarrow> k = 0 \<and> octet_from 0 w \<noteq> None"
| "takes k (w # ws) \<longleftrightarrow> k \<noteq> 0 \<and> octet_from 0 w \<noteq> None \<and> takes (k - 1) ws"

fun with_dots :: "string list \<Rightarrow> string" where
  "with_dots [] = []"
| "with_dots [w] = w"
| "with_dots (w # ws) = w @ ''.'' @ with_dots ws"

fun put_octets :: "nat \<Rightarrow> string list \<Rightarrow> address \<Rightarrow> address" where
  "put_octets i [] bytes = bytes"
| "put_octets i (w # ws) bytes = put_octets (Suc i) ws (bytes[i := of_nat (the (octet_from 0 w))])"

lemma ucast_octet: "octet_from 0 w = Some m \<Longrightarrow> ucast (of_nat m :: u16) = (of_nat m :: u8)"
  by (simp add: word_unat_eq_iff unsigned_ucast_eq unat_of_nat take_bit_eq_mod mod_mod_cancel)

lemma loop_takes:
  "dots \<le> 3 \<Longrightarrow> takes (3 - dots) ws \<Longrightarrow>
     fromString_loop (with_dots ws) 0 dots bytes = (True, put_octets dots ws bytes)"
proof (induction ws arbitrary: dots bytes rule: with_dots.induct)
  case (2 w)
  then obtain m where m: "octet_from 0 w = Some m" "dots = 3" by auto
  then show ?case using loop_octet [of 0 w m "[]" 3 bytes] by (simp add: ucast_octet)
next
  case (3 w v ws)
  then obtain m where m: "octet_from 0 w = Some m" "dots \<noteq> 3" "takes (3 - Suc dots) (v # ws)" by auto
  then show ?case using loop_octet [of 0 w m "''.'' @ with_dots (v # ws)" dots bytes] 3
    by (simp add: loop_dot ucast_octet)
qed simp

lemma loop_first_octet:
  assumes "fst (fromString_loop s 0 dots bytes)" "no_dot w" "s = w \<or> s = w @ ''.'' @ rest"
  obtains m where "octet_from 0 w = Some m"
proof (cases "octet_from 0 w")
  case None
  have "\<not> fst (fromString_loop (w @ r) 0 dots bytes)" for r
    using loop_octet_bad [of 0 w r dots bytes] None assms(2) by (simp add: no_dot_def)
  from this [of "[]"] this [of "''.'' @ rest"] assms(1,3) show ?thesis by auto
qed (rule that)

lemma takes_length: "takes k ws \<Longrightarrow> length ws = Suc k"
  by (induction k ws rule: takes.induct) auto

lemma loop_takes_only:
  "fst (fromString_loop s 0 dots bytes) \<Longrightarrow> dots \<le> 3 \<Longrightarrow> \<exists>ws. s = with_dots ws \<and> takes (3 - dots) ws"
proof (induction "3 - dots" arbitrary: s dots bytes)
  case 0
  then have d: "dots = 3" by simp
  obtain w rest where w: "no_dot w" "s = w \<or> s = w @ ''.'' @ rest" using split_dot by blast
  obtain m where m: "octet_from 0 w = Some m" using loop_first_octet [OF 0(2) w] .
  have "s = w"
    using w(2) 0(2) loop_octet [OF _ m, of "''.'' @ rest" dots bytes] d by (auto simp: loop_dot)
  then show ?case using m d by (intro exI [of _ "[w]"]) simp
next
  case (Suc k)
  obtain w rest where w: "no_dot w" "s = w \<or> s = w @ ''.'' @ rest" using split_dot by blast
  obtain m where m: "octet_from 0 w = Some m" using loop_first_octet [OF Suc(3) w] .
  have d: "dots \<noteq> 3" using Suc by auto
  have s: "s = w @ ''.'' @ rest"
    using w(2) Suc(3) loop_octet [OF _ m, of "[]" dots bytes] d by auto
  then have "fst (fromString_loop rest 0 (Suc dots) (bytes[dots := ucast (of_nat m :: u16)]))"
    using Suc(3) loop_octet [OF _ m, of "''.'' @ rest" dots bytes] d by (simp add: loop_dot)
  then obtain ws where ws: "rest = with_dots ws" "takes (3 - Suc dots) ws"
    using Suc(1) [of "Suc dots"] Suc(2,4) d by fastforce
  then obtain v vs where "ws = v # vs" by (cases ws) auto
  with ws s m d show ?case by (intro exI [of _ "w # ws"]) (use Suc(4) in auto)
qed

section \<open>Properties\<close>

text \<open>A dotted address is parsed back as it is printed, whatever the object held before.\<close>

theorem address_round_trip:
  assumes "length a = 4" "length old = 4"
  shows "\<exists>s. ip_printTo collect a [] = Some (length s, char_bytes s) \<and> fromString s old = (True, a)"
proof -
  obtain a0 a1 a2 a3 where a: "a = [a0, a1, a2, a3]" using assms(1) by (auto simp: length_Suc_conv numeral_eq_Suc)
  obtain b0 b1 b2 b3 where old: "old = [b0, b1, b2, b3]" using assms(2) by (auto simp: length_Suc_conv numeral_eq_Suc)
  let ?ws = "map (\<lambda>b. dec_of_nat (unat b)) a"
  have octets: "octet_from 0 (dec_of_nat (unat b)) = Some (unat b)" for b :: u8
    using unat_u8_less [of b] by (rule octet_from_dec)
  have "dotted a = with_dots ?ws" by (simp add: dotted_def a)
  moreover have "takes (3 - 0) ?ws" by (simp add: a octets)
  moreover have "put_octets 0 ?ws old = a" by (simp add: a old octets)
  ultimately have "fromString (dotted a) old = (True, a)"
    using loop_takes [of 0 ?ws old] by (simp add: fromString_def)
  then show ?thesis using printTo_dotted [of a "[]"] by (intro exI [of _ "dotted a"]) simp
qed

theorem address_round_trip_witness:
  "\<exists>s. ip_printTo collect [192, 168, 4, 1] [] = Some (length s, char_bytes s) \<and>
     fromString s new_IPAddress = (True, [192, 168, 4, 1])"
  by (rule address_round_trip) (simp_all add: new_IPAddress_def)

text \<open>C32: What the parser takes and what it stores: exactly four parts between three dots, each of them
  digits whose value stays below 256, and the address is then their four values, whatever the object held
  before. A part may also be empty and is then the value 0: three dots alone are the address 0.0.0.0.\<close>

theorem fromString_takes:
  assumes "length a = 4"
  shows "fromString s a = (True, r) \<longleftrightarrow>
     (\<exists>w0 w1 w2 w3 n0 n1 n2 n3. s = w0 @ ''.'' @ w1 @ ''.'' @ w2 @ ''.'' @ w3 \<and>
        octet_from 0 w0 = Some n0 \<and> octet_from 0 w1 = Some n1 \<and> octet_from 0 w2 = Some n2 \<and>
        octet_from 0 w3 = Some n3 \<and> r = [of_nat n0, of_nat n1, of_nat n2, of_nat n3])"
  (is "_ \<longleftrightarrow> ?parts")
proof -
  obtain a0 a1 a2 a3 where a: "a = [a0, a1, a2, a3]" using assms by (auto simp: length_Suc_conv numeral_eq_Suc)
  show ?thesis
  proof
    assume r: "fromString s a = (True, r)"
    then obtain ws where ws: "s = with_dots ws" "takes 3 ws"
      using loop_takes_only [of s 0 a] by (auto simp: fromString_def)
    obtain w0 w1 w2 w3 where w: "ws = [w0, w1, w2, w3]"
      using takes_length [OF ws(2)] by (auto simp: length_Suc_conv numeral_eq_Suc)
    have "r = put_octets 0 ws a" using r loop_takes [of 0 ws a] ws by (simp add: fromString_def)
    with ws w a show ?parts
      by (intro exI [of _ w0] exI [of _ w1] exI [of _ w2] exI [of _ w3]) auto
  next
    assume ?parts
    then obtain w0 w1 w2 w3 where "s = with_dots [w0, w1, w2, w3]" "takes (3 - 0) [w0, w1, w2, w3]"
      "r = put_octets 0 [w0, w1, w2, w3] a" by (auto simp: a)
    then show "fromString s a = (True, r)"
      using loop_takes [of 0 "[w0, w1, w2, w3]" a] by (simp only: fromString_def)
  qed
qed

theorem fromString_takes_witness: "fromString ''...'' [192, 168, 4, 1] = (True, [0, 0, 0, 0])"
proof (subst fromString_takes)
  show "\<exists>w0 w1 w2 w3 n0 n1 n2 n3. ''...'' = w0 @ ''.'' @ w1 @ ''.'' @ w2 @ ''.'' @ w3 \<and>
      octet_from 0 w0 = Some n0 \<and> octet_from 0 w1 = Some n1 \<and> octet_from 0 w2 = Some n2 \<and>
      octet_from 0 w3 = Some n3 \<and> [0, 0, 0, 0 :: u8] = [of_nat n0, of_nat n1, of_nat n2, of_nat n3]"
    by (rule exI [of _ "[]"], rule exI [of _ "[]"], rule exI [of _ "[]"], rule exI [of _ "[]"]) simp
qed simp

text \<open>A text that is refused leaves its first octets in the address.\<close>

lemma refused_overwrites: "fromString ''10.256'' [192, 168, 4, 1] = (False, [10, 168, 4, 1])"
  by code_simp

end
