(* ===== verification/SerialPort.thy ===== *)
theory SerialPort
  imports Prelude
begin

text \<open>
  The serial port, \<^verbatim>\<open>esp8266_sim/HardwareSerial.cpp\<close> and \<^verbatim>\<open>HardwareSerial_private.h\<close>: a ring of received
  bytes, filled by an interrupt, and a ring of bytes to send, emptied by another, with buffers of 64
  bytes. The bits of the control registers that the code tests and sets are fields of the state, and the bytes
  that it writes to the data register are \<open>line_out\<close>. Each ring is a queue of at most 63 bytes.
  \<open>tx_run\<close> interleaves the statements of \<open>write\<close> and \<open>flush\<close> with the interrupt and with the transmitter.
\<close>

section \<open>State\<close>

definition SERIAL_RX_BUFFER_SIZE :: nat where "SERIAL_RX_BUFFER_SIZE = 64"
definition SERIAL_TX_BUFFER_SIZE :: nat where "SERIAL_TX_BUFFER_SIZE = 64"

record serial =
  written :: bool
  rx_buffer_head :: u8
  rx_buffer_tail :: u8
  tx_buffer_head :: u8
  tx_buffer_tail :: u8
  rx_buffer :: "u8 list"
  tx_buffer :: "u8 list"
  ubrr :: u16
  ucsrc :: u8
  U2X0 :: bool
  UDRE0 :: bool
  TXC0 :: bool
  RXEN0 :: bool
  TXEN0 :: bool
  RXCIE0 :: bool
  UDRIE0 :: bool
  SREG_I :: bool
  line_out :: "u8 list"

definition new_HardwareSerial :: "u8 list \<Rightarrow> u8 list \<Rightarrow> serial" where
  "new_HardwareSerial rx tx =
     \<lparr>written = False, rx_buffer_head = 0, rx_buffer_tail = 0, tx_buffer_head = 0, tx_buffer_tail = 0,
      rx_buffer = rx, tx_buffer = tx, ubrr = 0, ucsrc = 0, U2X0 = False, UDRE0 = True, TXC0 = False, RXEN0 = False,
      TXEN0 = False, RXCIE0 = False, UDRIE0 = False, SREG_I = True, line_out = []\<rparr>"

text \<open>The index that follows one in a ring.\<close>

definition next_index :: "nat \<Rightarrow> u8 \<Rightarrow> u8" where
  "next_index n i = of_nat (Suc (unat i) mod n)"

section \<open>Interrupts\<close>

definition tx_udr_empty_irq :: "serial \<Rightarrow> serial" where
  "tx_udr_empty_irq s =
     (let c = tx_buffer s ! unat (tx_buffer_tail s);
          s = s\<lparr>tx_buffer_tail := next_index SERIAL_TX_BUFFER_SIZE (tx_buffer_tail s)\<rparr>;
          s = s\<lparr>line_out := line_out s @ [c], UDRE0 := False, TXC0 := False\<rparr>
      in if tx_buffer_head s = tx_buffer_tail s then s\<lparr>UDRIE0 := False\<rparr> else s)"

text \<open>The byte in the data register and whether its parity is wrong are the arguments.\<close>

definition rx_complete_irq :: "bool \<Rightarrow> u8 \<Rightarrow> serial \<Rightarrow> serial" where
  "rx_complete_irq UPE0 c s =
     (if \<not> UPE0
      then (let i = next_index SERIAL_RX_BUFFER_SIZE (rx_buffer_head s)
            in if i \<noteq> rx_buffer_tail s
               then s\<lparr>rx_buffer := (rx_buffer s)[unat (rx_buffer_head s) := c], rx_buffer_head := i\<rparr>
               else s)
      else s)"

section \<open>Starting and stopping\<close>

text \<open>A rate of 0 is a division by zero, which is undefined.\<close>

definition baud_setting :: "u32 \<Rightarrow> u32 \<Rightarrow> (bool \<times> u16) option" where
  "baud_setting F_CPU baud =
     (if baud = 0 then None
      else (let fast = ucast ((F_CPU div 4 div baud - 1) div 2)
            in if F_CPU = 16000000 \<and> baud = 57600 \<or> 4095 < (fast :: u16)
               then Some (False, ucast ((F_CPU div 8 div baud - 1) div 2))
               else Some (True, fast)))"

definition serial_begin :: "u32 \<Rightarrow> u32 \<Rightarrow> u8 \<Rightarrow> serial \<Rightarrow> serial option" where
  "serial_begin F_CPU baud config s = do {
     (u2x, setting) \<leftarrow> baud_setting F_CPU baud;
     Some (s\<lparr>U2X0 := u2x, ubrr := setting, written := False, ucsrc := config, RXEN0 := True, TXEN0 := True,
             RXCIE0 := True, UDRIE0 := False\<rparr>) }"

text \<open>The end of \<open>end\<close>, after its \<open>flush\<close>.\<close>

definition serial_end :: "serial \<Rightarrow> serial" where
  "serial_end s = s\<lparr>RXEN0 := False, TXEN0 := False, RXCIE0 := False, UDRIE0 := False, rx_buffer_head := rx_buffer_tail s\<rparr>"

section \<open>Receiving\<close>

definition serial_available :: "serial \<Rightarrow> int" where
  "serial_available s =
     (int SERIAL_RX_BUFFER_SIZE + uint (rx_buffer_head s) - uint (rx_buffer_tail s)) mod int SERIAL_RX_BUFFER_SIZE"

definition serial_peek :: "serial \<Rightarrow> int" where
  "serial_peek s =
     (if rx_buffer_head s = rx_buffer_tail s then - 1 else uint (rx_buffer s ! unat (rx_buffer_tail s)))"

definition serial_read :: "serial \<Rightarrow> int \<times> serial" where
  "serial_read s =
     (if rx_buffer_head s = rx_buffer_tail s then (- 1, s)
      else (uint (rx_buffer s ! unat (rx_buffer_tail s)),
            s\<lparr>rx_buffer_tail := next_index SERIAL_RX_BUFFER_SIZE (rx_buffer_tail s)\<rparr>))"

section \<open>Sending\<close>

definition availableForWrite :: "serial \<Rightarrow> int" where
  "availableForWrite s =
     (let head = uint (tx_buffer_head s); tail = uint (tx_buffer_tail s)
      in if tail \<le> head then int SERIAL_TX_BUFFER_SIZE - 1 - head + tail else tail - head - 1)"

text \<open>
  Where the program is: in none of the calls, behind the byte that \<open>write\<close> has put into the data register
  itself, in its loop that waits for room, behind the store into the buffer, behind the assignment of
  the head, and in the loop of \<open>flush\<close>. The interrupt routine is not interrupted and is one step.
\<close>

datatype pc = Idle | Direct | Waiting u8 u8 | Stored u8 | Advanced | Flushing

definition write_start :: "u8 \<Rightarrow> serial \<Rightarrow> pc \<times> serial" where
  "write_start c s =
     (let s = s\<lparr>written := True\<rparr>
      in if tx_buffer_head s = tx_buffer_tail s \<and> UDRE0 s
         then (Direct, s\<lparr>line_out := line_out s @ [c], UDRE0 := False\<rparr>)
         else (Waiting c (next_index SERIAL_TX_BUFFER_SIZE (tx_buffer_head s)), s))"

text \<open>With the interrupts off, the loop looks at the register itself.\<close>

definition serial_poll :: "serial \<Rightarrow> serial" where
  "serial_poll s = (if \<not> SREG_I s \<and> UDRE0 s then tx_udr_empty_irq s else s)"

definition write_wait :: "u8 \<Rightarrow> u8 \<Rightarrow> serial \<Rightarrow> pc \<times> serial" where
  "write_wait c i s =
     (if i = tx_buffer_tail s then (Waiting c i, serial_poll s)
      else (Stored i, s\<lparr>tx_buffer := (tx_buffer s)[unat (tx_buffer_head s) := c]\<rparr>))"

definition flush_start :: "serial \<Rightarrow> pc \<times> serial" where
  "flush_start s = (if \<not> written s then (Idle, s) else (Flushing, s))"

definition flush_loop :: "serial \<Rightarrow> pc \<times> serial" where
  "flush_loop s =
     (if UDRIE0 s \<or> \<not> TXC0 s
      then (Flushing, if \<not> SREG_I s \<and> UDRIE0 s \<and> UDRE0 s then tx_udr_empty_irq s else s)
      else (Idle, s))"

text \<open>
  The runs, with the bytes written so far. The interrupt comes when it is enabled and the data register
  is empty. \<open>window\<close> says whether it may also come between the last two statements of \<open>write\<close>.
\<close>

inductive tx_run :: "bool \<Rightarrow> serial \<Rightarrow> u8 list \<Rightarrow> pc \<Rightarrow> serial \<Rightarrow> bool" for window s0 where
  start: "tx_run window s0 [] Idle s0"
| begins: "tx_run window s0 ws Idle s \<Longrightarrow> write_start c s = (p, s') \<Longrightarrow> tx_run window s0 (ws @ [c]) p s'"
| direct: "tx_run window s0 ws Direct s \<Longrightarrow> tx_run window s0 ws Idle (s\<lparr>TXC0 := False\<rparr>)"
| waits: "tx_run window s0 ws (Waiting c i) s \<Longrightarrow> write_wait c i s = (p, s') \<Longrightarrow> tx_run window s0 ws p s'"
| advance: "tx_run window s0 ws (Stored i) s \<Longrightarrow> tx_run window s0 ws Advanced (s\<lparr>tx_buffer_head := i\<rparr>)"
| enable: "tx_run window s0 ws Advanced s \<Longrightarrow> tx_run window s0 ws Idle (s\<lparr>UDRIE0 := True\<rparr>)"
| flushes: "tx_run window s0 ws Idle s \<Longrightarrow> flush_start s = (p, s') \<Longrightarrow> tx_run window s0 ws p s'"
| flushing: "tx_run window s0 ws Flushing s \<Longrightarrow> flush_loop s = (p, s') \<Longrightarrow> tx_run window s0 ws p s'"
| irq: "tx_run window s0 ws p s \<Longrightarrow> UDRIE0 s \<Longrightarrow> UDRE0 s \<Longrightarrow> SREG_I s \<Longrightarrow> window \<or> p \<noteq> Advanced \<Longrightarrow>
    tx_run window s0 ws p (tx_udr_empty_irq s)"
| register_empty: "tx_run window s0 ws p s \<Longrightarrow> tx_run window s0 ws p (s\<lparr>UDRE0 := True\<rparr>)"
| sent_all: "tx_run window s0 ws p s \<Longrightarrow> UDRE0 s \<Longrightarrow> tx_run window s0 ws p (s\<lparr>TXC0 := True\<rparr>)"
| mask: "tx_run window s0 ws Idle s \<Longrightarrow> tx_run window s0 ws Idle (s\<lparr>SREG_I := on\<rparr>)"

section \<open>Rings\<close>

text \<open>The bytes between two indices of a ring of 64.\<close>

definition ring :: "u8 list \<Rightarrow> u8 \<Rightarrow> u8 \<Rightarrow> u8 list" where
  "ring buf tail head = map (\<lambda>k. buf ! ((unat tail + k) mod 64)) [0 ..< (64 + unat head - unat tail) mod 64]"

definition ring_ok :: "u8 list \<Rightarrow> u8 \<Rightarrow> u8 \<Rightarrow> bool" where
  "ring_ok buf tail head \<longleftrightarrow> length buf = 64 \<and> unat tail < 64 \<and> unat head < 64"

lemma next_index_bound: "unat (next_index 64 i) = Suc (unat i) mod 64"
  by (simp add: next_index_def unat_of_nat)

lemma ring_length: "length (ring buf tail head) = (64 + unat head - unat tail) mod 64"
  by (simp add: ring_def)

lemma ring_short: "length (ring buf tail head) \<le> 63"
  by (simp add: ring_length less_Suc_eq_le [symmetric])

lemma ring_gap:
  assumes "h < 64" "t < (64::nat)"
  shows "(64 + h - t) mod 64 = (if t \<le> h then h - t else 64 + h - t)"
proof (cases "t \<le> h")
  case True
  then have "64 + h - t = (h - t) + 64" by simp
  then show ?thesis using True assms by (simp only: mod_add_self2) simp
qed (use assms in simp)

lemma ring_empty: "ring_ok buf tail head \<Longrightarrow> ring buf tail head = [] \<longleftrightarrow> head = tail"
  by (simp add: ring_def ring_ok_def ring_gap word_unat_eq_iff)

lemma suc_wrap: "i < 64 \<Longrightarrow> Suc i mod 64 = (if i = 63 then 0 else Suc i)"
  by auto

lemma mod_once: "n < 128 \<Longrightarrow> n mod 64 = (if n < 64 then n else n - 64 :: nat)"
  by (simp add: mod_if)

lemma ring_full:
  "ring_ok buf tail head \<Longrightarrow> next_index 64 head = tail \<longleftrightarrow> length (ring buf tail head) = 63"
  by (simp only: ring_length ring_ok_def ring_gap word_unat_eq_iff next_index_bound suc_wrap) auto

lemma ring_store:
  assumes "ring_ok buf tail head"
  shows "ring (buf[unat head := c]) tail head = ring buf tail head"
proof -
  let ?t = "unat tail" and ?h = "unat head"
  have b: "?t < 64" "?h < 64" using assms by (simp_all add: ring_ok_def)
  have "?h \<noteq> (?t + k) mod 64" if "k < (64 + ?h - ?t) mod 64" for k
  proof -
    have k: "k < (if ?t \<le> ?h then ?h - ?t else 64 + ?h - ?t)" using that b by (simp only: ring_gap)
    then have "?t + k < 128" using b by (simp split: if_splits)
    then show ?thesis unfolding mod_once [OF \<open>?t + k < 128\<close>] using k b by (auto split: if_splits)
  qed
  then show ?thesis unfolding ring_def by (intro map_cong) auto
qed

lemma ring_put:
  assumes "ring_ok buf tail head" "next_index 64 head \<noteq> tail"
  shows "ring_ok (buf[unat head := c]) tail (next_index 64 head)"
    and "ring (buf[unat head := c]) tail (next_index 64 head) = ring buf tail head @ [c]"
proof -
  let ?t = "unat tail" and ?h = "unat head"
  have b: "length buf = 64" "?t < 64" "?h < 64" using assms(1) by (simp_all add: ring_ok_def)
  then show "ring_ok (buf[unat head := c]) tail (next_index 64 head)"
    by (simp add: ring_ok_def next_index_bound)
  let ?n = "(64 + ?h - ?t) mod 64"
  have ne: "Suc ?h mod 64 \<noteq> ?t" using assms(2) by (simp add: word_unat_eq_iff next_index_bound)
  have n: "(64 + unat (next_index 64 head) - ?t) mod 64 = Suc ?n"
    using ne b by (auto simp: next_index_bound ring_gap suc_wrap split: if_splits)
  have last: "(?t + ?n) mod 64 = ?h" using b by (auto simp: ring_gap)
  have "ring (buf[?h := c]) tail (next_index 64 head) =
      map (\<lambda>k. buf[?h := c] ! ((?t + k) mod 64)) [0 ..< ?n] @ [buf[?h := c] ! ((?t + ?n) mod 64)]"
    by (simp add: ring_def n)
  then show "ring (buf[unat head := c]) tail (next_index 64 head) = ring buf tail head @ [c]"
    using b last ring_store [OF assms(1), of c] by (simp add: ring_def)
qed

lemma ring_get:
  assumes "ring_ok buf tail head" "head \<noteq> tail"
  shows "ring_ok buf (next_index 64 tail) head"
    and "ring buf tail head = buf ! unat tail # ring buf (next_index 64 tail) head"
proof -
  let ?t = "unat tail" and ?h = "unat head"
  have b: "length buf = 64" "?t < 64" "?h < 64" using assms(1) by (simp_all add: ring_ok_def)
  then show "ring_ok buf (next_index 64 tail) head"
    by (simp add: ring_ok_def next_index_bound)
  let ?n = "(64 + ?h - unat (next_index 64 tail)) mod 64"
  have ne: "?h \<noteq> ?t" using assms(2) by (simp add: word_unat_eq_iff)
  have n: "(64 + ?h - ?t) mod 64 = Suc ?n"
    using ne b by (auto simp: next_index_bound ring_gap suc_wrap split: if_splits)
  have shift: "Suc (?t + k) mod 64 = (unat (next_index 64 tail) + k) mod 64" for k
    by (simp add: next_index_bound mod_simps)
  show "ring buf tail head = buf ! unat tail # ring buf (next_index 64 tail) head"
    unfolding ring_def n by (simp add: upt_conv_Cons map_Suc_upt [symmetric] shift b del: upt_Suc)
qed

section \<open>What is received\<close>

definition rx_ok :: "serial \<Rightarrow> bool" where
  "rx_ok s \<longleftrightarrow> ring_ok (rx_buffer s) (rx_buffer_tail s) (rx_buffer_head s)"

definition received :: "serial \<Rightarrow> u8 list" where
  "received s = ring (rx_buffer s) (rx_buffer_tail s) (rx_buffer_head s)"

lemmas buffer_sizes = SERIAL_RX_BUFFER_SIZE_def SERIAL_TX_BUFFER_SIZE_def

lemma rx_irq_received:
  assumes "rx_ok s"
  shows "rx_ok (rx_complete_irq e c s)"
    and "received (rx_complete_irq e c s) = (if \<not> e \<and> length (received s) < 63 then received s @ [c] else received s)"
proof -
  have full: "next_index 64 (rx_buffer_head s) = rx_buffer_tail s \<longleftrightarrow> \<not> length (received s) < 63"
    using ring_full [of "rx_buffer s" "rx_buffer_tail s" "rx_buffer_head s"] ring_short [of "rx_buffer s" "rx_buffer_tail s" "rx_buffer_head s"]
      assms by (auto simp: rx_ok_def received_def)
  show "rx_ok (rx_complete_irq e c s)"
    using assms ring_put(1) [of "rx_buffer s" "rx_buffer_tail s" "rx_buffer_head s" c]
    by (simp add: rx_complete_irq_def buffer_sizes rx_ok_def Let_def)
  show "received (rx_complete_irq e c s) = (if \<not> e \<and> length (received s) < 63 then received s @ [c] else received s)"
    using assms full ring_put(2) [of "rx_buffer s" "rx_buffer_tail s" "rx_buffer_head s" c]
    by (simp add: rx_complete_irq_def buffer_sizes rx_ok_def received_def Let_def)
qed

lemma serial_read_received:
  assumes "rx_ok s"
  shows "rx_ok (snd (serial_read s))"
    and "fst (serial_read s) = (case received s of [] \<Rightarrow> - 1 | c # cs \<Rightarrow> uint c)"
    and "received (snd (serial_read s)) = tl (received s)"
  using assms ring_empty [of "rx_buffer s" "rx_buffer_tail s" "rx_buffer_head s"]
    ring_get [of "rx_buffer s" "rx_buffer_tail s" "rx_buffer_head s"]
  by (auto simp: serial_read_def buffer_sizes rx_ok_def received_def)

lemma available_received: "rx_ok s \<Longrightarrow> serial_available s = int (length (received s))"
proof -
  assume "rx_ok s"
  then have "unat (rx_buffer_tail s) \<le> 64 + unat (rx_buffer_head s)" by (simp add: rx_ok_def ring_ok_def)
  then have "int 64 + uint (rx_buffer_head s) - uint (rx_buffer_tail s) =
      int (64 + unat (rx_buffer_head s) - unat (rx_buffer_tail s))" by (simp add: of_nat_diff)
  then show ?thesis unfolding serial_available_def buffer_sizes received_def ring_length by (simp only: zmod_int)
qed

text \<open>An interrupt between the two statements of \<open>read\<close> is as good as one before it.\<close>

lemma irq_inside_read:
  assumes "rx_ok s" "rx_buffer_head s \<noteq> rx_buffer_tail s"
  shows "(rx_complete_irq e c s)\<lparr>rx_buffer_tail := next_index SERIAL_RX_BUFFER_SIZE (rx_buffer_tail s)\<rparr> =
      snd (serial_read (rx_complete_irq e c s))"
    and "fst (serial_read (rx_complete_irq e c s)) = fst (serial_read s)"
proof -
  have "received s \<noteq> []" using assms ring_empty by (simp add: rx_ok_def received_def)
  then obtain d ds where d: "received s = d # ds" by (cases "received s") auto
  then have r: "received (rx_complete_irq e c s) = d # (if \<not> e \<and> length (received s) < 63 then ds @ [c] else ds)"
    using rx_irq_received(2) [OF assms(1), of e c] by simp
  then have "rx_buffer_head (rx_complete_irq e c s) \<noteq> rx_buffer_tail (rx_complete_irq e c s)"
    using rx_irq_received(1) [OF assms(1), of e c] ring_empty
    by (metis list.distinct(1) received_def rx_ok_def)
  moreover have "rx_buffer_tail (rx_complete_irq e c s) = rx_buffer_tail s"
    by (simp add: rx_complete_irq_def Let_def)
  ultimately show "(rx_complete_irq e c s)\<lparr>rx_buffer_tail := next_index SERIAL_RX_BUFFER_SIZE (rx_buffer_tail s)\<rparr> =
      snd (serial_read (rx_complete_irq e c s))" by (simp add: serial_read_def)
  show "fst (serial_read (rx_complete_irq e c s)) = fst (serial_read s)"
    using serial_read_received(2) [OF assms(1)] serial_read_received(2) [OF rx_irq_received(1) [OF assms(1)], of e c] d r by simp
qed

text \<open>Arrivals and reads in any order, and the queue that they should be.\<close>

datatype rx_event = Arrives bool u8 | Reads

fun rx_step :: "rx_event \<Rightarrow> int list \<times> serial \<Rightarrow> int list \<times> serial" where
  "rx_step (Arrives e c) (got, s) = (got, rx_complete_irq e c s)"
| "rx_step Reads (got, s) = (let (i, s) = serial_read s in (got @ [i], s))"

fun queue_step :: "rx_event \<Rightarrow> int list \<times> u8 list \<Rightarrow> int list \<times> u8 list" where
  "queue_step (Arrives e c) (got, q) = (got, if \<not> e \<and> length q < 63 then q @ [c] else q)"
| "queue_step Reads (got, []) = (got @ [- 1], [])"
| "queue_step Reads (got, c # q) = (got @ [uint c], q)"

lemma rx_step_queue:
  "rx_ok s \<Longrightarrow> rx_ok (snd (rx_step ev (got, s))) \<and>
     apsnd received (rx_step ev (got, s)) = queue_step ev (got, received s)"
proof (cases ev)
  case Reads
  assume "rx_ok s"
  with Reads serial_read_received [of s] show ?thesis
    by (cases "received s"; cases "serial_read s") auto
qed (simp add: rx_irq_received)

section \<open>What is sent\<close>

definition queued :: "serial \<Rightarrow> u8 list" where
  "queued s = ring (tx_buffer s) (tx_buffer_tail s) (tx_buffer_head s)"

definition tx_ring_ok :: "serial \<Rightarrow> bool" where
  "tx_ring_ok s \<longleftrightarrow> ring_ok (tx_buffer s) (tx_buffer_tail s) (tx_buffer_head s)"

text \<open>The byte that \<open>write\<close> has taken and not queued yet.\<close>

fun pending :: "pc \<Rightarrow> serial \<Rightarrow> u8 list" where
  "pending (Waiting c i) s = [c]"
| "pending (Stored i) s = [tx_buffer s ! unat (tx_buffer_head s)]"
| "pending p s = []"

fun pc_ok :: "pc \<Rightarrow> serial \<Rightarrow> bool" where
  "pc_ok (Waiting c i) s \<longleftrightarrow> i = next_index 64 (tx_buffer_head s)"
| "pc_ok (Stored i) s \<longleftrightarrow> i = next_index 64 (tx_buffer_head s) \<and> i \<noteq> tx_buffer_tail s"
| "pc_ok Advanced s \<longleftrightarrow> queued s \<noteq> []"
| "pc_ok p s \<longleftrightarrow> True"

text \<open>Nothing is lost, repeated or swapped, the interrupt is enabled while bytes wait, and the flag that
  the transmission is complete is not set with a byte in the data register, but for the moment in which
  \<open>write\<close> has put one there and not cleared it yet.\<close>

definition tx_inv :: "u8 list \<Rightarrow> pc \<Rightarrow> serial \<Rightarrow> bool" where
  "tx_inv ws p s \<longleftrightarrow> tx_ring_ok s \<and> pc_ok p s \<and> line_out s @ queued s @ pending p s = ws \<and>
     (p \<noteq> Advanced \<longrightarrow> (UDRIE0 s \<longleftrightarrow> queued s \<noteq> [])) \<and> (p \<noteq> Direct \<longrightarrow> TXC0 s \<longrightarrow> UDRE0 s) \<and> (ws \<noteq> [] \<longrightarrow> written s)"

lemma tx_frame [simp]:
  "queued (s\<lparr>written := x\<rparr>) = queued s" "queued (s\<lparr>line_out := y\<rparr>) = queued s" "queued (s\<lparr>UDRE0 := x\<rparr>) = queued s"
  "queued (s\<lparr>TXC0 := x\<rparr>) = queued s" "queued (s\<lparr>UDRIE0 := x\<rparr>) = queued s" "queued (s\<lparr>SREG_I := x\<rparr>) = queued s"
  "tx_ring_ok (s\<lparr>written := x\<rparr>) = tx_ring_ok s" "tx_ring_ok (s\<lparr>line_out := y\<rparr>) = tx_ring_ok s"
  "tx_ring_ok (s\<lparr>UDRE0 := x\<rparr>) = tx_ring_ok s" "tx_ring_ok (s\<lparr>TXC0 := x\<rparr>) = tx_ring_ok s"
  "tx_ring_ok (s\<lparr>UDRIE0 := x\<rparr>) = tx_ring_ok s" "tx_ring_ok (s\<lparr>SREG_I := x\<rparr>) = tx_ring_ok s"
  by (simp_all add: queued_def tx_ring_ok_def)

lemma queued_empty: "tx_ring_ok s \<Longrightarrow> queued s = [] \<longleftrightarrow> tx_buffer_head s = tx_buffer_tail s"
  by (simp add: queued_def tx_ring_ok_def ring_empty)

lemma tx_irq_sends:
  assumes "tx_ring_ok s" "queued s = c # cs"
  shows "tx_ring_ok (tx_udr_empty_irq s)" "queued (tx_udr_empty_irq s) = cs" "line_out (tx_udr_empty_irq s) = line_out s @ [c]"
    and "UDRIE0 (tx_udr_empty_irq s) \<longleftrightarrow> UDRIE0 s \<and> cs \<noteq> []" "\<not> TXC0 (tx_udr_empty_irq s)" "\<not> UDRE0 (tx_udr_empty_irq s)"
    and "tx_buffer_head (tx_udr_empty_irq s) = tx_buffer_head s" "tx_buffer (tx_udr_empty_irq s) = tx_buffer s"
    and "tx_buffer_tail (tx_udr_empty_irq s) = next_index 64 (tx_buffer_tail s)" "written (tx_udr_empty_irq s) = written s"
proof -
  have ne: "tx_buffer_head s \<noteq> tx_buffer_tail s" using assms queued_empty by fastforce
  have ok: "ring_ok (tx_buffer s) (tx_buffer_tail s) (tx_buffer_head s)" using assms(1) by (simp add: tx_ring_ok_def)
  have cs: "c = tx_buffer s ! unat (tx_buffer_tail s)" "cs = ring (tx_buffer s) (next_index 64 (tx_buffer_tail s)) (tx_buffer_head s)"
    using ring_get(2) [OF ok ne] assms(2) by (simp_all add: queued_def)
  show "tx_ring_ok (tx_udr_empty_irq s)" "queued (tx_udr_empty_irq s) = cs" "line_out (tx_udr_empty_irq s) = line_out s @ [c]"
    using ring_get(1) [OF ok ne] cs by (auto simp: tx_udr_empty_irq_def buffer_sizes tx_ring_ok_def queued_def Let_def)
  show "UDRIE0 (tx_udr_empty_irq s) \<longleftrightarrow> UDRIE0 s \<and> cs \<noteq> []"
    using ring_empty [OF ring_get(1) [OF ok ne]] cs(2) by (simp add: tx_udr_empty_irq_def buffer_sizes Let_def)
qed (simp_all add: tx_udr_empty_irq_def buffer_sizes Let_def)

text \<open>The room that the interrupt makes does not move what \<open>write\<close> has looked at.\<close>

lemma irq_keeps_inv:
  assumes "tx_inv ws p s" "UDRIE0 s" "p \<noteq> Advanced"
  shows "tx_inv ws p (tx_udr_empty_irq s)"
proof -
  have ok: "tx_ring_ok s" and q: "queued s \<noteq> []" using assms by (simp_all add: tx_inv_def)
  then obtain c cs where cs: "queued s = c # cs" by (cases "queued s") auto
  note sends = tx_irq_sends [OF ok cs]
  have "pending p (tx_udr_empty_irq s) = pending p s" by (cases p) (simp_all add: sends)
  moreover have "pc_ok p (tx_udr_empty_irq s)"
  proof (cases p)
    case (Stored i)
    then have "i = next_index 64 (tx_buffer_head s)" using assms(1) by (simp add: tx_inv_def)
    moreover have "next_index 64 (tx_buffer_head s) \<noteq> next_index 64 (tx_buffer_tail s)"
      using sends(1,2) ring_short [of "tx_buffer s" "tx_buffer_tail s" "tx_buffer_head s"] cs
        ring_full [of "tx_buffer s" "next_index 64 (tx_buffer_tail s)" "tx_buffer_head s"]
      by (simp add: tx_ring_ok_def queued_def sends)
    ultimately show ?thesis using Stored by (simp add: sends)
  qed (use assms in \<open>simp_all add: tx_inv_def sends\<close>)
  ultimately show ?thesis using assms cs by (simp add: tx_inv_def sends)
qed

lemma serial_poll_keeps_inv: "tx_inv ws p s \<Longrightarrow> UDRIE0 s \<Longrightarrow> p \<noteq> Advanced \<Longrightarrow> tx_inv ws p (serial_poll s)"
  by (simp add: serial_poll_def irq_keeps_inv)

lemma write_start_inv: "tx_inv ws Idle s \<Longrightarrow> write_start c s = (p, s') \<Longrightarrow> tx_inv (ws @ [c]) p s'"
  by (auto simp: write_start_def tx_inv_def Let_def buffer_sizes dest: queued_empty [THEN iffD2, rotated] split: if_splits)

lemma write_wait_inv:
  assumes inv: "tx_inv ws (Waiting c i) s" and "write_wait c i s = (p, s')"
  shows "tx_inv ws p s'"
proof (cases "i = tx_buffer_tail s")
  case True
  have ok: "ring_ok (tx_buffer s) (tx_buffer_tail s) (tx_buffer_head s)" "i = next_index 64 (tx_buffer_head s)"
    using inv by (simp_all add: tx_inv_def tx_ring_ok_def)
  then have "length (queued s) = 63" using True ring_full [OF ok(1)] by (simp add: queued_def)
  then have "UDRIE0 s" using inv by (auto simp: tx_inv_def)
  from serial_poll_keeps_inv [OF inv this] True assms(2) show ?thesis by (auto simp: write_wait_def)
next
  case False
  have ok: "ring_ok (tx_buffer s) (tx_buffer_tail s) (tx_buffer_head s)" using inv by (simp add: tx_inv_def tx_ring_ok_def)
  then show ?thesis using False assms ring_store [OF ok, of c]
    by (auto simp: write_wait_def tx_inv_def tx_ring_ok_def queued_def ring_ok_def)
qed

lemma advance_inv:
  assumes "tx_inv ws (Stored i) s"
  shows "tx_inv ws Advanced (s\<lparr>tx_buffer_head := i\<rparr>)"
proof -
  have ok: "ring_ok (tx_buffer s) (tx_buffer_tail s) (tx_buffer_head s)" "next_index 64 (tx_buffer_head s) \<noteq> tx_buffer_tail s"
      "i = next_index 64 (tx_buffer_head s)"
    using assms by (auto simp: tx_inv_def tx_ring_ok_def)
  have "(tx_buffer s)[unat (tx_buffer_head s) := tx_buffer s ! unat (tx_buffer_head s)] = tx_buffer s" by simp
  with ring_put [OF ok(1,2), of "tx_buffer s ! unat (tx_buffer_head s)"] assms ok(3) show ?thesis
    by (simp add: tx_inv_def tx_ring_ok_def queued_def)
qed

definition tx_ready :: "serial \<Rightarrow> bool" where
  "tx_ready s \<longleftrightarrow> tx_inv [] Idle s"

lemma tx_run_inv: "tx_run False s0 ws p s \<Longrightarrow> tx_ready s0 \<Longrightarrow> tx_inv ws p s"
proof (induction rule: tx_run.induct)
  case start
  then show ?case by (simp add: tx_ready_def)
next
  case (direct ws s)
  then show ?case by (simp add: tx_inv_def tx_ring_ok_def queued_def)
next
  case (enable ws s)
  then show ?case by (simp add: tx_inv_def tx_ring_ok_def queued_def)
next
  case (flushes ws s p s')
  then show ?case by (auto simp: flush_start_def tx_inv_def split: if_splits)
next
  case (flushing ws s p s')
  then have "tx_inv ws Flushing s" by simp
  then have "tx_inv ws Flushing (tx_udr_empty_irq s)" if "UDRIE0 s" using that irq_keeps_inv by blast
  with flushing show ?case by (auto simp: flush_loop_def tx_inv_def split: if_splits)
next
  case (register_empty ws p s)
  then show ?case by (cases p) (simp_all add: tx_inv_def tx_ring_ok_def queued_def)
next
  case (sent_all ws p s)
  then show ?case by (cases p) (simp_all add: tx_inv_def tx_ring_ok_def queued_def)
next
  case (mask ws s on)
  then show ?case by (simp add: tx_inv_def tx_ring_ok_def queued_def)
qed (auto intro: write_start_inv write_wait_inv advance_inv irq_keeps_inv)

section \<open>The window of \<open>write\<close>\<close>

lemma tx_run_window: "tx_run False s0 ws p s \<Longrightarrow> tx_run True s0 ws p s"
  by (induction rule: tx_run.induct) (auto intro: tx_run.intros)

text \<open>An interrupt as soon as the register is empty, which sends the next byte.\<close>

definition next_irq :: "serial \<Rightarrow> serial" where
  "next_irq s = tx_udr_empty_irq (s\<lparr>UDRE0 := True\<rparr>)"

lemma next_irq_run:
  assumes "tx_run True s0 ws p s" "UDRIE0 s" "SREG_I s"
  shows "tx_run True s0 ws p (next_irq s)"
  unfolding next_irq_def by (rule tx_run.irq [OF tx_run.register_empty [OF assms(1)]]) (use assms in simp_all)

lemma next_irq_sends:
  assumes "tx_ring_ok s" "queued s = c # cs"
  shows "tx_ring_ok (next_irq s)" "queued (next_irq s) = cs" "line_out (next_irq s) = line_out s @ [c]"
    and "UDRIE0 (next_irq s) \<longleftrightarrow> UDRIE0 s \<and> cs \<noteq> []" "SREG_I (next_irq s) = SREG_I s"
    and "tx_buffer_head (next_irq s) = tx_buffer_head s" "tx_buffer (next_irq s) = tx_buffer s"
  using tx_irq_sends [of "s\<lparr>UDRE0 := True\<rparr>" c cs] assms
  by (simp_all add: next_irq_def) (simp add: tx_udr_empty_irq_def Let_def)

text \<open>In the window the interrupt may take everything that waits.\<close>

lemma window_empties:
  assumes "tx_run True s0 ws Advanced s" "tx_ring_ok s" "UDRIE0 s" "SREG_I s" "queued s \<noteq> []"
  shows "\<exists>s1. tx_run True s0 ws Advanced s1 \<and> tx_ring_ok s1 \<and> SREG_I s1 \<and> queued s1 = [] \<and>
    line_out s1 = line_out s @ queued s \<and> tx_buffer s1 = tx_buffer s \<and> tx_buffer_head s1 = tx_buffer_head s"
  using assms
proof (induction "queued s" arbitrary: s)
  case (Cons c cs)
  note sends = next_irq_sends [OF Cons.prems(2) Cons.hyps(2) [symmetric]]
  note run = next_irq_run [OF Cons.prems(1,3,4)]
  show ?case
  proof (cases "cs = []")
    case True
    with sends run Cons.prems(4) Cons.hyps(2) [symmetric] show ?thesis by (intro exI [of _ "next_irq s"]) simp
  next
    case False
    with Cons.hyps(1) [OF sends(2) [symmetric] run sends(1)] sends Cons.prems(3,4) Cons.hyps(2) [symmetric]
    show ?thesis by auto
  qed
qed simp

text \<open>An interrupt on an empty ring sends what the buffer holds behind the last byte, and leaves 63 bytes to send.\<close>

lemma irq_on_empty:
  assumes "tx_ring_ok s" "queued s = []"
  shows "line_out (next_irq s) = line_out s @ [tx_buffer s ! unat (tx_buffer_head s)]" "UDRIE0 (next_irq s) = UDRIE0 s"
    and "length (queued (next_irq s)) = 63"
proof -
  have e: "tx_buffer_head s = tx_buffer_tail s" using assms queued_empty by blast
  have h: "unat (tx_buffer_head s) < 64" using assms(1) by (simp add: tx_ring_ok_def ring_ok_def)
  then have ne: "next_index 64 (tx_buffer_tail s) \<noteq> tx_buffer_head s"
    using e by (auto simp: word_unat_eq_iff next_index_bound suc_wrap split: if_splits)
  then show "line_out (next_irq s) = line_out s @ [tx_buffer s ! unat (tx_buffer_head s)]"
    "UDRIE0 (next_irq s) = UDRIE0 s"
    by (simp_all add: next_irq_def tx_udr_empty_irq_def buffer_sizes Let_def e)
  show "length (queued (next_irq s)) = 63"
    using ne h by (simp add: next_irq_def tx_udr_empty_irq_def buffer_sizes Let_def queued_def ring_length
        next_index_bound e suc_wrap ring_gap)
qed

text \<open>Schedules: what the program does next; a turn that is not possible is skipped.\<close>

datatype turn = Write u8 | Statement

fun take_turn :: "turn \<Rightarrow> u8 list \<times> pc \<times> serial \<Rightarrow> u8 list \<times> pc \<times> serial" where
  "take_turn (Write c) (ws, p, s) = (if p = Idle then (ws @ [c], write_start c s) else (ws, p, s))"
| "take_turn Statement (ws, p, s) =
     (case p of Direct \<Rightarrow> (ws, Idle, s\<lparr>TXC0 := False\<rparr>)
      | Waiting c i \<Rightarrow> (ws, write_wait c i s)
      | Stored i \<Rightarrow> (ws, Advanced, s\<lparr>tx_buffer_head := i\<rparr>)
      | Advanced \<Rightarrow> (ws, Idle, s\<lparr>UDRIE0 := True\<rparr>)
      | _ \<Rightarrow> (ws, p, s))"

lemma take_turn_run:
  assumes "tx_run w s0 ws p s" "take_turn a (ws, p, s) = (ws', p', s')"
  shows "tx_run w s0 ws' p' s'"
  using assms by (cases a; cases p) (auto split: if_splits intro: tx_run.intros)

lemma schedule_run:
  "tx_run w s0 ws p s \<Longrightarrow> fold take_turn as (ws, p, s) = (ws', p', s') \<Longrightarrow> tx_run w s0 ws' p' s'"
proof (induction as arbitrary: ws p s)
  case (Cons a as)
  obtain vs q t where t: "take_turn a (ws, p, s) = (vs, q, t)" by (metis surj_pair)
  from Cons.IH [OF take_turn_run [OF Cons.prems(1) t]] Cons.prems(2) t show ?case by simp
qed simp

section \<open>Properties\<close>

text \<open>C22: Receiving is a queue of at most 63 bytes: for any order of arrivals and reads, \<open>read\<close> returns what the
  queue would, -1 when it is empty included; a byte is dropped exactly when its parity is wrong or 63 are
  waiting, and \<open>available\<close> says how many wait.\<close>

theorem receiving_is_queue:
  assumes "rx_ok s" "fold rx_step evs ([], s) = (got, s')"
  shows "fold queue_step evs ([], received s) = (got, received s') \<and> serial_available s' = int (length (received s'))"
proof -
  have "rx_ok (snd (fold rx_step evs (out, s))) \<and>
      apsnd received (fold rx_step evs (out, s)) = fold queue_step evs (out, received s)" if "rx_ok s" for out s
    using that
  proof (induction evs arbitrary: out s)
    case (Cons ev evs)
    obtain out' t where t: "rx_step ev (out, s) = (out', t)" by force
    then have "rx_ok t" "queue_step ev (out, received s) = (out', received t)"
      using rx_step_queue [OF Cons.prems, of ev out] by auto
    then show ?case using Cons.IH [of t out'] t by simp
  qed simp
  from this [OF assms(1), of "[]"] assms(2) show ?thesis by (auto simp: available_received)
qed

definition sample_port :: serial where
  "sample_port = new_HardwareSerial (replicate 64 0) (replicate 64 0)"

lemma sample_port_ok: "rx_ok sample_port" "tx_ready sample_port" "received sample_port = []"
  by (simp_all add: sample_port_def new_HardwareSerial_def rx_ok_def tx_ready_def tx_inv_def tx_ring_ok_def
      queued_def received_def ring_ok_def ring_def)

theorem receiving_is_queue_witness:
  "\<exists>s'. fold rx_step [Arrives False 7, Reads, Arrives True 8, Reads] ([], sample_port) = ([7, - 1], s')"
proof -
  obtain got s' where s: "fold rx_step [Arrives False 7, Reads, Arrives True 8, Reads] ([], sample_port) = (got, s')"
    by force
  with receiving_is_queue [OF sample_port_ok(1) s] sample_port_ok(3) show ?thesis by simp
qed

text \<open>C21: Sending: as long as no interrupt comes between the last two statements of \<open>write\<close>, the bytes go to the
  line in the order in which they were written, none lost and none twice, whenever the interrupt comes otherwise and
  also with the interrupts off; between two calls at most 63 wait, with the interrupt enabled that will
  send them. When \<open>flush\<close> returns all have gone: at once it returns only when none was ever written, and
  from its loop only when the last has left the data register.\<close>

theorem bytes_sent_in_order:
  assumes "tx_ready s0" "tx_run False s0 ws p s"
  shows "(\<exists>rest. line_out s @ rest = ws \<and> length rest \<le> 64 \<and>
      (p = Idle \<longrightarrow> length rest \<le> 63 \<and> (rest \<noteq> [] \<longrightarrow> UDRIE0 s))) \<and>
    (p = Idle \<and> fst (flush_start s) = Idle \<longrightarrow> ws = []) \<and>
    (p = Flushing \<and> fst (flush_loop s) = Idle \<longrightarrow> line_out s = ws \<and> UDRE0 s)"
proof -
  have inv: "tx_inv ws p s" using tx_run_inv [OF assms(2,1)] .
  have "length (queued s) \<le> 63" by (simp add: queued_def ring_short)
  moreover have "length (pending p s) \<le> 1" by (cases p) simp_all
  ultimately have "line_out s @ queued s @ pending p s = ws \<and> length (queued s @ pending p s) \<le> 64 \<and>
      (p = Idle \<longrightarrow> length (queued s @ pending p s) \<le> 63 \<and> (queued s @ pending p s \<noteq> [] \<longrightarrow> UDRIE0 s))"
    using inv by (auto simp: tx_inv_def)
  moreover have "p = Idle \<and> fst (flush_start s) = Idle \<longrightarrow> ws = []"
    using inv by (auto simp: flush_start_def tx_inv_def split: if_splits)
  moreover have "p = Flushing \<and> fst (flush_loop s) = Idle \<longrightarrow> line_out s = ws \<and> UDRE0 s"
    using inv by (auto simp: flush_loop_def tx_inv_def split: if_splits)
  ultimately show ?thesis by blast
qed

lemma sample_sends: "\<exists>s. tx_run False sample_port [65] Idle s \<and> line_out s = [65] \<and> written s"
proof -
  obtain ws p s where r: "fold take_turn [Write 65, Statement] ([], Idle, sample_port) = (ws, p, s)"
    by (metis surj_pair)
  have "(\<lambda>(ws, p, s). ws = [65] \<and> p = Idle \<and> line_out s = [65] \<and> written s)
      (fold take_turn [Write 65, Statement] ([], Idle, sample_port))"
    by code_simp
  with r schedule_run [OF tx_run.start r, of False] show ?thesis by auto
qed

theorem bytes_sent_in_order_witness:
  "\<exists>s. tx_run False sample_port [65] Idle s \<and> (\<exists>rest. line_out s @ rest = [65] \<and> length rest \<le> 63) \<and>
     fst (flush_start s) \<noteq> Idle"
proof -
  obtain s where "tx_run False sample_port [65] Idle s" using sample_sends by blast
  with bytes_sent_in_order [OF sample_port_ok(2) this] show ?thesis by auto
qed

text \<open>C23: The race in \<open>write\<close>: whenever \<open>write\<close> has moved the head and not yet enabled the interrupt, and
  the interrupt is enabled from bytes before, the interrupt may take everything that waits: then all that was
  written has been sent, and yet the last statement of \<open>write\<close> enables the interrupt on the empty buffer. The next
  interrupt sends a byte that was never written, the one that the buffer holds behind the last, and leaves 63
  more to follow.\<close>

theorem write_race:
  assumes "tx_ready s0" "tx_run False s0 ws Advanced s" "UDRIE0 s" "SREG_I s"
  shows "\<exists>s1 s2. tx_run True s0 ws Idle s1 \<and> line_out s1 = ws \<and> queued s1 = [] \<and> UDRIE0 s1 \<and>
    tx_run True s0 ws Idle s2 \<and> line_out s2 = ws @ [tx_buffer s ! unat (tx_buffer_head s)] \<and>
    length (queued s2) = 63 \<and> UDRIE0 s2"
proof -
  have inv: "tx_inv ws Advanced s" using tx_run_inv [OF assms(2,1)] .
  then have q: "queued s \<noteq> []" "tx_ring_ok s" "line_out s @ queued s = ws" by (simp_all add: tx_inv_def)
  obtain s1 where s1: "tx_run True s0 ws Advanced s1" "tx_ring_ok s1" "SREG_I s1" "queued s1 = []" "line_out s1 = ws"
    "tx_buffer s1 = tx_buffer s" "tx_buffer_head s1 = tx_buffer_head s"
    using window_empties [OF tx_run_window [OF assms(2)] q(2) assms(3,4) q(1)] q(3) by auto
  let ?s1 = "s1\<lparr>UDRIE0 := True\<rparr>"
  have run: "tx_run True s0 ws Idle ?s1" by (rule tx_run.enable [OF s1(1)])
  have "tx_run True s0 ws Idle (next_irq ?s1)" by (rule next_irq_run [OF run]) (simp_all add: s1)
  with run irq_on_empty [of ?s1] s1 show ?thesis by (intro exI [of _ ?s1] exI [of _ "next_irq ?s1"]) simp
qed

text \<open>The third of three bytes, when the second still waits: four are sent.\<close>

definition three_writes :: "turn list" where
  "three_writes = [Write 1, Statement, Write 2, Statement, Statement, Statement, Write 3, Statement, Statement]"

theorem write_race_witness:
  "\<exists>s. tx_run True sample_port [1, 2, 3] Idle s \<and> line_out s = [1, 2, 3, 0] \<and> length (queued s) = 63"
proof -
  obtain ws p s where r: "fold take_turn three_writes ([], Idle, sample_port) = (ws, p, s)" by (metis surj_pair)
  have "(\<lambda>(ws, p, s). ws = [1, 2, 3] \<and> p = Advanced \<and> UDRIE0 s \<and> SREG_I s \<and> tx_buffer s ! unat (tx_buffer_head s) = 0)
      (fold take_turn three_writes ([], Idle, sample_port))"
    by code_simp
  with r have s: "ws = [1, 2, 3]" "p = Advanced" "UDRIE0 s" "SREG_I s" "tx_buffer s ! unat (tx_buffer_head s) = 0"
    by auto
  have "tx_run False sample_port [1, 2, 3] Advanced s" using schedule_run [OF tx_run.start r] s by simp
  from write_race [OF sample_port_ok(2) this s(3,4)] s(5) show ?thesis by auto
qed

end
