(* ===== verification/JsonPretty.thy ===== *)
theory JsonPretty
  imports Json
begin

text \<open>
  The indented form of the JSON library, \<^verbatim>\<open>ArduinoJson/Internals/Prettyfier.hpp\<close> and
  \<^verbatim>\<open>IndentedPrint.hpp\<close>: a filter on the compact text, character by character, that puts line ends and
  blanks between its marks. Also the buffers that a text is printed to,
  \<^verbatim>\<open>StaticStringBuilder.hpp\<close>. What is printed is read back if no text ends in a backslash; a text
  that does makes the filter change the texts behind it.
\<close>

section \<open>Indented printing\<close>

text \<open>The two filters on top of each other; \<open>p_out\<close> is what they have sent to the sink.\<close>

record pretty =
  p_level :: nat
  p_tabSize :: nat
  p_isNewLine :: bool
  p_previousChar :: char
  p_inString :: bool
  p_out :: string

definition new_pretty :: pretty where
  "new_pretty = \<lparr>p_level = 0, p_tabSize = 2, p_isNewLine = True, p_previousChar = NUL, p_inString = False, p_out = []\<rparr>"

definition MAX_LEVEL :: nat where "MAX_LEVEL = 15"
definition MAX_TAB_SIZE :: nat where "MAX_TAB_SIZE = 7"

definition writeTabs :: "pretty \<Rightarrow> pretty" where
  "writeTabs p = p\<lparr>p_out := p_out p @ replicate (p_level p * p_tabSize p) CHR '' ''\<rparr>"

definition indented_write :: "char \<Rightarrow> pretty \<Rightarrow> pretty" where
  "indented_write c p =
     (let p = (if p_isNewLine p then writeTabs p else p)
      in p\<lparr>p_out := p_out p @ [c], p_isNewLine := (c = CHR 0x0A)\<rparr>)"

definition indent :: "pretty \<Rightarrow> pretty" where
  "indent p = (if p_level p < MAX_LEVEL then p\<lparr>p_level := p_level p + 1\<rparr> else p)"

definition unindent :: "pretty \<Rightarrow> pretty" where
  "unindent p = (if 0 < p_level p then p\<lparr>p_level := p_level p - 1\<rparr> else p)"

text \<open>The mask by 7 changes nothing of a number below 7.\<close>

definition setTabSize :: "nat \<Rightarrow> pretty \<Rightarrow> pretty" where
  "setTabSize n p = (if n < MAX_TAB_SIZE then p\<lparr>p_tabSize := n mod 8\<rparr> else p)"

definition indented_println :: "pretty \<Rightarrow> pretty" where
  "indented_println p = indented_write CHR 0x0A (indented_write CHR 0x0D p)"

section \<open>The filter\<close>

definition inEmptyBlock :: "pretty \<Rightarrow> bool" where
  "inEmptyBlock p \<longleftrightarrow> p_previousChar p = CHR ''{'' \<or> p_previousChar p = CHR ''[''"

definition indentIfNeeded :: "pretty \<Rightarrow> pretty" where
  "indentIfNeeded p = (if \<not> inEmptyBlock p then p else indented_println (indent p))"

definition unindentIfNeeded :: "pretty \<Rightarrow> pretty" where
  "unindentIfNeeded p = (if inEmptyBlock p then p else indented_println (unindent p))"

definition handleStringChar :: "char \<Rightarrow> pretty \<Rightarrow> pretty" where
  "handleStringChar c p =
     (let p = (if c = CHR 0x22 \<and> p_previousChar p \<noteq> CHR 0x5C then p\<lparr>p_inString := False\<rparr> else p)
      in indented_write c p)"

definition writeBlockClose :: "char \<Rightarrow> pretty \<Rightarrow> pretty" where
  "writeBlockClose c p = indented_write c (unindentIfNeeded p)"

definition writeBlockOpen :: "char \<Rightarrow> pretty \<Rightarrow> pretty" where
  "writeBlockOpen c p = indented_write c (indentIfNeeded p)"

definition writeColon :: "pretty \<Rightarrow> pretty" where
  "writeColon p = indented_write CHR '' '' (indented_write CHR '':'' p)"

definition writeComma :: "pretty \<Rightarrow> pretty" where
  "writeComma p = indented_println (indented_write CHR '','' p)"

definition writeQuoteOpen :: "pretty \<Rightarrow> pretty" where
  "writeQuoteOpen p = indented_write CHR 0x22 (indentIfNeeded (p\<lparr>p_inString := True\<rparr>))"

definition writeNormalChar :: "char \<Rightarrow> pretty \<Rightarrow> pretty" where
  "writeNormalChar c p = indented_write c (indentIfNeeded p)"

definition handleMarkupChar :: "char \<Rightarrow> pretty \<Rightarrow> pretty" where
  "handleMarkupChar c p =
     (if c = CHR ''{'' \<or> c = CHR ''['' then writeBlockOpen c p
      else if c = CHR ''}'' \<or> c = CHR '']'' then writeBlockClose c p
      else if c = CHR '':'' then writeColon p
      else if c = CHR '','' then writeComma p
      else if c = CHR 0x22 then writeQuoteOpen p
      else writeNormalChar c p)"

definition pretty_write :: "char \<Rightarrow> pretty \<Rightarrow> pretty" where
  "pretty_write c p =
     (if p_inString p then handleStringChar c p else handleMarkupChar c p)\<lparr>p_previousChar := c\<rparr>"

definition prettify :: "string \<Rightarrow> string" where
  "prettify s = p_out (fold pretty_write s new_pretty)"

definition prettyPrintTo :: "JsonVariant \<Rightarrow> string \<Rightarrow> string" where
  "prettyPrintTo v str = str @ prettify (serialize v)"

text \<open>The length that a sink counts which takes everything.\<close>

definition measureLength :: "JsonVariant \<Rightarrow> nat" where
  "measureLength v = length (serialize v)"

definition measurePrettyLength :: "JsonVariant \<Rightarrow> nat" where
  "measurePrettyLength v = length (prettify (serialize v))"

section \<open>A buffer as the sink\<close>

text \<open>A buffer of \<open>size\<close> bytes; a write behind its end is \<open>None\<close>. With no byte at all already the first \<open>NUL\<close> is.\<close>

record builder =
  b_buffer :: string
  b_capacity :: nat
  b_length :: nat

definition new_builder :: "string \<Rightarrow> builder option" where
  "new_builder buf =
     (if buf = [] then None else Some \<lparr>b_buffer = buf[0 := NUL], b_capacity = length buf - 1, b_length = 0\<rparr>)"

definition builder_write :: "char \<Rightarrow> builder \<Rightarrow> (nat \<times> builder) option" where
  "builder_write c b =
     (if b_capacity b \<le> b_length b then Some (0, b)
      else if length (b_buffer b) \<le> Suc (b_length b) then None
      else Some (1, b\<lparr>b_buffer := (b_buffer b)[b_length b := c, Suc (b_length b) := NUL], b_length := Suc (b_length b)\<rparr>))"

fun builder_print :: "string \<Rightarrow> builder \<Rightarrow> (nat \<times> builder) option" where
  "builder_print [] b = Some (0, b)"
| "builder_print (c # s) b = do { (n, b) \<leftarrow> builder_write c b; (m, b) \<leftarrow> builder_print s b; Some (n + m, b) }"

definition prettyPrintTo_buffer :: "JsonVariant \<Rightarrow> string \<Rightarrow> (nat \<times> builder) option" where
  "prettyPrintTo_buffer v buf = do { b \<leftarrow> new_builder buf; builder_print (prettify (serialize v)) b }"

definition printTo_buffer :: "JsonVariant \<Rightarrow> string \<Rightarrow> (nat \<times> builder) option" where
  "printTo_buffer v buf = do { b \<leftarrow> new_builder buf; builder_print (serialize v) b }"

lemma builder_print_cuts:
  assumes "length (b_buffer b) = Suc (b_capacity b)" "b_length b \<le> b_capacity b"
    and "take (Suc (b_length b)) (b_buffer b) = out @ [NUL]" "length out = b_length b"
  shows "\<exists>b'. builder_print s b = Some (min (length s) (b_capacity b - b_length b), b') \<and>
    take (Suc (b_length b')) (b_buffer b') = out @ take (b_capacity b - b_length b) s @ [NUL] \<and>
    length (b_buffer b') = length (b_buffer b)"
  using assms
proof (induction s arbitrary: b out)
  case (Cons c s)
  show ?case
  proof (cases "b_length b < b_capacity b")
    case True
    let ?b = "b\<lparr>b_buffer := (b_buffer b)[b_length b := c, Suc (b_length b) := NUL], b_length := Suc (b_length b)\<rparr>"
    have w: "builder_write c b = Some (1, ?b)" using True Cons.prems by (simp add: builder_write_def)
    have "take (b_length b) (b_buffer b) = out"
      using Cons.prems(3,4) True Cons.prems(1) by (simp add: take_Suc_conv_app_nth)
    then have "take (Suc (b_length ?b)) (b_buffer ?b) = (out @ [c]) @ [NUL]"
      using Cons.prems True by (simp add: take_Suc_conv_app_nth)
    moreover have "Suc (b_capacity b - Suc (b_length b)) = b_capacity b - b_length b" using True by simp
    ultimately show ?thesis using Cons.IH [of ?b "out @ [c]"] Cons.prems True w
      by (auto simp: take_Cons' min_def split: if_splits)
  next
    case False
    then have w: "builder_write c b = Some (0, b)" by (simp add: builder_write_def)
    have "b_capacity b - b_length b = 0" using False by simp
    then show ?thesis using Cons.IH [OF Cons.prems] w by auto
  qed
qed simp

lemma new_builder_print:
  assumes "buf \<noteq> []"
  shows "\<exists>b. Option.bind (new_builder buf) (builder_print s) = Some (min (length s) (length buf - 1), b) \<and>
    take (Suc (min (length s) (length buf - 1))) (b_buffer b) = take (length buf - 1) s @ [NUL] \<and>
    length (b_buffer b) = length buf"
proof -
  let ?b = "\<lparr>b_buffer = buf[0 := NUL], b_capacity = length buf - 1, b_length = 0\<rparr>"
  have "take (Suc (b_length ?b)) (b_buffer ?b) = [] @ [NUL]" using assms by (cases buf) simp_all
  from builder_print_cuts [OF _ _ this, of s] assms obtain b' where
    b: "builder_print s ?b = Some (min (length s) (length buf - 1), b')"
      "take (Suc (b_length b')) (b_buffer b') = take (length buf - 1) s @ [NUL]" "length (b_buffer b') = length buf"
    by auto
  have "length (take (Suc (b_length b')) (b_buffer b')) = Suc (min (length s) (length buf - 1))"
    using b(2) by (simp add: min.commute)
  then have "take (Suc (min (length s) (length buf - 1))) (b_buffer b') = take (Suc (b_length b')) (b_buffer b')"
    by (metis append_take_drop_id length_take min_def take_all_iff take_take linear)
  with b assms show ?thesis by (simp add: new_builder_def)
qed

section \<open>What is printed\<close>

text \<open>No text ends in a backslash.\<close>

definition closes :: "string \<Rightarrow> bool" where
  "closes s \<longleftrightarrow> s = [] \<or> last s \<noteq> CHR 0x5C"

text \<open>The states between two marks, and in a text.\<close>

definition in_marks :: "nat \<Rightarrow> bool \<Rightarrow> char \<Rightarrow> string \<Rightarrow> pretty" where
  "in_marks lv nl c out =
     \<lparr>p_level = lv, p_tabSize = 2, p_isNewLine = nl, p_previousChar = c, p_inString = False, p_out = out\<rparr>"

definition in_text :: "nat \<Rightarrow> char \<Rightarrow> string \<Rightarrow> pretty" where
  "in_text lv c out =
     \<lparr>p_level = lv, p_tabSize = 2, p_isNewLine = False, p_previousChar = c, p_inString = True, p_out = out\<rparr>"

lemma write_in_text:
  "c \<noteq> CHR 0x0A \<Longrightarrow> \<not> (c = CHR 0x22 \<and> d \<noteq> CHR 0x5C) \<Longrightarrow> pretty_write c (in_text lv d out) = in_text lv c (out @ [c])"
  by (simp add: pretty_write_def handleStringChar_def indented_write_def in_text_def Let_def)

lemma write_end:
  "d \<noteq> CHR 0x5C \<Longrightarrow> pretty_write CHR 0x22 (in_text lv d out) = in_marks lv False CHR 0x22 (out @ [CHR 0x22])"
  by (simp add: pretty_write_def handleStringChar_def indented_write_def in_text_def in_marks_def Let_def)

lemma written_char:
  "writeChar c = [c] \<and> c \<noteq> CHR 0x22 \<and> c \<noteq> CHR 0x5C \<and> c \<noteq> CHR 0x0A \<or>
   (\<exists>l. writeChar c = [CHR 0x5C, l] \<and> l \<noteq> CHR 0x0A \<and> (l = CHR 0x5C \<longleftrightarrow> c = CHR 0x5C))"
  by (auto simp: writeChar_def escapeChar_def escape_table_def NUL_def Let_def)

lemma written_body:
  "\<exists>e. fold pretty_write (concat (map writeChar s)) (in_text lv d out) = in_text lv e (out @ concat (map writeChar s)) \<and>
     (if s = [] then e = d else (e = CHR 0x5C \<longleftrightarrow> last s = CHR 0x5C))"
proof (induction s arbitrary: d out)
  case (Cons c s)
  from written_char [of c] show ?case
  proof
    assume c: "writeChar c = [c] \<and> c \<noteq> CHR 0x22 \<and> c \<noteq> CHR 0x5C \<and> c \<noteq> CHR 0x0A"
    obtain e where e: "fold pretty_write (concat (map writeChar s)) (in_text lv c (out @ [c])) =
        in_text lv e ((out @ [c]) @ concat (map writeChar s))"
        "if s = [] then e = c else (e = CHR 0x5C \<longleftrightarrow> last s = CHR 0x5C)" using Cons.IH by blast
    from e(2) have "e = CHR 0x5C \<longleftrightarrow> last (c # s) = CHR 0x5C" by (cases s) simp_all
    with c e(1) show ?thesis by (intro exI [of _ e]) (simp add: write_in_text)
  next
    assume "\<exists>l. writeChar c = [CHR 0x5C, l] \<and> l \<noteq> CHR 0x0A \<and> (l = CHR 0x5C \<longleftrightarrow> c = CHR 0x5C)"
    then obtain l where "writeChar c = [CHR 0x5C, l]" "l \<noteq> CHR 0x0A" "l = CHR 0x5C \<longleftrightarrow> c = CHR 0x5C" by blast
    moreover obtain e where e: "fold pretty_write (concat (map writeChar s)) (in_text lv l (out @ [CHR 0x5C, l])) =
        in_text lv e ((out @ [CHR 0x5C, l]) @ concat (map writeChar s))"
        "if s = [] then e = l else (e = CHR 0x5C \<longleftrightarrow> last s = CHR 0x5C)" using Cons.IH by blast
    moreover have "e = CHR 0x5C \<longleftrightarrow> last (c # s) = CHR 0x5C" using e(2) calculation(3) by (cases s) simp_all
    ultimately show ?thesis by (intro exI [of _ e]) (simp add: write_in_text)
  qed
qed simp

text \<open>A text, after the first brace, after a comma and after a colon.\<close>

definition tabs :: "nat \<Rightarrow> string" where
  "tabs lv = replicate (lv * 2) CHR '' ''"

lemma written_text:
  assumes "NUL \<notin> set s" "closes s" "c \<notin> {CHR ''{'', CHR ''[''}"
  shows "fold pretty_write (writeString (Some s)) (in_marks lv nl c out) =
    in_marks lv False CHR 0x22 (out @ (if nl then tabs lv else []) @ writeString (Some s))"
proof -
  have body: "writeString (Some s) = CHR 0x22 # concat (map writeChar s) @ [CHR 0x22]"
    using assms(1) by (simp add: writeString_def)
  have open_quote: "pretty_write CHR 0x22 (in_marks lv nl c out) =
      in_text lv CHR 0x22 (out @ (if nl then tabs lv else []) @ [CHR 0x22])"
    using assms(3) by (simp add: pretty_write_def handleMarkupChar_def writeQuoteOpen_def indentIfNeeded_def inEmptyBlock_def
        indented_write_def writeTabs_def in_marks_def in_text_def tabs_def Let_def)
  obtain e where e: "fold pretty_write (concat (map writeChar s))
        (in_text lv CHR 0x22 (out @ (if nl then tabs lv else []) @ [CHR 0x22])) =
      in_text lv e ((out @ (if nl then tabs lv else []) @ [CHR 0x22]) @ concat (map writeChar s))"
      "if s = [] then e = CHR 0x22 else (e = CHR 0x5C \<longleftrightarrow> last s = CHR 0x5C)"
    using written_body by blast
  then have "e \<noteq> CHR 0x5C" using assms(2) by (auto simp: closes_def split: if_splits)
  then show ?thesis unfolding body by (simp add: open_quote e(1) write_end)
qed

lemma write_marks:
  "pretty_write CHR '':'' (in_marks lv False c out) = in_marks lv False CHR '':'' (out @ '': '')"
  "pretty_write CHR '','' (in_marks lv False c out) = in_marks lv True CHR '','' (out @ '','' @ [CHR 0x0D, CHR 0x0A])"
  by (simp_all add: pretty_write_def handleMarkupChar_def writeColon_def writeComma_def indented_println_def
      indented_write_def in_marks_def Let_def)

lemma written_member:
  assumes "text_pair (k, v)" "closes k" "closes v" "c \<notin> {CHR ''{'', CHR ''[''}"
  shows "fold pretty_write (spaced_member [] (k, v)) (in_marks lv True c out) =
    in_marks lv False CHR 0x22 (out @ tabs lv @ spaced_member '' '' (k, v))"
  using assms by (simp add: spaced_member_def text_pair_def written_text write_marks)

text \<open>The members, with a tab in front of each and a line end behind each comma.\<close>

definition pretty_break :: string where
  "pretty_break = [CHR 0x0D, CHR 0x0A]"

lemma written_members:
  "kvs \<noteq> [] \<Longrightarrow> list_all text_pair kvs \<Longrightarrow> list_all (\<lambda>(k, v). closes k \<and> closes v) kvs \<Longrightarrow> c \<notin> {CHR ''{'', CHR ''[''} \<Longrightarrow>
     fold pretty_write (joined [] (map (spaced_member []) kvs)) (in_marks lv True c out) =
       in_marks lv False CHR 0x22 (out @ tabs lv @ joined (pretty_break @ tabs lv) (map (spaced_member '' '') kvs))"
proof (induction kvs arbitrary: c out rule: list_nonempty_induct)
  case (single kv)
  then show ?case by (cases kv) (simp add: written_member)
next
  case (cons kv kvs)
  obtain kv' rest where kvs: "kvs = kv' # rest" using cons(1) by (cases kvs) auto
  let ?out = "out @ tabs lv @ spaced_member '' '' kv @ '','' @ pretty_break"
  have "fold pretty_write (spaced_member [] kv @ '','') (in_marks lv True c out) = in_marks lv True CHR '','' ?out"
    using cons.prems by (cases kv) (simp add: written_member write_marks pretty_break_def)
  moreover have "fold pretty_write (joined [] (map (spaced_member []) kvs)) (in_marks lv True CHR '','' ?out) =
      in_marks lv False CHR 0x22 (?out @ tabs lv @ joined (pretty_break @ tabs lv) (map (spaced_member '' '') kvs))"
    using cons.prems by (intro cons(2)) auto
  ultimately show ?case by (simp add: kvs)
qed

lemma prettify_pairs:
  assumes "kvs \<noteq> []" "list_all text_pair kvs" "list_all (\<lambda>(k, v). closes k \<and> closes v) kvs"
  shows "prettify (serialize (JSON_OBJECT (string_pairs kvs))) =
    ''{'' @ (pretty_break @ tabs 1) @ joined (pretty_break @ tabs 1) (map (spaced_member '' '') kvs) @ pretty_break @ ''}''"
proof -
  let ?members = "joined [] (map (spaced_member []) kvs)"
  obtain k x where "?members @ [] = writeString (Some k) @ x"
    using joined_quote [OF assms(1)] by blast
  moreover obtain w where "writeString (Some k) = CHR 0x22 # w" using writeString_hd by blast
  ultimately obtain q where q: "?members = CHR 0x22 # q" by simp
  have first: "pretty_write CHR ''{'' new_pretty = in_marks 0 False CHR ''{'' ''{''"
    by (simp add: new_pretty_def pretty_write_def handleMarkupChar_def writeBlockOpen_def indentIfNeeded_def inEmptyBlock_def
        indented_write_def writeTabs_def in_marks_def Let_def NUL_def)
  have "pretty_write CHR 0x22 (in_marks 0 False CHR ''{'' ''{'') =
      pretty_write CHR 0x22 (in_marks 1 True CHR '','' (''{'' @ pretty_break))"
    by (simp add: pretty_write_def handleMarkupChar_def writeQuoteOpen_def indentIfNeeded_def inEmptyBlock_def indent_def
        MAX_LEVEL_def indented_println_def indented_write_def writeTabs_def in_marks_def pretty_break_def Let_def)
  then have "fold pretty_write ?members (in_marks 0 False CHR ''{'' ''{'') =
      fold pretty_write ?members (in_marks 1 True CHR '','' (''{'' @ pretty_break))"
    by (simp add: q)
  also have "\<dots> = in_marks 1 False CHR 0x22
      ((''{'' @ pretty_break) @ tabs 1 @ joined (pretty_break @ tabs 1) (map (spaced_member '' '') kvs))"
    using assms by (intro written_members) simp_all
  finally have members: "fold pretty_write ?members (in_marks 0 False CHR ''{'' ''{'') =
      in_marks 1 False CHR 0x22 (''{'' @ pretty_break @ tabs 1 @ joined (pretty_break @ tabs 1) (map (spaced_member '' '') kvs))"
    by simp
  have last: "p_out (pretty_write CHR ''}'' (in_marks (Suc 0) False CHR 0x22 out)) = out @ pretty_break @ ''}''" for out
    by (simp add: pretty_write_def handleMarkupChar_def writeBlockClose_def unindentIfNeeded_def inEmptyBlock_def unindent_def
        indented_println_def indented_write_def writeTabs_def in_marks_def pretty_break_def Let_def)
  show ?thesis
    unfolding serialize_pairs joined_compact member_compact by (simp add: prettify_def first members last)
qed

section \<open>Where the filter believes itself to be\<close>

lemma p_inString_frame [simp]:
  "p_inString (indented_write c p) = p_inString p" "p_inString (indented_println p) = p_inString p"
  "p_inString (indentIfNeeded p) = p_inString p" "p_inString (unindentIfNeeded p) = p_inString p"
proof -
  show w: "p_inString (indented_write c p) = p_inString p" for c p
    by (simp add: indented_write_def writeTabs_def Let_def)
  then show l: "p_inString (indented_println p) = p_inString p" for p by (simp add: indented_println_def)
  show "p_inString (indentIfNeeded p) = p_inString p" by (simp add: indentIfNeeded_def indent_def l)
  show "p_inString (unindentIfNeeded p) = p_inString p" by (simp add: unindentIfNeeded_def unindent_def l)
qed



section \<open>Properties\<close>

lemma layout_blank:
  "list_all is_blank (pretty_break @ tabs lv)" "list_all is_blank '' ''" "list_all is_blank pretty_break"
  by (auto simp: pretty_break_def tabs_def is_blank_def list_all_iff)

text \<open>C34: The indented form of an object of strings is read back as that object, whatever the texts hold, as long as
  none of them ends in a backslash.\<close>

theorem pretty_reads_back:
  assumes "list_all text_pair kvs" "distinct (map fst kvs)" "fits t (length kvs)"
    and "list_all (\<lambda>(k, v). closes k \<and> closes v) kvs"
  shows "map_option fst (parseObject t (Suc limit) (prettyPrintTo (JSON_OBJECT (string_pairs kvs)) [] @ rest) 0) =
    Some (string_pairs kvs)"
proof (cases "kvs = []")
  case True
  have "prettyPrintTo (JSON_OBJECT (string_pairs [])) [] = serialize (JSON_OBJECT (string_pairs []))" by code_simp
  then show ?thesis using True json_round_trip_aux [of kvs t limit rest] assms by simp
next
  case False
  then show ?thesis
    using parseObject_blanks [OF layout_blank(1) [of 1] layout_blank(2) layout_blank(3) layout_blank(1) [of 1] assms(1-3),
        where limit = limit and rest = rest] prettify_pairs [OF False assms(1,4)]
    by (auto simp: prettyPrintTo_def)
qed

theorem pretty_reads_back_witness:
  "map_option fst (parseObject esp8266 10 (prettyPrintTo (JSON_OBJECT (string_pairs
       [(''a'', [CHR 0x22, CHR 0x5C, CHR 0x0A]), (''b'', ''p,q'')])) [] @ ''/* x'') 0) =
     Some (string_pairs [(''a'', [CHR 0x22, CHR 0x5C, CHR 0x0A]), (''b'', ''p,q'')])"
proof -
  have "fits esp8266 2"
    by (simp add: fits_def esp8266_def node_room_def round_size_up_def)
  then show ?thesis
    using pretty_reads_back [of "[(''a'', [CHR 0x22, CHR 0x5C, CHR 0x0A]), (''b'', ''p,q'')]" esp8266 9 "''/* x''"]
    by (simp add: text_pair_def closes_def NUL_def numeral_2_eq_2 numeral_eq_Suc)
qed



text \<open>So a text behind one that ends in a backslash is read back changed: with a line end and blanks at its comma.\<close>

lemma pretty_damages_text:
  "map_option fst (parseObject esp8266 10 (prettyPrintTo (JSON_OBJECT (string_pairs
       [(''a'', [CHR 0x5C]), (''b'', ''p,q'')])) []) 0) =
     Some (string_pairs [(''a'', [CHR 0x5C]), (''b'', ''p,'' @ pretty_break @ ''  q'')])"
  by code_simp

text \<open>A buffer of the caller takes the first characters that fit into it and a closing \<open>NUL\<close>, and the result is how
  many those are; no write leaves the buffer.\<close>

theorem pretty_buffer_cuts:
  assumes "buf \<noteq> []"
  shows "\<exists>b. prettyPrintTo_buffer v buf = Some (min (measurePrettyLength v) (length buf - 1), b) \<and>
    take (Suc (min (measurePrettyLength v) (length buf - 1))) (b_buffer b) =
      take (length buf - 1) (prettyPrintTo v []) @ [NUL] \<and> length (b_buffer b) = length buf"
  using new_builder_print [OF assms, of "prettify (serialize v)"]
  by (simp add: prettyPrintTo_buffer_def prettyPrintTo_def measurePrettyLength_def)

theorem pretty_buffer_cuts_witness:
  "\<exists>b. prettyPrintTo_buffer (JSON_STRING (Some ''abcd'')) ''xxxx'' = Some (3, b) \<and>
     take 4 (b_buffer b) = [CHR 0x22, CHR ''a'', CHR ''b'', NUL]"
proof -
  have "prettyPrintTo (JSON_STRING (Some ''abcd'')) [] = [CHR 0x22, CHR ''a'', CHR ''b'', CHR ''c'', CHR ''d'', CHR 0x22]"
    "measurePrettyLength (JSON_STRING (Some ''abcd'')) = 6"
    by code_simp+
  with pretty_buffer_cuts [of "''xxxx''" "JSON_STRING (Some ''abcd'')"] show ?thesis by (auto simp: eval_nat_numeral)
qed

end
