(* ===== verification/Spec2Isabelle.thy ===== *)
theory Spec2Isabelle
  imports Prelude StringOps TimeLib TimeZone DateStrings DisplayData Display Platform Wifi
    NtpClient Base64 LibB64 UrlHelper SimpleWebServer
    WString EspServer Streams Parsing Json ConfigFile OOWebServer WeatherStation StationRuns
    Common RemoteStation StationLoop StationSettings StationDevices SensorReport
    PrintLib GlcdFont Gfx GfxText GfxShapes Canvas TextShapes Ili9341 IliScreen LcdPixels StationPixels
    Wire RealTimeClock IpAddress SerialPort JsonPretty
begin

text \<open>
  A weather station on two ESP8266 boards. The remote board wakes, reads its sensor, posts temperature and
  humidity to the base station over WiFi and sleeps. The base station runs an access point and a web server, joins a
  home network to ask an NTP server for the time, keeps time zone and network settings in a JSON file,
  reads a sensor of its own, and draws time, date and both readings on a TFT screen whose backlight follows
  the light in the room. The repository also holds the Arduino libraries the boards are built with
  (\<^verbatim>\<open>esp8266_sim\<close>) and a web server for the desktop (\<^verbatim>\<open>simple_web_server\<close>). This development translates those
  parts from their sources; file names below are relative to \<^verbatim>\<open>src\<close>.

  Conventions. Machine integers are words of their width, or integers reduced by \<open>s32\<close> where the C code uses
  signed arithmetic; times are 32-bit. Texts are lists of characters. A C function that can run into undefined behaviour,
  and a loop that may not end, has an \<open>option\<close> result in which \<open>None\<close> is that case. The objects of a component are a
  record, and its methods take the record and return it changed. Hardware and drivers are functions over an
  opaque world \<open>'w\<close> in the records \<open>platform\<close> (theory Platform), \<open>twi\<close> (theory Wire) and the controller of
  the screen (theory IliScreen); no definition is made up for them, and what a theorem needs of them is
  a hypothesis, which a witness discharges for a concrete instance.
\<close>

subsection \<open>The theories and the code\<close>

text \<open>
  \<^item> Prelude: machine types, character tests, decimal conversions and lemmas on them. StringOps: the Arduino
    String operations as functions on texts, the specification of WString; \<open>text_replace\<close> is \<open>replace\<close> with the
    capacity of the text, and what the page handlers use.
  \<^item> TimeLib (\<^verbatim>\<open>esp8266_sim/TimeLib.cpp\<close>): \<open>breakTime\<close>, \<open>makeTime\<close>, the cached accessors, the clock that
    \<open>now\<close> advances. TimeZone (\<^verbatim>\<open>Timezone.cpp\<close>): change rules, conversions both ways. DateStrings
    (\<^verbatim>\<open>DateStrings.cpp\<close>): month and day names.
  \<^item> DisplayData (\<^verbatim>\<open>weather_station_base/sensor_data.cpp\<close>, \<^verbatim>\<open>display_data.cpp\<close>): readings, change detection
    and texts. Display (\<^verbatim>\<open>display.cpp\<close>): five regions, as a trace of commands to the screen.
  \<^item> Gfx, GfxText, GlcdFont, Canvas (\<^verbatim>\<open>esp8266_sim/Adafruit_GFX.cpp\<close>, \<^verbatim>\<open>glcdfont.c\<close>): shapes, texts, the
    built-in font and the canvases; GfxShapes and TextShapes: what these leave on a surface. Ili9341
    (\<^verbatim>\<open>Adafruit_ILI9341.cpp\<close>): the driver as what it puts on the pins and the bus; IliScreen: the same as
    seen by the screen. LcdPixels: the regions of Display down to the pixels.
  \<^item> Platform, Wifi, NtpClient, ConfigFile (\<^verbatim>\<open>shared\<close>): the drivers as a record, joining and serving networks,
    the NTP client, the settings file. Json and
    JsonPretty (\<^verbatim>\<open>ArduinoJson\<close>): values in a static buffer, printer, parser, indented printing.
  \<^item> EspServer, Parsing, OOWebServer (\<^verbatim>\<open>ESP8266WebServer.cpp\<close>, \<^verbatim>\<open>Parsing.cpp\<close>, \<^verbatim>\<open>shared/OOWebServer.h\<close>): web server
    of the device, its request parser, the page layer. Streams, PrintLib, WString, LibB64: \<^verbatim>\<open>Stream.cpp\<close>,
    \<^verbatim>\<open>Print.cpp\<close>, \<^verbatim>\<open>WString.cpp\<close>, \<^verbatim>\<open>libb64\<close>.
  \<^item> UrlHelper, Base64, SimpleWebServer (\<^verbatim>\<open>simple_web_server\<close>): the web server of the desktop.
  \<^item> Wire (\<^verbatim>\<open>Wire.cpp\<close>), RealTimeClock (both \<^verbatim>\<open>DS1307RTC.cpp\<close>), SerialPort (\<^verbatim>\<open>HardwareSerial.cpp\<close>), IpAddress
    (\<^verbatim>\<open>IPAddress.cpp\<close>): two-wire bus, clock chip, serial port, addresses.
  \<^item> Common, WeatherStation (\<^verbatim>\<open>include/ws_common.h\<close>, \<^verbatim>\<open>weather_station_base_class.cpp\<close>): the base station, with one
    definition for each method; StationRuns: its reachable states; StationLoop, StationSettings,
    StationDevices, StationPixels: properties of it. RemoteStation (\<^verbatim>\<open>esp8266_weather_station_remote.ino\<close>): the remote
    board. SensorReport: a reading on its way from one board to the other.
\<close>

subsection \<open>How the parts interact\<close>

text \<open>
  A state of the base station is a pair of the web server and the record \<open>station\<close>, with the world in it. One round of
  the loop, \<open>on_loop\<close>, updates the local sensor and the time when they are due, answers one client through
  \<open>handle_get\<close>, if there is a request, and sets the backlight. The web server of \<^verbatim>\<open>esp8266_sim\<close> waits in
  \<open>handleClient\<close> until a client comes and answers it on a thread of its own; \<open>reachable\<close> therefore also has steps that
  answer a request between two rounds (\<open>served\<close>). Rounds, ticks and answers do not interrupt one another. A request has been read and parsed before (Parsing);
  the first handler that accepts its method and path runs (EspServer), and the handlers of \<open>WeatherStation\<close>
  change the readings, the settings or the clock. A tick of the timer, \<open>update_display\<close>, compares what is shown with what
  is current (DisplayData) and redraws the regions (Display). \<open>reachable\<close> is the set of states that rounds, answers and
  ticks, in any order, lead to from the start of the program.

  Interfaces are locales: \<open>cached_accessor\<close> for the accessors of the clock, \<open>year_marker\<close> for the two change points,
  \<open>region_writer\<close> for the regions, \<open>string_editor\<close> for the in-place edits of a String, \<open>surface\<close> and \<open>drawing\<close> for what
  the drawing library needs of a screen, \<open>panel\<close> for the contract of the controller, which makes the TFT
  driver a surface, and \<open>clock_chip\<close> for the registers of the clock. Each is interpreted on the definitions that
  provide it.
\<close>

subsection \<open>What the lemmas show\<close>

text \<open>
  \<^item> The whole system: a reading that the remote board sends reaches the screen; in every reachable state the
    invariant of the station holds; a tick shows the current readings and, with the screen attached, exactly the pixels
    of their texts; every round ends, except for requests of unknown methods, for a month that \<open>ws_setTime\<close>
    does not check and for network settings whose page outgrows its buffer; saved settings survive a restart.
  \<^item> The calendar: \<open>breakTime\<close> meets a specification by days and seconds (\<open>tm_days\<close>, \<open>tm_secs\<close>) and is
    inverse to \<open>makeTime\<close>; time zone conversions are right between the change points and inverse to each other
    outside the hour that repeats; the clock counts elapsed time across the wrap-around of the counter.
  \<^item> The screen: the text printed last in each region is the one last given; the pixels of the screen are those of
    these texts on a cleared region, in their size and colour, and nothing else.
    Lines and circles are the nearest pixels to the ideal curves.
  \<^item> The servers: requests of a browser and of the remote board are parsed to their method, path and arguments, uploads are
    delivered byte for byte, the first matching handler answers. A form that is cut off hangs the server.
  \<^item> Data formats: round trips for JSON, URLs, base64, numbers, addresses and the registers of the clock chip;
    equality of the two base64 encoders up to line ends, and where those stand; type safety of the JSON parser.
    Indented JSON is read back unless a text ends in a backslash; exactly then the filter goes out of step. The
    decoding of URLs is undefined where an escape is cut off, since it uses a variable that has no value.
  \<^item> The libraries: String edits refine functions on texts, with the exact condition under which \<open>replace\<close> stays in its
    buffer; \<open>find\<close> finds the first occurrence; the rings of the serial port are queues for every interleaving with its
    interrupts, except that an interrupt which empties the buffer in one window of \<open>write\<close> repeats bytes.
\<close>

subsection \<open>Bounds\<close>

text \<open>
  Loops are structural where they count or consume, and \<open>while\<close> with a measure where the source compares times. The
  partial functions (lines, columns and triangles of the drawing library, form parsing, in-place replacement) carry no
  fuel: that they return is proved where it holds, and that they do not where it does not. A client's
  connection is a text with the number of bytes that arrive in each waiting round, so that slow and broken clients are
  finite lists. Drawing theorems are for coordinates up to 16383 and radii up to 8000, beyond which the 16-bit
  counters of the code overflow. The JSON nesting limit is the one of the library. Clock chip times are those of two
  decimal digits for the year, 2000 to 2099. The allocator gives the texts of the pages what they ask for; that
  it may refuse is modelled in WString and in the canvases. A board whose clock runs (\<open>live\<close>) may be asked for the time
  any number of times within one millisecond: its counter does not go back, and moves on after finitely many
  questions.
\<close>

subsection \<open>Not modelled\<close>

text \<open>
  Floating-point conversions (\<open>parseFloat\<close>, \<open>toFloat\<close>, printing of floats): the sensor values enter as
  rationals and leave as integers. The EEPROM functions of the time zones, which are compiled for AVR processors only
  and whose library is not in the sources. The socket calls of Winsock. The WiFi, UDP and socket classes of
  \<^verbatim>\<open>esp8266_sim\<close>, which wrap the SDK, lwIP and a WiFi shield; SPI and the file system wrapper, for the same
  reason. The fonts, tables of glyphs that no program here draws with, and the tool that converts them. The simulators
  \<^verbatim>\<open>*_sim.cpp\<close>, which print what they are asked to do, except for the desktop clock. What the programs
  log on the serial port is left out of their models, and destructors and plain getters have no definitions. The subscripts
  of the JSON library are taken as the calls of \<open>get\<close> and \<open>setNodeAt\<close> that they forward to, and its stream adapters are
  left out.
\<close>

section \<open>Properties that span components\<close>

text \<open>C1: From the remote board to the screen: when a station that has started reads, on a
  connection, the text that the remote board sends for a reading of 32-bit temperature and humidity, it
  answers \<open>200 OK\<close>, and the next tick of the display timer ends and shows that reading as the
  outside one; the inside one stays what the local sensor gave. The bytes of the body have to
  arrive within the rounds in which the server waits for them.\<close>

theorem report_reaches_screen:
  assumes "reachable b (sv, st)" "int32_range t" "int32_range h" "no_newline server"
    and "incoming s = report_text server t h" "length (post_data t h) \<le> sum_list (arrivals s)"
  shows "\<exists>s' sv' st' st'' rest. handleClient (station_env b) asctime s (sv, st) = Some (0, s', sv', st') \<and>
    outgoing s' = outgoing s @ ''HTTP/1.1 200 OK'' @ [CHR 0x0A] @ rest \<and>
    update_display b False st' = Some st'' \<and>
    text_in outside_temp_region (m_display st'') = ''Out: '' @ sensor_to_string \<lparr>temperature = t, humidity = h\<rparr> \<and>
    text_in inside_temp_region (m_display st'') = ''In: '' @ sensor_to_string (m_current_local_sensor_data st)"
proof -
  have ok: "station_ok (sv, st)" using assms(1) by (rule reachable_ok)
  obtain s' sv' rest where received: "handleClient (station_env b) asctime s (sv, st) =
      Some (0, s', sv', st\<lparr>m_current_remote_sensor_data := \<lparr>temperature = t, humidity = h\<rparr>\<rparr>)"
    "outgoing s' = outgoing s @ ''HTTP/1.1 200 OK'' @ [CHR 0x0A] @ rest"
    using report_received [OF ok assms(2-6)] by blast
  have "station_ok (sv, st\<lparr>m_current_remote_sensor_data := \<lparr>temperature = t, humidity = h\<rparr>\<rparr>)"
    using ok by (simp add: station_ok_def)
  from tick_shows [OF this, of b] received show ?thesis by auto
qed

definition sample_report :: connection where
  "sample_report = \<lparr>incoming = report_text report_server 71 38, arrivals = [64], outgoing = []\<rparr>"

theorem report_reaches_screen_witness:
  "\<exists>sv st s' sv' st' st''. reachable sample_setting (sv, st) \<and>
     handleClient (station_env sample_setting) [] sample_report (sv, st) = Some (0, s', sv', st') \<and>
     update_display sample_setting False st' = Some st'' \<and>
     text_in outside_temp_region (m_display st'') = ''Out: '' @ sensor_to_string \<lparr>temperature = 71, humidity = 38\<rparr>"
proof -
  obtain sv st where r: "reachable sample_setting (sv, st)" using sample_reachable by blast
  have range: "int32_range 71" "int32_range 38" by (simp_all add: int32_range_def)
  have "no_newline report_server" by (simp add: no_newline_def report_server_def)
  moreover have "incoming sample_report = report_text report_server 71 38"
    "length (post_data 71 38) \<le> sum_list (arrivals sample_report)"
    using post_data_short [OF range] by (simp_all add: sample_report_def)
  ultimately show ?thesis
    using report_reaches_screen [OF r range, of report_server sample_report "[]"] r by meson
qed

end
